(* ===== verification/Prelude.thy ===== *)
theory Prelude
  imports Complex_Main "HOL-Library.AList" "HOL-Library.Char_ord" "HOL-Library.List_Lexorder"
begin

text \<open>
  What every component theory shares: Python dictionaries with their insertion order
  (\<open>pydict\<close>), Python's truth value of an optional string, the \<open>for\<close> loop that updates the
  values of a dictionary in place, and the lemma collections the component proofs draw on.
  No definition of this theory models a line of the program.
\<close>

named_theorems dict_simps \<open>lookup, key and membership equations of dictionaries\<close>
named_theorems wf_intros \<open>preservation of well-formedness\<close>

section \<open>Dictionaries in insertion order\<close>

text \<open>
  A Python \<open>dict\<close> iterates in insertion order; assigning to a key that is present keeps its
  position, assigning to a new key appends it. An association list with distinct keys has this
  behaviour under \<open>AList.update\<close>.
\<close>

type_synonym ('k, 'v) pydict = "('k \<times> 'v) list"

definition dict_get :: "('k, 'v) pydict \<Rightarrow> 'k \<Rightarrow> 'v option" where
  "dict_get d k = map_of d k"

definition dict_put :: "'k \<Rightarrow> 'v \<Rightarrow> ('k, 'v) pydict \<Rightarrow> ('k, 'v) pydict" where
  "dict_put k v d = AList.update k v d"

definition dict_pop :: "'k \<Rightarrow> ('k, 'v) pydict \<Rightarrow> ('k, 'v) pydict" where
  "dict_pop k d = AList.delete k d"

definition dict_keys :: "('k, 'v) pydict \<Rightarrow> 'k list" where
  "dict_keys d = map fst d"

definition dict_values :: "('k, 'v) pydict \<Rightarrow> 'v list" where
  "dict_values d = map snd d"

abbreviation dict_wf :: "('k, 'v) pydict \<Rightarrow> bool" where
  "dict_wf d \<equiv> distinct (dict_keys d)"

lemma dict_get_put [simp, dict_simps]:
  "dict_get (dict_put k v d) k' = (if k' = k then Some v else dict_get d k')"
  by (simp add: dict_get_def dict_put_def update_conv)

lemma dict_get_Nil [simp]: "dict_get [] k = None"
  by (simp add: dict_get_def)

lemma dict_get_Cons [simp]: "dict_get ((a, b) # d) k = (if k = a then Some b else dict_get d k)"
  by (simp add: dict_get_def)

lemma dict_get_pop [simp, dict_simps]:
  "dict_get (dict_pop k d) k' = (if k' = k then None else dict_get d k')"
  by (simp add: dict_get_def dict_pop_def delete_conv)

lemma dict_get_None_iff: "dict_get d k = None \<longleftrightarrow> k \<notin> set (dict_keys d)"
  by (simp add: dict_get_def dict_keys_def map_of_eq_None_iff)

lemma dict_get_Some_key: "dict_get d k = Some v \<Longrightarrow> k \<in> set (dict_keys d)"
  by (metis dict_get_None_iff option.distinct(1))

lemma dict_key_get: "k \<in> set (dict_keys d) \<Longrightarrow> \<exists>v. dict_get d k = Some v"
  by (meson dict_get_None_iff not_Some_eq)

lemma dict_keys_put: "dict_keys (dict_put k v d) =
    (if k \<in> set (dict_keys d) then dict_keys d else dict_keys d @ [k])"
  by (simp add: dict_keys_def dict_put_def update_keys)

lemma dict_keys_put_present [simp]:
  "k \<in> set (dict_keys d) \<Longrightarrow> dict_keys (dict_put k v d) = dict_keys d"
  by (simp add: dict_keys_put)

lemma set_dict_keys_put [simp, dict_simps]:
  "set (dict_keys (dict_put k v d)) = insert k (set (dict_keys d))"
  by (auto simp: dict_keys_put)

lemma dict_keys_pop: "set (dict_keys (dict_pop k d)) = set (dict_keys d) - {k}"
  by (auto simp: dict_keys_def dict_pop_def delete_keys)

lemma dict_wf_put [simp, wf_intros]: "dict_wf d \<Longrightarrow> dict_wf (dict_put k v d)"
  by (simp add: dict_keys_put)

lemma dict_wf_pop [simp, wf_intros]: "dict_wf d \<Longrightarrow> dict_wf (dict_pop k d)"
  by (simp add: dict_keys_def dict_pop_def distinct_delete)

lemma dict_get_mem: "dict_wf d \<Longrightarrow> dict_get d k = Some v \<longleftrightarrow> (k, v) \<in> set d"
  by (simp add: dict_get_def dict_keys_def)

lemma dict_values_get: "dict_wf d \<Longrightarrow> set (dict_values d) = {v. \<exists>k. dict_get d k = Some v}"
  by (force simp: dict_values_def dict_get_mem)

lemma dict_values_put:
  "dict_wf d \<Longrightarrow> v' \<in> set (dict_values (dict_put k v d)) \<Longrightarrow> v' = v \<or> v' \<in> set (dict_values d)"
  by (auto simp: dict_values_get split: if_splits)

lemma ball_values_put:
  "dict_wf d \<Longrightarrow> P v \<Longrightarrow> (\<forall>x \<in> set (dict_values d). P x) \<Longrightarrow> \<forall>x \<in> set (dict_values (dict_put k v d)). P x"
  by (blast dest: dict_values_put)

lemma dict_values_keys: "dict_wf d \<Longrightarrow> dict_values d = map (\<lambda>k. the (dict_get d k)) (dict_keys d)"
proof (induction d)
  case (Cons p d)
  obtain k v where p: "p = (k, v)" by (cases p)
  with Cons.prems have k: "k \<notin> set (dict_keys d)" by (simp add: dict_keys_def)
  with p Cons show ?case by (auto simp: dict_values_def dict_keys_def)
qed (simp add: dict_values_def dict_keys_def)

lemma dict_put_same: "dict_get d k = Some v \<Longrightarrow> dict_put k v d = d"
  by (induction d) (auto simp: dict_put_def split: if_splits)

lemma dict_put_new: "k \<notin> set (dict_keys d) \<Longrightarrow> dict_put k v d = d @ [(k, v)]"
  by (induction d) (auto simp: dict_put_def dict_keys_def)

lemma length_dict_keys [simp]: "length (dict_keys d) = length d"
  by (simp add: dict_keys_def)

subsection \<open>The interface of a dictionary\<close>

text \<open>
  The components use dictionaries through three operations. What they rely on is stated once
  here: reading back, insertion order, and the frame of an assignment.
\<close>

locale dictionary =
  fixes get :: "'d \<Rightarrow> 'k \<Rightarrow> 'v option"
    and put :: "'k \<Rightarrow> 'v \<Rightarrow> 'd \<Rightarrow> 'd"
    and keys :: "'d \<Rightarrow> 'k list"
  assumes get_put: "get (put k v d) k' = (if k' = k then Some v else get d k')"
    and keys_put: "keys (put k v d) = (if k \<in> set (keys d) then keys d else keys d @ [k])"
    and get_keys: "get d k \<noteq> None \<longleftrightarrow> k \<in> set (keys d)"
begin

lemma fold_put_other:
  "k \<notin> set ks \<Longrightarrow> get (fold (\<lambda>x d. put x (f x d) d) ks d) k = get d k"
  by (induction ks arbitrary: d) (simp_all add: get_put)

lemma fold_put_keys:
  "set ks \<subseteq> set (keys d) \<Longrightarrow> keys (fold (\<lambda>x d. put x (f x d) d) ks d) = keys d"
  by (induction ks arbitrary: d) (simp_all add: keys_put)

lemma fold_put_invariant:
  assumes "I d" and "\<And>x d. x \<in> set ks \<Longrightarrow> I d \<Longrightarrow> I (put x (f x d) d)"
  shows "I (fold (\<lambda>x d. put x (f x d) d) ks d)"
  using assms by (induction ks arbitrary: d) simp_all

end

interpretation pydict: dictionary dict_get dict_put dict_keys
  by unfold_locales (simp_all add: dict_keys_put dict_get_None_iff)

subsection \<open>Removing duplicates, first occurrence first\<close>

text \<open>\<open>list(dict.fromkeys(xs))\<close>.\<close>

definition dict_fromkeys :: "'k list \<Rightarrow> 'k list" where
  "dict_fromkeys xs = dict_keys (fold (\<lambda>x d. dict_put x () d) xs [])"

lemma dict_fromkeys_fold:
  "set (dict_keys (fold (\<lambda>x d. dict_put x () d) xs d)) = set (dict_keys d) \<union> set xs
   \<and> (dict_wf d \<longrightarrow> dict_wf (fold (\<lambda>x d. dict_put x () d) xs d))"
  by (induction xs arbitrary: d) auto

lemma set_dict_fromkeys [simp]: "set (dict_fromkeys xs) = set xs"
  using dict_fromkeys_fold [of xs "[]"] by (simp add: dict_fromkeys_def dict_keys_def)

lemma distinct_dict_fromkeys [simp]: "distinct (dict_fromkeys xs)"
  using dict_fromkeys_fold [of xs "[]"] by (simp add: dict_fromkeys_def dict_keys_def)

section \<open>Optional strings and truth values\<close>

text \<open>
  \<open>s or ''\<close> of the code: the string, or the empty string for \<open>None\<close>; an optional string is
  true when it is present and not empty.
\<close>

definition or_empty :: "string option \<Rightarrow> string" where
  "or_empty s = (case s of None \<Rightarrow> [] | Some x \<Rightarrow> x)"

definition truthy :: "string option \<Rightarrow> bool" where
  "truthy s \<longleftrightarrow> or_empty s \<noteq> []"

lemma or_empty_simps [simp]: "or_empty None = []" "or_empty (Some x) = x"
  by (simp_all add: or_empty_def)

lemma truthy_simps [simp]: "\<not> truthy None" "truthy (Some x) \<longleftrightarrow> x \<noteq> []"
  by (simp_all add: truthy_def)

lemma truthyE: "truthy s \<Longrightarrow> (\<And>x. s = Some x \<Longrightarrow> x \<noteq> [] \<Longrightarrow> P) \<Longrightarrow> P"
  by (cases s) auto

section \<open>Generic list lemmas\<close>

lemma find_None_all: "find P xs = None \<longleftrightarrow> (\<forall>x \<in> set xs. \<not> P x)"
  by (auto simp: find_None_iff)

lemma find_SomeD: "find P xs = Some x \<Longrightarrow> P x \<and> x \<in> set xs"
  by (auto simp: find_Some_iff)

lemma fold_invariant_mem:
  assumes "I s" and "\<And>x s. x \<in> set xs \<Longrightarrow> I s \<Longrightarrow> I (f x s)"
  shows "I (fold f xs s)"
  using assms by (induction xs arbitrary: s) simp_all

subsection \<open>Loops that may raise\<close>

text \<open>A \<open>for\<close> loop whose body returns the updated state or the error it raises.\<close>

fun try_fold :: "('a \<Rightarrow> 's \<Rightarrow> 'e + 's) \<Rightarrow> 'a list \<Rightarrow> 's \<Rightarrow> 'e + 's" where
  "try_fold f [] s = Inr s"
| "try_fold f (x # xs) s = (case f x s of Inl e \<Rightarrow> Inl e | Inr s' \<Rightarrow> try_fold f xs s')"

lemma try_fold_append:
  "try_fold f (xs @ ys) s = (case try_fold f xs s of Inl e \<Rightarrow> Inl e | Inr s' \<Rightarrow> try_fold f ys s')"
  by (induction xs arbitrary: s) (simp_all split: sum.split)

lemma try_fold_invariant:
  assumes "try_fold f xs s = Inr s'" "I s"
    and "\<And>x s s'. x \<in> set xs \<Longrightarrow> I s \<Longrightarrow> f x s = Inr s' \<Longrightarrow> I s'"
  shows "I s'"
  using assms
proof (induction xs arbitrary: s)
  case (Cons x xs)
  then obtain s1 where s1: "f x s = Inr s1" "try_fold f xs s1 = Inr s'" by (auto split: sum.splits)
  have "I s1" by (rule Cons.prems(3) [OF _ Cons.prems(2) s1(1)]) simp
  show ?case by (rule Cons.IH [OF s1(2) \<open>I s1\<close>]) (rule Cons.prems(3), auto)
qed simp

lemma try_fold_total:
  assumes "\<And>x s. x \<in> set xs \<Longrightarrow> I s \<Longrightarrow> \<exists>s'. f x s = Inr s' \<and> I s'" and "I s"
  shows "\<exists>s'. try_fold f xs s = Inr s' \<and> I s'"
  using assms
proof (induction xs arbitrary: s)
  case (Cons x xs)
  obtain s1 where "f x s = Inr s1" "I s1" using Cons.prems(1) [of x s] Cons.prems(2) by auto
  with Cons.IH [of s1] Cons.prems(1) show ?case by simp
qed simp

lemma try_fold_establishes:
  assumes "try_fold f xs s = Inr s'" "I s"
    and "\<And>x s s'. x \<in> set xs \<Longrightarrow> I s \<Longrightarrow> f x s = Inr s' \<Longrightarrow> I s' \<and> Q x s'"
    and "\<And>x y s s'. I s \<Longrightarrow> f x s = Inr s' \<Longrightarrow> Q y s \<Longrightarrow> Q y s'"
  shows "I s' \<and> (\<forall>x \<in> set xs. Q x s') \<and> (\<forall>y. Q y s \<longrightarrow> Q y s')"
  using assms
proof (induction xs arbitrary: s)
  case (Cons x xs)
  then obtain s1 where s1: "f x s = Inr s1" "try_fold f xs s1 = Inr s'" by (auto split: sum.splits)
  have h: "I s1 \<and> Q x s1" by (rule Cons.prems(3) [OF _ Cons.prems(2) s1(1)]) simp
  have "I s' \<and> (\<forall>x \<in> set xs. Q x s') \<and> (\<forall>y. Q y s1 \<longrightarrow> Q y s')"
    by (rule Cons.IH [OF s1(2) conjunct1 [OF h]]) (rule Cons.prems(3), simp_all, rule Cons.prems(4))
  with h Cons.prems(4) [OF Cons.prems(2) s1(1)] show ?case by auto
qed simp

text \<open>A loop none of whose steps touches the first part of the state.\<close>

lemma try_fold_still:
  assumes "\<And>x ev. x \<in> set xs \<Longrightarrow> \<exists>ev'. f x (c, ev) = Inr (c, ev')"
  shows "\<exists>ev'. try_fold f xs (c, ev) = Inr (c, ev')"
  using assms
proof (induction xs arbitrary: ev)
  case (Cons x xs)
  obtain ev1 where "f x (c, ev) = Inr (c, ev1)" using Cons.prems [of x ev] by auto
  with Cons.IH [of ev1] Cons.prems show ?case by simp
qed simp

lemma try_fold_id:
  "(\<And>x. x \<in> set xs \<Longrightarrow> f x s = Inr s) \<Longrightarrow> try_fold f xs s = Inr s"
  by (induction xs) auto

subsection \<open>Updating the first match of a list in place\<close>

fun update_first :: "('a \<Rightarrow> bool) \<Rightarrow> ('a \<Rightarrow> 'a) \<Rightarrow> 'a list \<Rightarrow> 'a list" where
  "update_first P f [] = []"
| "update_first P f (x # xs) = (if P x then f x # xs else x # update_first P f xs)"

lemma length_update_first [simp]: "length (update_first P f xs) = length xs"
  by (induction xs) auto

lemma map_update_first: "(\<And>x. P x \<Longrightarrow> g (f x) = g x) \<Longrightarrow> map g (update_first P f xs) = map g xs"
  by (induction xs) auto

lemma update_first_mem: "y \<in> set (update_first P f xs) \<Longrightarrow> y \<in> set xs \<or> (\<exists>x \<in> set xs. P x \<and> y = f x)"
  by (induction xs) (auto split: if_splits)

lemma mem_update_first: "x \<in> set xs \<Longrightarrow> x \<in> set (update_first P f xs) \<or> (P x \<and> f x \<in> set (update_first P f xs))"
  by (induction xs) auto

lemma update_first_none: "\<not> list_ex P xs \<Longrightarrow> update_first P f xs = xs"
  by (induction xs) auto

end
