(* ===== verification/Text.thy ===== *)
theory Text
  imports Prelude
begin

text \<open>
  The one lexical vocabulary of the engine: the tokenizer of
  \<open>core/investigation/cause_assurance.py\<close> (\<open>_stem\<close>, \<open>content_tokens\<close>) and the statement
  comparisons of \<open>core/investigation/causal_graph/similarity.py\<close>.

  A Python \<open>str\<close> is a list of code points; the model covers the code points 0 to 255, one HOL
  \<open>char\<close> each, with the character classes and the case mapping of that block written out.
  Scores are Python floats, each one correctly rounded quotient of two set sizes or a decimal
  literal. Rounding is monotone and the exact quotients of sizes below \<open>2 ^ 26\<close> are further apart
  than one rounding step, so every comparison the code makes has the same outcome on the exact
  rationals used here.
\<close>

section \<open>Characters and words\<close>

definition isalpha_ch :: "char \<Rightarrow> bool" where
  "isalpha_ch c = (let n = (of_char c :: nat) in
     65 \<le> n \<and> n \<le> 90 \<or> 97 \<le> n \<and> n \<le> 122 \<or> n = 170 \<or> n = 181 \<or> n = 186
     \<or> 192 \<le> n \<and> n \<le> 214 \<or> 216 \<le> n \<and> n \<le> 246 \<or> 248 \<le> n)"

definition isdigit_ch :: "char \<Rightarrow> bool" where
  "isdigit_ch c = (let n = (of_char c :: nat) in
     48 \<le> n \<and> n \<le> 57 \<or> n = 178 \<or> n = 179 \<or> n = 185)"

definition isalnum_ch :: "char \<Rightarrow> bool" where
  "isalnum_ch c = (let n = (of_char c :: nat) in
     isalpha_ch c \<or> isdigit_ch c \<or> 188 \<le> n \<and> n \<le> 190)"

definition isspace_ch :: "char \<Rightarrow> bool" where
  "isspace_ch c = (let n = (of_char c :: nat) in
     9 \<le> n \<and> n \<le> 13 \<or> 28 \<le> n \<and> n \<le> 32 \<or> n = 133 \<or> n = 160)"

definition lower_ch :: "char \<Rightarrow> char" where
  "lower_ch c = (let n = (of_char c :: nat) in
     if 65 \<le> n \<and> n \<le> 90 \<or> 192 \<le> n \<and> n \<le> 222 \<and> n \<noteq> 215 then char_of (n + 32) else c)"

text \<open>\<open>s.split()\<close>: the maximal runs of characters that are not white space.\<close>

fun split_from :: "string \<Rightarrow> string \<Rightarrow> string list" where
  "split_from cur [] = (if cur = [] then [] else [rev cur])"
| "split_from cur (c # cs) =
     (if isspace_ch c then (if cur = [] then split_from [] cs else rev cur # split_from [] cs)
      else split_from (c # cur) cs)"

definition split_words :: "string \<Rightarrow> string list" where
  "split_words s = split_from [] s"

text \<open>\<open>str.strip()\<close>.\<close>

definition strip :: "string \<Rightarrow> string" where
  "strip s = rev (dropWhile isspace_ch (rev (dropWhile isspace_ch s)))"

definition ends_with :: "string \<Rightarrow> string \<Rightarrow> bool" where
  "ends_with s suf \<longleftrightarrow> length suf \<le> length s \<and> drop (length s - length suf) s = suf"

definition drop_last :: "nat \<Rightarrow> string \<Rightarrow> string" where
  "drop_last n s = take (length s - n) s"

lemma split_from_nonempty: "[] \<notin> set (split_from cur s)"
  by (induction s arbitrary: cur) simp_all

lemma split_from_no_space:
  "\<forall>c \<in> set cur. \<not> isspace_ch c \<Longrightarrow> w \<in> set (split_from cur s) \<Longrightarrow> \<forall>c \<in> set w. \<not> isspace_ch c"
proof (induction s arbitrary: cur)
  case Nil
  then show ?case by (simp split: if_split_asm)
next
  case (Cons c cs)
  show ?case
  proof (cases "isspace_ch c")
    case True
    with Cons.prems Cons.IH [of "[]"] show ?thesis by (cases "cur = []") auto
  next
    case False
    with Cons.prems Cons.IH [of "c # cur"] show ?thesis by auto
  qed
qed

lemma split_words_nonempty: "w \<in> set (split_words s) \<Longrightarrow> w \<noteq> []"
  by (metis split_from_nonempty split_words_def)

lemma split_words_no_space: "w \<in> set (split_words s) \<Longrightarrow> \<forall>c \<in> set w. \<not> isspace_ch c"
  unfolding split_words_def by (rule split_from_no_space) auto

lemma split_from_concat: "concat (split_from cur s) = rev cur @ filter (\<lambda>c. \<not> isspace_ch c) s"
  by (induction s arbitrary: cur) simp_all

text \<open>Splitting loses the white space and nothing else.\<close>

lemma split_words_concat: "concat (split_words s) = filter (\<lambda>c. \<not> isspace_ch c) s"
  by (simp add: split_words_def split_from_concat)

section \<open>Stemming and content tokens\<close>

lemma strip_ends:
  assumes "strip s \<noteq> []"
  shows "\<not> isspace_ch (hd (strip s))" "\<not> isspace_ch (last (strip s))"
proof -
  let ?d = "dropWhile isspace_ch s" and ?e = "dropWhile isspace_ch (rev (dropWhile isspace_ch s))"
  have e: "?e \<noteq> []" using assms by (simp add: strip_def)
  then show "\<not> isspace_ch (last (strip s))"
    using hd_dropWhile [of isspace_ch "rev ?d"] by (simp add: strip_def last_rev)
  obtain xs where xs: "rev ?d = xs @ ?e" using takeWhile_dropWhile_id by metis
  then have d: "?d = rev ?e @ rev xs" by (metis rev_append rev_rev_ident)
  have "hd (strip s) = hd (rev ?e)" by (simp only: strip_def)
  also have "\<dots> = hd ?d" using e by (subst d) (simp only: hd_append rev_is_Nil_conv if_False)
  finally have "hd (strip s) = hd ?d" .
  moreover have "?d \<noteq> []"
    using e by (metis dropWhile.simps(1) rev.simps(1))
  ultimately show "\<not> isspace_ch (hd (strip s))" using hd_dropWhile [of isspace_ch s] by (metis dropWhile_eq_Nil_conv)
qed

lemma strip_id: "s \<noteq> [] \<Longrightarrow> \<not> isspace_ch (hd s) \<Longrightarrow> \<not> isspace_ch (last s) \<Longrightarrow> strip s = s"
proof -
  assume s: "s \<noteq> []" "\<not> isspace_ch (hd s)" "\<not> isspace_ch (last s)"
  then have "dropWhile isspace_ch s = s" by (cases s) auto
  moreover have "dropWhile isspace_ch (rev s) = rev s" using s by (cases s rule: rev_cases) auto
  ultimately show "strip s = s" by (simp add: strip_def)
qed

lemma strip_idem [simp]: "strip (strip s) = strip s"
proof (cases "strip s = []")
  case True
  then show ?thesis by (simp only: True) (simp add: strip_def)
next
  case False
  then show ?thesis by (simp add: strip_id strip_ends)
qed

lemma strip_empty_iff: "strip s = [] \<longleftrightarrow> list_all isspace_ch s"
proof
  assume "strip s = []"
  then have "\<forall>x \<in> set (rev (dropWhile isspace_ch s)). isspace_ch x"
    unfolding strip_def rev_is_Nil_conv dropWhile_eq_Nil_conv .
  then show "list_all isspace_ch s"
    by (metis (no_types, lifting) dropWhile_eq_Nil_conv hd_dropWhile hd_in_set list_all_iff set_rev)
next
  assume "list_all isspace_ch s"
  then have "dropWhile isspace_ch s = []" unfolding dropWhile_eq_Nil_conv by (simp add: list_all_iff)
  then show "strip s = []" unfolding strip_def by (simp only: rev.simps dropWhile.simps)
qed

definition RESTATEMENT_STOPWORDS :: "string list" where
  "RESTATEMENT_STOPWORDS =
     [''a'', ''an'', ''the'', ''is'', ''are'', ''was'', ''were'', ''of'', ''to'', ''in'', ''on'',
      ''at'', ''for'', ''and'', ''or'', ''that'', ''this'', ''it'', ''its'', ''by'', ''with'',
      ''as'', ''from'', ''has'', ''have'', ''had'', ''be'', ''been'', ''into'', ''not'', ''but'',
      ''which'', ''when'', ''then'', ''so'', ''new'', ''version'', ''service'', ''application'']"

definition stem :: "string \<Rightarrow> string" where
  "stem token =
    (if \<not> (token \<noteq> [] \<and> list_all isalpha_ch token) \<or> length token \<le> 3 then token
     else if ends_with token ''ing'' \<and> length token - 3 \<ge> 4 then drop_last 3 token
     else if ends_with token ''ed'' \<and> length token - 2 \<ge> 4 then drop_last 2 token
     else if ends_with token ''ies'' \<and> length token > 4 then drop_last 3 token @ ''y''
     else if ends_with token ''s''
          \<and> \<not> (ends_with token ''ss'' \<or> ends_with token ''us'' \<or> ends_with token ''is'')
          \<and> length token - 1 \<ge> 3 then drop_last 1 token
     else token)"

definition content_tokens :: "string \<Rightarrow> string set" where
  "content_tokens txt =
    (let raw = map (\<lambda>c. if isalnum_ch c \<or> c \<in> set ''.-_:/'' then lower_ch c else CHR '' '') txt
     in set (map stem (filter (\<lambda>t. length t \<ge> 2 \<and> t \<notin> set RESTATEMENT_STOPWORDS)
                        (split_words raw))))"

definition TOKENIZE_MAX_CHARS :: nat where
  "TOKENIZE_MAX_CHARS = 4000"

definition cached_content_tokens :: "string \<Rightarrow> string set" where
  "cached_content_tokens txt = content_tokens (take TOKENIZE_MAX_CHARS txt)"

text \<open>Stemming keeps at least three characters of a token that had three.\<close>

lemma length_stem: "length (stem t) \<ge> min 3 (length t)"
  by (auto simp: stem_def drop_last_def)

lemma stem_nonempty: "t \<noteq> [] \<Longrightarrow> stem t \<noteq> []"
  using length_stem [of t] by (cases t; cases "stem t") auto

text \<open>Every token carries at least two characters, so one letter never makes an overlap.\<close>

lemma content_token_length: "t \<in> content_tokens s \<Longrightarrow> 2 \<le> length t"
proof -
  assume "t \<in> content_tokens s"
  then obtain u where "t = stem u" "2 \<le> length u"
    by (auto simp: content_tokens_def Let_def)
  then show ?thesis using length_stem [of u] by simp
qed

lemma finite_content_tokens [simp, intro]: "finite (content_tokens s)"
  by (simp add: content_tokens_def Let_def)

lemma finite_cached_content_tokens [simp, intro]: "finite (cached_content_tokens s)"
  by (simp add: cached_content_tokens_def)

section \<open>Comparing two statements\<close>

definition mutual_mirror :: "string set \<Rightarrow> string set \<Rightarrow> rat \<Rightarrow> bool" where
  "mutual_mirror a_tokens b_tokens threshold =
    (if a_tokens = {} \<or> b_tokens = {} then False
     else of_nat (card (a_tokens \<inter> b_tokens)) / of_nat (card (a_tokens \<union> b_tokens)) \<ge> threshold)"

definition RESTATEMENT_STRONG :: rat where "RESTATEMENT_STRONG = 6 / 10"
definition RESTATEMENT_AMBIGUOUS :: rat where "RESTATEMENT_AMBIGUOUS = 4 / 10"
definition ROOT_NOVELTY_MIN_FRACTION :: rat where "ROOT_NOVELTY_MIN_FRACTION = 3 / 10"
definition FRAME_OWNER_JACCARD :: rat where "FRAME_OWNER_JACCARD = 6 / 10"
definition HYPOTHESIS_DUPLICATE_JACCARD :: rat where "HYPOTHESIS_DUPLICATE_JACCARD = 8 / 10"
definition MIN_SHARED_TOKENS_FOR_REATTACH :: nat where "MIN_SHARED_TOKENS_FOR_REATTACH = 2"

definition restatement_score :: "string \<Rightarrow> string \<Rightarrow> rat" where
  "restatement_score a b =
    (let ta = content_tokens a; tb = content_tokens b; inter = card (ta \<inter> tb)
     in if ta = {} \<or> tb = {} then 0
        else if inter = 0 then 0
        else max (of_nat inter / of_nat (card (ta \<union> tb)))
                 (max (of_nat inter / of_nat (card ta)) (of_nat inter / of_nat (card tb))))"

definition substantive_overlap :: "string \<Rightarrow> string \<Rightarrow> bool" where
  "substantive_overlap a b \<longleftrightarrow>
     card (content_tokens a \<inter> content_tokens b) \<ge> MIN_SHARED_TOKENS_FOR_REATTACH"

definition NEGATION_CUES :: "string list" where
  "NEGATION_CUES =
     [''not'', ''no'', ''never'', ''without'', ''none'', ''nor'', ''neither'', ''cannot'', ''cant'',
      ''dont'', ''doesnt'', ''didnt'', ''isnt'', ''arent'', ''wasnt'', ''werent'', ''wont'',
      ''couldnt'', ''shouldnt'', ''wouldnt'', ''non'', ''unable'']"

definition has_negation :: "string \<Rightarrow> bool" where
  "has_negation txt =
    (let cleaned = map (\<lambda>c. if isalnum_ch c then lower_ch c else CHR '' '')
                     (filter (\<lambda>c. c \<noteq> CHR 0x27) txt)
     in list_ex (\<lambda>w. w \<in> set NEGATION_CUES) (split_words cleaned))"

text \<open>The loop of \<open>_numeric_discriminators\<close>: \<open>cur\<close> holds the digits read so far, reversed.\<close>

fun digit_runs :: "string \<Rightarrow> string \<Rightarrow> string list" where
  "digit_runs cur [] = (if cur = [] then [] else [rev cur])"
| "digit_runs cur (c # cs) =
     (if isdigit_ch c then digit_runs (c # cur) cs
      else if cur \<noteq> [] then rev cur # digit_runs [] cs
      else digit_runs cur cs)"

definition numeric_discriminators :: "string \<Rightarrow> string set" where
  "numeric_discriminators txt = set (digit_runs [] txt)"

definition hypothesis_statements_duplicate :: "string \<Rightarrow> string \<Rightarrow> bool" where
  "hypothesis_statements_duplicate a b =
    (if has_negation a \<noteq> has_negation b then False
     else if numeric_discriminators a \<noteq> numeric_discriminators b then False
     else mutual_mirror (content_tokens a) (content_tokens b) HYPOTHESIS_DUPLICATE_JACCARD)"

lemmas similarity_bars =
  RESTATEMENT_STRONG_def RESTATEMENT_AMBIGUOUS_def ROOT_NOVELTY_MIN_FRACTION_def
  FRAME_OWNER_JACCARD_def HYPOTHESIS_DUPLICATE_JACCARD_def MIN_SHARED_TOKENS_FOR_REATTACH_def

section \<open>What the comparisons promise\<close>

lemma mutual_mirror_commute: "mutual_mirror a b t = mutual_mirror b a t"
  by (simp add: mutual_mirror_def Int_commute Un_commute)

text \<open>The comparison in whole numbers, with the threshold written as a fraction.\<close>

lemma mutual_mirror_frac:
  assumes "finite a" "finite b" "0 < q"
  shows "mutual_mirror a b (of_nat p / of_nat q) \<longleftrightarrow>
    a \<noteq> {} \<and> b \<noteq> {} \<and> p * card (a \<union> b) \<le> q * card (a \<inter> b)"
proof (cases "a = {} \<or> b = {}")
  case True
  then show ?thesis by (auto simp: mutual_mirror_def)
next
  case False
  with assms have pos: "(0::rat) < of_nat (card (a \<union> b))" "(0::rat) < of_nat q"
    by (auto simp: card_gt_0_iff)
  have "mutual_mirror a b (of_nat p / of_nat q) \<longleftrightarrow>
      (of_nat p :: rat) * of_nat (card (a \<union> b)) \<le> of_nat q * of_nat (card (a \<inter> b))"
    using False pos by (simp add: mutual_mirror_def field_simps)
  also have "\<dots> \<longleftrightarrow> p * card (a \<union> b) \<le> q * card (a \<inter> b)"
    by (metis of_nat_le_iff of_nat_mult)
  finally show ?thesis using False by simp
qed

lemma mutual_mirror_refl: "finite a \<Longrightarrow> a \<noteq> {} \<Longrightarrow> t \<le> 1 \<Longrightarrow> mutual_mirror a a t"
  by (simp add: mutual_mirror_def card_gt_0_iff)

lemma mutual_mirror_share:
  assumes "mutual_mirror a b t" "0 < t" shows "a \<inter> b \<noteq> {}"
proof
  assume "a \<inter> b = {}"
  then have "card (a \<inter> b) = 0" by simp
  with assms show False by (auto simp: mutual_mirror_def split: if_splits)
qed

lemma restatement_score_commute: "restatement_score a b = restatement_score b a"
  by (simp add: restatement_score_def Let_def Int_commute Un_commute max.commute disj_commute)

lemma of_nat_ratio_le_1: "m \<le> n \<Longrightarrow> (of_nat m :: rat) / of_nat n \<le> 1"
  by (cases "n = 0") auto

lemma restatement_score_bounds: "0 \<le> restatement_score a b \<and> restatement_score a b \<le> 1"
proof -
  let ?A = "content_tokens a" and ?B = "content_tokens b"
  have "card (?A \<inter> ?B) \<le> card (?A \<union> ?B)" "card (?A \<inter> ?B) \<le> card ?A" "card (?A \<inter> ?B) \<le> card ?B"
    by (auto intro: card_mono)
  then show ?thesis
    by (auto simp: restatement_score_def Let_def le_max_iff_disj intro: of_nat_ratio_le_1)
qed

text \<open>
  A statement whose tokens are all in the other one scores 1: containment in either direction
  is a full restatement, which is why an attach also asks for two shared tokens.
\<close>

lemma restatement_score_contained:
  assumes "content_tokens a \<subseteq> content_tokens b" "content_tokens a \<noteq> {}"
  shows "restatement_score a b = 1"
proof -
  have inter: "content_tokens a \<inter> content_tokens b = content_tokens a" using assms(1) by auto
  have "card (content_tokens a) \<noteq> 0" "content_tokens b \<noteq> {}"
    using assms by auto
  then have "1 \<le> restatement_score a b"
    using assms(2) by (simp add: restatement_score_def Let_def inter le_max_iff_disj)
  then show ?thesis using restatement_score_bounds [of a b] by simp
qed

lemma restatement_score_pos_share:
  "0 < restatement_score a b \<Longrightarrow> content_tokens a \<inter> content_tokens b \<noteq> {}"
  by (auto simp: restatement_score_def Let_def split: if_splits)

lemma digit_runs_concat: "concat (digit_runs cur s) = rev cur @ filter isdigit_ch s"
  by (induction s arbitrary: cur) simp_all

lemma digit_runs_nonempty: "[] \<notin> set (digit_runs cur s)"
  by (induction s arbitrary: cur) simp_all

lemma duplicate_commute:
  "hypothesis_statements_duplicate a b = hypothesis_statements_duplicate b a"
  by (auto simp: hypothesis_statements_duplicate_def mutual_mirror_commute)

lemma duplicate_refl: "content_tokens a \<noteq> {} \<Longrightarrow> hypothesis_statements_duplicate a a"
  by (simp add: hypothesis_statements_duplicate_def mutual_mirror_refl similarity_bars)

lemma duplicate_iff:
  "hypothesis_statements_duplicate a b \<longleftrightarrow>
     has_negation a = has_negation b \<and> numeric_discriminators a = numeric_discriminators b
     \<and> content_tokens a \<noteq> {} \<and> content_tokens b \<noteq> {}
     \<and> 8 * card (content_tokens a \<union> content_tokens b)
         \<le> 10 * card (content_tokens a \<inter> content_tokens b)"
  using mutual_mirror_frac [of "content_tokens a" "content_tokens b" 10 8]
  by (auto simp: hypothesis_statements_duplicate_def similarity_bars)

section \<open>Properties\<close>

text \<open>Two hypothesis statements are duplicates exactly when they agree in polarity and in their
  numbers, both have content, and they share at least eight tenths of their tokens.\<close>

theorem duplicate_statements_iff:
  "hypothesis_statements_duplicate a b \<longleftrightarrow>
     has_negation a = has_negation b \<and> numeric_discriminators a = numeric_discriminators b
     \<and> content_tokens a \<noteq> {} \<and> content_tokens b \<noteq> {}
     \<and> 8 * card (content_tokens a \<union> content_tokens b) \<le> 10 * card (content_tokens a \<inter> content_tokens b)"
  by (rule duplicate_iff)

end
