(* ===== verification/Case_Model.thy ===== *)
theory Case_Model
  imports Text
begin

text \<open>
  The data of an investigation: the causal graph of \<open>modules/case/domain/models/causal.py\<close>, the
  hypotheses of \<open>hypothesis.py\<close>, the evidence rows of \<open>evidence.py\<close>, the conclusion of
  \<open>conclusion.py\<close> and the part of the \<open>Case\<close> aggregate the causal-graph engine reads and
  writes, with the Pydantic validators that say which of these values can exist.

  Field names carry a prefix for their class (\<open>node_\<close>, \<open>edge_\<close>, \<open>hyp_\<close>, \<open>ev_\<close>, \<open>link_\<close>,
  \<open>rcc_\<close>, \<open>case_\<close>) because HOL record fields share one name space. Probabilities are exact
  rationals, turn numbers unbounded integers. Wall-clock timestamps and free-text rationales
  that no modelled operation reads are left out.
\<close>

section \<open>Enumerations\<close>

datatype node_type = PROBLEM | INTERMEDIATE | ROOT

datatype node_state = CANDIDATE | VALIDATED | REFUTED | INCONCLUSIVE

datatype validation_method = NONE | EMPIRICAL | DEDUCTIVE

datatype evidence_stance = SUPPORTS | NEUTRAL | REFUTES

datatype evidence_category =
    SYMPTOM_EVIDENCE | CAUSAL_EVIDENCE | SYMPTOM_ABSENCE_EVIDENCE | CAUSAL_ABSENCE_EVIDENCE

datatype evidence_source_type =
    LOGS | METRICS | CONFIGURATION | CODE_SOURCE | TEXT | IMAGE | ENGINE_INFERENCE

datatype hypothesis_category =
    CODE | CONFIG | ENVIRONMENT | NETWORK | DATA | DATABASE | HARDWARE | SECURITY | EXTERNAL
  | HUMAN | OTHER

datatype hypothesis_state =
    H_ACTIVE | H_VALIDATED | H_REFUTED | H_INCONCLUSIVE | H_RETIRED

datatype hypothesis_generation_mode = OPPORTUNISTIC | SYSTEMATIC | FORCED_ALTERNATIVE

definition TERMINAL_HYPOTHESIS_STATES :: "hypothesis_state set" where
  "TERMINAL_HYPOTHESIS_STATES = {H_REFUTED, H_RETIRED}"

definition hypothesis_is_terminal :: "hypothesis_state \<Rightarrow> bool" where
  "hypothesis_is_terminal s \<longleftrightarrow> s \<in> TERMINAL_HYPOTHESIS_STATES"

datatype cause_state = CS_UNKNOWN | CS_CANDIDATES | CS_IDENTIFIED

datatype confidence_level = SPECULATION | PROBABLE | CONFIDENT | VERIFIED

definition confidence_from_score :: "rat \<Rightarrow> confidence_level" where
  "confidence_from_score score =
    (if score < 5 / 10 then SPECULATION
     else if score < 7 / 10 then PROBABLE
     else if score < 9 / 10 then CONFIDENT
     else VERIFIED)"

section \<open>Evidence rows and links\<close>

record evidence =
  ev_id :: string
  ev_category :: evidence_category
  ev_summary :: string
  ev_extract :: "string option"
  ev_source_type :: evidence_source_type
  ev_source_file_id :: "string option"
  ev_collected_by :: string
  ev_collected_at_turn :: int

text \<open>
  A link binds a row to a node or to a hypothesis. Both link classes share four fields and the
  engine reads them through those alone; \<open>link_confidence = None\<close> is an unset confidence.
\<close>

record evidence_link =
  link_evidence_id :: string
  link_stance :: evidence_stance
  link_confidence :: "rat option"
  link_reasoning :: string

record node_link = evidence_link +
  link_linked_at_turn :: int

record hypothesis_link = evidence_link +
  link_hypothesis_id :: string

text \<open>Reading a link of either class as a plain link (the code's duck typing).\<close>

definition plain_link :: "'a evidence_link_scheme \<Rightarrow> evidence_link" where
  "plain_link l = evidence_link.truncate l"

lemma plain_link_simps [simp]:
  "link_evidence_id (plain_link l) = link_evidence_id l"
  "link_stance (plain_link l) = link_stance l"
  "link_confidence (plain_link l) = link_confidence l"
  "link_reasoning (plain_link l) = link_reasoning l"
  by (simp_all add: plain_link_def evidence_link.defs)

section \<open>Causal nodes and edges\<close>

text \<open>The values the engine keeps in a node's \<open>metadata\<close> dictionary.\<close>

datatype meta_value = MBool bool | MInt int | MStr string | MList "string list"

record causal_node =
  node_id :: string
  node_statement :: string
  node_type :: node_type
  node_state :: node_state
  node_method :: validation_method
  node_belief :: rat
  node_actionable :: bool
  node_links :: "node_link list"
  node_generated_at_turn :: int
  node_refutation_reason :: "string option"
  node_metadata :: "(string, meta_value) pydict"

record causal_edge =
  edge_cause :: string
  edge_effect :: string
  edge_group :: "string option"
  edge_reasoning :: "string option"
  edge_created_at_turn :: int

subsection \<open>The validators of a node\<close>

datatype validation_error =
    StatementBlank | RefutationReasonRequired | RefutationReasonNotAllowed
  | ValidationMethodRequired | ValidatedRootNotActionable | SelfLoop | RootNotHeadOfPath
  | FieldConstraint string

definition statement_not_empty :: "string \<Rightarrow> bool" where
  "statement_not_empty v \<longleftrightarrow> \<not> list_all isspace_ch v"

definition refutation_reason_pairs_with_state :: "causal_node \<Rightarrow> validation_error + causal_node" where
  "refutation_reason_pairs_with_state n =
    (if node_state n = REFUTED \<and> \<not> truthy (node_refutation_reason n)
     then Inl RefutationReasonRequired
     else if truthy (node_refutation_reason n) \<and> node_state n \<noteq> REFUTED
     then Inl RefutationReasonNotAllowed
     else Inr n)"

definition validated_requires_method :: "causal_node \<Rightarrow> validation_error + causal_node" where
  "validated_requires_method n =
    (if node_state n = VALIDATED \<and> node_method n = NONE then Inl ValidationMethodRequired
     else Inr n)"

definition validated_root_must_be_actionable :: "causal_node \<Rightarrow> validation_error + causal_node" where
  "validated_root_must_be_actionable n =
    (if node_type n = ROOT \<and> node_state n = VALIDATED \<and> \<not> node_actionable n
     then Inl ValidatedRootNotActionable
     else Inr n)"

text \<open>Pydantic runs the validators of a class in the order they are written.\<close>

definition check_node :: "causal_node \<Rightarrow> validation_error + causal_node" where
  "check_node n =
    (if \<not> statement_not_empty (node_statement n) then Inl StatementBlank
     else case refutation_reason_pairs_with_state n of Inl e \<Rightarrow> Inl e | Inr n \<Rightarrow>
          (case validated_requires_method n of Inl e \<Rightarrow> Inl e | Inr n \<Rightarrow>
            validated_root_must_be_actionable n))"

text \<open>
  The three clauses every node in memory keeps (refutation pairing, M4, M1). They are what a
  reload checks again, so the engine's in-place updates have to keep them.
\<close>

definition node_ok :: "causal_node \<Rightarrow> bool" where
  "node_ok n \<longleftrightarrow>
     (node_state n = REFUTED \<longleftrightarrow> truthy (node_refutation_reason n))
     \<and> (node_state n = VALIDATED \<longrightarrow> node_method n \<noteq> NONE)
     \<and> (node_type n = ROOT \<and> node_state n = VALIDATED \<longrightarrow> node_actionable n)"

lemma check_node_iff: "check_node n = Inr m \<longleftrightarrow> m = n \<and> statement_not_empty (node_statement n) \<and> node_ok n"
  by (auto simp: check_node_def node_ok_def refutation_reason_pairs_with_state_def
      validated_requires_method_def validated_root_must_be_actionable_def)

definition no_self_loop :: "causal_edge \<Rightarrow> validation_error + causal_edge" where
  "no_self_loop e = (if edge_cause e = edge_effect e then Inl SelfLoop else Inr e)"

subsection \<open>Constructing nodes, edges and links\<close>

text \<open>
  What a constructor call checks: the \<open>Field\<close> bounds, named by their field, then the validators.
  The parameters are the keywords the engine passes; every other field takes its default.
\<close>

definition new_node :: "string \<Rightarrow> string \<Rightarrow> node_type \<Rightarrow> int \<Rightarrow> validation_error + causal_node" where
  "new_node nid statement ntype turn =
    (if statement = [] \<or> 500 < length statement then Inl (FieldConstraint ''statement'')
     else if turn < 0 then Inl (FieldConstraint ''generated_at_turn'')
     else check_node \<lparr>node_id = nid, node_statement = statement, node_type = ntype,
       node_state = CANDIDATE, node_method = NONE, node_belief = 1 / 2, node_actionable = False,
       node_links = [], node_generated_at_turn = turn, node_refutation_reason = None,
       node_metadata = []\<rparr>)"

definition new_edge :: "string \<Rightarrow> string \<Rightarrow> string option \<Rightarrow> string option \<Rightarrow> int \<Rightarrow> validation_error + causal_edge" where
  "new_edge cause effect grp reasoning turn =
    (if 1000 < length (or_empty reasoning) then Inl (FieldConstraint ''reasoning'')
     else if turn < 0 then Inl (FieldConstraint ''created_at_turn'')
     else no_self_loop \<lparr>edge_cause = cause, edge_effect = effect, edge_group = grp,
       edge_reasoning = reasoning, edge_created_at_turn = turn\<rparr>)"

definition new_link :: "string \<Rightarrow> evidence_stance \<Rightarrow> string \<Rightarrow> rat option \<Rightarrow> int \<Rightarrow> validation_error + node_link" where
  "new_link eid stance reasoning confidence turn =
    (if 1000 < length reasoning then Inl (FieldConstraint ''reasoning'')
     else if \<not> (case confidence of None \<Rightarrow> False | Some q \<Rightarrow> 0 \<le> q \<and> q \<le> 1)
     then Inl (FieldConstraint ''stance_confidence'')
     else if turn < 0 then Inl (FieldConstraint ''linked_at_turn'')
     else Inr \<lparr>link_evidence_id = eid, link_stance = stance, link_confidence = confidence,
       link_reasoning = reasoning, link_linked_at_turn = turn\<rparr>)"

lemma new_node_Inr:
  "new_node nid statement ntype turn = Inr n \<Longrightarrow>
     node_id n = nid \<and> node_statement n = statement \<and> node_type n = ntype \<and> node_state n = CANDIDATE
     \<and> node_links n = [] \<and> node_metadata n = [] \<and> node_ok n \<and> statement \<noteq> [] \<and> length statement \<le> 500"
  by (auto simp: new_node_def check_node_iff node_ok_def split: if_splits)

lemma new_node_ok:
  "statement_not_empty statement \<Longrightarrow> length statement \<le> 500 \<Longrightarrow> 0 \<le> turn \<Longrightarrow>
     \<exists>n. new_node nid statement ntype turn = Inr n"
  by (rule exI, auto simp: new_node_def check_node_iff node_ok_def statement_not_empty_def)

lemma new_edge_Inr:
  "new_edge cause effect grp reasoning turn = Inr e \<longleftrightarrow>
     length (or_empty reasoning) \<le> 1000 \<and> 0 \<le> turn \<and> cause \<noteq> effect
     \<and> e = \<lparr>edge_cause = cause, edge_effect = effect, edge_group = grp,
          edge_reasoning = reasoning, edge_created_at_turn = turn\<rparr>"
  by (auto simp: new_edge_def no_self_loop_def)

lemma new_link_Inr:
  "new_link eid stance reasoning confidence turn = Inr l \<longleftrightarrow>
     length reasoning \<le> 1000 \<and> 0 \<le> turn \<and> (\<exists>q. confidence = Some q \<and> 0 \<le> q \<and> q \<le> 1)
     \<and> l = \<lparr>link_evidence_id = eid, link_stance = stance, link_confidence = confidence,
          link_reasoning = reasoning, link_linked_at_turn = turn\<rparr>"
  by (auto simp: new_link_def split: option.splits)

subsection \<open>The terminal verdict of a root\<close>

definition meta_bool :: "meta_value option \<Rightarrow> bool option" where
  "meta_bool v = (case v of Some (MBool b) \<Rightarrow> Some b | _ \<Rightarrow> None)"

text \<open>Python's \<open>bool\<close> is a subclass of \<open>int\<close>: \<open>isinstance(True, int)\<close> holds.\<close>

definition meta_int :: "meta_value option \<Rightarrow> int option" where
  "meta_int v = (case v of Some (MInt i) \<Rightarrow> Some i | Some (MBool b) \<Rightarrow> Some (of_bool b) | _ \<Rightarrow> None)"

definition meta_truthy :: "meta_value option \<Rightarrow> bool" where
  "meta_truthy v = (case v of None \<Rightarrow> False | Some (MBool b) \<Rightarrow> b | Some (MInt i) \<Rightarrow> i \<noteq> 0
     | Some (MStr s) \<Rightarrow> s \<noteq> [] | Some (MList l) \<Rightarrow> l \<noteq> [])"

definition root_terminal :: "causal_node \<Rightarrow> bool option" where
  "root_terminal n =
    (let verdict = dict_get (node_metadata n) ''root_terminal''
     in if meta_bool verdict = Some True
           \<and> \<not> meta_truthy (dict_get (node_metadata n) ''root_terminal_evidence_ids'')
        then None else meta_bool verdict)"

definition is_identified_root :: "causal_node \<Rightarrow> bool" where
  "is_identified_root n \<longleftrightarrow>
     node_type n = ROOT \<and> node_state n = VALIDATED \<and> root_terminal n = Some True"

definition record_root_terminal :: "bool \<Rightarrow> string list option \<Rightarrow> int \<Rightarrow> causal_node \<Rightarrow> causal_node" where
  "record_root_terminal verdict evidence_ids turn n =
    n\<lparr>node_metadata :=
        dict_pop ''root_terminal_refused_turn''
          (dict_put ''root_terminal_turn'' (MInt turn)
            (dict_put ''root_terminal_evidence_ids''
               (MList (if verdict then (case evidence_ids of None \<Rightarrow> [] | Some l \<Rightarrow> l) else []))
              (dict_put ''root_terminal'' (MBool verdict) (node_metadata n))))\<rparr>"

definition root_attached_turn :: "causal_node \<Rightarrow> int" where
  "root_attached_turn n =
    (case meta_int (dict_get (node_metadata n) ''root_attached_turn'') of
       Some t \<Rightarrow> t | None \<Rightarrow> node_generated_at_turn n)"

definition root_first_attached_turn :: "causal_node \<Rightarrow> int" where
  "root_first_attached_turn n =
    (case meta_int (dict_get (node_metadata n) ''root_first_attached_turn'') of
       Some t \<Rightarrow> t | None \<Rightarrow> root_attached_turn n)"

text \<open>A recorded verdict reads back, except a \<open>True\<close> that cites no row, which stays open.\<close>

lemma root_terminal_record:
  "root_terminal (record_root_terminal v ids t n) =
    (if v \<and> (case ids of None \<Rightarrow> [] | Some l \<Rightarrow> l) = [] then None else Some v)"
  by (simp add: root_terminal_def record_root_terminal_def Let_def meta_bool_def meta_truthy_def)

lemma record_root_terminal_frame [simp]:
  "node_id (record_root_terminal v ids t n) = node_id n"
  "node_state (record_root_terminal v ids t n) = node_state n"
  "node_type (record_root_terminal v ids t n) = node_type n"
  "node_links (record_root_terminal v ids t n) = node_links n"
  "node_statement (record_root_terminal v ids t n) = node_statement n"
  by (simp_all add: record_root_terminal_def)

lemma record_root_terminal_ok [wf_intros]:
  "node_ok n \<Longrightarrow> node_ok (record_root_terminal v ids t n)"
  by (simp add: node_ok_def record_root_terminal_def)

section \<open>Hypotheses\<close>

record hypothesis =
  hyp_id :: string
  hyp_statement :: string
  hyp_category :: hypothesis_category
  hyp_state :: hypothesis_state
  hyp_likelihood :: rat
  hyp_initial_likelihood :: rat
  hyp_root :: "string option"
  hyp_path :: "string list"
  hyp_links :: "hypothesis_link list"
  hyp_generated_at_turn :: int
  hyp_last_updated_turn :: int
  hyp_last_progress_at_turn :: int
  hyp_iterations_without_progress :: int
  hyp_generation_mode :: hypothesis_generation_mode
  hyp_retirement_reason :: "string option"
  hyp_refutation_reason :: "string option"
  hyp_rationale :: string

definition hypothesis_reason_pairs_with_state :: "hypothesis \<Rightarrow> validation_error + hypothesis" where
  "hypothesis_reason_pairs_with_state h =
    (if hyp_state h = H_REFUTED \<and> \<not> truthy (hyp_refutation_reason h)
     then Inl RefutationReasonRequired
     else if truthy (hyp_refutation_reason h) \<and> hyp_state h \<noteq> H_REFUTED
     then Inl RefutationReasonNotAllowed
     else Inr h)"

definition bound_retirement_reason :: "string option \<Rightarrow> string option" where
  "bound_retirement_reason v =
    (case v of None \<Rightarrow> None
     | Some s \<Rightarrow> Some (if length s > 200 then take 197 s @ ''...'' else s))"

definition root_heads_the_path :: "hypothesis \<Rightarrow> validation_error + hypothesis" where
  "root_heads_the_path h =
    (if truthy (hyp_root h) \<and> hyp_path h \<noteq> [] \<and> hyp_root h \<noteq> Some (hd (hyp_path h))
     then Inl RootNotHeadOfPath else Inr h)"

definition hypothesis_ok :: "hypothesis \<Rightarrow> bool" where
  "hypothesis_ok h \<longleftrightarrow>
     (hyp_state h = H_REFUTED \<longleftrightarrow> truthy (hyp_refutation_reason h))
     \<and> (truthy (hyp_root h) \<and> hyp_path h \<noteq> [] \<longrightarrow> hyp_root h = Some (hd (hyp_path h)))"

lemma hypothesis_validators_iff:
  "hypothesis_reason_pairs_with_state h = Inr h \<and> root_heads_the_path h = Inr h \<longleftrightarrow> hypothesis_ok h"
  by (auto simp: hypothesis_reason_pairs_with_state_def root_heads_the_path_def hypothesis_ok_def)

lemma bound_retirement_reason_length:
  "bound_retirement_reason v = Some s \<Longrightarrow> length s \<le> 200"
  by (auto simp: bound_retirement_reason_def split: option.splits if_splits)

lemma bound_retirement_reason_idem:
  "bound_retirement_reason (bound_retirement_reason v) = bound_retirement_reason v"
  by (auto simp: bound_retirement_reason_def split: option.splits)

section \<open>The conclusion and the case\<close>

record root_cause_conclusion =
  rcc_root_cause :: string
  rcc_confidence_level :: confidence_level
  rcc_likelihood :: rat
  rcc_mechanism :: string
  rcc_evidence_basis :: "string list"
  rcc_validated_hypothesis_id :: "string option"
  rcc_names_root_node_id :: "string option"
  rcc_contributing_factors :: "string list"
  rcc_determined_by :: string

record solution =
  sol_node_id :: "string option"

datatype action_type = MITIGATION | SOLUTION | DIAGNOSTIC

datatype action_state = ACTION_PENDING | ACTION_ACCEPTED | ACTION_REJECTED | ACTION_SUPERSEDED

record proposed_action =
  act_type :: action_type
  act_state :: action_state
  act_accepted_in_turn :: "int option"
  act_registered_in_turn :: "int option"
  act_fix_kind :: "string option"
  act_target_ids :: "string list"
  act_licence_ids :: "string list option"

record case_progress =
  prog_cause_state :: cause_state
  prog_identified_cause_root_ids :: "string list"
  prog_root_cause_likelihood :: rat
  prog_held_open :: bool

record case_data =
  case_nodes :: "(string, causal_node) pydict"
  case_edges :: "causal_edge list"
  case_evidence :: "evidence list"
  case_hypotheses :: "(string, hypothesis) pydict"
  case_symptom_statement :: "string option"
  case_current_turn :: int
  case_conclusion :: "root_cause_conclusion option"
  case_solutions :: "solution list"
  case_actions :: "proposed_action list"
  case_prog :: case_progress
  case_rechecks :: "(string, string) pydict"
  case_verifying_ids :: "string list"
  case_uploads :: "(string, int) pydict"

text \<open>
  \<open>case_rechecks\<close> gives, by a row's id, the row its metadata says it re-observes
  (\<open>rechecks_evidence_id\<close>); \<open>case_verifying_ids\<close> are the ids of the problem verification and
  \<open>case_uploads\<close> the turn each uploaded file was received in.
\<close>

text \<open>
  What a case keeps between operations: both dictionaries are keyed by their values' own ids,
  every node satisfies its validators, at most one node is the PROBLEM node, and no edge is a
  self-loop.
\<close>

definition nodes_ok :: "(string, causal_node) pydict \<Rightarrow> bool" where
  "nodes_ok ns \<longleftrightarrow> dict_wf ns \<and> (\<forall>k n. dict_get ns k = Some n \<longrightarrow> node_id n = k \<and> node_ok n)"

lemma nodes_ok_code [code]:
  "nodes_ok ns \<longleftrightarrow> dict_wf ns \<and> list_all (\<lambda>(k, n). node_id n = k \<and> node_ok n) ns"
  by (auto simp: nodes_ok_def dict_get_mem list_all_iff)

definition hypotheses_ok :: "(string, hypothesis) pydict \<Rightarrow> bool" where
  "hypotheses_ok hs \<longleftrightarrow>
     dict_wf hs \<and> (\<forall>k h. dict_get hs k = Some h \<longrightarrow> hyp_id h = k \<and> hypothesis_ok h)"

lemma nodes_okD:
  "nodes_ok ns \<Longrightarrow> dict_get ns k = Some n \<Longrightarrow> node_id n = k \<and> node_ok n"
  by (simp add: nodes_ok_def)

lemma nodes_ok_wf: "nodes_ok ns \<Longrightarrow> dict_wf ns"
  by (simp add: nodes_ok_def)

lemma nodes_ok_put [wf_intros]:
  "nodes_ok ns \<Longrightarrow> node_ok n \<Longrightarrow> node_id n = k \<Longrightarrow> nodes_ok (dict_put k n ns)"
  by (simp add: nodes_ok_def)

lemma nodes_ok_value: "nodes_ok ns \<Longrightarrow> n \<in> set (dict_values ns) \<Longrightarrow> dict_get ns (node_id n) = Some n"
  by (force simp: nodes_ok_def dict_values_get)

definition problem_node :: "(string, causal_node) pydict \<Rightarrow> causal_node option" where
  "problem_node ns = find (\<lambda>n. node_type n = PROBLEM) (dict_values ns)"

end
