(* ===== verification/Chain_Queries.thy ===== *)
theory Chain_Queries
  imports Case_Model
begin

text \<open>
  The read-only queries over the causal graph of
  \<open>core/investigation/causal_graph/queries.py\<close>: the AND-sets that feed a node (M7), the
  conjuncts a conclusion names, the mechanism it renders, the chain-level validation tests and
  proof by exclusion (7.1.1).
\<close>

section \<open>AND-sets\<close>

definition group_key :: "string option \<Rightarrow> string option" where
  "group_key g = (case g of Some k \<Rightarrow> if list_all isspace_ch k then None else Some k | None \<Rightarrow> None)"

definition incoming_and_groups ::
    "string \<Rightarrow> causal_edge list \<Rightarrow> (string option, string list) pydict" where
  "incoming_and_groups nid edges =
    fold (\<lambda>e groups.
        if edge_effect e = nid
        then let key = group_key (edge_group e)
             in dict_put key ((case dict_get groups key of None \<Rightarrow> [] | Some cs \<Rightarrow> cs) @ [edge_cause e])
                  groups
        else groups) edges []"

text \<open>The members of one group, in edge order.\<close>

definition group_members :: "string \<Rightarrow> string option \<Rightarrow> causal_edge list \<Rightarrow> string list" where
  "group_members nid key edges =
    map edge_cause (filter (\<lambda>e. edge_effect e = nid \<and> group_key (edge_group e) = key) edges)"

lemma group_members_snoc:
  "group_members nid key (edges @ [e]) =
    group_members nid key edges
    @ (if edge_effect e = nid \<and> group_key (edge_group e) = key then [edge_cause e] else [])"
  by (simp add: group_members_def)

lemma incoming_and_groups_snoc:
  "incoming_and_groups nid (edges @ [e]) =
    (if edge_effect e = nid
     then dict_put (group_key (edge_group e))
        ((case dict_get (incoming_and_groups nid edges) (group_key (edge_group e)) of
            None \<Rightarrow> [] | Some cs \<Rightarrow> cs) @ [edge_cause e]) (incoming_and_groups nid edges)
     else incoming_and_groups nid edges)"
  by (simp add: incoming_and_groups_def Let_def)

lemma incoming_and_groups_get [dict_simps]:
  "dict_get (incoming_and_groups nid edges) key =
    (if group_members nid key edges = [] then None else Some (group_members nid key edges))"
proof (induction edges rule: rev_induct)
  case Nil
  then show ?case by (simp add: incoming_and_groups_def group_members_def)
next
  case (snoc e edges)
  then show ?case
    by (simp add: incoming_and_groups_snoc group_members_snoc) (auto simp: group_members_snoc)
qed

lemma incoming_and_groups_wf [simp]: "dict_wf (incoming_and_groups nid edges)"
proof (induction edges rule: rev_induct)
  case Nil
  then show ?case by (simp add: incoming_and_groups_def dict_keys_def)
next
  case (snoc e edges)
  then show ?case by (simp add: incoming_and_groups_snoc)
qed

lemma incoming_and_groups_items:
  "(key, cs) \<in> set (incoming_and_groups nid edges) \<longleftrightarrow>
     cs = group_members nid key edges \<and> cs \<noteq> []"
  using dict_get_mem [OF incoming_and_groups_wf, of nid edges key cs]
  by (auto simp: incoming_and_groups_get split: if_splits)

lemma set_group_members:
  "set (group_members nid key edges) =
    {edge_cause e | e. e \<in> set edges \<and> edge_effect e = nid \<and> group_key (edge_group e) = key}"
  by (auto simp: group_members_def)

section \<open>States, links and conjuncts\<close>

definition state_of :: "string \<Rightarrow> (string, causal_node) pydict \<Rightarrow> node_state option" where
  "state_of nid nodes = map_option node_state (dict_get nodes nid)"

definition chain_evidence_links :: "case_data \<Rightarrow> hypothesis \<Rightarrow> evidence_link list" where
  "chain_evidence_links c hyp =
    (let chain_ids =
           (if truthy (hyp_root hyp) \<and> or_empty (hyp_root hyp) \<notin> set (hyp_path hyp)
            then or_empty (hyp_root hyp) # hyp_path hyp else hyp_path hyp)
     in map plain_link (hyp_links hyp)
        @ concat (map (\<lambda>nid. case dict_get (case_nodes c) nid of
              Some node \<Rightarrow> if node_type node \<noteq> PROBLEM then map plain_link (node_links node) else []
            | None \<Rightarrow> []) chain_ids))"

definition validated_and_conjuncts :: "case_data \<Rightarrow> string list \<Rightarrow> string list" where
  "validated_and_conjuncts c chain_node_ids =
    (let statements = concat (map (\<lambda>nid.
           concat (map (\<lambda>(and_group, cause_ids).
             if and_group = None then []
             else concat (map (\<lambda>cause_id.
               if cause_id \<in> set chain_node_ids then []
               else case dict_get (case_nodes c) cause_id of
                      None \<Rightarrow> []
                    | Some node \<Rightarrow> if node_state node \<noteq> VALIDATED then [] else [node_statement node])
               cause_ids))
             (incoming_and_groups nid (case_edges c)))) chain_node_ids)
     in sorted_list_of_set (set statements))"

text \<open>
  The rung separator is U+2192 between two spaces. It is the one code point above 255 that a
  modelled operation writes; the model writes the control character SUBSTITUTE for it.
\<close>

definition RUNG_ARROW :: string where
  "RUNG_ARROW = [CHR '' '', CHR 0x1A, CHR '' '']"

fun join_with :: "string \<Rightarrow> string list \<Rightarrow> string" where
  "join_with sep [] = []"
| "join_with sep [x] = x"
| "join_with sep (x # xs) = x @ sep @ join_with sep xs"

definition mechanism_for_chain :: "case_data \<Rightarrow> hypothesis \<Rightarrow> string" where
  "mechanism_for_chain c hyp =
    (let inter = concat (map (\<lambda>nid. case dict_get (case_nodes c) nid of
                    Some n \<Rightarrow> [node_statement n] | None \<Rightarrow> []) (butlast (tl (hyp_path hyp))))
     in take 2000 (if inter \<noteq> [] then join_with RUNG_ARROW inter
                   else ''Directly produces the observed problem.''))"

definition conjuncts_for_chain ::
    "case_data \<Rightarrow> hypothesis option \<Rightarrow> causal_node option \<Rightarrow> string list" where
  "conjuncts_for_chain c hyp root_nd =
    (let chain = (case hyp of Some h \<Rightarrow> hyp_path h | None \<Rightarrow> []) in
     if chain \<noteq> [] then validated_and_conjuncts c chain
     else let of_root = (case root_nd of Some n \<Rightarrow> node_id n | None \<Rightarrow> []);
              root_id = (if of_root \<noteq> [] then of_root
                         else (case hyp of Some h \<Rightarrow> or_empty (hyp_root h) | None \<Rightarrow> []));
              problem_id = (case problem_node (case_nodes c) of Some n \<Rightarrow> node_id n | None \<Rightarrow> [])
          in validated_and_conjuncts c (filter (\<lambda>x. x \<noteq> []) [root_id, problem_id]))"

section \<open>The M7 gate\<close>

definition and_constraints_refuted ::
    "string \<Rightarrow> (string, causal_node) pydict \<Rightarrow> causal_edge list \<Rightarrow> bool" where
  "and_constraints_refuted nid nodes edges =
    list_ex (\<lambda>(and_group, cause_ids).
        and_group \<noteq> None \<and> list_ex (\<lambda>cid. state_of cid nodes = Some REFUTED) cause_ids)
      (incoming_and_groups nid edges)"

definition and_constraints_satisfied ::
    "string \<Rightarrow> (string, causal_node) pydict \<Rightarrow> causal_edge list \<Rightarrow> bool" where
  "and_constraints_satisfied nid nodes edges =
    list_all (\<lambda>(and_group, cause_ids).
        and_group = None \<or> list_all (\<lambda>cid. state_of cid nodes = Some VALIDATED) cause_ids)
      (incoming_and_groups nid edges)"

section \<open>Chain roots\<close>

definition is_chain_root_validated :: "hypothesis \<Rightarrow> (string, causal_node) pydict \<Rightarrow> bool" where
  "is_chain_root_validated h nodes =
    (if \<not> truthy (hyp_root h) then False
     else state_of (or_empty (hyp_root h)) nodes = Some VALIDATED)"

definition is_chain_root_identified :: "hypothesis \<Rightarrow> (string, causal_node) pydict \<Rightarrow> bool" where
  "is_chain_root_identified h nodes =
    (case dict_get nodes (or_empty (hyp_root h)) of
       None \<Rightarrow> False | Some n \<Rightarrow> is_identified_root n)"

section \<open>Proof by exclusion\<close>

definition DEDUCTIVE_EXCLUSION_MAX_BELIEF :: rat where
  "DEDUCTIVE_EXCLUSION_MAX_BELIEF = 5 / 100"

definition deductively_validated ::
    "string \<Rightarrow> string list \<Rightarrow> (string, causal_node) pydict \<Rightarrow> bool \<Rightarrow> bool" where
  "deductively_validated survivor_id or_set_ids nodes exhaustive =
    (if \<not> exhaustive then False
     else let members = dict_fromkeys or_set_ids in
       if survivor_id \<notin> set members \<or> length members < 2 then False
       else list_all (\<lambda>cid. cid = survivor_id \<or>
              (case dict_get nodes cid of None \<Rightarrow> False
               | Some node \<Rightarrow> node_state node = REFUTED
                             \<and> node_belief node \<le> DEDUCTIVE_EXCLUSION_MAX_BELIEF)) members)"

section \<open>Properties of the queries\<close>

text \<open>The AND-parents of a node: the members of its real groups.\<close>

definition and_parents :: "string \<Rightarrow> causal_edge list \<Rightarrow> string set" where
  "and_parents nid edges =
    {edge_cause e | e. e \<in> set edges \<and> edge_effect e = nid \<and> group_key (edge_group e) \<noteq> None}"

lemma items_and_parents:
  "(\<exists>(g, cs) \<in> set (incoming_and_groups nid edges). g \<noteq> None \<and> x \<in> set cs)
     \<longleftrightarrow> x \<in> and_parents nid edges"
proof
  assume "\<exists>(g, cs) \<in> set (incoming_and_groups nid edges). g \<noteq> None \<and> x \<in> set cs"
  then show "x \<in> and_parents nid edges"
    by (fastforce simp: incoming_and_groups_items set_group_members and_parents_def)
next
  assume "x \<in> and_parents nid edges"
  then obtain e where e: "e \<in> set edges" "edge_effect e = nid" "group_key (edge_group e) \<noteq> None"
      "x = edge_cause e"
    by (auto simp: and_parents_def)
  let ?g = "group_key (edge_group e)"
  have "x \<in> set (group_members nid ?g edges)" using e by (auto simp: set_group_members)
  then have "(?g, group_members nid ?g edges) \<in> set (incoming_and_groups nid edges)"
    by (auto simp: incoming_and_groups_items)
  with e \<open>x \<in> set (group_members nid ?g edges)\<close>
  show "\<exists>(g, cs) \<in> set (incoming_and_groups nid edges). g \<noteq> None \<and> x \<in> set cs" by blast
qed

lemma satisfied_iff_parents:
  "and_constraints_satisfied nid nodes edges \<longleftrightarrow>
     (\<forall>x \<in> and_parents nid edges. state_of x nodes = Some VALIDATED)"
proof -
  have "and_constraints_satisfied nid nodes edges \<longleftrightarrow>
      (\<forall>x. (\<exists>(g, cs) \<in> set (incoming_and_groups nid edges). g \<noteq> None \<and> x \<in> set cs)
           \<longrightarrow> state_of x nodes = Some VALIDATED)"
    by (force simp: and_constraints_satisfied_def list_all_iff)
  then show ?thesis unfolding items_and_parents by blast
qed

lemma refuted_iff_parents:
  "and_constraints_refuted nid nodes edges \<longleftrightarrow>
     (\<exists>x \<in> and_parents nid edges. state_of x nodes = Some REFUTED)"
proof -
  have "and_constraints_refuted nid nodes edges \<longleftrightarrow>
      (\<exists>x. (\<exists>(g, cs) \<in> set (incoming_and_groups nid edges). g \<noteq> None \<and> x \<in> set cs)
           \<and> state_of x nodes = Some REFUTED)"
    by (force simp: and_constraints_refuted_def list_ex_iff)
  then show ?thesis unfolding items_and_parents by blast
qed

lemma satisfied_not_refuted:
  "and_constraints_satisfied nid nodes edges \<Longrightarrow> \<not> and_constraints_refuted nid nodes edges"
  by (force simp: satisfied_iff_parents refuted_iff_parents)

lemma deductively_validated_iff:
  "deductively_validated s ids nodes ex \<longleftrightarrow>
     ex \<and> s \<in> set ids \<and> (\<exists>x \<in> set ids. x \<noteq> s)
     \<and> (\<forall>x \<in> set ids. x \<noteq> s \<longrightarrow> (\<exists>n. dict_get nodes x = Some n \<and> node_state n = REFUTED
            \<and> node_belief n \<le> DEDUCTIVE_EXCLUSION_MAX_BELIEF))"
proof -
  have two: "s \<in> set ids \<Longrightarrow> \<not> length (dict_fromkeys ids) < 2 \<longleftrightarrow> (\<exists>x \<in> set ids. x \<noteq> s)"
  proof -
    assume s: "s \<in> set ids"
    have card: "card (set ids) = length (dict_fromkeys ids)"
      by (metis distinct_card distinct_dict_fromkeys set_dict_fromkeys)
    show ?thesis
    proof
      assume "\<not> length (dict_fromkeys ids) < 2"
      then have "\<not> set ids \<subseteq> {s}" using card card_mono [of "{s}" "set ids"] by auto
      then show "\<exists>x \<in> set ids. x \<noteq> s" by auto
    next
      assume "\<exists>x \<in> set ids. x \<noteq> s"
      then obtain x where "x \<in> set ids" "x \<noteq> s" by blast
      with s have "{s, x} \<subseteq> set ids" "card {s, x} = 2" by auto
      then show "\<not> length (dict_fromkeys ids) < 2" using card card_mono [of "set ids" "{s, x}"] by auto
    qed
  qed
  show ?thesis
    using two
    by (fastforce simp: deductively_validated_def Let_def list_all_iff split: option.splits if_splits)
qed

lemma deductively_validated_cong:
  "set ids = set ids' \<Longrightarrow> deductively_validated s ids nodes ex = deductively_validated s ids' nodes ex"
  by (simp add: deductively_validated_iff)

section \<open>Properties\<close>

text \<open>The M7 gate of a node is open exactly when every direct cause bound to it by a non-blank
  AND-group is VALIDATED; a cause that is missing keeps it shut, an OR-alternative never does.\<close>

theorem and_gate_iff_parents_validated:
  "and_constraints_satisfied nid nodes edges \<longleftrightarrow>
     (\<forall>e \<in> set edges. edge_effect e = nid \<and> group_key (edge_group e) \<noteq> None \<longrightarrow>
        (\<exists>n. dict_get nodes (edge_cause e) = Some n \<and> node_state n = VALIDATED))"
  unfolding satisfied_iff_parents by (auto simp: and_parents_def state_of_def)

theorem and_gate_iff_parents_validated_witness:
  "\<not> and_constraints_satisfied ''m'' []
     [\<lparr>edge_cause = ''r'', edge_effect = ''m'', edge_group = Some ''g'', edge_reasoning = None,
       edge_created_at_turn = 1\<rparr>]"
  by (simp add: and_gate_iff_parents_validated group_key_def isspace_ch_def)

end
