(* ===== verification/Examples.thy ===== *)
theory Examples
  imports Case_Model
begin

text \<open>
  One concrete case the witnesses of the properties evaluate: a problem, two competing roots and a
  mechanism rung, with five rows of evidence. The first root is supported by two distinct
  observations and feeds the rung through an AND-group; the second is refuted by the observation
  that the problem persisted without it. No definition of this theory models code.
\<close>

definition ex_node :: "string \<Rightarrow> node_type \<Rightarrow> string \<Rightarrow> node_link list \<Rightarrow> causal_node" where
  "ex_node i t s ls = \<lparr>node_id = i, node_statement = s, node_type = t, node_state = CANDIDATE,
     node_method = NONE, node_belief = 1 / 2, node_actionable = False, node_links = ls,
     node_generated_at_turn = 1, node_refutation_reason = None, node_metadata = []\<rparr>"

definition ex_link :: "string \<Rightarrow> evidence_stance \<Rightarrow> node_link" where
  "ex_link i s = \<lparr>link_evidence_id = i, link_stance = s, link_confidence = Some (9 / 10),
     link_reasoning = '''', link_linked_at_turn = 2\<rparr>"

definition ex_row :: "string \<Rightarrow> evidence_category \<Rightarrow> string \<Rightarrow> evidence" where
  "ex_row i cat s = \<lparr>ev_id = i, ev_category = cat, ev_summary = s, ev_extract = None,
     ev_source_type = LOGS, ev_source_file_id = None, ev_collected_by = ''user'',
     ev_collected_at_turn = 1\<rparr>"

definition ex_edge :: "string \<Rightarrow> string \<Rightarrow> string option \<Rightarrow> causal_edge" where
  "ex_edge a b g = \<lparr>edge_cause = a, edge_effect = b, edge_group = g, edge_reasoning = None,
     edge_created_at_turn = 1\<rparr>"

definition ex_case :: case_data where
  "ex_case = \<lparr>
     case_nodes = [
       (''D'', ex_node ''D'' PROBLEM ''checkout fails'' []),
       (''M'', ex_node ''M'' INTERMEDIATE ''pool drained'' [ex_link ''e1'' SUPPORTS]),
       (''R1'', ex_node ''R1'' ROOT ''session leak'' [ex_link ''e1'' SUPPORTS, ex_link ''e2'' SUPPORTS]),
       (''R2'', ex_node ''R2'' ROOT ''expired cert'' [ex_link ''e3'' REFUTES])],
     case_edges = [ex_edge ''R1'' ''M'' (Some ''g''), ex_edge ''M'' ''D'' None, ex_edge ''R2'' ''D'' None],
     case_evidence = [
       ex_row ''e1'' CAUSAL_EVIDENCE ''pool at limit'',
       ex_row ''e2'' CAUSAL_EVIDENCE ''handler leaks session'',
       ex_row ''e3'' CAUSAL_ABSENCE_EVIDENCE ''cert renewed''],
     case_hypotheses = [],
     case_symptom_statement = None,
     case_current_turn = 3,
     case_conclusion = None,
     case_solutions = [],
     case_actions = [],
     case_prog = \<lparr>prog_cause_state = CS_UNKNOWN, prog_identified_cause_root_ids = [],
       prog_root_cause_likelihood = 0, prog_held_open = False\<rparr>,
     case_rechecks = [],
     case_verifying_ids = [],
     case_uploads = []\<rparr>"

lemma ex_nodes_ok: "nodes_ok (case_nodes ex_case)"
  by code_simp

lemma ex_node_get:
  "dict_get (case_nodes ex_case) ''R2'' = Some (ex_node ''R2'' ROOT ''expired cert'' [ex_link ''e3'' REFUTES])"
  "dict_get (case_nodes ex_case) ''R1'' =
     Some (ex_node ''R1'' ROOT ''session leak'' [ex_link ''e1'' SUPPORTS, ex_link ''e2'' SUPPORTS])"
  by (simp_all add: ex_case_def)

text \<open>A case whose only root restates the symptom.\<close>

definition ex_restating :: case_data where
  "ex_restating = ex_case\<lparr>case_nodes := [(''R'', ex_node ''R'' ROOT ''leak'' [])],
     case_edges := [], case_evidence := [], case_symptom_statement := Some ''leak''\<rparr>"

end
