(* ===== verification/Projection.thy ===== *)
theory Projection
  imports Chain_Queries Examples
begin

text \<open>
  Standing causes and the projection of hypothesis states from their chain roots:
  \<open>core/investigation/causal_graph/projection.py\<close>. The projection is the sole producer of a
  VALIDATED hypothesis.
\<close>

section \<open>Standing hypotheses\<close>

definition STANDING_HYP_STATES :: "hypothesis_state list" where
  "STANDING_HYP_STATES = [H_ACTIVE, H_VALIDATED]"

definition standing_hypotheses :: "case_data \<Rightarrow> hypothesis list" where
  "standing_hypotheses c =
    filter (\<lambda>h. hyp_state h \<in> set STANDING_HYP_STATES) (dict_values (case_hypotheses c))"

definition any_chain_root_validated :: "case_data \<Rightarrow> bool" where
  "any_chain_root_validated c =
    list_ex (\<lambda>h. is_chain_root_validated h (case_nodes c)) (standing_hypotheses c)"

text \<open>The sets of root ids are sets of \<open>root_node_id\<close> values, as in the code.\<close>

definition identified_root_ids :: "case_data \<Rightarrow> string option set" where
  "identified_root_ids c =
    set (map hyp_root (filter (\<lambda>h. is_chain_root_identified h (case_nodes c)) (standing_hypotheses c)))"

definition any_chain_root_identified :: "case_data \<Rightarrow> bool" where
  "any_chain_root_identified c \<longleftrightarrow> identified_root_ids c \<noteq> {}"

definition held_open_root_ids :: "case_data \<Rightarrow> string option set" where
  "held_open_root_ids c =
    (let nodes = case_nodes c in
     set (map hyp_root (filter (\<lambda>h.
        (case hyp_root h of
           None \<Rightarrow> False
         | Some r \<Rightarrow>
             (case dict_get nodes r of
                None \<Rightarrow> False
              | Some n \<Rightarrow> node_state n \<noteq> REFUTED
                   \<and> \<not> is_chain_root_identified h nodes
                   \<and> (is_chain_root_validated h nodes \<or> root_terminal n = Some False))))
        (standing_hypotheses c))))"

section \<open>The projection\<close>

definition root_validated :: "(string, causal_node) pydict \<Rightarrow> hypothesis \<Rightarrow> bool" where
  "root_validated nodes h =
    (case (if truthy (hyp_root h) then dict_get nodes (or_empty (hyp_root h)) else None) of
       None \<Rightarrow> False | Some n \<Rightarrow> node_state n = VALIDATED)"

text \<open>
  One iteration of the loop: the hypothesis after it, whether it moved, and whether it crossed
  into VALIDATED.
\<close>

definition project_hypothesis ::
    "(string, causal_node) pydict \<Rightarrow> int \<Rightarrow> hypothesis \<Rightarrow> hypothesis \<times> bool \<times> bool" where
  "project_hypothesis nodes current_turn h =
    (if hyp_state h \<notin> {H_ACTIVE, H_VALIDATED} then (h, False, False)
     else if root_validated nodes h \<and> hyp_state h \<noteq> H_VALIDATED
     then (h\<lparr>hyp_state := H_VALIDATED\<rparr>, True, True)
     else if \<not> root_validated nodes h \<and> hyp_state h = H_VALIDATED
     then (h\<lparr>hyp_state := H_ACTIVE, hyp_last_progress_at_turn := current_turn,
             hyp_last_updated_turn := current_turn, hyp_iterations_without_progress := 0\<rparr>,
           True, False)
     else (h, False, False))"

record hypothesis_projection =
  proj_changed :: bool
  proj_newly_validated :: "string list"

definition project_hypothesis_states_from_roots ::
    "case_data \<Rightarrow> case_data \<times> hypothesis_projection" where
  "project_hypothesis_states_from_roots c =
    (let step = (\<lambda>h. project_hypothesis (case_nodes c) (case_current_turn c) h);
         hyps = case_hypotheses c
     in (c\<lparr>case_hypotheses := map (\<lambda>(k, h). (k, fst (step h))) hyps\<rparr>,
         \<lparr>proj_changed = list_ex (\<lambda>(k, h). fst (snd (step h))) hyps,
          proj_newly_validated = map (\<lambda>(k, h). hyp_id h) (filter (\<lambda>(k, h). snd (snd (step h))) hyps)\<rparr>))"

section \<open>Lemmas\<close>

lemma standing_iff: "hyp_state h \<in> set STANDING_HYP_STATES \<longleftrightarrow> hyp_state h = H_ACTIVE \<or> hyp_state h = H_VALIDATED"
  by (auto simp: STANDING_HYP_STATES_def)

lemma set_standing_hypotheses:
  "set (standing_hypotheses c) =
    {h \<in> set (dict_values (case_hypotheses c)). hyp_state h = H_ACTIVE \<or> hyp_state h = H_VALIDATED}"
  by (auto simp: standing_hypotheses_def STANDING_HYP_STATES_def)

lemma root_validated_eq: "root_validated nodes h = is_chain_root_validated h nodes"
  by (auto simp: root_validated_def is_chain_root_validated_def state_of_def split: option.splits)

lemma project_hypothesis_state:
  "hyp_state (fst (project_hypothesis nodes t h)) =
    (if hyp_state h \<in> {H_ACTIVE, H_VALIDATED}
     then (if root_validated nodes h then H_VALIDATED else H_ACTIVE) else hyp_state h)"
  by (cases "hyp_state h") (auto simp: project_hypothesis_def)

lemma project_hypothesis_frame [simp]:
  "hyp_id (fst (project_hypothesis nodes t h)) = hyp_id h"
  "hyp_root (fst (project_hypothesis nodes t h)) = hyp_root h"
  "hyp_path (fst (project_hypothesis nodes t h)) = hyp_path h"
  "hyp_statement (fst (project_hypothesis nodes t h)) = hyp_statement h"
  "hyp_links (fst (project_hypothesis nodes t h)) = hyp_links h"
  "hyp_refutation_reason (fst (project_hypothesis nodes t h)) = hyp_refutation_reason h"
  by (auto simp: project_hypothesis_def)

lemma project_hypothesis_ok [wf_intros]:
  "hypothesis_ok h \<Longrightarrow> hypothesis_ok (fst (project_hypothesis nodes t h))"
  by (auto simp: hypothesis_ok_def project_hypothesis_def)

lemma root_validated_cong: "hyp_root h = hyp_root h' \<Longrightarrow> root_validated nodes h = root_validated nodes h'"
  by (simp add: root_validated_def)

lemma project_hypothesis_idem:
  "project_hypothesis nodes t (fst (project_hypothesis nodes t h)) =
    (fst (project_hypothesis nodes t h), False, False)"
proof -
  let ?h = "fst (project_hypothesis nodes t h)"
  have rv: "root_validated nodes ?h = root_validated nodes h"
    by (rule root_validated_cong) simp
  have st: "hyp_state ?h = (if hyp_state h \<in> {H_ACTIVE, H_VALIDATED}
      then (if root_validated nodes h then H_VALIDATED else H_ACTIVE) else hyp_state h)"
    by (rule project_hypothesis_state)
  show ?thesis
  proof (cases "hyp_state h \<in> {H_ACTIVE, H_VALIDATED}")
    case True
    with st have "hyp_state ?h = (if root_validated nodes h then H_VALIDATED else H_ACTIVE)" by simp
    with rv show ?thesis by (simp only: project_hypothesis_def [of nodes t ?h]) simp
  next
    case False
    with st have "hyp_state ?h \<notin> {H_ACTIVE, H_VALIDATED}" by simp
    then show ?thesis by (simp only: project_hypothesis_def [of nodes t ?h]) simp
  qed
qed

lemma project_hypothesis_unchanged:
  assumes "\<not> fst (snd (project_hypothesis nodes t h))"
  shows "fst (project_hypothesis nodes t h) = h"
proof -
  obtain h' ch nv where p: "project_hypothesis nodes t h = (h', ch, nv)"
    by (metis surj_pair)
  with assms have "\<not> ch" by simp
  with p have "h' = h" unfolding project_hypothesis_def by (simp split: if_split_asm)
  with p show ?thesis by simp
qed

lemma dict_keys_map_snd [simp]: "dict_keys (map (\<lambda>(k, v). (k, f v)) d) = dict_keys d"
  by (simp add: dict_keys_def case_prod_beta comp_def)

lemma dict_get_map_snd [simp]:
  "dict_get (map (\<lambda>(k, v). (k, f v)) d) k = map_option f (dict_get d k)"
  by (induction d) auto

lemma dict_values_map_snd [simp]: "dict_values (map (\<lambda>(k, v). (k, f v)) d) = map f (dict_values d)"
  by (simp add: dict_values_def case_prod_beta comp_def)

lemma projected_hypotheses:
  "case_hypotheses (fst (project_hypothesis_states_from_roots c)) =
    map (\<lambda>(k, h). (k, fst (project_hypothesis (case_nodes c) (case_current_turn c) h)))
      (case_hypotheses c)"
  by (simp add: project_hypothesis_states_from_roots_def Let_def)

lemma projected_frame [simp]:
  "case_nodes (fst (project_hypothesis_states_from_roots c)) = case_nodes c"
  "case_edges (fst (project_hypothesis_states_from_roots c)) = case_edges c"
  "case_evidence (fst (project_hypothesis_states_from_roots c)) = case_evidence c"
  "case_current_turn (fst (project_hypothesis_states_from_roots c)) = case_current_turn c"
  by (simp_all add: project_hypothesis_states_from_roots_def Let_def)

lemma projected_hypotheses_ok [wf_intros]:
  "hypotheses_ok (case_hypotheses c) \<Longrightarrow>
    hypotheses_ok (case_hypotheses (fst (project_hypothesis_states_from_roots c)))"
  by (auto simp: hypotheses_ok_def projected_hypotheses intro: project_hypothesis_ok)

lemma projected_get:
  "dict_get (case_hypotheses (fst (project_hypothesis_states_from_roots c))) k =
    map_option (\<lambda>h. fst (project_hypothesis (case_nodes c) (case_current_turn c) h))
      (dict_get (case_hypotheses c) k)"
  by (simp add: projected_hypotheses)

section \<open>Properties\<close>

text \<open>After the projection a standing hypothesis is VALIDATED exactly when the node its chain is
  rooted in is VALIDATED, and ACTIVE otherwise; every other hypothesis is left as it was.\<close>

theorem projection_follows_roots:
  assumes "dict_get (case_hypotheses c) k = Some h"
  shows "\<exists>h'. dict_get (case_hypotheses (fst (project_hypothesis_states_from_roots c))) k = Some h'
     \<and> (if hyp_state h \<in> {H_ACTIVE, H_VALIDATED}
        then hyp_state h' = (if is_chain_root_validated h (case_nodes c) then H_VALIDATED else H_ACTIVE)
        else h' = h)
     \<and> hyp_root h' = hyp_root h \<and> hyp_path h' = hyp_path h \<and> hyp_links h' = hyp_links h"
  using assms
  by (auto simp: projected_get project_hypothesis_state root_validated_eq)
     (simp_all add: project_hypothesis_def)

definition ex_hypothesis :: hypothesis where
  "ex_hypothesis = \<lparr>hyp_id = ''h'', hyp_statement = ''session leak'', hyp_category = CODE,
     hyp_state = H_ACTIVE, hyp_likelihood = 1 / 2, hyp_initial_likelihood = 1 / 2,
     hyp_root = Some ''R1'', hyp_path = [''R1'', ''M'', ''D''], hyp_links = [], hyp_generated_at_turn = 1,
     hyp_last_updated_turn = 1, hyp_last_progress_at_turn = 1, hyp_iterations_without_progress = 0,
     hyp_generation_mode = SYSTEMATIC, hyp_retirement_reason = None, hyp_refutation_reason = None, hyp_rationale = ''first look''\<rparr>"

theorem projection_follows_roots_witness:
  "\<exists>h'. dict_get (case_hypotheses (fst (project_hypothesis_states_from_roots
      (ex_case\<lparr>case_hypotheses := [(''h'', ex_hypothesis)]\<rparr>)))) ''h'' = Some h' \<and> hyp_root h' = Some ''R1''"
  using projection_follows_roots [of "ex_case\<lparr>case_hypotheses := [(''h'', ex_hypothesis)]\<rparr>" "''h''" ex_hypothesis]
  by (auto simp: ex_hypothesis_def)

text \<open>Projecting twice is projecting once: the second run changes no hypothesis and reports that
  nothing changed and nothing was newly validated.\<close>

theorem projection_idempotent:
  "project_hypothesis_states_from_roots (fst (project_hypothesis_states_from_roots c)) =
    (fst (project_hypothesis_states_from_roots c), \<lparr>proj_changed = False, proj_newly_validated = []\<rparr>)"
  by (auto simp: project_hypothesis_states_from_roots_def Let_def project_hypothesis_idem list_ex_iff
      filter_empty_conv comp_def case_prod_beta)

end
