(* ===== verification/Evidence_Links.thy ===== *)
theory Evidence_Links
  imports Projection
begin

text \<open>
  How evidence bears on a node: the link predicates of \<open>core/investigation/cause_assurance.py\<close>
  and the tally of \<open>core/investigation/causal_graph/support.py\<close>.
\<close>

section \<open>Links and rows\<close>

definition CAUSAL_STANCE_CONFIDENCE_MIN :: rat where
  "CAUSAL_STANCE_CONFIDENCE_MIN = 6 / 10"

definition stance_declared_confident :: "'a evidence_link_scheme \<Rightarrow> bool" where
  "stance_declared_confident l =
    (let confidence = (case link_confidence l of None \<Rightarrow> 1 | Some x \<Rightarrow> x)
     in confidence \<ge> CAUSAL_STANCE_CONFIDENCE_MIN)"

definition counterfactual_link_decisive :: "'a evidence_link_scheme \<Rightarrow> bool" where
  "counterfactual_link_decisive l = stance_declared_confident l"

definition absence_row_link_refused :: "evidence_category option \<Rightarrow> bool" where
  "absence_row_link_refused category \<longleftrightarrow>
     category \<in> {Some CAUSAL_ABSENCE_EVIDENCE, Some SYMPTOM_ABSENCE_EVIDENCE}"

definition evidence_category_map :: "case_data \<Rightarrow> (string, evidence_category) pydict" where
  "evidence_category_map c = fold (\<lambda>e d. dict_put (ev_id e) (ev_category e) d) (case_evidence c) []"

text \<open>The identity of the observation a row carries.\<close>

datatype datum_key = UniqueRow string | Datum "string option" string

definition evidence_datum_key :: "evidence \<Rightarrow> datum_key" where
  "evidence_datum_key row =
    (if \<not> truthy (ev_extract row) then UniqueRow (ev_id row)
     else Datum (ev_source_file_id row)
       (map lower_ch (join_with '' '' (split_words (or_empty (ev_extract row))))))"

definition problem_anchor_statements :: "case_data \<Rightarrow> string list" where
  "problem_anchor_statements c =
    map node_statement (filter (\<lambda>n. node_type n = PROBLEM \<and> node_statement n \<noteq> [])
      (dict_values (case_nodes c)))
    @ (if truthy (case_symptom_statement c) then [or_empty (case_symptom_statement c)] else [])"

definition validated_roots :: "case_data \<Rightarrow> causal_node list" where
  "validated_roots c =
    filter (\<lambda>n. node_type n = ROOT \<and> node_state n = VALIDATED) (dict_values (case_nodes c))"

definition root_counterfactually_confirmed ::
    "causal_node \<Rightarrow> (string, evidence_category) pydict \<Rightarrow> bool" where
  "root_counterfactually_confirmed node cats =
    list_ex (\<lambda>l. link_stance l = SUPPORTS
        \<and> dict_get cats (link_evidence_id l) = Some CAUSAL_ABSENCE_EVIDENCE) (node_links node)"

section \<open>The tally of a node\<close>

record node_tally =
  t_supports :: nat
  t_refutes :: nat
  t_causal_support_ev_ids :: "string list"
  t_raw_causal_links :: nat
  t_counterfactual_refutes :: nat
  t_hedged_refutes :: nat

definition empty_tally :: node_tally where
  "empty_tally = \<lparr>t_supports = 0, t_refutes = 0, t_causal_support_ev_ids = [],
     t_raw_causal_links = 0, t_counterfactual_refutes = 0, t_hedged_refutes = 0\<rparr>"

definition tally_link ::
    "(string, evidence_category) pydict \<Rightarrow> 'a evidence_link_scheme \<Rightarrow> node_tally \<Rightarrow> node_tally" where
  "tally_link cats l t =
    (case dict_get cats (link_evidence_id l) of
       None \<Rightarrow> t
     | Some category \<Rightarrow>
        (case link_stance l of
           SUPPORTS \<Rightarrow>
             (let t1 = t\<lparr>t_supports := t_supports t + 1\<rparr> in
              if category = CAUSAL_EVIDENCE
              then let t2 = t1\<lparr>t_raw_causal_links := t_raw_causal_links t1 + 1\<rparr>;
                       confidence = (case link_confidence l of None \<Rightarrow> 1 | Some x \<Rightarrow> x)
                   in if confidence \<ge> CAUSAL_STANCE_CONFIDENCE_MIN
                         \<and> link_evidence_id l \<notin> set (t_causal_support_ev_ids t2)
                      then t2\<lparr>t_causal_support_ev_ids :=
                                t_causal_support_ev_ids t2 @ [link_evidence_id l]\<rparr>
                      else t2
              else t1)
         | REFUTES \<Rightarrow>
             (if \<not> stance_declared_confident l
              then t\<lparr>t_hedged_refutes := t_hedged_refutes t + 1\<rparr>
              else let t1 = t\<lparr>t_refutes := t_refutes t + 1\<rparr> in
                if category = CAUSAL_ABSENCE_EVIDENCE \<and> counterfactual_link_decisive l
                then t1\<lparr>t_counterfactual_refutes := t_counterfactual_refutes t1 + 1\<rparr>
                else t1)
         | NEUTRAL \<Rightarrow> t))"

definition node_evidence_tally ::
    "causal_node \<Rightarrow> (string, evidence_category) pydict \<Rightarrow> node_tally" where
  "node_evidence_tally node cats = fold (tally_link cats) (node_links node) empty_tally"

section \<open>Lemmas\<close>

lemmas link_defs =
  stance_declared_confident_def counterfactual_link_decisive_def CAUSAL_STANCE_CONFIDENCE_MIN_def

lemma confident_plain [simp]: "stance_declared_confident (plain_link l) = stance_declared_confident l"
  by (simp add: stance_declared_confident_def)

text \<open>A row on the case is in the map; a row that is not on the case is not.\<close>

lemma category_map_fold_keys:
  "set (dict_keys (fold (\<lambda>e d. dict_put (ev_id e) (ev_category e) d) es d)) =
    set (dict_keys d) \<union> ev_id ` set es"
  by (induction es arbitrary: d) auto

lemma category_map_keys: "dict_get (evidence_category_map c) i \<noteq> None \<longleftrightarrow> i \<in> ev_id ` set (case_evidence c)"
  using category_map_fold_keys [of "case_evidence c" "[]"] dict_get_None_iff [of "evidence_category_map c" i]
  by (auto simp: evidence_category_map_def dict_keys_def)

lemma category_map_cong: "case_evidence c = case_evidence c' \<Longrightarrow> evidence_category_map c = evidence_category_map c'"
  by (simp add: evidence_category_map_def)

text \<open>What one link adds to each count of the tally.\<close>

definition counted :: "(string, evidence_category) pydict \<Rightarrow> 'a evidence_link_scheme \<Rightarrow> bool" where
  "counted cats l \<longleftrightarrow> dict_get cats (link_evidence_id l) \<noteq> None"

definition grounding_link :: "(string, evidence_category) pydict \<Rightarrow> 'a evidence_link_scheme \<Rightarrow> bool" where
  "grounding_link cats l \<longleftrightarrow> link_stance l = SUPPORTS
     \<and> dict_get cats (link_evidence_id l) = Some CAUSAL_EVIDENCE \<and> stance_declared_confident l"

definition decisive_refute :: "(string, evidence_category) pydict \<Rightarrow> 'a evidence_link_scheme \<Rightarrow> bool" where
  "decisive_refute cats l \<longleftrightarrow> link_stance l = REFUTES
     \<and> dict_get cats (link_evidence_id l) = Some CAUSAL_ABSENCE_EVIDENCE \<and> stance_declared_confident l"

lemma tally_link_counts:
  "t_supports (tally_link cats l t) = t_supports t + of_bool (counted cats l \<and> link_stance l = SUPPORTS)"
  "t_refutes (tally_link cats l t) =
     t_refutes t + of_bool (counted cats l \<and> link_stance l = REFUTES \<and> stance_declared_confident l)"
  "t_hedged_refutes (tally_link cats l t) =
     t_hedged_refutes t + of_bool (counted cats l \<and> link_stance l = REFUTES \<and> \<not> stance_declared_confident l)"
  "t_counterfactual_refutes (tally_link cats l t) =
     t_counterfactual_refutes t + of_bool (decisive_refute cats l)"
  "t_raw_causal_links (tally_link cats l t) = t_raw_causal_links t
     + of_bool (link_stance l = SUPPORTS \<and> dict_get cats (link_evidence_id l) = Some CAUSAL_EVIDENCE)"
  "set (t_causal_support_ev_ids (tally_link cats l t)) =
     set (t_causal_support_ev_ids t) \<union> (if grounding_link cats l then {link_evidence_id l} else {})"
  "distinct (t_causal_support_ev_ids t) \<Longrightarrow> distinct (t_causal_support_ev_ids (tally_link cats l t))"
  by (auto simp: tally_link_def Let_def counted_def grounding_link_def decisive_refute_def
      stance_declared_confident_def counterfactual_link_decisive_def
      split: option.splits evidence_stance.splits)

definition count_links :: "('l \<Rightarrow> bool) \<Rightarrow> 'l list \<Rightarrow> nat" where
  "count_links P ls = length (filter P ls)"

lemma tally_fold_counts:
  "t_supports (fold (tally_link cats) ls t) =
     t_supports t + count_links (\<lambda>l. counted cats l \<and> link_stance l = SUPPORTS) ls"
  "t_refutes (fold (tally_link cats) ls t) = t_refutes t
     + count_links (\<lambda>l. counted cats l \<and> link_stance l = REFUTES \<and> stance_declared_confident l) ls"
  "t_hedged_refutes (fold (tally_link cats) ls t) = t_hedged_refutes t
     + count_links (\<lambda>l. counted cats l \<and> link_stance l = REFUTES \<and> \<not> stance_declared_confident l) ls"
  "t_counterfactual_refutes (fold (tally_link cats) ls t) =
     t_counterfactual_refutes t + count_links (decisive_refute cats) ls"
  "set (t_causal_support_ev_ids (fold (tally_link cats) ls t)) =
     set (t_causal_support_ev_ids t) \<union> link_evidence_id ` {l \<in> set ls. grounding_link cats l}"
  "distinct (t_causal_support_ev_ids t) \<Longrightarrow>
     distinct (t_causal_support_ev_ids (fold (tally_link cats) ls t))"
  by (induction ls arbitrary: t) (auto simp: tally_link_counts count_links_def)

lemma tally_counts:
  "t_supports (node_evidence_tally n cats) =
     count_links (\<lambda>l. counted cats l \<and> link_stance l = SUPPORTS) (node_links n)"
  "t_refutes (node_evidence_tally n cats) =
     count_links (\<lambda>l. counted cats l \<and> link_stance l = REFUTES \<and> stance_declared_confident l) (node_links n)"
  "t_hedged_refutes (node_evidence_tally n cats) =
     count_links (\<lambda>l. counted cats l \<and> link_stance l = REFUTES \<and> \<not> stance_declared_confident l) (node_links n)"
  "t_counterfactual_refutes (node_evidence_tally n cats) = count_links (decisive_refute cats) (node_links n)"
  "set (t_causal_support_ev_ids (node_evidence_tally n cats)) =
     link_evidence_id ` {l \<in> set (node_links n). grounding_link cats l}"
  "distinct (t_causal_support_ev_ids (node_evidence_tally n cats))"
  by (simp_all add: node_evidence_tally_def tally_fold_counts empty_tally_def)

lemma count_links_pos: "1 \<le> count_links P ls \<longleftrightarrow> (\<exists>l \<in> set ls. P l)"
  by (auto simp: count_links_def Suc_le_eq filter_empty_conv)

lemma count_links_mono: "(\<And>l. P l \<Longrightarrow> Q l) \<Longrightarrow> count_links P ls \<le> count_links Q ls"
  by (induction ls) (auto simp: count_links_def)

text \<open>A counterfactual refutation is one of the counted refutations.\<close>

lemma counterfactual_le_refutes:
  "t_counterfactual_refutes (node_evidence_tally n cats) \<le> t_refutes (node_evidence_tally n cats)"
  by (auto simp: tally_counts decisive_refute_def counted_def intro: count_links_mono)

text \<open>
  The tally reads the links through their evidence ids, stances and confidences alone, and a
  link whose row is not on the case changes nothing.
\<close>

lemma tally_dangling:
  "dict_get cats (link_evidence_id l) = None \<Longrightarrow> tally_link cats l t = t"
  by (simp add: tally_link_def)

lemma node_evidence_tally_cong:
  "node_links n = node_links n' \<Longrightarrow> node_evidence_tally n cats = node_evidence_tally n' cats"
  by (simp add: node_evidence_tally_def)

lemma fold_dangling:
  "fold (tally_link cats) ls t = fold (tally_link cats) (filter (counted cats) ls) t"
  by (induction ls arbitrary: t) (auto simp: tally_dangling counted_def)

end
