(* ===== verification/Independence.thy ===== *)
theory Independence
  imports Evidence_Links
begin

text \<open>
  How many independent observations stand behind a root (INV-29): the search of
  \<open>core/investigation/causal_graph/support.py\<close> for the largest set of evidence rows no two of
  which mirror each other, exact up to fifteen rows and greedy beyond.
\<close>

section \<open>Independent observations (INV-29)\<close>

definition ROOT_INDEPENDENT_CAUSAL_SUPPORT_MIN :: nat where
  "ROOT_INDEPENDENT_CAUSAL_SUPPORT_MIN = 2"

definition EVIDENCE_MIRROR_JACCARD :: rat where
  "EVIDENCE_MIRROR_JACCARD = 6 / 10"

definition MIS_EXACT_MAX :: nat where
  "MIS_EXACT_MAX = 15"

definition causal_evidence_tokens :: "case_data \<Rightarrow> (string, string set) pydict" where
  "causal_evidence_tokens c =
    fold (\<lambda>e d. if ev_category e \<noteq> CAUSAL_EVIDENCE then d
        else dict_put (ev_id e)
          (cached_content_tokens (join_with '' ''
             (filter (\<lambda>part. part \<noteq> []) [ev_summary e, or_empty (ev_extract e)]))) d)
      (case_evidence c) []"

definition token_sets_of :: "string list \<Rightarrow> (string, string set) pydict \<Rightarrow> string set list" where
  "token_sets_of ev_ids tokens_by_id =
    concat (map (\<lambda>eid. case dict_get tokens_by_id eid of
        Some toks \<Rightarrow> if toks \<noteq> {} then [toks] else [] | None \<Rightarrow> []) ev_ids)"

definition mirrors :: "string set list \<Rightarrow> nat \<Rightarrow> nat \<Rightarrow> bool" where
  "mirrors token_sets i j \<longleftrightarrow>
     j \<noteq> i \<and> mutual_mirror (token_sets ! i) (token_sets ! j) EVIDENCE_MIRROR_JACCARD"

text \<open>The members of a bit mask, and the exhaustive search over all masks.\<close>

definition mask_members :: "nat \<Rightarrow> nat \<Rightarrow> nat list" where
  "mask_members n msk = filter (\<lambda>i. odd (msk div 2 ^ i)) [0..<n]"

definition exact_independent_count :: "(nat \<Rightarrow> nat \<Rightarrow> bool) \<Rightarrow> nat \<Rightarrow> nat" where
  "exact_independent_count mir n =
    fold (\<lambda>msk best.
        let members = mask_members n msk in
        if length members \<le> best then best
        else if list_ex (\<lambda>a. list_ex (\<lambda>b. a < b \<and> mir a b) members) members then best
        else length members) [1..<2 ^ n] 1"

definition greedy_independent :: "(nat \<Rightarrow> nat \<Rightarrow> bool) \<Rightarrow> nat \<Rightarrow> nat list" where
  "greedy_independent mir n =
    fold (\<lambda>i chosen. if \<not> list_ex (\<lambda>c. mir i c) chosen then chosen @ [i] else chosen)
      (sort_key (\<lambda>i. length (filter (mir i) [0..<n])) [0..<n]) []"

definition independent_causal_support_count ::
    "string list \<Rightarrow> (string, string set) pydict \<Rightarrow> nat" where
  "independent_causal_support_count ev_ids tokens_by_id =
    (let token_sets = token_sets_of ev_ids tokens_by_id; n = length token_sets in
     if n \<le> 1 then n
     else if n \<le> MIS_EXACT_MAX then exact_independent_count (mirrors token_sets) n
     else length (greedy_independent (mirrors token_sets) n))"

section \<open>The exact search finds a maximum independent set\<close>

definition independent :: "(nat \<Rightarrow> nat \<Rightarrow> bool) \<Rightarrow> nat set \<Rightarrow> bool" where
  "independent mir S \<longleftrightarrow> (\<forall>a \<in> S. \<forall>b \<in> S. a < b \<longrightarrow> \<not> mir a b)"

lemma mirrors_sym: "mirrors ts i j = mirrors ts j i"
  by (auto simp: mirrors_def mutual_mirror_commute)

lemma mirrors_irrefl [simp]: "\<not> mirrors ts i i"
  by (simp add: mirrors_def)

lemma set_mask_members: "set (mask_members n m) = {i. i < n \<and> odd (m div 2 ^ i)}"
  by (auto simp: mask_members_def)

lemma distinct_mask_members [simp]: "distinct (mask_members n m)"
  by (simp add: mask_members_def)

lemma mask_members_zero [simp]: "mask_members n 0 = []"
  by (simp add: mask_members_def)

text \<open>Every subset of the indices is the member list of some mask below \<open>2 ^ n\<close>.\<close>

lemma subset_has_mask:
  assumes "S \<subseteq> {0..<n}"
  shows "\<exists>m < 2 ^ n. set (mask_members n m) = S"
proof -
  let ?bs = "map (\<lambda>i. i \<in> S) [0..<n]"
  let ?m = "horner_sum of_bool 2 ?bs :: nat"
  have "?m < 2 ^ n"
    using horner_sum_of_bool_2_less [of ?bs, where ?'a = nat] by simp
  moreover have "odd (?m div 2 ^ i) \<longleftrightarrow> i \<in> S" if "i < n" for i
    using that bit_horner_sum_bit_iff [of ?bs i, where ?'a = nat] by (simp add: bit_iff_odd)
  then have "{i. i < n \<and> odd (?m div 2 ^ i)} = S"
    using subsetD [OF assms] by (intro set_eqI) (metis (no_types, lifting) atLeastLessThan_iff mem_Collect_eq)
  then have "set (mask_members n ?m) = S" by (simp only: set_mask_members)
  ultimately show ?thesis by blast
qed

definition mask_score :: "(nat \<Rightarrow> nat \<Rightarrow> bool) \<Rightarrow> nat \<Rightarrow> nat \<Rightarrow> nat" where
  "mask_score mir n m =
    (if independent mir (set (mask_members n m)) then length (mask_members n m) else 0)"

lemma exact_as_max:
  "exact_independent_count mir n = fold (\<lambda>m best. max best (mask_score mir n m)) [1..<2 ^ n] 1"
proof -
  have "(\<lambda>msk best. let members = mask_members n msk in
        if length members \<le> best then best
        else if list_ex (\<lambda>a. list_ex (\<lambda>b. a < b \<and> mir a b) members) members then best
        else length members) = (\<lambda>m best. max best (mask_score mir n m))"
    by (intro ext) (auto simp: Let_def mask_score_def independent_def list_ex_iff max_def)
  then show ?thesis by (simp add: exact_independent_count_def)
qed

lemma fold_max_le: "fold (\<lambda>m best. max best (g m)) ms b \<le> k \<longleftrightarrow> b \<le> k \<and> (\<forall>m \<in> set ms. g m \<le> (k::nat))"
  by (induction ms arbitrary: b) auto

lemma fold_max_ge: "k \<le> fold (\<lambda>m best. max best (g m)) ms b \<longleftrightarrow> k \<le> b \<or> (\<exists>m \<in> set ms. (k::nat) \<le> g m)"
  by (induction ms arbitrary: b) (auto simp: le_max_iff_disj)

text \<open>The search reaches exactly the sizes of the non-empty independent sets of indices.\<close>

lemma exact_ge_iff:
  assumes "2 \<le> k"
  shows "k \<le> exact_independent_count mir n \<longleftrightarrow>
    (\<exists>S. S \<subseteq> {0..<n} \<and> independent mir S \<and> k \<le> card S)"
proof
  assume "k \<le> exact_independent_count mir n"
  with assms obtain m where "k \<le> mask_score mir n m"
    by (auto simp: exact_as_max fold_max_ge)
  with assms have ind: "independent mir (set (mask_members n m))" and len: "k \<le> length (mask_members n m)"
    by (auto simp: mask_score_def split: if_splits)
  from len have "k \<le> card (set (mask_members n m))" by (simp add: distinct_card)
  moreover have "set (mask_members n m) \<subseteq> {0..<n}" by (auto simp: set_mask_members)
  ultimately show "\<exists>S. S \<subseteq> {0..<n} \<and> independent mir S \<and> k \<le> card S" using ind by blast
next
  assume "\<exists>S. S \<subseteq> {0..<n} \<and> independent mir S \<and> k \<le> card S"
  then obtain S where S: "S \<subseteq> {0..<n}" "independent mir S" "k \<le> card S" by blast
  from subset_has_mask [OF S(1)] obtain m where m: "m < 2 ^ n" "set (mask_members n m) = S" by blast
  have "card S = length (mask_members n m)"
    using m(2) by (metis distinct_card distinct_mask_members)
  with S m have sc: "k \<le> mask_score mir n m" by (simp add: mask_score_def)
  have "mask_score mir n 0 = 0" by (simp add: mask_score_def)
  then have "m \<noteq> 0" using sc assms by (intro notI) simp
  then have "m \<in> set [1..<2 ^ n]" using m(1) by simp
  with sc show "k \<le> exact_independent_count mir n"
    unfolding exact_as_max fold_max_ge by blast
qed

section \<open>The greedy bound\<close>

definition greedy_step :: "(nat \<Rightarrow> nat \<Rightarrow> bool) \<Rightarrow> nat \<Rightarrow> nat list \<Rightarrow> nat list" where
  "greedy_step mir i chosen = (if \<not> list_ex (\<lambda>c. mir i c) chosen then chosen @ [i] else chosen)"

lemma greedy_as_fold:
  "greedy_independent mir n =
    fold (greedy_step mir) (sort_key (\<lambda>i. length (filter (mir i) [0..<n])) [0..<n]) []"
  by (simp add: greedy_independent_def greedy_step_def [abs_def])

lemma greedy_fold_props:
  assumes "\<And>i j. mir i j = mir j i"
    and "independent mir (set ch)" "distinct ch" "distinct xs" "set xs \<inter> set ch = {}"
  shows "independent mir (set (fold (greedy_step mir) xs ch)) \<and> distinct (fold (greedy_step mir) xs ch)
     \<and> set ch \<subseteq> set (fold (greedy_step mir) xs ch) \<and> set (fold (greedy_step mir) xs ch) \<subseteq> set ch \<union> set xs"
  using assms(2-)
proof (induction xs arbitrary: ch)
  case Nil
  then show ?case by simp
next
  case (Cons x xs)
  show ?case
  proof (cases "list_ex (\<lambda>c. mir x c) ch")
    case True
    then have "greedy_step mir x ch = ch" by (simp add: greedy_step_def)
    with Cons.IH [of ch] Cons.prems show ?thesis by auto
  next
    case False
    then have g: "greedy_step mir x ch = ch @ [x]" by (simp add: greedy_step_def)
    have "independent mir (set (ch @ [x]))"
      using False Cons.prems(1) assms(1) by (auto simp: independent_def list_ex_iff)
    with Cons.IH [of "ch @ [x]"] Cons.prems g show ?thesis by auto
  qed
qed

lemma length_greedy_fold: "length ch \<le> length (fold (greedy_step mir) xs ch)"
proof (induction xs arbitrary: ch)
  case (Cons x xs)
  have "length ch \<le> length (greedy_step mir x ch)" by (simp add: greedy_step_def)
  with Cons.IH [of "greedy_step mir x ch"] show ?case by simp
qed simp

lemma greedy_single:
  "length (fold (greedy_step mir) xs [c]) < 2 \<longleftrightarrow> (\<forall>x \<in> set xs. mir x c)"
proof (induction xs)
  case (Cons x xs)
  show ?case
  proof (cases "mir x c")
    case True
    then have "greedy_step mir x [c] = [c]" by (simp add: greedy_step_def)
    then show ?thesis using True Cons.IH by simp
  next
    case False
    then have "greedy_step mir x [c] = [c, x]" by (simp add: greedy_step_def)
    then show ?thesis
      using False length_greedy_fold [of "[c, x]" mir xs] by auto
  qed
qed simp

text \<open>
  Starting from a vertex of least degree, the greedy choice stops at one vertex only when the
  mirror graph is complete: the greedy bound is exact for the question the code asks of it.
\<close>

lemma greedy_ge_2_iff:
  assumes sym: "\<And>i j. mir i j = mir j i" and irr: "\<And>i. \<not> mir i i" and n: "2 \<le> n"
  shows "2 \<le> length (greedy_independent mir n) \<longleftrightarrow> (\<exists>i < n. \<exists>j < n. i \<noteq> j \<and> \<not> mir i j)"
proof -
  let ?deg = "\<lambda>i. length (filter (mir i) [0..<n])"
  let ?xs = "sort_key ?deg [0..<n]"
  have set_xs: "set ?xs = {0..<n}" and dist: "distinct ?xs" and len: "length ?xs = n" by simp_all
  from n len obtain x xs where xs: "?xs = x # xs" by (cases ?xs) auto
  have x: "x < n" "x \<notin> set xs" "set xs = {0..<n} - {x}" using set_xs dist xs by auto
  have least: "?deg x \<le> ?deg i" if "i < n" for i
  proof -
    have "sorted (map ?deg ?xs)" by simp
    moreover have "i \<in> set (x # xs)" using that set_xs xs by auto
    ultimately show ?thesis unfolding xs by auto
  qed
  have g: "greedy_independent mir n = fold (greedy_step mir) xs [x]"
    unfolding greedy_as_fold xs by (simp add: greedy_step_def)
  have "length (greedy_independent mir n) < 2 \<longleftrightarrow> (\<forall>i < n. i \<noteq> x \<longrightarrow> mir i x)"
    unfolding g greedy_single x(3) by auto
  also have "\<dots> \<longleftrightarrow> (\<forall>i < n. \<forall>j < n. i \<noteq> j \<longrightarrow> mir i j)"
  proof
    assume star: "\<forall>i < n. i \<noteq> x \<longrightarrow> mir i x"
    have card_deg: "?deg i = card {j. j < n \<and> mir i j}" for i
      by (subst distinct_card [symmetric]) (auto intro!: arg_cong [where f = card])
    have "{j. j < n \<and> mir x j} = {0..<n} - {x}" using star sym irr by auto
    then have "?deg x = n - 1" using x(1) by (simp add: card_deg)
    show "\<forall>i < n. \<forall>j < n. i \<noteq> j \<longrightarrow> mir i j"
    proof (intro allI impI)
      fix i j assume i: "i < n" and j: "j < n" and ne: "i \<noteq> j"
      have big: "n - 1 \<le> card {j. j < n \<and> mir i j}" using least [OF i] \<open>?deg x = n - 1\<close> card_deg by simp
      have sub: "{j. j < n \<and> mir i j} \<subseteq> {0..<n} - {i}" using irr by auto
      have "card ({0..<n} - {i}) = n - 1" using i by simp
      with big have "card ({0..<n} - {i}) \<le> card {j. j < n \<and> mir i j}" by (simp only:)
      with sub have "{j. j < n \<and> mir i j} = {0..<n} - {i}"
        by (rule card_seteq [OF finite_Diff [OF finite_atLeastLessThan]])
      moreover have "j \<in> {0..<n} - {i}" using j ne by simp
      ultimately have "j \<in> {j. j < n \<and> mir i j}" by (simp only:)
      then show "mir i j" by simp
    qed
  qed (use x in auto)
  finally show ?thesis by (meson not_less)
qed

section \<open>The bar of two observations\<close>

lemma independent_pair:
  assumes "\<And>i j. mir i j = mir j i"
  shows "(\<exists>S. S \<subseteq> {0..<n} \<and> independent mir S \<and> 2 \<le> card S) \<longleftrightarrow>
    (\<exists>i < n. \<exists>j < n. i \<noteq> j \<and> \<not> mir i j)"
proof
  assume "\<exists>S. S \<subseteq> {0..<n} \<and> independent mir S \<and> 2 \<le> card S"
  then obtain S where S: "S \<subseteq> {0..<n}" "independent mir S" "2 \<le> card S" by blast
  then obtain i j where "i \<in> S" "j \<in> S" "i < j"
    by (metis card_le_Suc0_iff_eq card.infinite linorder_neqE_nat not_less_eq_eq numeral_2_eq_2 zero_le)
  moreover have "i < n" "j < n" using S(1) \<open>i \<in> S\<close> \<open>j \<in> S\<close> by auto
  ultimately show "\<exists>i < n. \<exists>j < n. i \<noteq> j \<and> \<not> mir i j"
    using S(2) by (intro exI [of _ i] conjI exI [of _ j]) (auto simp: independent_def)
next
  assume "\<exists>i < n. \<exists>j < n. i \<noteq> j \<and> \<not> mir i j"
  then obtain i j where "i < n" "j < n" "i \<noteq> j" "\<not> mir i j" by blast
  then show "\<exists>S. S \<subseteq> {0..<n} \<and> independent mir S \<and> 2 \<le> card S"
    using assms by (intro exI [of _ "{i, j}"]) (auto simp: independent_def)
qed

lemma count_ge_2_index:
  "2 \<le> independent_causal_support_count ids toks \<longleftrightarrow>
    (let ts = token_sets_of ids toks in
     \<exists>i < length ts. \<exists>j < length ts. i \<noteq> j \<and> \<not> mirrors ts i j)"
proof -
  let ?ts = "token_sets_of ids toks" and ?n = "length (token_sets_of ids toks)"
  let ?m = "mirrors ?ts"
  show ?thesis
  proof (cases "?n \<le> 1")
    case True
    then show ?thesis by (auto simp: independent_causal_support_count_def Let_def)
  next
    case False
    then have n: "2 \<le> ?n" by simp
    have ex: "2 \<le> exact_independent_count ?m ?n \<longleftrightarrow> (\<exists>i < ?n. \<exists>j < ?n. i \<noteq> j \<and> \<not> ?m i j)"
      unfolding exact_ge_iff [OF order_refl] by (rule independent_pair) (rule mirrors_sym)
    have gr: "2 \<le> length (greedy_independent ?m ?n) \<longleftrightarrow> (\<exists>i < ?n. \<exists>j < ?n. i \<noteq> j \<and> \<not> ?m i j)"
      using n by (intro greedy_ge_2_iff) (auto simp: mirrors_sym)
    from False ex gr show ?thesis by (simp add: independent_causal_support_count_def Let_def)
  qed
qed

text \<open>
  A token set mirrors itself, so the two positions are two rows with token sets that do not
  mirror: neither their order nor their repetition matters.
\<close>

lemma causal_tokens_finite: "dict_get (causal_evidence_tokens c) i = Some t \<Longrightarrow> finite t"
proof -
  have "\<forall>i t. dict_get (causal_evidence_tokens c) i = Some t \<longrightarrow> finite t"
    unfolding causal_evidence_tokens_def
    by (rule fold_invariant_mem [where I = "\<lambda>d. \<forall>i t. dict_get d i = Some t \<longrightarrow> finite t"])
      (simp_all del: filter.simps)
  then show "dict_get (causal_evidence_tokens c) i = Some t \<Longrightarrow> finite t" by blast
qed

lemma set_token_sets_of:
  "set (token_sets_of ids toks) = {t. t \<noteq> {} \<and> (\<exists>i \<in> set ids. dict_get toks i = Some t)}"
  by (auto simp: token_sets_of_def split: option.splits if_splits)

lemma two_rows_iff:
  assumes refl: "\<And>a. a \<in> set ts \<Longrightarrow> R a a"
  shows "(\<exists>i < length ts. \<exists>j < length ts. i \<noteq> j \<and> \<not> (j \<noteq> i \<and> R (ts ! i) (ts ! j))) \<longleftrightarrow>
    (\<exists>a \<in> set ts. \<exists>b \<in> set ts. \<not> R a b)"
proof
  assume "\<exists>a \<in> set ts. \<exists>b \<in> set ts. \<not> R a b"
  then obtain i j where ij: "i < length ts" "j < length ts" "\<not> R (ts ! i) (ts ! j)"
    by (metis in_set_conv_nth)
  with refl have "i \<noteq> j" by (metis nth_mem)
  with ij show "\<exists>i < length ts. \<exists>j < length ts. i \<noteq> j \<and> \<not> (j \<noteq> i \<and> R (ts ! i) (ts ! j))" by blast
qed (meson nth_mem)

lemma count_ge_2_rows:
  "2 \<le> independent_causal_support_count ids (causal_evidence_tokens c) \<longleftrightarrow>
    (\<exists>i \<in> set ids. \<exists>j \<in> set ids. \<exists>a b.
       dict_get (causal_evidence_tokens c) i = Some a \<and> dict_get (causal_evidence_tokens c) j = Some b
       \<and> a \<noteq> {} \<and> b \<noteq> {} \<and> \<not> mutual_mirror a b EVIDENCE_MIRROR_JACCARD)"
proof -
  let ?toks = "causal_evidence_tokens c" and ?ts = "token_sets_of ids (causal_evidence_tokens c)"
  have ge: "2 \<le> independent_causal_support_count ids ?toks \<longleftrightarrow>
      (\<exists>i < length ?ts. \<exists>j < length ?ts. i \<noteq> j
        \<and> \<not> (j \<noteq> i \<and> mutual_mirror (?ts ! i) (?ts ! j) EVIDENCE_MIRROR_JACCARD))"
    unfolding count_ge_2_index Let_def mirrors_def ..
  have "mutual_mirror a a EVIDENCE_MIRROR_JACCARD" if "a \<in> set ?ts" for a
    using that causal_tokens_finite
    by (intro mutual_mirror_refl) (auto simp: set_token_sets_of EVIDENCE_MIRROR_JACCARD_def)
  from two_rows_iff [of ?ts "\<lambda>a b. mutual_mirror a b EVIDENCE_MIRROR_JACCARD", OF this]
  have "2 \<le> independent_causal_support_count ids ?toks \<longleftrightarrow>
      (\<exists>a \<in> set ?ts. \<exists>b \<in> set ?ts. \<not> mutual_mirror a b EVIDENCE_MIRROR_JACCARD)"
    unfolding ge .
  then show ?thesis unfolding set_token_sets_of mem_Collect_eq Bex_def by blast
qed

lemma greedy_is_independent:
  assumes "\<And>i j. mir i j = mir j i"
  shows "independent mir (set (greedy_independent mir n)) \<and> distinct (greedy_independent mir n)
    \<and> set (greedy_independent mir n) \<subseteq> {0..<n}"
proof -
  let ?xs = "sort_key (\<lambda>i. length (filter (mir i) [0..<n])) [0..<n]"
  have ind: "independent mir (set [])" by (simp add: independent_def)
  have dist: "distinct ?xs" and set_xs: "set ?xs = {0..<n}" by simp_all
  have "independent mir (set (fold (greedy_step mir) ?xs [])) \<and> distinct (fold (greedy_step mir) ?xs [])
    \<and> set [] \<subseteq> set (fold (greedy_step mir) ?xs []) \<and> set (fold (greedy_step mir) ?xs []) \<subseteq> set [] \<union> set ?xs"
    by (rule greedy_fold_props) (rule assms, rule ind, simp, rule dist, simp)
  then show ?thesis unfolding greedy_as_fold set_xs by simp
qed

lemma exact_pos: "1 \<le> exact_independent_count mir n"
  by (simp add: exact_as_max fold_max_ge)

lemma exact_is_max:
  assumes "1 \<le> n"
  shows "exact_independent_count mir n = Max (card ` {S. S \<subseteq> {0..<n} \<and> independent mir S})"
proof (rule Max_eqI [symmetric])
  show "finite (card ` {S. S \<subseteq> {0..<n} \<and> independent mir S})"
    by (rule finite_imageI, rule finite_subset [of _ "Pow {0..<n}"]) auto
next
  fix k assume "k \<in> card ` {S. S \<subseteq> {0..<n} \<and> independent mir S}"
  then show "k \<le> exact_independent_count mir n"
    using exact_pos [of mir n] exact_ge_iff [of k mir n] by (cases "2 \<le> k") auto
next
  let ?b = "exact_independent_count mir n"
  show "?b \<in> card ` {S. S \<subseteq> {0..<n} \<and> independent mir S}"
  proof (cases "2 \<le> ?b")
    case False
    with exact_pos [of mir n] have "?b = 1" by simp
    moreover have "{0} \<in> {S. S \<subseteq> {0..<n} \<and> independent mir S}"
      using assms by (simp add: independent_def)
    ultimately show ?thesis by (metis (no_types, lifting) card_1_singleton_iff image_eqI One_nat_def)
  next
    case True
    then obtain S where S: "S \<subseteq> {0..<n}" "independent mir S" "?b \<le> card S"
      using exact_ge_iff [OF True, of mir n] by blast
    then have "card S \<le> ?b" using True exact_ge_iff [of "card S" mir n] by auto
    with S show ?thesis by (metis (mono_tags, lifting) image_eqI le_antisym mem_Collect_eq)
  qed
qed

section \<open>Properties\<close>

text \<open>Up to fifteen judgeable rows the count is the size of a largest set of rows no two of
  which mirror each other.\<close>

theorem count_is_maximum_independent_set:
  assumes "length (token_sets_of ids toks) \<in> {1..MIS_EXACT_MAX}"
  shows "independent_causal_support_count ids toks =
    Max (card ` {S. S \<subseteq> {0..<length (token_sets_of ids toks)}
                  \<and> independent (mirrors (token_sets_of ids toks)) S})"
proof (cases "length (token_sets_of ids toks) \<le> 1")
  case True
  with assms have one: "length (token_sets_of ids toks) = 1" by simp
  have "{S. S \<subseteq> {0..<1} \<and> independent (mirrors (token_sets_of ids toks)) S} = {{}, {0}}"
    by (auto simp: independent_def)
  with one show ?thesis by (simp add: independent_causal_support_count_def Let_def)
next
  case False
  with assms show ?thesis
    using exact_is_max [of "length (token_sets_of ids toks)" "mirrors (token_sets_of ids toks)"]
    by (simp add: independent_causal_support_count_def Let_def)
qed

theorem count_is_maximum_independent_set_witness:
  "independent_causal_support_count [''a'', ''b''] [(''a'', {''pool''}), (''b'', {''leak''})] =
    Max (card ` {S. S \<subseteq> {0..<2} \<and> independent (mirrors [{''pool''}, {''leak''}]) S})"
  using count_is_maximum_independent_set [of "[''a'', ''b'']" "[(''a'', {''pool''}), (''b'', {''leak''})]"]
  by (simp add: token_sets_of_def MIS_EXACT_MAX_def numeral_2_eq_2)

text \<open>Beyond fifteen rows the greedy count is the size of an actual set of mutually
  independent rows: it never exceeds the exact answer.\<close>

theorem greedy_count_is_lower_bound:
  assumes "MIS_EXACT_MAX < length (token_sets_of ids toks)"
  shows "\<exists>S. S \<subseteq> {0..<length (token_sets_of ids toks)}
     \<and> independent (mirrors (token_sets_of ids toks)) S
     \<and> independent_causal_support_count ids toks = card S"
proof -
  let ?n = "length (token_sets_of ids toks)" and ?m = "mirrors (token_sets_of ids toks)"
  have "independent_causal_support_count ids toks = length (greedy_independent ?m ?n)"
    using assms by (simp add: independent_causal_support_count_def Let_def MIS_EXACT_MAX_def)
  moreover have "length (greedy_independent ?m ?n) = card (set (greedy_independent ?m ?n))"
    using greedy_is_independent [of ?m ?n, OF mirrors_sym]
    by (simp only: distinct_card)
  ultimately show ?thesis
    using greedy_is_independent [of ?m ?n, OF mirrors_sym] by metis
qed

theorem greedy_count_is_lower_bound_witness:
  "\<exists>S \<subseteq> {0..<16::nat}. independent_causal_support_count (replicate 16 ''a'') [(''a'', {''pool''})] = card S"
proof -
  have "length (token_sets_of (replicate 16 ''a'') [(''a'', {''pool''})]) = 16" by code_simp
  then show ?thesis
    using greedy_count_is_lower_bound [of "replicate 16 ''a''" "[(''a'', {''pool''})]"]
    by (auto simp: MIS_EXACT_MAX_def)
qed

end
