(* ===== verification/Restatement.thy ===== *)
theory Restatement
  imports Evidence_Links
begin

text \<open>
  The restatement guard of 7.1 (\<open>core/investigation/causal_graph/support.py\<close>): a root whose
  statement adds too little to the case frame is no explanation, unless one standing hypothesis
  accounts for all of it.
\<close>

section \<open>The restatement guard\<close>

definition frame_components :: "case_data \<Rightarrow> string set \<times> (string option \<times> string set) list" where
  "frame_components c =
    (\<Union> (set (map content_tokens (problem_anchor_statements c))),
     concat (map (\<lambda>h. if hyp_statement h \<noteq> [] \<and> content_tokens (hyp_statement h) \<noteq> {}
                      then [(hyp_root h, content_tokens (hyp_statement h))] else [])
               (standing_hypotheses c)))"

definition fraction :: "string set \<Rightarrow> string set \<Rightarrow> rat" where
  "fraction part whole = of_nat (card part) / of_nat (card whole)"

definition frame_elements ::
    "string set \<Rightarrow> string \<Rightarrow> (string option \<times> string set) list \<Rightarrow> string set list" where
  "frame_elements statement_tokens nid hyp_token_sets =
    map snd (filter (\<lambda>(rid, tokens).
        \<not> (rid = Some nid) \<and> \<not> (rid = None \<and> mutual_mirror statement_tokens tokens FRAME_OWNER_JACCARD))
      hyp_token_sets)"

definition node_restates ::
    "string set \<Rightarrow> string \<Rightarrow> string set \<Rightarrow> (string option \<times> string set) list \<Rightarrow> bool" where
  "node_restates statement_tokens nid anchors hyp_token_sets =
    (let elements = frame_elements statement_tokens nid hyp_token_sets;
         frame = anchors \<union> \<Union> (set elements);
         residue = statement_tokens - frame;
         anchor_cover = statement_tokens \<inter> anchors
     in if frame = {} then False
        else if fraction residue statement_tokens \<ge> ROOT_NOVELTY_MIN_FRACTION then False
        else if fraction (statement_tokens - anchors) statement_tokens < ROOT_NOVELTY_MIN_FRACTION
        then True
        else \<not> list_ex (\<lambda>tokens. statement_tokens - (anchors \<union> tokens) = residue
                \<and> \<not> card (statement_tokens \<inter> tokens) < card anchor_cover) elements)"

definition root_restates_case_frame :: "causal_node \<Rightarrow> case_data \<Rightarrow> bool" where
  "root_restates_case_frame node c =
    (if node_type node \<noteq> ROOT \<or> node_statement node = [] then False
     else let statement_tokens = content_tokens (node_statement node) in
       if statement_tokens = {} then False
       else case frame_components c of (anchors, hyp_token_sets) \<Rightarrow>
         node_restates statement_tokens (node_id node) anchors hyp_token_sets)"

definition restating_root_ids :: "case_data \<Rightarrow> string set" where
  "restating_root_ids c =
    (case frame_components c of (anchors, hyp_token_sets) \<Rightarrow>
     if anchors = {} \<and> hyp_token_sets = [] then {}
     else set (map node_id (filter (\<lambda>node.
        (if node_type node \<noteq> ROOT \<or> node_statement node = [] then False
         else let statement_tokens = content_tokens (node_statement node) in
           if statement_tokens = {} then False
           else node_restates statement_tokens (node_id node) anchors hyp_token_sets))
        (dict_values (case_nodes c)))))"

section \<open>What the guard decides\<close>

lemma fraction_mono:
  assumes "finite whole" "part \<subseteq> part'" "part' \<subseteq> whole"
  shows "fraction part whole \<le> fraction part' whole"
  using assms by (auto simp: fraction_def card_mono finite_subset divide_right_mono)

lemma fraction_self: "finite s \<Longrightarrow> s \<noteq> {} \<Longrightarrow> fraction s s = 1"
  by (simp add: fraction_def)

lemma frame_elements_attached [simp]:
  "frame_elements t nid (xs @ (Some nid, toks) # ys) = frame_elements t nid (xs @ ys)"
  by (simp add: frame_elements_def)

text \<open>
  The verdict of \<open>_node_restates\<close> without the early returns: too little is new against the whole
  frame, and either the anchors alone account for the statement or no single element does.
\<close>

lemma node_restates_iff:
  assumes "finite t" "t \<noteq> {}"
  shows "node_restates t nid anchors hs \<longleftrightarrow>
    (let els = frame_elements t nid hs; residue = t - (anchors \<union> \<Union> (set els)) in
     fraction residue t < ROOT_NOVELTY_MIN_FRACTION
     \<and> (fraction (t - anchors) t < ROOT_NOVELTY_MIN_FRACTION
        \<or> (\<forall>e \<in> set els. t - (anchors \<union> e) = residue \<longrightarrow> card (t \<inter> e) < card (t \<inter> anchors))))"
proof -
  let ?u = "\<Union> (set (frame_elements t nid hs))"
  show ?thesis
  proof (cases "anchors \<union> ?u = {}")
    case True
    then have "t - (anchors \<union> ?u) = t" by blast
    with True show ?thesis using fraction_self [OF assms]
      by (simp add: node_restates_def Let_def ROOT_NOVELTY_MIN_FRACTION_def)
  next
    case False
    then show ?thesis
      by (auto simp: node_restates_def Let_def list_ex_iff)
  qed
qed

lemma restates_single_def:
  "root_restates_case_frame node c \<longleftrightarrow>
    node_type node = ROOT \<and> node_statement node \<noteq> [] \<and> content_tokens (node_statement node) \<noteq> {}
    \<and> node_restates (content_tokens (node_statement node)) (node_id node)
        (fst (frame_components c)) (snd (frame_components c))"
  by (auto simp: root_restates_case_frame_def Let_def split: prod.split)

lemma node_restates_no_frame: "\<not> node_restates t nid {} []"
  by (simp add: node_restates_def frame_elements_def)

lemma restating_root_ids_eq:
  "restating_root_ids c = node_id ` {n \<in> set (dict_values (case_nodes c)). root_restates_case_frame n c}"
proof (cases "frame_components c")
  case (Pair a hs)
  then show ?thesis
    by (auto simp: restating_root_ids_def restates_single_def Let_def node_restates_no_frame
        split: if_splits)
qed

section \<open>Properties\<close>

text \<open>The batch form of the guard flags exactly the nodes the single-node form flags, its
  early exit on an empty frame included.\<close>

theorem restating_root_ids_batch_eq_single:
  "nid \<in> restating_root_ids c \<longleftrightarrow>
    (\<exists>n. n \<in> set (dict_values (case_nodes c)) \<and> node_id n = nid \<and> root_restates_case_frame n c)"
  unfolding restating_root_ids_eq by blast

text \<open>A root that is flagged adds less than the novelty fraction to the whole frame:
  attributing it to one hypothesis can only release a root, never flag a novel one.\<close>

theorem restating_root_lacks_novelty:
  assumes "root_restates_case_frame n c"
  shows "fraction (content_tokens (node_statement n)
           - (fst (frame_components c) \<union>
              \<Union> (set (frame_elements (content_tokens (node_statement n)) (node_id n) (snd (frame_components c))))))
          (content_tokens (node_statement n)) < ROOT_NOVELTY_MIN_FRACTION"
proof -
  have ne: "content_tokens (node_statement n) \<noteq> {}"
    and "node_restates (content_tokens (node_statement n)) (node_id n)
      (fst (frame_components c)) (snd (frame_components c))"
    using assms by (simp_all add: restates_single_def)
  then show ?thesis unfolding node_restates_iff [OF finite_content_tokens ne] Let_def by (metis (no_types))
qed

theorem restating_root_lacks_novelty_witness:
  "fraction (content_tokens ''leak'' - (fst (frame_components ex_restating) \<union>
      \<Union> (set (frame_elements (content_tokens ''leak'') ''R'' (snd (frame_components ex_restating))))))
     (content_tokens ''leak'') < ROOT_NOVELTY_MIN_FRACTION"
proof -
  have "root_restates_case_frame (ex_node ''R'' ROOT ''leak'' []) ex_restating" by code_simp
  from restating_root_lacks_novelty [OF this] show ?thesis by (simp add: ex_node_def)
qed

text \<open>A root whose statement adds too little to the problem anchors alone is flagged whatever
  the hypotheses of the case say.\<close>

theorem anchors_alone_restated_is_flagged:
  assumes "node_type n = ROOT" "content_tokens (node_statement n) \<noteq> {}"
    and "fraction (content_tokens (node_statement n) - fst (frame_components c))
           (content_tokens (node_statement n)) < ROOT_NOVELTY_MIN_FRACTION"
  shows "root_restates_case_frame n (c\<lparr>case_hypotheses := hs\<rparr>)"
proof -
  let ?c = "c\<lparr>case_hypotheses := hs\<rparr>" and ?t = "content_tokens (node_statement n)"
  have anchors: "fst (frame_components ?c) = fst (frame_components c)"
    by (simp add: frame_components_def problem_anchor_statements_def)
  have "fraction (?t - (fst (frame_components c) \<union> X)) ?t \<le> fraction (?t - fst (frame_components c)) ?t" for X
    by (rule fraction_mono) auto
  with assms(3) have less: "fraction (?t - (fst (frame_components c) \<union> X)) ?t < ROOT_NOVELTY_MIN_FRACTION" for X
    by (meson le_less_trans)
  have "node_statement n \<noteq> []" using assms(2) by (auto simp: content_tokens_def split_words_def)
  with assms less show ?thesis
    by (simp add: restates_single_def node_restates_iff Let_def anchors)
qed

theorem anchors_alone_restated_is_flagged_witness:
  "root_restates_case_frame (ex_node ''R'' ROOT ''leak'' []) (ex_restating\<lparr>case_hypotheses := []\<rparr>)"
  by (rule anchors_alone_restated_is_flagged) code_simp+

end
