(* ===== verification/Support_Holds.thy ===== *)
theory Support_Holds
  imports Independence Restatement
begin

text \<open>
  Why a supported root is held from VALIDATED (\<open>core/investigation/causal_graph/support.py\<close>): the
  grounding bar's block reasons, the count-held roots, the roots the restatement guard alone
  holds, and the summary the disposition layer reads.
\<close>

section \<open>The grounding bar\<close>

datatype block_reason = BLOCK_REASON_COUNT | BLOCK_REASON_MIRROR | BLOCK_REASON_HEDGED

definition COUNT_HELD_REASONS :: "block_reason list" where
  "COUNT_HELD_REASONS = [BLOCK_REASON_COUNT, BLOCK_REASON_MIRROR]"

definition support_block_reason ::
    "string list \<Rightarrow> (string, string set) pydict \<Rightarrow> block_reason option" where
  "support_block_reason ev_ids tokens =
    (if ev_ids = [] then Some BLOCK_REASON_HEDGED
     else if length ev_ids < ROOT_INDEPENDENT_CAUSAL_SUPPORT_MIN then Some BLOCK_REASON_COUNT
     else if independent_causal_support_count ev_ids tokens < ROOT_INDEPENDENT_CAUSAL_SUPPORT_MIN
     then Some BLOCK_REASON_MIRROR
     else None)"

text \<open>The pre-scan both sweeps run first: is there a root neither validated nor refuted?\<close>

definition has_unsettled_root :: "case_data \<Rightarrow> bool" where
  "has_unsettled_root c =
    list_ex (\<lambda>n. node_type n = ROOT \<and> node_state n \<notin> {VALIDATED, REFUTED})
      (dict_values (case_nodes c))"

definition root_support_block_reasons :: "case_data \<Rightarrow> (string, block_reason) pydict" where
  "root_support_block_reasons c =
    (if case_nodes c = [] \<or> \<not> has_unsettled_root c then []
     else let cats = evidence_category_map c; tokens = causal_evidence_tokens c;
              restating = restating_root_ids c in
       fold (\<lambda>node reasons.
         if node_type node \<noteq> ROOT \<or> node_id node \<in> restating then reasons
         else if node_state node \<in> {VALIDATED, REFUTED} then reasons
         else let t = node_evidence_tally node cats in
           if t_counterfactual_refutes t \<ge> 1 \<or> t_refutes t > t_supports t then reasons
           else if t_raw_causal_links t < 1 then reasons
           else if \<not> (t_supports t > t_refutes t
                     \<and> and_constraints_satisfied (node_id node) (case_nodes c) (case_edges c))
           then reasons
           else (case support_block_reason (t_causal_support_ev_ids t) tokens of
                   None \<Rightarrow> reasons | Some r \<Rightarrow> dict_put (node_id node) r reasons))
         (dict_values (case_nodes c)) [])"

definition support_count_held_root_ids :: "case_data \<Rightarrow> string set" where
  "support_count_held_root_ids c =
    set (map fst (filter (\<lambda>(nid, reason). reason \<in> set COUNT_HELD_REASONS)
      (root_support_block_reasons c)))"

section \<open>Roots the restatement guard alone holds\<close>

definition restatement_holds :: "case_data \<Rightarrow> string \<Rightarrow> bool" where
  "restatement_holds c nid =
    (case dict_get (case_nodes c) nid of
       None \<Rightarrow> False
     | Some node \<Rightarrow>
        if node_state node \<in> {VALIDATED, REFUTED} then False
        else let cats = evidence_category_map c; t = node_evidence_tally node cats in
          if t_counterfactual_refutes t \<ge> 1 \<or> t_refutes t \<ge> t_supports t then False
          else if \<not> and_constraints_satisfied (node_id node) (case_nodes c) (case_edges c) then False
          else support_block_reason (t_causal_support_ev_ids t) (causal_evidence_tokens c) = None
               \<or> root_counterfactually_confirmed node cats)"

definition restatement_held_root_ids :: "case_data \<Rightarrow> string set" where
  "restatement_held_root_ids c =
    (if case_nodes c = [] \<or> \<not> has_unsettled_root c then {}
     else {nid \<in> restating_root_ids c. restatement_holds c nid})"

record restatement_hold =
  hold_root_ids :: "string set"
  hold_is_sole_root_block :: bool
  hold_involves_siblings :: bool

definition summarize_restatement_hold :: "case_data \<Rightarrow> restatement_hold option" where
  "summarize_restatement_hold c =
    (let held = restatement_held_root_ids c in
     if held = {} then None
     else let unresolved = set (map node_id (filter (\<lambda>n. node_type n = ROOT \<and> node_state n \<noteq> REFUTED)
                (dict_values (case_nodes c))));
              anchors = fst (frame_components c)
          in Some \<lparr>hold_root_ids = held,
               hold_is_sole_root_block = (unresolved = held),
               hold_involves_siblings = (\<exists>nid \<in> held.
                 let statement_tokens = (case dict_get (case_nodes c) nid of
                        Some node \<Rightarrow> content_tokens (node_statement node) | None \<Rightarrow> {})
                 in statement_tokens \<noteq> {} \<and> \<not> node_restates statement_tokens nid anchors [])\<rparr>)"

section \<open>The bar\<close>

text \<open>The grounding bar is met exactly when two linked rows carry distinct observations.\<close>

definition distinct_observations :: "case_data \<Rightarrow> string list \<Rightarrow> bool" where
  "distinct_observations c ids \<longleftrightarrow>
    (\<exists>i \<in> set ids. \<exists>j \<in> set ids. \<exists>a b.
       dict_get (causal_evidence_tokens c) i = Some a \<and> dict_get (causal_evidence_tokens c) j = Some b
       \<and> a \<noteq> {} \<and> b \<noteq> {} \<and> \<not> mutual_mirror a b EVIDENCE_MIRROR_JACCARD)"

lemma distinct_observations_length:
  assumes "distinct_observations c ids"
  shows "2 \<le> length ids"
proof -
  from assms obtain i j a b where ij: "i \<in> set ids" "j \<in> set ids"
    "dict_get (causal_evidence_tokens c) i = Some a" "dict_get (causal_evidence_tokens c) j = Some b"
    "a \<noteq> {}" "\<not> mutual_mirror a b EVIDENCE_MIRROR_JACCARD"
    unfolding distinct_observations_def by blast
  have "mutual_mirror a a EVIDENCE_MIRROR_JACCARD"
    using ij(3,5) causal_tokens_finite by (intro mutual_mirror_refl) (auto simp: EVIDENCE_MIRROR_JACCARD_def)
  with ij have "i \<noteq> j" by auto
  with ij have "card {i, j} \<le> card (set ids)" by (intro card_mono) auto
  also have "\<dots> \<le> length ids" by (rule card_length)
  finally show ?thesis using \<open>i \<noteq> j\<close> by simp
qed

lemma bar_met_iff:
  "support_block_reason ids (causal_evidence_tokens c) = None \<longleftrightarrow> distinct_observations c ids"
proof -
  have "2 \<le> independent_causal_support_count ids (causal_evidence_tokens c) \<longleftrightarrow> distinct_observations c ids"
    unfolding distinct_observations_def by (rule count_ge_2_rows)
  then show ?thesis
    using distinct_observations_length [of c ids]
    by (auto simp: support_block_reason_def ROOT_INDEPENDENT_CAUSAL_SUPPORT_MIN_def)
qed

lemma distinct_observations_mono:
  "distinct_observations c ids \<Longrightarrow> set ids \<subseteq> set ids' \<Longrightarrow> distinct_observations c ids'"
  unfolding distinct_observations_def by blast

section \<open>The population of the block reasons\<close>

definition held_reason :: "case_data \<Rightarrow> causal_node \<Rightarrow> block_reason option" where
  "held_reason c node =
    (let t = node_evidence_tally node (evidence_category_map c) in
     if node_type node = ROOT \<and> node_id node \<notin> restating_root_ids c
        \<and> node_state node \<notin> {VALIDATED, REFUTED}
        \<and> t_counterfactual_refutes t = 0 \<and> t_refutes t < t_supports t \<and> 1 \<le> t_raw_causal_links t
        \<and> and_constraints_satisfied (node_id node) (case_nodes c) (case_edges c)
     then support_block_reason (t_causal_support_ev_ids t) (causal_evidence_tokens c) else None)"

lemma block_reasons_as_fold:
  "root_support_block_reasons c =
    (if case_nodes c = [] \<or> \<not> has_unsettled_root c then []
     else fold (\<lambda>node reasons. case held_reason c node of None \<Rightarrow> reasons
            | Some r \<Rightarrow> dict_put (node_id node) r reasons) (dict_values (case_nodes c)) [])"
proof -
  have "(\<lambda>node reasons.
         if node_type node \<noteq> ROOT \<or> node_id node \<in> restating_root_ids c then reasons
         else if node_state node \<in> {VALIDATED, REFUTED} then reasons
         else let t = node_evidence_tally node (evidence_category_map c) in
           if t_counterfactual_refutes t \<ge> 1 \<or> t_refutes t > t_supports t then reasons
           else if t_raw_causal_links t < 1 then reasons
           else if \<not> (t_supports t > t_refutes t
                     \<and> and_constraints_satisfied (node_id node) (case_nodes c) (case_edges c))
           then reasons
           else (case support_block_reason (t_causal_support_ev_ids t) (causal_evidence_tokens c) of
                   None \<Rightarrow> reasons | Some r \<Rightarrow> dict_put (node_id node) r reasons))
     = (\<lambda>node reasons. case held_reason c node of None \<Rightarrow> reasons
            | Some r \<Rightarrow> dict_put (node_id node) r reasons)"
    by (intro ext) (auto simp: held_reason_def Let_def not_less_eq_eq)
  then show ?thesis unfolding root_support_block_reasons_def Let_def by simp
qed

lemma fold_reasons:
  "dict_get (fold (\<lambda>n d. case f n of None \<Rightarrow> d | Some r \<Rightarrow> dict_put (g n) r d) ns d) k = Some r
   \<Longrightarrow> dict_get d k = Some r \<or> (\<exists>n \<in> set ns. g n = k \<and> f n = Some r)"
  by (induction ns arbitrary: d) (force split: option.splits if_splits)+

lemma fold_reasons_wf:
  "dict_wf d \<Longrightarrow> dict_wf (fold (\<lambda>n d. case f n of None \<Rightarrow> d | Some r \<Rightarrow> dict_put (g n) r d) ns d)"
  by (induction ns arbitrary: d) (auto split: option.splits)

lemma fold_reasons_present:
  assumes "distinct (map g ns)" "n \<in> set ns" "f n = Some r"
  shows "dict_get (fold (\<lambda>n d. case f n of None \<Rightarrow> d | Some r \<Rightarrow> dict_put (g n) r d) ns d) (g n) = Some r"
  using assms
proof (induction ns arbitrary: d)
  case (Cons m ns)
  have other: "g n \<notin> g ` set ns \<Longrightarrow>
      dict_get (fold (\<lambda>n d. case f n of None \<Rightarrow> d | Some r \<Rightarrow> dict_put (g n) r d) ns d) (g n) = dict_get d (g n)" for d
    by (induction ns arbitrary: d) (auto split: option.splits)
  show ?case
  proof (cases "n \<in> set ns")
    case True
    with Cons show ?thesis by simp
  next
    case False
    with Cons.prems have "n = m" "g n \<notin> g ` set ns" by auto
    with other Cons.prems(3) show ?thesis by simp
  qed
qed simp

lemma fold_reasons_None: "\<forall>n \<in> set ns. f n = None \<Longrightarrow>
    fold (\<lambda>n d. case f n of None \<Rightarrow> d | Some r \<Rightarrow> dict_put (g n) r d) ns d = d"
  by (induction ns) simp_all

lemma values_ids: "nodes_ok ns \<Longrightarrow> map node_id (dict_values ns) = dict_keys ns"
  by (auto simp: nodes_ok_def dict_values_def dict_keys_def dict_get_mem)

lemma block_reasons_sound:
  "dict_get (root_support_block_reasons c) nid = Some r \<Longrightarrow>
    \<exists>n \<in> set (dict_values (case_nodes c)). node_id n = nid \<and> held_reason c n = Some r"
  using fold_reasons [of node_id "held_reason c" "dict_values (case_nodes c)" "[]" nid r]
  by (auto simp: block_reasons_as_fold split: if_splits)

lemma block_reasons_wf: "dict_wf (root_support_block_reasons c)"
  unfolding block_reasons_as_fold
  using fold_reasons_wf [of "[]" node_id "held_reason c" "dict_values (case_nodes c)"]
  by (simp add: dict_keys_def)

lemma held_reason_unsettled: "held_reason c n = Some r \<Longrightarrow>
    node_type n = ROOT \<and> node_state n \<notin> {VALIDATED, REFUTED} \<and> node_id n \<notin> restating_root_ids c"
  by (auto simp: held_reason_def Let_def split: if_splits)

lemma count_held_iff:
  "nid \<in> support_count_held_root_ids c \<longleftrightarrow>
    (\<exists>r \<in> set COUNT_HELD_REASONS. dict_get (root_support_block_reasons c) nid = Some r)"
  by (force simp: support_count_held_root_ids_def dict_get_mem [OF block_reasons_wf])

section \<open>Properties\<close>

text \<open>C31: The causal-grounding bar is met exactly when two linked causal rows carry distinct,
  judgeable observations; the fifteen-row search and the greedy fallback beyond it agree on that.\<close>

theorem grounding_bar_iff_two_distinct_observations:
  "support_block_reason ids (causal_evidence_tokens c) = None \<longleftrightarrow>
    (\<exists>i \<in> set ids. \<exists>j \<in> set ids. \<exists>a b.
       dict_get (causal_evidence_tokens c) i = Some a \<and> dict_get (causal_evidence_tokens c) j = Some b
       \<and> a \<noteq> {} \<and> b \<noteq> {} \<and> \<not> mutual_mirror a b EVIDENCE_MIRROR_JACCARD)"
  using bar_met_iff [of ids c] unfolding distinct_observations_def .

text \<open>Adding linked evidence never takes a met bar away, and neither the order of the links nor
  their repetition matters.\<close>

theorem grounding_bar_monotone:
  assumes "set ids \<subseteq> set ids'" "support_block_reason ids (causal_evidence_tokens c) = None"
  shows "support_block_reason ids' (causal_evidence_tokens c) = None"
  using assms distinct_observations_mono unfolding bar_met_iff by blast

theorem grounding_bar_monotone_witness:
  "support_block_reason [''e2'', ''e3'', ''e1''] (causal_evidence_tokens ex_case) = None"
  by (rule grounding_bar_monotone [of "[''e1'', ''e2'']"]) (simp, code_simp)

text \<open>With consistent nodes, the block reasons name exactly the unsettled, non-restating,
  net-supported roots with a satisfied AND-gate and a raw causal link that the bar holds, and the
  reason it gives; the pre-scan loses none of them.\<close>

theorem block_reasons_population:
  assumes "nodes_ok (case_nodes c)"
  shows "dict_get (root_support_block_reasons c) nid = Some r \<longleftrightarrow>
    (\<exists>n. dict_get (case_nodes c) nid = Some n \<and> held_reason c n = Some r)"
proof
  assume "dict_get (root_support_block_reasons c) nid = Some r"
  from block_reasons_sound [OF this] show "\<exists>n. dict_get (case_nodes c) nid = Some n \<and> held_reason c n = Some r"
    using nodes_ok_value [OF assms] by blast
next
  assume "\<exists>n. dict_get (case_nodes c) nid = Some n \<and> held_reason c n = Some r"
  then obtain n where n: "dict_get (case_nodes c) nid = Some n" "held_reason c n = Some r" by blast
  then have mem: "n \<in> set (dict_values (case_nodes c))"
    using nodes_ok_wf [OF assms] by (auto simp: dict_values_get)
  have id: "node_id n = nid" using nodes_okD [OF assms n(1)] by simp
  have "has_unsettled_root c" and "case_nodes c \<noteq> []"
    using mem held_reason_unsettled [OF n(2)] by (auto simp: has_unsettled_root_def list_ex_iff dict_values_def)
  moreover have "distinct (map node_id (dict_values (case_nodes c)))"
    using nodes_ok_wf [OF assms] by (simp add: values_ids [OF assms])
  ultimately show "dict_get (root_support_block_reasons c) nid = Some r"
    using fold_reasons_present [of node_id "dict_values (case_nodes c)" n "held_reason c" r] mem n(2) id
    by (simp add: block_reasons_as_fold)
qed

theorem block_reasons_population_witness:
  "dict_get (root_support_block_reasons ex_case) ''R1'' = Some BLOCK_REASON_COUNT \<longleftrightarrow>
    (\<exists>n. dict_get (case_nodes ex_case) ''R1'' = Some n \<and> held_reason ex_case n = Some BLOCK_REASON_COUNT)"
  by (rule block_reasons_population [OF ex_nodes_ok])

text \<open>No root is both count-held and held by the restatement guard: a restating root is never
  offered the confirmation that completes a count.\<close>

theorem count_held_never_restatement_held:
  "support_count_held_root_ids c \<inter> restatement_held_root_ids c = {}"
proof -
  have "nid \<notin> restating_root_ids c" if "nid \<in> support_count_held_root_ids c" for nid
    using that block_reasons_sound [of c nid] held_reason_unsettled by (force simp: count_held_iff)
  then show ?thesis by (auto simp: restatement_held_root_ids_def)
qed

end
