(* ===== verification/Settling.thy ===== *)
theory Settling
  imports Prelude
begin

text \<open>
  The shape of the engine's recompute loops: a pass visits every entry of a dictionary once, in
  insertion order, and rewrites it in place from its own value and from the values of the entries
  it depends on. When the dependencies have no cycle, as many passes as there are entries settle
  the dictionary. The locale states what such a loop relies on; the theory that models the loop
  interprets it.
\<close>

section \<open>One pass over a dictionary\<close>

definition visit_entry :: "('k \<Rightarrow> ('k, 'v) pydict \<Rightarrow> 'v \<Rightarrow> 'v) \<Rightarrow> 'k \<Rightarrow> ('k, 'v) pydict \<Rightarrow> ('k, 'v) pydict" where
  "visit_entry upd k d = (case dict_get d k of None \<Rightarrow> d | Some v \<Rightarrow> dict_put k (upd k d v) d)"

definition sweep :: "('k \<Rightarrow> ('k, 'v) pydict \<Rightarrow> 'v \<Rightarrow> 'v) \<Rightarrow> ('k, 'v) pydict \<Rightarrow> ('k, 'v) pydict" where
  "sweep upd d = fold (visit_entry upd) (dict_keys d) d"

lemma visit_entry_get:
  "dict_get (visit_entry upd k d) k' =
    (if k' = k then map_option (upd k d) (dict_get d k) else dict_get d k')"
  by (simp add: visit_entry_def split: option.split)

lemma visit_entry_keys [simp]: "dict_keys (visit_entry upd k d) = dict_keys d"
  by (auto simp: visit_entry_def dict_get_Some_key split: option.split)

lemma fold_visit_keys [simp]: "dict_keys (fold (visit_entry upd) ks d) = dict_keys d"
  by (induction ks arbitrary: d) simp_all

lemma fold_visit_other: "k \<notin> set ks \<Longrightarrow> dict_get (fold (visit_entry upd) ks d) k = dict_get d k"
  by (induction ks arbitrary: d) (simp_all add: visit_entry_get)

lemma sweep_keys [simp]: "dict_keys (sweep upd d) = dict_keys d"
  by (simp add: sweep_def)

lemma sweeps_keys [simp]: "dict_keys ((sweep upd ^^ i) d) = dict_keys d"
  by (induction i) simp_all

lemma pydict_eqI:
  assumes "dict_keys d = dict_keys e" "\<And>k. dict_get d k = dict_get e k" "dict_wf d"
  shows "d = e"
  using assms
proof (induction d arbitrary: e)
  case Nil
  then show ?case by (simp add: dict_keys_def)
next
  case (Cons p d)
  obtain k v where p: "p = (k, v)" by (cases p)
  from Cons.prems(1) p obtain w e' where e: "e = (k, w) # e'" "dict_keys d = dict_keys e'"
    by (cases e) (auto simp: dict_keys_def)
  have k: "k \<notin> set (dict_keys d)" "dict_wf d" using Cons.prems(3) p by (auto simp: dict_keys_def)
  have "dict_get d k' = dict_get e' k'" for k'
    using Cons.prems(2) [of k'] k(1) e p by (cases "k' = k") (auto simp: dict_get_None_iff [THEN iffD2])
  with Cons.IH [OF e(2)] k(2) have "d = e'" by blast
  then show ?case using Cons.prems(2) [of k] p e by simp
qed

text \<open>What holds of every entry and survives a visit holds after any number of passes.\<close>

lemma visit_invariant:
  assumes "\<And>k v. dict_get d k = Some v \<Longrightarrow> I k v"
    and "\<And>d v. I k v \<Longrightarrow> I k (upd k d v)"
    and "dict_get (visit_entry upd k d) k' = Some v'"
  shows "I k' v'"
  using assms by (auto simp: visit_entry_get split: if_splits)

lemma sweep_invariant:
  assumes "\<And>k v. dict_get d k = Some v \<Longrightarrow> I k v" and "\<And>k d v. I k v \<Longrightarrow> I k (upd k d v)"
  shows "dict_get (sweep upd d) k = Some v \<Longrightarrow> I k v"
proof -
  have "\<forall>k v. dict_get (fold (visit_entry upd) ks d) k = Some v \<longrightarrow> I k v" for ks
    by (rule fold_invariant_mem [where I = "\<lambda>d. \<forall>k v. dict_get d k = Some v \<longrightarrow> I k v"])
      (use assms visit_invariant [of _ I] in blast)+
  then show "dict_get (sweep upd d) k = Some v \<Longrightarrow> I k v" by (simp add: sweep_def)
qed

text \<open>The value an entry has after a pass, and the dictionary its visit saw.\<close>

lemma sweep_at:
  assumes "dict_wf d" "dict_get d k = Some v"
  shows "\<exists>e. dict_get (sweep upd d) k = Some (upd k e v) \<and> dict_keys e = dict_keys d
     \<and> dict_get e k = Some v
     \<and> (\<forall>k'. dict_get e k' = dict_get d k' \<or> dict_get e k' = dict_get (sweep upd d) k')"
proof -
  have "k \<in> set (dict_keys d)" using assms(2) by (rule dict_get_Some_key)
  then obtain xs ys where ks: "dict_keys d = xs @ k # ys" by (metis split_list)
  with assms(1) have notin: "k \<notin> set xs" "k \<notin> set ys" and disj: "set xs \<inter> set ys = {}" by auto
  let ?e = "fold (visit_entry upd) xs d"
  let ?f = "visit_entry upd k ?e"
  have sw: "sweep upd d = fold (visit_entry upd) ys ?f" by (simp add: sweep_def ks)
  have ek: "dict_get ?e k = Some v" using notin assms(2) by (simp add: fold_visit_other)
  have after: "dict_get (sweep upd d) k' = dict_get ?f k'" if "k' \<notin> set ys" for k'
    using that by (simp add: sw fold_visit_other)
  have "dict_get ?e k' = dict_get d k' \<or> dict_get ?e k' = dict_get (sweep upd d) k'" for k'
  proof (cases "k' \<in> set xs")
    case True
    then have "k' \<notin> set ys" "k' \<noteq> k" using disj notin by auto
    then show ?thesis using after [of k'] by (simp add: visit_entry_get)
  next
    case False
    then show ?thesis by (simp add: fold_visit_other)
  qed
  moreover have "dict_get (sweep upd d) k = Some (upd k ?e v)"
    using after [OF notin(2)] ek by (simp add: visit_entry_get)
  ultimately show ?thesis using ek by (intro exI [of _ ?e]) simp
qed

section \<open>Settling\<close>

locale settling_pass =
  fixes upd :: "'k \<Rightarrow> ('k, 'v) pydict \<Rightarrow> 'v \<Rightarrow> 'v"
    and deps :: "'k \<Rightarrow> 'k set"
    and entry_ok :: "'k \<Rightarrow> 'v \<Rightarrow> bool"
  assumes ok_update: "\<And>k d v. entry_ok k v \<Longrightarrow> entry_ok k (upd k d v)"
    and local_update: "\<And>k d d' v. entry_ok k v \<Longrightarrow>
      (\<And>k'. k' \<in> deps k \<Longrightarrow> dict_get d k' = dict_get d' k') \<Longrightarrow> upd k d v = upd k d' v"
    and stable_update: "\<And>k d v. entry_ok k v \<Longrightarrow> upd k d (upd k d v) = upd k d v"
begin

lemma sweep_ok:
  assumes "\<And>k v. dict_get d k = Some v \<Longrightarrow> entry_ok k v"
  shows "dict_get ((sweep upd ^^ i) d) k = Some v \<Longrightarrow> entry_ok k v"
proof (induction i arbitrary: k v)
  case (Suc i)
  from sweep_invariant [of "(sweep upd ^^ i) d" entry_ok, OF Suc.IH ok_update] Suc.prems
  show ?case by simp
qed (use assms in simp)

lemma stable_after:
  assumes wf: "dict_wf d" and ok: "\<And>k v. dict_get d k = Some v \<Longrightarrow> entry_ok k v"
    and rank: "\<And>k k'. k \<in> set (dict_keys d) \<Longrightarrow> k' \<in> deps k \<Longrightarrow> k' \<in> set (dict_keys d)
        \<Longrightarrow> rank k' < (rank k :: nat)"
  shows "rank k < i \<Longrightarrow> dict_get ((sweep upd ^^ Suc i) d) k = dict_get ((sweep upd ^^ i) d) k"
proof (induction "rank k" arbitrary: k i rule: less_induct)
  case less
  let ?it = "\<lambda>i. (sweep upd ^^ i) d"
  have wf': "dict_wf (?it i)" for i using wf by simp
  show ?case
  proof (cases "dict_get d k")
    case None
    then have "k \<notin> set (dict_keys (?it j))" for j by (simp add: dict_get_None_iff)
    then have "dict_get (?it j) k = None" for j by (metis dict_get_None_iff)
    then show ?thesis by metis
  next
    case (Some v)
    then have inkeys: "k \<in> set (dict_keys (?it j))" for j by (simp add: dict_get_Some_key)
    from less.prems obtain j where i: "i = Suc j" by (cases i) auto
    obtain v0 where v0: "dict_get (?it j) k = Some v0" using dict_key_get [OF inkeys] by blast
    from sweep_at [OF wf' v0] obtain e0 where e0: "dict_get (?it i) k = Some (upd k e0 v0)"
      "\<And>k'. dict_get e0 k' = dict_get (?it j) k' \<or> dict_get e0 k' = dict_get (?it i) k'"
      unfolding i by auto
    from sweep_at [OF wf' e0(1)] obtain e1 where
      e1: "dict_get (?it (Suc i)) k = Some (upd k e1 (upd k e0 v0))"
      "\<And>k'. dict_get e1 k' = dict_get (?it i) k' \<or> dict_get e1 k' = dict_get (?it (Suc i)) k'"
      by auto
    have "dict_get e1 k' = dict_get e0 k'" if dep: "k' \<in> deps k" for k'
    proof (cases "dict_get d k'")
      case None
      then have "dict_get (?it n) k' = None" for n by (metis dict_get_None_iff sweeps_keys)
      then show ?thesis using e0(2) [of k'] e1(2) [of k'] by metis
    next
      case (Some w)
      then have "k' \<in> set (dict_keys d)" by (rule dict_get_Some_key)
      with rank [of k k'] dep inkeys [of 0] have "rank k' < rank k" by simp
      then have "rank k' < i" "rank k' < j" using less.prems i by simp_all
      have "dict_get (?it (Suc i)) k' = dict_get (?it i) k'"
        by (rule less.hyps [OF \<open>rank k' < rank k\<close> \<open>rank k' < i\<close>])
      moreover have "dict_get (?it i) k' = dict_get (?it j) k'"
        unfolding i by (rule less.hyps [OF \<open>rank k' < rank k\<close> \<open>rank k' < j\<close>])
      ultimately show ?thesis using e0(2) [of k'] e1(2) [of k'] by argo
    qed
    moreover have ok0: "entry_ok k v0" using sweep_ok [OF ok v0] .
    ultimately have "upd k e1 (upd k e0 v0) = upd k e0 (upd k e0 v0)"
      by (intro local_update ok_update)
    with e1(1) e0(1) show ?thesis by (simp add: stable_update [OF ok0])
  qed
qed

end

section \<open>Ranks of an acyclic dependency\<close>

text \<open>
  Over the finitely many keys, an acyclic dependency has a rank below the number of keys: the
  number of keys an entry transitively depends on.
\<close>

definition dep_relation :: "('k \<Rightarrow> 'k set) \<Rightarrow> 'k set \<Rightarrow> ('k \<times> 'k) set" where
  "dep_relation deps K = {(a, b). a \<in> K \<and> b \<in> K \<and> a \<in> deps b}"

lemma acyclic_rank:
  assumes fin: "finite K" and ac: "acyclic (dep_relation deps K)"
  defines "rank \<equiv> \<lambda>k. card {a. (a, k) \<in> (dep_relation deps K)\<^sup>+}"
  shows "k \<in> K \<Longrightarrow> rank k < card K"
    and "b \<in> K \<Longrightarrow> a \<in> deps b \<Longrightarrow> a \<in> K \<Longrightarrow> rank a < rank b"
proof -
  let ?R = "dep_relation deps K"
  have sub: "{a. (a, k) \<in> ?R\<^sup>+} \<subseteq> K" for k
    by (auto simp: dep_relation_def dest: tranclD)
  then have fins: "finite {a. (a, k) \<in> ?R\<^sup>+}" for k using fin finite_subset by blast
  show "rank k < card K" if "k \<in> K"
  proof -
    have "k \<notin> {a. (a, k) \<in> ?R\<^sup>+}" using ac by (simp add: acyclic_def)
    with that sub [of k] have "{a. (a, k) \<in> ?R\<^sup>+} \<subset> K" by blast
    then show ?thesis unfolding rank_def by (rule psubset_card_mono [OF fin])
  qed
  show "rank a < rank b" if "b \<in> K" "a \<in> deps b" "a \<in> K"
  proof -
    have ab: "(a, b) \<in> ?R" using that by (simp add: dep_relation_def)
    then have "{c. (c, a) \<in> ?R\<^sup>+} \<subseteq> {c. (c, b) \<in> ?R\<^sup>+}" by (auto intro: trancl_into_trancl)
    moreover have "a \<in> {c. (c, b) \<in> ?R\<^sup>+}" using ab by blast
    moreover have "a \<notin> {c. (c, a) \<in> ?R\<^sup>+}" using ac by (simp add: acyclic_def)
    ultimately have "{c. (c, a) \<in> ?R\<^sup>+} \<subset> {c. (c, b) \<in> ?R\<^sup>+}" by blast
    then show ?thesis unfolding rank_def by (rule psubset_card_mono [OF fins])
  qed
qed

context settling_pass begin

lemma settles:
  assumes wf: "dict_wf d" and ok: "\<And>k v. dict_get d k = Some v \<Longrightarrow> entry_ok k v"
    and ac: "acyclic (dep_relation deps (set (dict_keys d)))"
    and i: "length d \<le> i"
  shows "dict_get ((sweep upd ^^ Suc i) d) k = dict_get ((sweep upd ^^ i) d) k"
proof (cases "k \<in> set (dict_keys d)")
  case True
  let ?rank = "\<lambda>k. card {a. (a, k) \<in> (dep_relation deps (set (dict_keys d)))\<^sup>+}"
  have "card (set (dict_keys d)) = length d"
    using wf by (simp add: distinct_card)
  with acyclic_rank(1) [OF _ ac True] i have "?rank k < i" by simp
  then show ?thesis
    by (intro stable_after [OF wf ok, where rank = ?rank]) (auto intro: acyclic_rank(2) [OF _ ac])
next
  case False
  then have "k \<notin> set (dict_keys ((sweep upd ^^ j) d))" for j by simp
  then have "dict_get ((sweep upd ^^ j) d) k = None" for j by (metis dict_get_None_iff)
  then show ?thesis by metis
qed

end

end
