(* ===== verification/Derivation.thy ===== *)
theory Derivation
  imports Support_Holds Settling
begin

text \<open>
  Deriving the node states (\<open>core/investigation/causal_graph/derivation.py\<close>): the empirical lane
  \<open>derive_node_states\<close>, a bounded loop of passes that rewrite the nodes in place.
\<close>

section \<open>One node\<close>

text \<open>The locals \<open>derive_node_states\<close> computes once, before its loop.\<close>

record derive_locals =
  dl_edges :: "causal_edge list"
  dl_evidence_by_id :: "(string, evidence_category) pydict"
  dl_restating_roots :: "string set"
  dl_causal_tokens :: "(string, string set) pydict"

definition derive_locals_of :: "case_data \<Rightarrow> derive_locals" where
  "derive_locals_of c =
    \<lparr>dl_edges = case_edges c, dl_evidence_by_id = evidence_category_map c,
     dl_restating_roots = restating_root_ids c, dl_causal_tokens = causal_evidence_tokens c\<rparr>"

text \<open>The block events two metric counters record.\<close>

datatype block_event = Restatement_Blocked string | Support_Count_Blocked string block_reason

definition node_tally_in :: "derive_locals \<Rightarrow> causal_node \<Rightarrow> node_tally" where
  "node_tally_in loc node = node_evidence_tally node (dl_evidence_by_id loc)"

definition deductively_valid :: "causal_node \<Rightarrow> bool" where
  "deductively_valid node \<longleftrightarrow> node_state node = VALIDATED \<and> node_method node = DEDUCTIVE"

definition causally_grounded :: "derive_locals \<Rightarrow> causal_node \<Rightarrow> bool" where
  "causally_grounded loc node =
    (let ids = t_causal_support_ev_ids (node_tally_in loc node) in
     if node_type node = ROOT
     then (length ids \<ge> ROOT_INDEPENDENT_CAUSAL_SUPPORT_MIN
           \<and> independent_causal_support_count ids (dl_causal_tokens loc)
               \<ge> ROOT_INDEPENDENT_CAUSAL_SUPPORT_MIN)
          \<or> root_counterfactually_confirmed node (dl_evidence_by_id loc)
     else length ids \<ge> 1)"

definition generic_ok :: "derive_locals \<Rightarrow> (string, causal_node) pydict \<Rightarrow> causal_node \<Rightarrow> bool" where
  "generic_ok loc nodes node \<longleftrightarrow>
    t_supports (node_tally_in loc node) > t_refutes (node_tally_in loc node)
    \<and> and_constraints_satisfied (node_id node) nodes (dl_edges loc)"

definition would_validate :: "derive_locals \<Rightarrow> (string, causal_node) pydict \<Rightarrow> causal_node \<Rightarrow> bool" where
  "would_validate loc nodes node \<longleftrightarrow> causally_grounded loc node \<and> generic_ok loc nodes node"

text \<open>The state a visit aims at; \<open>None\<close> is the \<open>continue\<close> of the deductive lane.\<close>

definition target_state ::
    "derive_locals \<Rightarrow> (string, causal_node) pydict \<Rightarrow> causal_node \<Rightarrow> node_state option" where
  "target_state loc nodes node =
    (let t = node_tally_in loc node in
     if t_counterfactual_refutes t \<ge> 1 \<or> t_refutes t > t_supports t then Some REFUTED
     else if deductively_valid node then None
     else if would_validate loc nodes node
        \<and> (node_id node \<notin> dl_restating_roots loc \<or> node_state node = VALIDATED) then Some VALIDATED
     else if would_validate loc nodes node then Some INCONCLUSIVE
     else if t_supports t \<noteq> 0 \<or> t_refutes t \<noteq> 0 \<or> t_hedged_refutes t \<noteq> 0 then Some INCONCLUSIVE
     else Some CANDIDATE)"

definition absolute_exclusion :: "derive_locals \<Rightarrow> causal_node \<Rightarrow> causal_node" where
  "absolute_exclusion loc node =
    (if t_counterfactual_refutes (node_tally_in loc node) \<ge> 1 \<and> node_belief node \<noteq> 0
     then node\<lparr>node_belief := 0\<rparr> else node)"

definition REFUTED_BY_RUNG :: string where
  "REFUTED_BY_RUNG = ''refuted by rung evidence / a refuted AND-member (M7)''"

definition enter_state :: "node_state \<Rightarrow> causal_node \<Rightarrow> causal_node" where
  "enter_state target node =
    (let n1 = (if target = VALIDATED
       then (let n = node\<lparr>node_method := EMPIRICAL, node_refutation_reason := None\<rparr> in
             if node_type node = ROOT then n\<lparr>node_actionable := True\<rparr> else n)
       else if target = REFUTED
       then (let n = node\<lparr>node_method := NONE, node_actionable := False\<rparr> in
             if \<not> truthy (node_refutation_reason n)
             then n\<lparr>node_refutation_reason := Some REFUTED_BY_RUNG\<rparr> else n)
       else node\<lparr>node_method := NONE, node_refutation_reason := None\<rparr>)
     in n1\<lparr>node_state := target\<rparr>)"

definition block_events ::
    "derive_locals \<Rightarrow> (string, causal_node) pydict \<Rightarrow> causal_node \<Rightarrow> node_state \<Rightarrow> block_event list" where
  "block_events loc nodes node target =
    (if target = INCONCLUSIVE \<and> would_validate loc nodes node
        \<and> node_id node \<in> dl_restating_roots loc
     then [Restatement_Blocked (node_id node)] else [])
    @ (if target = INCONCLUSIVE \<and> generic_ok loc nodes node \<and> \<not> causally_grounded loc node
          \<and> t_raw_causal_links (node_tally_in loc node) \<ge> 1 \<and> node_type node = ROOT
       then [Support_Count_Blocked (node_id node)
              (case support_block_reason (t_causal_support_ev_ids (node_tally_in loc node))
                      (dl_causal_tokens loc) of
                 Some r \<Rightarrow> r | None \<Rightarrow> BLOCK_REASON_COUNT)] else [])"

text \<open>The body of the inner loop: the node afterwards, whether its state changed, the events.\<close>

definition derive_node ::
    "derive_locals \<Rightarrow> (string, causal_node) pydict \<Rightarrow> causal_node \<Rightarrow> causal_node \<times> bool \<times> block_event list" where
  "derive_node loc nodes node =
    (if node_type node = PROBLEM then (node, False, [])
     else case target_state loc nodes node of
         None \<Rightarrow> (node, False, [])
       | Some target \<Rightarrow>
           let node1 = absolute_exclusion loc node in
           if target = node_state node1 then (node1, False, [])
           else (enter_state target node1, True, block_events loc nodes node1 target))"

section \<open>The loop\<close>

definition derive_visit ::
    "derive_locals \<Rightarrow> string \<Rightarrow> (string, causal_node) pydict \<times> bool \<times> block_event list
      \<Rightarrow> (string, causal_node) pydict \<times> bool \<times> block_event list" where
  "derive_visit loc k = (\<lambda>(nodes, changed, events).
    case dict_get nodes k of
      None \<Rightarrow> (nodes, changed, events)
    | Some node \<Rightarrow>
       (case derive_node loc nodes node of
          (node', ch, ev) \<Rightarrow> (dict_put k node' nodes, changed \<or> ch, events @ ev)))"

definition derive_pass ::
    "derive_locals \<Rightarrow> (string, causal_node) pydict \<Rightarrow> (string, causal_node) pydict \<times> bool \<times> block_event list" where
  "derive_pass loc nodes = fold (derive_visit loc) (dict_keys nodes) (nodes, False, [])"

fun derive_loop ::
    "nat \<Rightarrow> derive_locals \<Rightarrow> (string, causal_node) pydict \<times> bool \<times> block_event list
      \<Rightarrow> (string, causal_node) pydict \<times> bool \<times> block_event list" where
  "derive_loop 0 loc st = st"
| "derive_loop (Suc passes) loc (nodes, changed_any, events) =
    (case derive_pass loc nodes of (nodes', changed_this_pass, ev) \<Rightarrow>
       if \<not> changed_this_pass then (nodes', changed_any, events @ ev)
       else derive_loop passes loc (nodes', True, events @ ev))"

definition derive_node_states :: "case_data \<Rightarrow> case_data \<times> bool \<times> block_event list" where
  "derive_node_states c =
    (case derive_loop (length (case_nodes c) + 1) (derive_locals_of c) (case_nodes c, False, []) of
       (nodes, changed, events) \<Rightarrow> (c\<lparr>case_nodes := nodes\<rparr>, changed, events))"

section \<open>What a visit keeps\<close>

lemmas derive_node_defs = derive_node_def absolute_exclusion_def enter_state_def Let_def

lemma absolute_exclusion_frame [simp]:
  "node_id (absolute_exclusion loc n) = node_id n"
  "node_type (absolute_exclusion loc n) = node_type n"
  "node_statement (absolute_exclusion loc n) = node_statement n"
  "node_links (absolute_exclusion loc n) = node_links n"
  "node_state (absolute_exclusion loc n) = node_state n"
  "node_method (absolute_exclusion loc n) = node_method n"
  "node_metadata (absolute_exclusion loc n) = node_metadata n"
  "node_actionable (absolute_exclusion loc n) = node_actionable n"
  "node_refutation_reason (absolute_exclusion loc n) = node_refutation_reason n"
  by (simp_all add: absolute_exclusion_def)

lemma enter_state_frame [simp]:
  "node_id (enter_state s n) = node_id n"
  "node_type (enter_state s n) = node_type n"
  "node_statement (enter_state s n) = node_statement n"
  "node_links (enter_state s n) = node_links n"
  "node_belief (enter_state s n) = node_belief n"
  "node_metadata (enter_state s n) = node_metadata n"
  "node_state (enter_state s n) = s"
  by (simp_all add: enter_state_def Let_def)

lemma enter_state_method:
  "node_method (enter_state s n) = (if s = VALIDATED then EMPIRICAL else NONE)"
  by (simp add: enter_state_def Let_def)

lemma enter_state_ok [wf_intros]: "node_ok (enter_state s n)"
  by (cases s) (auto simp: enter_state_def node_ok_def Let_def REFUTED_BY_RUNG_def)

lemma absolute_exclusion_ok [simp]: "node_ok (absolute_exclusion loc n) = node_ok n"
  by (simp add: node_ok_def)

lemma derive_node_frame [simp]:
  "node_id (fst (derive_node loc d n)) = node_id n"
  "node_type (fst (derive_node loc d n)) = node_type n"
  "node_statement (fst (derive_node loc d n)) = node_statement n"
  "node_links (fst (derive_node loc d n)) = node_links n"
  "node_metadata (fst (derive_node loc d n)) = node_metadata n"
  by (simp_all add: derive_node_def Let_def split: option.split)

lemma derive_node_problem: "node_type n = PROBLEM \<Longrightarrow> derive_node loc d n = (n, False, [])"
  by (simp add: derive_node_def)

lemma derive_node_ok [wf_intros]: "node_ok n \<Longrightarrow> node_ok (fst (derive_node loc d n))"
  by (auto simp: derive_node_def Let_def enter_state_ok absolute_exclusion_ok split: option.split)

text \<open>Everything but the state and the method is read off the links and the identity.\<close>

lemma node_tally_in_cong: "node_links n = node_links m \<Longrightarrow> node_tally_in loc n = node_tally_in loc m"
  by (simp add: node_tally_in_def node_evidence_tally_def)

lemma causally_grounded_cong:
  "node_links n = node_links m \<Longrightarrow> node_type n = node_type m \<Longrightarrow>
    causally_grounded loc n = causally_grounded loc m"
  by (simp add: causally_grounded_def node_tally_in_cong [of n m] root_counterfactually_confirmed_def)

lemma generic_ok_cong:
  "node_links n = node_links m \<Longrightarrow> node_id n = node_id m \<Longrightarrow>
    (\<And>x. x \<in> and_parents (node_id m) (dl_edges loc) \<Longrightarrow> state_of x d = state_of x d') \<Longrightarrow>
    generic_ok loc d n = generic_ok loc d' m"
  unfolding generic_ok_def satisfied_iff_parents by (simp add: node_tally_in_cong [of n m])

lemma target_state_cong:
  assumes "node_links n = node_links m" "node_id n = node_id m" "node_type n = node_type m"
    and "node_state n = node_state m" "node_method n = node_method m"
    and "\<And>x. x \<in> and_parents (node_id m) (dl_edges loc) \<Longrightarrow> state_of x d = state_of x d'"
  shows "target_state loc d n = target_state loc d' m"
proof -
  have "would_validate loc d n = would_validate loc d' m"
    using assms generic_ok_cong [of n m loc d d'] causally_grounded_cong [of n m loc]
    by (simp add: would_validate_def)
  moreover have "deductively_valid n = deductively_valid m" using assms by (simp add: deductively_valid_def)
  moreover have "node_tally_in loc n = node_tally_in loc m" using assms(1) by (rule node_tally_in_cong)
  ultimately show ?thesis using assms(2,4) unfolding target_state_def by presburger
qed

lemma block_events_cong:
  assumes "node_links n = node_links m" "node_id n = node_id m" "node_type n = node_type m"
    and "\<And>x. x \<in> and_parents (node_id m) (dl_edges loc) \<Longrightarrow> state_of x d = state_of x d'"
  shows "block_events loc d n s = block_events loc d' m s"
proof -
  have "generic_ok loc d n = generic_ok loc d' m" using assms generic_ok_cong by metis
  moreover have "causally_grounded loc n = causally_grounded loc m"
    using assms causally_grounded_cong by metis
  moreover have "node_tally_in loc n = node_tally_in loc m" using assms(1) by (rule node_tally_in_cong)
  ultimately show ?thesis using assms(2,3) unfolding block_events_def would_validate_def by presburger
qed

text \<open>A visit repeated in the same graph is idle: the state it aimed at is the one it would keep.\<close>

lemma target_state_again:
  assumes "target_state loc d n = Some s" "node_links m = node_links n" "node_id m = node_id n"
    "node_type m = node_type n" "node_state m = s"
    and "node_state n = s \<and> node_method m = node_method n \<or> node_method m \<noteq> DEDUCTIVE"
  shows "target_state loc d m = Some s"
proof -
  have "causally_grounded loc m = causally_grounded loc n" "generic_ok loc d m = generic_ok loc d n"
    "node_tally_in loc m = node_tally_in loc n"
    using assms causally_grounded_cong generic_ok_cong node_tally_in_cong by metis+
  with assms show ?thesis
    by (auto simp: target_state_def would_validate_def deductively_valid_def Let_def split: if_splits)
qed

lemma derive_node_stable: "derive_node loc d (fst (derive_node loc d n)) = (fst (derive_node loc d n), False, [])"
proof (cases "node_type n = PROBLEM")
  case True
  then show ?thesis by (simp add: derive_node_def)
next
  case False
  show ?thesis
  proof (cases "target_state loc d n")
    case None
    with False show ?thesis by (simp add: derive_node_def)
  next
    case (Some s)
    let ?m = "fst (derive_node loc d n)"
    have m: "?m = (if s = node_state n then absolute_exclusion loc n else enter_state s (absolute_exclusion loc n))"
      using False Some by (simp add: derive_node_def Let_def)
    then have st: "node_state ?m = s" by simp
    have "node_state n = s \<and> node_method ?m = node_method n \<or> node_method ?m \<noteq> DEDUCTIVE"
      using m by (auto simp: enter_state_method)
    then have "target_state loc d ?m = Some s"
      by (intro target_state_again [OF Some]) (simp_all add: st)
    moreover have "absolute_exclusion loc ?m = ?m"
      using m by (auto simp: absolute_exclusion_def node_tally_in_def node_evidence_tally_def)
    ultimately show ?thesis using False st by (simp add: derive_node_def Let_def)
  qed
qed

lemma derive_node_cong:
  assumes "\<And>x. x \<in> and_parents (node_id n) (dl_edges loc) \<Longrightarrow> state_of x d = state_of x d'"
  shows "derive_node loc d n = derive_node loc d' n"
proof -
  have "target_state loc d n = target_state loc d' n" using assms by (intro target_state_cong) simp_all
  moreover have "block_events loc d (absolute_exclusion loc n) s = block_events loc d' (absolute_exclusion loc n) s" for s
    using assms by (intro block_events_cong) simp_all
  ultimately show ?thesis by (simp add: derive_node_def Let_def split: option.split)
qed

section \<open>The loop settles\<close>

definition derive_upd :: "derive_locals \<Rightarrow> string \<Rightarrow> (string, causal_node) pydict \<Rightarrow> causal_node \<Rightarrow> causal_node" where
  "derive_upd loc k nodes node = fst (derive_node loc nodes node)"

definition keyed_ok :: "string \<Rightarrow> causal_node \<Rightarrow> bool" where
  "keyed_ok k n \<longleftrightarrow> node_id n = k \<and> node_ok n"

text \<open>
  The contract of \<open>settling_pass\<close> on the model: a visit keeps the node's key and validators,
  reads the graph through its AND-parents alone, and is idle when repeated.
\<close>

interpretation derive: settling_pass "derive_upd loc" "\<lambda>k. and_parents k (dl_edges loc)" keyed_ok
  for loc
proof unfold_locales
  show "keyed_ok k v \<Longrightarrow> keyed_ok k (derive_upd loc k d v)" for k d v
    by (simp add: keyed_ok_def derive_upd_def derive_node_ok)
  show "keyed_ok k v \<Longrightarrow> (\<And>k'. k' \<in> and_parents k (dl_edges loc) \<Longrightarrow> dict_get d k' = dict_get d' k')
      \<Longrightarrow> derive_upd loc k d v = derive_upd loc k d' v" for k d d' v
    using derive_node_cong [of v loc d d'] by (simp add: keyed_ok_def derive_upd_def state_of_def)
  show "keyed_ok k v \<Longrightarrow> derive_upd loc k d (derive_upd loc k d v) = derive_upd loc k d v" for k d v
    by (simp add: derive_upd_def derive_node_stable)
qed

lemma derive_visit_fst: "fst (derive_visit loc k st) = visit_entry (derive_upd loc) k (fst st)"
  by (auto simp: derive_visit_def visit_entry_def derive_upd_def split: prod.split option.split)

lemma fold_derive_visit_fst:
  "fst (fold (derive_visit loc) ks st) = fold (visit_entry (derive_upd loc)) ks (fst st)"
  by (induction ks arbitrary: st) (simp_all add: derive_visit_fst)

lemma derive_pass_fst: "fst (derive_pass loc ns) = sweep (derive_upd loc) ns"
  by (simp add: derive_pass_def sweep_def fold_derive_visit_fst)

text \<open>A pass that reports no change has changed no state.\<close>

lemma visit_idle:
  assumes "\<not> fst (snd (derive_visit loc k st))"
  shows "\<not> fst (snd st) \<and> (\<forall>x. state_of x (fst (derive_visit loc k st)) = state_of x (fst st))"
proof -
  obtain ns ch ev where st: "st = (ns, ch, ev)" by (cases st)
  show ?thesis
  proof (cases "dict_get ns k")
    case None
    with assms st show ?thesis by (simp add: derive_visit_def)
  next
    case (Some n)
    obtain n' c' e' where d: "derive_node loc ns n = (n', c', e')" by (cases "derive_node loc ns n")
    with assms st Some have "\<not> ch" "\<not> c'" by (simp_all add: derive_visit_def)
    moreover from \<open>\<not> c'\<close> d have "node_state n' = node_state n"
      by (auto simp: derive_node_def Let_def split: if_splits option.splits)
    ultimately show ?thesis using st Some d by (simp add: derive_visit_def state_of_def)
  qed
qed

lemma fold_visit_idle:
  "\<not> fst (snd (fold (derive_visit loc) ks st)) \<Longrightarrow>
    \<not> fst (snd st) \<and> (\<forall>x. state_of x (fst (fold (derive_visit loc) ks st)) = state_of x (fst st))"
proof (induction ks arbitrary: st)
  case (Cons k ks)
  from Cons.IH [of "derive_visit loc k st"] Cons.prems visit_idle [of loc k st] show ?case by simp
qed simp

lemma pass_idle:
  assumes "\<not> fst (snd (derive_pass loc ns))"
  shows "state_of x (sweep (derive_upd loc) ns) = state_of x ns"
  using fold_visit_idle [of loc "dict_keys ns" "(ns, False, [])"] assms
  by (simp add: derive_pass_def fold_derive_visit_fst sweep_def)

text \<open>A settled graph: no visit would change anything, beliefs and counters included.\<close>

definition settled :: "derive_locals \<Rightarrow> (string, causal_node) pydict \<Rightarrow> bool" where
  "settled loc ns \<longleftrightarrow> (\<forall>k n. dict_get ns k = Some n \<longrightarrow> derive_node loc ns n = (n, False, []))"

lemma same_states_settled:
  assumes wf: "dict_wf ns" and same: "\<And>x. state_of x (sweep (derive_upd loc) ns) = state_of x ns"
  shows "settled loc (sweep (derive_upd loc) ns)"
  unfolding settled_def
proof (intro allI impI)
  fix k w assume w: "dict_get (sweep (derive_upd loc) ns) k = Some w"
  let ?s = "sweep (derive_upd loc) ns"
  from w obtain v where "dict_get ns k = Some v"
    by (metis dict_key_get dict_get_Some_key sweep_keys)
  from sweep_at [OF wf this, of "derive_upd loc"] obtain e where
    e: "dict_get ?s k = Some (derive_upd loc k e v)"
      "\<forall>x. dict_get e x = dict_get ns x \<or> dict_get e x = dict_get ?s x" by blast
  have states: "state_of x ?s = state_of x e" for x
    using e(2) same [of x] by (metis state_of_def)
  have "derive_node loc ?s w = derive_node loc e w" by (rule derive_node_cong) (rule states)
  moreover have "w = fst (derive_node loc e v)" using w e(1) by (simp add: derive_upd_def)
  ultimately show "derive_node loc ?s w = (w, False, [])" by (simp add: derive_node_stable)
qed

lemma fold_visit_settled:
  "settled loc ns \<Longrightarrow> fold (derive_visit loc) ks (ns, ch, ev) = (ns, ch, ev)"
  by (induction ks) (simp_all add: derive_visit_def settled_def dict_put_same split: option.split)

lemma settled_pass: "settled loc ns \<Longrightarrow> derive_pass loc ns = (ns, False, [])"
  by (simp add: derive_pass_def fold_visit_settled)

lemma settled_loop: "settled loc ns \<Longrightarrow> derive_loop p loc (ns, ch, ev) = (ns, ch, ev)"
  by (cases p) (simp_all add: settled_pass)

section \<open>The loop as iterated passes\<close>

lemma derive_loop_sweeps:
  "derive_loop p loc (ns, ch, ev) = (ns', ch', ev') \<Longrightarrow> \<exists>i \<le> p. ns' = (sweep (derive_upd loc) ^^ i) ns
     \<and> (0 < p \<longrightarrow> 0 < i)
     \<and> (i = p \<or> (\<exists>m. ns' = sweep (derive_upd loc) m \<and> dict_keys m = dict_keys ns
                 \<and> \<not> fst (snd (derive_pass loc m))))"
proof (induction p arbitrary: ns ch ev)
  case (Suc p)
  obtain ns1 ch1 ev1 where d: "derive_pass loc ns = (ns1, ch1, ev1)" by (cases "derive_pass loc ns")
  have ns1: "ns1 = sweep (derive_upd loc) ns" using d derive_pass_fst [of loc ns] by simp
  show ?case
  proof (cases ch1)
    case False
    with Suc.prems d have "ns' = ns1" by simp
    then show ?thesis
      using ns1 d False by (intro exI [of _ 1]) (auto intro!: exI [of _ ns])
  next
    case True
    with Suc.prems d have "derive_loop p loc (ns1, True, ev @ ev1) = (ns', ch', ev')" by simp
    from Suc.IH [OF this] obtain i where i: "i \<le> p" "ns' = (sweep (derive_upd loc) ^^ i) ns1"
      "i = p \<or> (\<exists>m. ns' = sweep (derive_upd loc) m \<and> dict_keys m = dict_keys ns1
                 \<and> \<not> fst (snd (derive_pass loc m)))" by blast
    then show ?thesis
      by (intro exI [of _ "Suc i"]) (simp add: ns1 funpow_swap1)
  qed
qed simp

lemma sweeps_invariant:
  assumes "\<And>k v. dict_get ns k = Some v \<Longrightarrow> I k v"
    and "\<And>k d v. I k v \<Longrightarrow> I k (fst (derive_node loc d v))"
  shows "dict_get ((sweep (derive_upd loc) ^^ j) ns) k = Some v \<Longrightarrow> I k v"
proof (induction j arbitrary: k v)
  case (Suc j)
  have "I k (derive_upd loc k d v)" if "I k v" for k d v
    using assms(2) [OF that] by (simp add: derive_upd_def)
  from sweep_invariant [of "(sweep (derive_upd loc) ^^ j) ns" I, OF Suc.IH this] Suc.prems
  show ?case by simp
qed (use assms(1) in simp)

text \<open>Every entry of the result comes out of a visit, of an entry the invariant holds of.\<close>

lemma derive_loop_last_visit:
  assumes wf: "dict_wf ns" and "\<And>k v. dict_get ns k = Some v \<Longrightarrow> I k v"
    and "\<And>k d v. I k v \<Longrightarrow> I k (fst (derive_node loc d v))"
    and res: "dict_get (fst (derive_loop (Suc p) loc (ns, ch, ev))) k = Some w"
  shows "\<exists>d v. I k v \<and> w = fst (derive_node loc d v)"
proof -
  obtain ns' ch' ev' where l: "derive_loop (Suc p) loc (ns, ch, ev) = (ns', ch', ev')"
    by (cases "derive_loop (Suc p) loc (ns, ch, ev)")
  from derive_loop_sweeps [OF this] obtain i where "ns' = (sweep (derive_upd loc) ^^ i) ns" "0 < i"
    by (elim exE conjE) simp
  then obtain j where ns': "ns' = sweep (derive_upd loc) ((sweep (derive_upd loc) ^^ j) ns)"
    by (cases i) auto
  let ?m = "(sweep (derive_upd loc) ^^ j) ns"
  have w: "dict_get (sweep (derive_upd loc) ?m) k = Some w" using res l ns' by simp
  have "k \<in> set (dict_keys ?m)" using dict_get_Some_key [OF w] by simp
  then obtain v where v: "dict_get ?m k = Some v" using dict_key_get by metis
  from sweep_at [OF _ v, of "derive_upd loc"] wf obtain d where
    "dict_get (sweep (derive_upd loc) ?m) k = Some (derive_upd loc k d v)" by auto
  moreover have "I k v" by (rule sweeps_invariant [where I = I, OF assms(2,3) v])
  ultimately show ?thesis using w by (auto simp: derive_upd_def)
qed

lemma derive_loop_invariant:
  assumes "dict_wf ns" "\<And>k v. dict_get ns k = Some v \<Longrightarrow> I k v"
    and step: "\<And>k d v. I k v \<Longrightarrow> I k (fst (derive_node loc d v))"
    and "dict_get (fst (derive_loop (Suc p) loc (ns, ch, ev))) k = Some w"
  shows "I k w"
  proof -
  have "\<exists>d v. I k v \<and> w = fst (derive_node loc d v)"
    by (rule derive_loop_last_visit [where I = I, OF assms(1) assms(2) step assms(4)])
  then show ?thesis using step by blast
qed

lemma derive_loop_keys: "dict_keys (fst (derive_loop p loc (ns, ch, ev))) = dict_keys ns"
proof -
  obtain ns' ch' ev' where l: "derive_loop p loc (ns, ch, ev) = (ns', ch', ev')"
    by (cases "derive_loop p loc (ns, ch, ev)")
  from derive_loop_sweeps [OF this] show ?thesis using l by auto
qed

text \<open>Enough passes settle an acyclic graph; an early stop has settled it as well.\<close>

lemma derive_loop_settled:
  assumes ok: "nodes_ok ns" and ac: "acyclic (dep_relation (\<lambda>k. and_parents k (dl_edges loc)) (set (dict_keys ns)))"
    and p: "length ns < p"
  shows "settled loc (fst (derive_loop p loc (ns, ch, ev)))"
proof -
  let ?S = "sweep (derive_upd loc)"
  obtain ns' ch' ev' where l: "derive_loop p loc (ns, ch, ev) = (ns', ch', ev')"
    by (cases "derive_loop p loc (ns, ch, ev)")
  have wf: "dict_wf ns" using ok by (rule nodes_ok_wf)
  have keyed: "dict_get ns k = Some v \<Longrightarrow> keyed_ok k v" for k v
    using nodes_okD [OF ok] by (simp add: keyed_ok_def)
  from derive_loop_sweeps [OF l] obtain i where i: "ns' = (?S ^^ i) ns"
    "i = p \<or> (\<exists>m. ns' = ?S m \<and> dict_keys m = dict_keys ns \<and> \<not> fst (snd (derive_pass loc m)))" by blast
  have "settled loc ns'"
    using i(2)
  proof
    assume "i = p"
    with p obtain j where j: "i = Suc j" "length ns \<le> j" by (cases i) auto
    let ?m = "(?S ^^ j) ns"
    have ns': "ns' = ?S ?m" using i(1) j by simp
    have "dict_get (?S ?m) k = dict_get ?m k" for k
      using derive.settles [OF wf keyed ac j(2), of k] by simp
    then show ?thesis unfolding ns' using wf by (intro same_states_settled) (simp_all add: state_of_def)
  next
    assume "\<exists>m. ns' = ?S m \<and> dict_keys m = dict_keys ns \<and> \<not> fst (snd (derive_pass loc m))"
    then obtain m where m: "ns' = ?S m" "dict_keys m = dict_keys ns" "\<not> fst (snd (derive_pass loc m))" by blast
    show ?thesis unfolding m(1) using wf m by (intro same_states_settled pass_idle) simp_all
  qed
  with l show ?thesis by simp
qed

section \<open>The derivation as a whole\<close>

text \<open>The graph, the flag and the events of the result, with the bound of the code.\<close>

lemma derive_node_states_unfold:
  "derive_node_states c =
    (c\<lparr>case_nodes := fst (derive_loop (Suc (length (case_nodes c))) (derive_locals_of c) (case_nodes c, False, []))\<rparr>,
     snd (derive_loop (Suc (length (case_nodes c))) (derive_locals_of c) (case_nodes c, False, [])))"
  by (simp add: derive_node_states_def split: prod.split)

abbreviation derived :: "case_data \<Rightarrow> case_data" where
  "derived c \<equiv> fst (derive_node_states c)"

lemma derived_fields [simp]:
  "case_edges (derived c) = case_edges c" "case_evidence (derived c) = case_evidence c"
  "case_hypotheses (derived c) = case_hypotheses c"
  "case_symptom_statement (derived c) = case_symptom_statement c"
  by (simp_all add: derive_node_states_unfold)

lemma derived_keys [simp]: "dict_keys (case_nodes (derived c)) = dict_keys (case_nodes c)"
  by (simp add: derive_node_states_unfold derive_loop_keys del: derive_loop.simps)

lemma derived_invariant:
  assumes "dict_wf (case_nodes c)" "\<And>k v. dict_get (case_nodes c) k = Some v \<Longrightarrow> I k v"
    and "\<And>k d v. I k v \<Longrightarrow> I k (fst (derive_node (derive_locals_of c) d v))"
    and "dict_get (case_nodes (derived c)) k = Some w"
  shows "I k w"
  by (rule derive_loop_invariant [where I = I, OF assms(1) assms(2) assms(3)])
    (use assms(4) in \<open>simp_all add: derive_node_states_unfold del: derive_loop.simps\<close>)

lemma derived_last_visit:
  assumes "dict_wf (case_nodes c)" "\<And>k v. dict_get (case_nodes c) k = Some v \<Longrightarrow> I k v"
    and "\<And>k d v. I k v \<Longrightarrow> I k (fst (derive_node (derive_locals_of c) d v))"
    and "dict_get (case_nodes (derived c)) k = Some w"
  shows "\<exists>d v. I k v \<and> w = fst (derive_node (derive_locals_of c) d v)"
  by (rule derive_loop_last_visit [where I = I, OF assms(1) assms(2) assms(3)])
    (use assms(4) in \<open>simp_all add: derive_node_states_unfold del: derive_loop.simps\<close>)

text \<open>What the loop leaves of a node.\<close>

definition same_identity :: "causal_node \<Rightarrow> causal_node \<Rightarrow> bool" where
  "same_identity n m \<longleftrightarrow> node_id n = node_id m \<and> node_type n = node_type m
     \<and> node_statement n = node_statement m \<and> node_links n = node_links m
     \<and> node_metadata n = node_metadata m \<and> (node_type m = PROBLEM \<longrightarrow> n = m)"

lemma derived_identity:
  assumes "dict_wf (case_nodes c)" "dict_get (case_nodes (derived c)) k = Some w"
  shows "\<exists>v. dict_get (case_nodes c) k = Some v \<and> same_identity w v"
  by (rule derived_invariant [where I = "\<lambda>k w. \<exists>v. dict_get (case_nodes c) k = Some v \<and> same_identity w v"])
    (use assms in \<open>auto simp: same_identity_def derive_node_problem\<close>)

lemma derived_get:
  assumes "dict_wf (case_nodes c)" "dict_get (case_nodes c) k = Some v"
  shows "\<exists>w. dict_get (case_nodes (derived c)) k = Some w \<and> same_identity w v"
proof -
  have "k \<in> set (dict_keys (case_nodes (derived c)))" using dict_get_Some_key [OF assms(2)] by simp
  then obtain w where w: "dict_get (case_nodes (derived c)) k = Some w" using dict_key_get by metis
  from derived_identity [OF assms(1) w] assms(2) w show ?thesis by auto
qed

lemma derived_nodes_ok:
  assumes "nodes_ok (case_nodes c)"
  shows "nodes_ok (case_nodes (derived c))"
proof -
  have "keyed_ok k w" if "dict_get (case_nodes (derived c)) k = Some w" for k w
    by (rule derived_invariant [where I = keyed_ok, OF nodes_ok_wf [OF assms] _ _ that])
      (use nodes_okD [OF assms] in \<open>auto simp: keyed_ok_def derive_node_ok\<close>)
  then show ?thesis using nodes_ok_wf [OF assms] by (simp add: nodes_ok_def keyed_ok_def)
qed

text \<open>The locals of a second run are the locals of the first.\<close>

definition node_face :: "causal_node \<Rightarrow> string \<times> node_type \<times> string" where
  "node_face n = (node_id n, node_type n, node_statement n)"

lemma restating_faces:
  assumes "map node_face (dict_values (case_nodes c)) = map node_face (dict_values (case_nodes c'))"
    and "case_hypotheses c = case_hypotheses c'" "case_symptom_statement c = case_symptom_statement c'"
  shows "restating_root_ids c = restating_root_ids c'"
proof -
  have anchors: "problem_anchor_statements d = map (snd \<circ> snd) (filter (\<lambda>(i, t, s). t = PROBLEM \<and> s \<noteq> [])
      (map node_face (dict_values (case_nodes d))))
      @ (if truthy (case_symptom_statement d) then [or_empty (case_symptom_statement d)] else [])" for d
    by (simp add: problem_anchor_statements_def filter_map comp_def node_face_def)
  have frame: "frame_components c = frame_components c'"
    using assms by (simp add: frame_components_def standing_hypotheses_def anchors)
  have single: "root_restates_case_frame n d \<longleftrightarrow> (case node_face n of (i, t, s) \<Rightarrow>
      t = ROOT \<and> s \<noteq> [] \<and> content_tokens s \<noteq> {}
      \<and> node_restates (content_tokens s) i (fst (frame_components d)) (snd (frame_components d)))" for n d
    by (simp add: restates_single_def node_face_def)
  have "restating_root_ids d = fst ` {f \<in> set (map node_face (dict_values (case_nodes d))).
      case f of (i, t, s) \<Rightarrow> t = ROOT \<and> s \<noteq> [] \<and> content_tokens s \<noteq> {}
      \<and> node_restates (content_tokens s) i (fst (frame_components d)) (snd (frame_components d))}" for d
  proof -
    have "{f \<in> node_face ` S. P f} = node_face ` {n \<in> S. P (node_face n)}" for S and P :: "_ \<Rightarrow> bool"
      by blast
    moreover have "fst (node_face n) = node_id n" for n by (simp add: node_face_def)
    ultimately show ?thesis unfolding restating_root_ids_eq single set_map by (simp only: image_image)
  qed
  then show ?thesis by (simp only: assms(1) frame)
qed

lemma derived_locals:
  assumes "dict_wf (case_nodes c)"
  shows "derive_locals_of (derived c) = derive_locals_of c"
proof -
  have "node_face (the (dict_get (case_nodes (derived c)) k)) = node_face (the (dict_get (case_nodes c) k))"
    if k: "k \<in> set (dict_keys (case_nodes c))" for k
  proof -
    from dict_key_get [OF k] obtain v where v: "dict_get (case_nodes c) k = Some v" by blast
    from derived_get [OF assms v] v show ?thesis by (auto simp: node_face_def same_identity_def)
  qed
  then have "map node_face (dict_values (case_nodes (derived c))) = map node_face (dict_values (case_nodes c))"
    using assms by (simp add: dict_values_keys)
  then have "restating_root_ids (derived c) = restating_root_ids c" by (intro restating_faces) simp_all
  moreover have "evidence_category_map (derived c) = evidence_category_map c"
    "causal_evidence_tokens (derived c) = causal_evidence_tokens c"
    by (simp_all add: evidence_category_map_def causal_evidence_tokens_def)
  ultimately show ?thesis by (simp add: derive_locals_of_def)
qed

definition and_acyclic :: "case_data \<Rightarrow> bool" where
  "and_acyclic c \<longleftrightarrow>
    acyclic (dep_relation (\<lambda>k. and_parents k (case_edges c)) (set (dict_keys (case_nodes c))))"

lemma derived_settled:
  assumes "nodes_ok (case_nodes c)" "and_acyclic c"
  shows "settled (derive_locals_of c) (case_nodes (derived c))"
proof -
  have "acyclic (dep_relation (\<lambda>k. and_parents k (dl_edges (derive_locals_of c))) (set (dict_keys (case_nodes c))))"
    using assms(2) by (simp add: and_acyclic_def derive_locals_of_def)
  from derive_loop_settled [OF assms(1) this, of "Suc (length (case_nodes c))"] show ?thesis
    by (simp add: derive_node_states_unfold del: derive_loop.simps)
qed

text \<open>Grounding in terms of the rows: two distinct observations, or a confirmation.\<close>

lemma root_grounded_iff:
  assumes "node_type n = ROOT"
  shows "causally_grounded (derive_locals_of c) n \<longleftrightarrow>
    distinct_observations c (t_causal_support_ev_ids (node_evidence_tally n (evidence_category_map c)))
    \<or> root_counterfactually_confirmed n (evidence_category_map c)"
proof -
  let ?ids = "t_causal_support_ev_ids (node_evidence_tally n (evidence_category_map c))"
  have "2 \<le> independent_causal_support_count ?ids (causal_evidence_tokens c) \<longleftrightarrow> distinct_observations c ?ids"
    unfolding distinct_observations_def by (rule count_ge_2_rows)
  then show ?thesis
    using assms distinct_observations_length [of c ?ids]
    by (auto simp: causally_grounded_def derive_locals_of_def node_tally_in_def
        ROOT_INDEPENDENT_CAUSAL_SUPPORT_MIN_def)
qed

lemma rung_grounded_iff:
  "node_type n \<noteq> ROOT \<Longrightarrow> causally_grounded (derive_locals_of c) n \<longleftrightarrow>
    (\<exists>l \<in> set (node_links n). grounding_link (evidence_category_map c) l)"
proof -
  let ?ids = "t_causal_support_ev_ids (node_evidence_tally n (evidence_category_map c))"
  have "set ?ids = link_evidence_id ` {l \<in> set (node_links n). grounding_link (evidence_category_map c) l}"
    by (rule tally_counts(5))
  moreover have "1 \<le> length ?ids \<longleftrightarrow> set ?ids \<noteq> {}" by (simp add: Suc_le_eq)
  ultimately have "1 \<le> length ?ids \<longleftrightarrow>
      (\<exists>l \<in> set (node_links n). grounding_link (evidence_category_map c) l)"
    unfolding image_is_empty by (simp only: Collect_empty_eq) (simp add: Bex_def)
  moreover assume "node_type n \<noteq> ROOT"
  ultimately show ?thesis
    by (simp add: causally_grounded_def derive_locals_of_def node_tally_in_def Let_def)
qed

text \<open>The verdict on a node of a settled graph.\<close>

lemma settled_target:
  assumes "settled loc ns" "dict_get ns k = Some n" "node_type n \<noteq> PROBLEM"
  shows "target_state loc ns n = None \<or> target_state loc ns n = Some (node_state n)"
proof -
  have "derive_node loc ns n = (n, False, [])" using assms(1,2) by (simp add: settled_def)
  with assms(3) show ?thesis
    by (auto simp: derive_node_def Let_def split: option.splits if_splits)
qed

lemma target_validated:
  "target_state loc ns n = Some VALIDATED \<Longrightarrow> would_validate loc ns n
    \<and> (node_id n \<notin> dl_restating_roots loc \<or> node_state n = VALIDATED)"
  by (simp add: target_state_def Let_def split: if_splits)

lemma target_refuted_iff:
  "target_state loc ns n = Some REFUTED \<longleftrightarrow>
    t_counterfactual_refutes (node_tally_in loc n) \<ge> 1
    \<or> t_refutes (node_tally_in loc n) > t_supports (node_tally_in loc n)"
  by (simp add: target_state_def Let_def)

text \<open>A counterfactual refutation holds of a node after any visit.\<close>

lemma visit_counterfactual:
  assumes "node_type n \<noteq> PROBLEM" "t_counterfactual_refutes (node_tally_in loc n) \<ge> 1"
  shows "node_state (fst (derive_node loc d n)) = REFUTED \<and> node_belief (fst (derive_node loc d n)) = 0"
proof -
  have "target_state loc d n = Some REFUTED" using assms(2) by (simp add: target_refuted_iff)
  with assms show ?thesis by (simp add: derive_node_def Let_def absolute_exclusion_def)
qed

lemma visit_entry_bar:
  assumes "node_id n \<in> dl_restating_roots loc" "node_state n \<noteq> VALIDATED"
  shows "node_state (fst (derive_node loc d n)) \<noteq> VALIDATED"
  using assms target_validated [of loc d n]
  by (auto simp: derive_node_def Let_def split: option.split)

lemma visit_deductive:
  assumes "deductively_valid n" "\<not> (t_counterfactual_refutes (node_tally_in loc n) \<ge> 1
      \<or> t_refutes (node_tally_in loc n) > t_supports (node_tally_in loc n))"
  shows "derive_node loc d n = (n, False, [])"
  using assms by (simp add: derive_node_def target_state_def Let_def)

section \<open>The running example\<close>

lemma ex_and_acyclic: "and_acyclic ex_case"
proof -
  have par: "and_parents k (case_edges ex_case) \<subseteq> (if k = ''M'' then {''R1''} else {})" for k
    by (auto simp: and_parents_def ex_case_def ex_edge_def group_key_def isspace_ch_def)
  have "dep_relation (\<lambda>k. and_parents k (case_edges ex_case)) (set (dict_keys (case_nodes ex_case)))
      \<subseteq> {(''R1'', ''M'')}"
    unfolding dep_relation_def by (auto dest!: subsetD [OF par] split: if_splits)
  moreover have "acyclic {(''R1'', ''M'')}" by simp (simp add: acyclic_def)
  ultimately show ?thesis unfolding and_acyclic_def by (rule acyclic_subset [rotated])
qed

section \<open>Properties\<close>

text \<open>C4: Deriving the node states keeps every node reloadable: the result has the same keys, each
  node sits under its own id, a refutation reason goes with REFUTED and only with it, a VALIDATED
  node names its method and a VALIDATED root is actionable.\<close>

theorem derive_keeps_nodes_valid:
  assumes "nodes_ok (case_nodes c)"
  shows "nodes_ok (case_nodes (fst (derive_node_states c)))
     \<and> dict_keys (case_nodes (fst (derive_node_states c))) = dict_keys (case_nodes c)"
  using derived_nodes_ok [OF assms] by simp

theorem derive_keeps_nodes_valid_witness: "nodes_ok (case_nodes (fst (derive_node_states ex_case)))"
  using derive_keeps_nodes_valid [OF ex_nodes_ok] by (rule conjunct1)

text \<open>Deriving changes no node's identity, statement, links or metadata, and leaves the PROBLEM
  node untouched altogether.\<close>

theorem derive_frame:
  assumes "nodes_ok (case_nodes c)" "dict_get (case_nodes c) k = Some n"
  shows "\<exists>n'. dict_get (case_nodes (fst (derive_node_states c))) k = Some n'
     \<and> node_id n' = node_id n \<and> node_type n' = node_type n \<and> node_statement n' = node_statement n
     \<and> node_links n' = node_links n \<and> node_metadata n' = node_metadata n
     \<and> (node_type n = PROBLEM \<longrightarrow> n' = n)"
  using derived_get [OF nodes_ok_wf [OF assms(1)] assms(2)] by (auto simp: same_identity_def)

theorem derive_frame_witness:
  "\<exists>n'. dict_get (case_nodes (fst (derive_node_states ex_case))) ''R2'' = Some n' \<and> node_type n' = ROOT"
  using derive_frame [OF ex_nodes_ok ex_node_get(1)] by (auto simp: ex_node_def)

lemma decisive_refute_refutes:
  assumes "nodes_ok (case_nodes c)" "dict_get (case_nodes c) k = Some n" "node_type n \<noteq> PROBLEM"
    and "1 \<le> count_links (decisive_refute (evidence_category_map c)) (node_links n)"
  shows "\<exists>n'. dict_get (case_nodes (fst (derive_node_states c))) k = Some n'
     \<and> node_state n' = REFUTED \<and> node_belief n' = 0"
proof -
  have wf: "dict_wf (case_nodes c)" using assms(1) by (rule nodes_ok_wf)
  from derived_get [OF wf assms(2)] obtain w where
    w: "dict_get (case_nodes (derived c)) k = Some w" "same_identity w n" by blast
  have "\<exists>d v. (\<exists>u. dict_get (case_nodes c) k = Some u \<and> same_identity v u)
      \<and> w = fst (derive_node (derive_locals_of c) d v)"
    by (rule derived_last_visit [where I = "\<lambda>k v. \<exists>u. dict_get (case_nodes c) k = Some u \<and> same_identity v u",
          OF wf _ _ w(1)]) (auto simp: same_identity_def derive_node_problem)
  then obtain d v where v: "same_identity v n" "w = fst (derive_node (derive_locals_of c) d v)"
    using assms(2) by auto
  have "node_links v = node_links n" using v(1) by (simp add: same_identity_def)
  then have "t_counterfactual_refutes (node_tally_in (derive_locals_of c) v) \<ge> 1"
    using assms(4) by (simp add: node_tally_in_def derive_locals_of_def tally_counts)
  with visit_counterfactual [of v "derive_locals_of c" d] v assms(3) w(1) show ?thesis
    by (simp add: same_identity_def)
qed

text \<open>C3: A confident REFUTES link to a causal-absence row is decisive: after the derivation the node
  is REFUTED with belief zero, whatever supports it and whatever the shape of the graph.\<close>

theorem counterfactual_refutation_is_decisive:
  assumes "nodes_ok (case_nodes c)" "dict_get (case_nodes c) k = Some n" "node_type n \<noteq> PROBLEM"
    and "l \<in> set (node_links n)" "link_stance l = REFUTES" "stance_declared_confident l"
    and "dict_get (evidence_category_map c) (link_evidence_id l) = Some CAUSAL_ABSENCE_EVIDENCE"
  shows "\<exists>n'. dict_get (case_nodes (fst (derive_node_states c))) k = Some n'
     \<and> node_state n' = REFUTED \<and> node_belief n' = 0"
proof (rule decisive_refute_refutes [OF assms(1-3)])
  have "decisive_refute (evidence_category_map c) l" using assms(5-7) by (simp add: decisive_refute_def)
  then show "1 \<le> count_links (decisive_refute (evidence_category_map c)) (node_links n)"
    using assms(4) unfolding count_links_pos by auto
qed

theorem counterfactual_refutation_is_decisive_witness:
  "\<exists>n'. dict_get (case_nodes (fst (derive_node_states ex_case))) ''R2'' = Some n'
     \<and> node_state n' = REFUTED \<and> node_belief n' = 0"
  by (rule counterfactual_refutation_is_decisive
        [OF ex_nodes_ok ex_node_get(1), where l = "ex_link ''e3'' REFUTES"])
     (simp_all add: ex_node_def ex_link_def stance_declared_confident_def ex_case_def ex_row_def
       evidence_category_map_def CAUSAL_STANCE_CONFIDENCE_MIN_def)

text \<open>The restatement guard is an entry bar: a root that restates the case frame and is not
  already VALIDATED does not become VALIDATED in any pass.\<close>

theorem restating_root_does_not_enter_validated:
  assumes "nodes_ok (case_nodes c)" "k \<in> restating_root_ids c"
    and "state_of k (case_nodes c) \<noteq> Some VALIDATED"
  shows "state_of k (case_nodes (fst (derive_node_states c))) \<noteq> Some VALIDATED"
proof
  assume "state_of k (case_nodes (derived c)) = Some VALIDATED"
  then obtain w where w: "dict_get (case_nodes (derived c)) k = Some w" "node_state w = VALIDATED"
    by (auto simp: state_of_def)
  let ?I = "\<lambda>j v. node_id v = j \<and> (j = k \<longrightarrow> node_state v \<noteq> VALIDATED)"
  have "?I k w"
  proof (rule derived_invariant [where I = ?I, OF nodes_ok_wf [OF assms(1)] _ _ w(1)])
    show "?I j v" if "dict_get (case_nodes c) j = Some v" for j v
      using that nodes_okD [OF assms(1) that] assms(3) by (auto simp: state_of_def)
    show "?I j (fst (derive_node (derive_locals_of c) d v))" if "?I j v" for j d v
      using that assms(2) visit_entry_bar [of v "derive_locals_of c" d] by (auto simp: derive_locals_of_def)
  qed
  with w(2) show False by simp
qed

theorem restating_root_does_not_enter_validated_witness:
  "state_of ''R'' (case_nodes (fst (derive_node_states ex_restating))) \<noteq> Some VALIDATED"
proof (rule restating_root_does_not_enter_validated)
  show "nodes_ok (case_nodes ex_restating)" by code_simp
  show "''R'' \<in> restating_root_ids ex_restating" by code_simp
  show "state_of ''R'' (case_nodes ex_restating) \<noteq> Some VALIDATED" by code_simp
qed

text \<open>C1: When the AND-dependencies have no cycle, the bound of one pass more than there are nodes is
  enough: the returned graph is settled, and deriving again changes nothing, reports no change and
  counts no block event.\<close>

theorem derive_settles:
  assumes "nodes_ok (case_nodes c)" "and_acyclic c"
  shows "derive_node_states (fst (derive_node_states c)) = (fst (derive_node_states c), False, [])"
proof -
  let ?d = "derived c"
  have "settled (derive_locals_of ?d) (case_nodes ?d)"
    using derived_settled [OF assms] by (simp add: derived_locals [OF nodes_ok_wf [OF assms(1)]])
  then have "derive_loop (Suc (length (case_nodes ?d))) (derive_locals_of ?d) (case_nodes ?d, False, [])
      = (case_nodes ?d, False, [])"
    by (rule settled_loop)
  then show ?thesis unfolding derive_node_states_unfold [of ?d] by (simp only: fst_conv snd_conv) simp
qed

theorem derive_settles_witness:
  "derive_node_states (fst (derive_node_states ex_case)) = (fst (derive_node_states ex_case), False, [])"
  by (rule derive_settles [OF ex_nodes_ok ex_and_acyclic])

lemma last_visit_validated:
  assumes "nodes_ok (case_nodes c)" "dict_get (case_nodes (fst (derive_node_states c))) k = Some n"
    and "node_type n \<noteq> PROBLEM" "node_state n = VALIDATED" "node_method n \<noteq> DEDUCTIVE"
  shows "\<exists>d v. node_id v = node_id n \<and> node_type v = node_type n \<and> node_links v = node_links n
    \<and> target_state (derive_locals_of c) d v = Some VALIDATED"
proof -
  let ?loc = "derive_locals_of c"
  have "\<exists>d v. True \<and> n = fst (derive_node ?loc d v)"
    by (rule derived_last_visit [where I = "\<lambda>k v. True", OF nodes_ok_wf [OF assms(1)] _ _ assms(2)]) simp_all
  then obtain d v where n: "n = fst (derive_node ?loc d v)" by blast
  have nd: "\<not> deductively_valid n" using assms(5) by (simp add: deductively_valid_def)
  have "target_state ?loc d v = Some VALIDATED"
  proof (cases "target_state ?loc d v")
    case None
    then have "deductively_valid v" "n = v"
      using n assms(3) by (auto simp: target_state_def derive_node_def Let_def split: if_splits)
    with nd show ?thesis by simp
  next
    case (Some t)
    with n assms(3,4) show ?thesis by (simp add: derive_node_def Let_def split: if_splits)
  qed
  then show ?thesis using n by (intro exI [of _ d] exI [of _ v]) simp
qed

text \<open>C2: On every graph, cyclic ones too, a root that ends VALIDATED without a deductive stamp is not
  net-refuted, is supported by two distinct causal observations or confirmed by the absence of its
  cause, and either says more than the case frame or was validated before. Where the
  AND-dependencies have no cycle, so that the bounded loop ends settled, every AND-member it needs is
  VALIDATED in the result as well.\<close>

theorem validated_root_is_grounded:
  assumes "nodes_ok (case_nodes c)"
    and "dict_get (case_nodes (fst (derive_node_states c))) k = Some n"
    and "node_type n = ROOT" "node_state n = VALIDATED" "node_method n \<noteq> DEDUCTIVE"
  defines "ids \<equiv> t_causal_support_ev_ids (node_evidence_tally n (evidence_category_map c))"
  shows "t_refutes (node_evidence_tally n (evidence_category_map c))
           < t_supports (node_evidence_tally n (evidence_category_map c))
     \<and> (distinct_observations c ids \<or> root_counterfactually_confirmed n (evidence_category_map c))
     \<and> (k \<notin> restating_root_ids c \<or> state_of k (case_nodes c) = Some VALIDATED)
     \<and> (and_acyclic c \<longrightarrow> (\<forall>x \<in> and_parents k (case_edges c).
          state_of x (case_nodes (fst (derive_node_states c))) = Some VALIDATED))"
proof -
  let ?loc = "derive_locals_of c" and ?ns = "case_nodes (derived c)"
  have id: "node_id n = k" using nodes_okD [OF derived_nodes_ok [OF assms(1)] assms(2)] by simp
  obtain d v where v: "node_type v = node_type n" "node_links v = node_links n"
      "target_state ?loc d v = Some VALIDATED"
    using last_visit_validated [OF assms(1,2) _ assms(4,5)] assms(3) by auto
  from target_validated [OF v(3)] have g: "causally_grounded ?loc v" "generic_ok ?loc d v"
    by (simp_all add: would_validate_def)
  have "causally_grounded ?loc n" using g(1) causally_grounded_cong [OF v(2,1)] by simp
  then have "distinct_observations c ids \<or> root_counterfactually_confirmed n (evidence_category_map c)"
    unfolding root_grounded_iff [OF assms(3)] ids_def .
  moreover have "t_refutes (node_evidence_tally n (evidence_category_map c))
      < t_supports (node_evidence_tally n (evidence_category_map c))"
    using g(2) node_tally_in_cong [OF v(2), of ?loc]
    by (simp add: generic_ok_def node_tally_in_def derive_locals_of_def)
  moreover have "\<forall>x \<in> and_parents k (case_edges c). state_of x ?ns = Some VALIDATED" if "and_acyclic c"
  proof -
    have "\<not> deductively_valid n" using assms(5) by (simp add: deductively_valid_def)
    then have "target_state ?loc ?ns n = Some VALIDATED"
      using settled_target [OF derived_settled [OF assms(1) that] assms(2)] assms(3,4)
      by (auto simp: target_state_def Let_def split: if_splits)
    from target_validated [OF this] have "generic_ok ?loc ?ns n" by (simp add: would_validate_def)
    then show ?thesis using id by (simp add: generic_ok_def derive_locals_of_def satisfied_iff_parents)
  qed
  ultimately show ?thesis using restating_root_does_not_enter_validated [OF assms(1), of k] assms(2,4)
    by (auto simp: state_of_def)
qed

text \<open>The first root of the example ends VALIDATED; the rung it feeds follows in the second pass.\<close>

lemma ex_derived_R1:
  "dict_get (case_nodes (fst (derive_node_states ex_case))) ''R1'' =
    Some ((ex_node ''R1'' ROOT ''session leak'' [ex_link ''e1'' SUPPORTS, ex_link ''e2'' SUPPORTS])
      \<lparr>node_state := VALIDATED, node_method := EMPIRICAL, node_actionable := True\<rparr>)"
  by code_simp

theorem validated_root_is_grounded_witness:
  "distinct_observations ex_case [''e1'', ''e2'']
   \<or> root_counterfactually_confirmed (ex_node ''R1'' ROOT ''session leak''
        [ex_link ''e1'' SUPPORTS, ex_link ''e2'' SUPPORTS]) (evidence_category_map ex_case)"
proof -
  let ?n = "(ex_node ''R1'' ROOT ''session leak'' [ex_link ''e1'' SUPPORTS, ex_link ''e2'' SUPPORTS])
      \<lparr>node_state := VALIDATED, node_method := EMPIRICAL, node_actionable := True\<rparr>"
  have "t_causal_support_ev_ids (node_evidence_tally ?n (evidence_category_map ex_case)) = [''e1'', ''e2'']"
    by code_simp
  then show ?thesis
    using validated_root_is_grounded [OF ex_nodes_ok ex_derived_R1]
    by (simp add: ex_node_def root_counterfactually_confirmed_def)
qed

text \<open>A node validated by exclusion is left exactly as it is by every later derivation, unless
  its own links come to refute it.\<close>

theorem deductive_validation_survives:
  assumes "nodes_ok (case_nodes c)" "dict_get (case_nodes c) k = Some n" "deductively_valid n"
    and "t_counterfactual_refutes (node_evidence_tally n (evidence_category_map c)) = 0"
    and "t_refutes (node_evidence_tally n (evidence_category_map c))
         \<le> t_supports (node_evidence_tally n (evidence_category_map c))"
  shows "dict_get (case_nodes (fst (derive_node_states c))) k = Some n"
proof -
  obtain w where w: "dict_get (case_nodes (derived c)) k = Some w"
    using derived_get [OF nodes_ok_wf [OF assms(1)] assms(2)] by blast
  let ?I = "\<lambda>j v. j = k \<longrightarrow> v = n"
  have "?I k w"
  proof (rule derived_invariant [where I = ?I, OF nodes_ok_wf [OF assms(1)] _ _ w])
    have "derive_node (derive_locals_of c) d n = (n, False, [])" for d
      using assms(3-5) by (intro visit_deductive) (simp_all add: node_tally_in_def derive_locals_of_def)
    then show "?I j (fst (derive_node (derive_locals_of c) d v))" if "?I j v" for j d v using that by simp
  qed (use assms(2) in auto)
  with w show ?thesis by simp
qed

theorem deductive_validation_survives_witness:
  "dict_get (case_nodes (fst (derive_node_states
      (ex_case\<lparr>case_nodes := [(''R'', (ex_node ''R'' ROOT ''dns loop'' [])
         \<lparr>node_state := VALIDATED, node_method := DEDUCTIVE, node_actionable := True\<rparr>)]\<rparr>)))) ''R''
    = Some ((ex_node ''R'' ROOT ''dns loop'' [])
         \<lparr>node_state := VALIDATED, node_method := DEDUCTIVE, node_actionable := True\<rparr>)"
  by (rule deductive_validation_survives)
     (simp_all add: nodes_ok_code ex_node_def node_ok_def deductively_valid_def node_evidence_tally_def
       empty_tally_def dict_keys_def)

lemma derive_loop_changed: "fst (snd (derive_loop p loc (ns, True, ev)))"
  by (induction p arbitrary: ns ev) (simp_all split: prod.split)

text \<open>When the derivation reports no change, no node's state has changed.\<close>

theorem derive_reports_every_change:
  assumes "\<not> fst (snd (derive_node_states c))"
  shows "state_of x (case_nodes (fst (derive_node_states c))) = state_of x (case_nodes c)"
proof -
  let ?loc = "derive_locals_of c" and ?ns = "case_nodes c"
  obtain ns1 ch1 ev1 where d: "derive_pass ?loc ?ns = (ns1, ch1, ev1)" by (cases "derive_pass ?loc ?ns")
  have "\<not> ch1"
  proof
    assume ch1
    with d assms derive_loop_changed [of "length ?ns" ?loc ns1 ev1] show False
      by (simp add: derive_node_states_unfold)
  qed
  with d have "case_nodes (derived c) = sweep (derive_upd ?loc) ?ns"
    using derive_pass_fst [of ?loc ?ns] by (simp add: derive_node_states_unfold)
  then show ?thesis using pass_idle [of ?loc ?ns x] d \<open>\<not> ch1\<close> by simp
qed

theorem derive_reports_every_change_witness:
  "state_of ''R1'' (case_nodes (fst (derive_node_states (ex_case\<lparr>case_nodes := []\<rparr>)))) = None"
  using derive_reports_every_change [of "ex_case\<lparr>case_nodes := []\<rparr>" "''R1''"]
  by (simp add: derive_node_states_unfold derive_pass_def state_of_def dict_keys_def)

end
