(* ===== verification/Exclusion.thy ===== *)
theory Exclusion
  imports Derivation
begin

text \<open>
  The deductive lane of \<open>core/investigation/causal_graph/derivation.py\<close>: a root the agent asserts
  as the survivor of an exhaustive differential is stamped DEDUCTIVE when the alternatives it
  competes with are all absolutely refuted (7.1.1).
\<close>

section \<open>Proof by exclusion\<close>

definition survivor_or_sets :: "string \<Rightarrow> causal_edge list \<Rightarrow> string list list" where
  "survivor_or_sets survivor_id edges =
    concat (map (\<lambda>eff.
        let or_group = (case dict_get (incoming_and_groups eff edges) None of None \<Rightarrow> [] | Some g \<Rightarrow> g)
        in if survivor_id \<in> set or_group then [or_group] else [])
      (dict_fromkeys (map edge_effect
         (filter (\<lambda>e. edge_cause e = survivor_id \<and> edge_group e = None) edges))))"

definition stamp_deductive :: "causal_node \<Rightarrow> causal_node" where
  "stamp_deductive node =
    node\<lparr>node_state := VALIDATED, node_method := DEDUCTIVE, node_actionable := True,
         node_refutation_reason := None\<rparr>"

definition exclusion_visit ::
    "causal_edge list \<Rightarrow> string set \<Rightarrow> string \<Rightarrow> (string, causal_node) pydict \<times> bool
      \<Rightarrow> (string, causal_node) pydict \<times> bool" where
  "exclusion_visit edges restating sid = (\<lambda>(nodes, changed).
    case dict_get nodes sid of
      None \<Rightarrow> (nodes, changed)
    | Some node \<Rightarrow>
        if node_type node \<noteq> ROOT then (nodes, changed)
        else if node_state node \<in> {VALIDATED, REFUTED} then (nodes, changed)
        else if sid \<in> restating then (nodes, changed)
        else if list_ex (\<lambda>or_set. deductively_validated sid or_set nodes True)
                  (survivor_or_sets sid edges)
        then (dict_put sid (stamp_deductive node) nodes, True)
        else (nodes, changed))"

text \<open>The asserted survivors are a Python set; the list is the order its iteration takes.\<close>

definition validate_by_exclusion :: "case_data \<Rightarrow> string list \<Rightarrow> case_data \<times> bool" where
  "validate_by_exclusion c asserted =
    (if asserted = [] then (c, False)
     else case fold (exclusion_visit (case_edges c) (restating_root_ids c)) asserted (case_nodes c, False) of
       (nodes, changed) \<Rightarrow> (c\<lparr>case_nodes := nodes\<rparr>, changed))"

section \<open>The stamp does not depend on the order of the assertions\<close>

text \<open>The roots an assertion may stamp, read in one graph.\<close>

definition eligible_survivor ::
    "causal_edge list \<Rightarrow> string set \<Rightarrow> (string, causal_node) pydict \<Rightarrow> string \<Rightarrow> causal_node \<Rightarrow> bool" where
  "eligible_survivor edges restating nodes sid node \<longleftrightarrow>
     node_type node = ROOT \<and> node_state node \<notin> {VALIDATED, REFUTED} \<and> sid \<notin> restating
     \<and> (\<exists>or_set \<in> set (survivor_or_sets sid edges). deductively_validated sid or_set nodes True)"

lemma exclusion_visit_get:
  "dict_get (fst (exclusion_visit edges restating sid (nodes, ch))) k =
    (case dict_get nodes k of
       None \<Rightarrow> None
     | Some node \<Rightarrow> Some (if k = sid \<and> eligible_survivor edges restating nodes sid node
                          then stamp_deductive node else node))"
  by (auto simp: exclusion_visit_def eligible_survivor_def list_ex_iff split: option.split)

lemma exclusion_visit_changed:
  "snd (exclusion_visit edges restating sid (nodes, ch)) \<longleftrightarrow>
    ch \<or> (\<exists>node. dict_get nodes sid = Some node \<and> eligible_survivor edges restating nodes sid node)"
  by (auto simp: exclusion_visit_def eligible_survivor_def list_ex_iff split: option.split)

text \<open>Stamping changes no REFUTED node and makes none: eligibility of the others is unaffected.\<close>

definition refuted_alike :: "(string, causal_node) pydict \<Rightarrow> (string, causal_node) pydict \<Rightarrow> bool" where
  "refuted_alike ns ns' \<longleftrightarrow> (\<forall>k n. (dict_get ns k = Some n \<and> node_state n = REFUTED) \<longleftrightarrow>
     (dict_get ns' k = Some n \<and> node_state n = REFUTED))"

lemma deductively_validated_alike:
  "refuted_alike ns ns' \<Longrightarrow> deductively_validated s ids ns ex = deductively_validated s ids ns' ex"
  unfolding deductively_validated_iff refuted_alike_def by blast

lemma eligible_alike:
  "refuted_alike ns ns' \<Longrightarrow> eligible_survivor edges restating ns sid n = eligible_survivor edges restating ns' sid n"
  using deductively_validated_alike [of ns ns'] by (simp add: eligible_survivor_def)

lemma visit_alike: "refuted_alike nodes (fst (exclusion_visit edges restating sid (nodes, ch)))"
  unfolding refuted_alike_def exclusion_visit_get
  by (auto simp: eligible_survivor_def stamp_deductive_def split: option.splits if_splits)

lemma stamped_not_eligible: "\<not> eligible_survivor edges restating ns sid (stamp_deductive n)"
  by (simp add: eligible_survivor_def stamp_deductive_def)

lemma fold_exclusion:
  "dict_get (fst (fold (exclusion_visit edges restating) sids (nodes, ch))) k =
     (case dict_get nodes k of
        None \<Rightarrow> None
      | Some node \<Rightarrow> Some (if k \<in> set sids \<and> eligible_survivor edges restating nodes k node
                          then stamp_deductive node else node))
   \<and> (snd (fold (exclusion_visit edges restating) sids (nodes, ch)) \<longleftrightarrow>
        ch \<or> (\<exists>sid \<in> set sids. \<exists>node. dict_get nodes sid = Some node
                \<and> eligible_survivor edges restating nodes sid node))"
proof (induction sids arbitrary: nodes ch)
  case Nil
  then show ?case by (simp split: option.split)
next
  case (Cons s sids)
  let ?v = "exclusion_visit edges restating s (nodes, ch)"
  have alike: "eligible_survivor edges restating (fst ?v) = eligible_survivor edges restating nodes"
    using eligible_alike [OF visit_alike [of nodes edges restating s ch]] by (intro ext) simp
  have v: "?v = (fst ?v, snd ?v)" by simp
  have get: "dict_get (fst ?v) j = (case dict_get nodes j of None \<Rightarrow> None
      | Some node \<Rightarrow> Some (if j = s \<and> eligible_survivor edges restating nodes s node
                          then stamp_deductive node else node))" for j
    by (rule exclusion_visit_get)
  have ch: "snd ?v \<longleftrightarrow> ch \<or> (\<exists>node. dict_get nodes s = Some node \<and> eligible_survivor edges restating nodes s node)"
    by (rule exclusion_visit_changed)
  let ?elig = "eligible_survivor edges restating nodes"
  have fold_eq: "fold (exclusion_visit edges restating) (s # sids) (nodes, ch)
      = fold (exclusion_visit edges restating) sids (fst ?v, snd ?v)" by simp
  note IH = Cons.IH [of "fst ?v" "snd ?v", unfolded alike]
  have "dict_get (fst (fold (exclusion_visit edges restating) (s # sids) (nodes, ch))) k =
     (case dict_get nodes k of None \<Rightarrow> None
      | Some node \<Rightarrow> Some (if k \<in> set (s # sids) \<and> ?elig k node then stamp_deductive node else node))"
    unfolding fold_eq IH [THEN conjunct1] get
    by (cases "dict_get nodes k") (auto simp: stamped_not_eligible)
  moreover have "snd (fold (exclusion_visit edges restating) (s # sids) (nodes, ch)) \<longleftrightarrow>
      ch \<or> (\<exists>sid \<in> set (s # sids). \<exists>node. dict_get nodes sid = Some node \<and> ?elig sid node)"
  proof -
    have "(\<exists>node. dict_get (fst ?v) sid = Some node \<and> ?elig sid node) \<longleftrightarrow>
        (\<exists>node. dict_get nodes sid = Some node \<and> ?elig sid node \<and> \<not> (sid = s))
        \<or> (sid = s \<and> (\<exists>node. dict_get nodes s = Some node \<and> ?elig s node) \<and> False)" for sid
      unfolding get by (cases "dict_get nodes sid") (auto simp: stamped_not_eligible)
    note elig = this
    have "snd (fold (exclusion_visit edges restating) (s # sids) (nodes, ch)) \<longleftrightarrow>
        snd ?v \<or> (\<exists>sid \<in> set sids. \<exists>node. dict_get (fst ?v) sid = Some node \<and> ?elig sid node)"
      unfolding fold_eq by (rule IH [THEN conjunct2])
    then show ?thesis unfolding elig ch by auto
  qed
  ultimately show ?case by blast
qed

lemma exclusion_get:
  "dict_get (case_nodes (fst (validate_by_exclusion c asserted))) k =
    (case dict_get (case_nodes c) k of
       None \<Rightarrow> None
     | Some node \<Rightarrow> Some (if k \<in> set asserted
           \<and> eligible_survivor (case_edges c) (restating_root_ids c) (case_nodes c) k node
         then stamp_deductive node else node))"
  using fold_exclusion [of "case_edges c" "restating_root_ids c" asserted "case_nodes c" False k]
  by (auto simp: validate_by_exclusion_def split: prod.split option.split)

lemma survivor_or_sets_iff:
  "or_set \<in> set (survivor_or_sets s edges) \<longleftrightarrow>
    (\<exists>eff. (\<exists>e \<in> set edges. edge_cause e = s \<and> edge_effect e = eff \<and> edge_group e = None)
       \<and> s \<in> set or_set \<and> or_set = group_members eff None edges)"
  by (auto simp: survivor_or_sets_def incoming_and_groups_get Let_def split: if_splits)

lemma exclusion_visit_keys: "dict_keys (fst (exclusion_visit edges restating s st)) = dict_keys (fst st)"
  by (auto simp: exclusion_visit_def dict_get_Some_key split: prod.split option.split)

lemma fold_exclusion_keys:
  "dict_keys (fst (fold (exclusion_visit edges restating) sids st)) = dict_keys (fst st)"
  by (induction sids arbitrary: st) (simp_all add: exclusion_visit_keys)

lemma exclusion_keys: "dict_keys (case_nodes (fst (validate_by_exclusion c asserted))) = dict_keys (case_nodes c)"
  using fold_exclusion_keys [of "case_edges c" "restating_root_ids c" asserted "(case_nodes c, False)"]
  by (auto simp: validate_by_exclusion_def split: prod.splits)

lemma exclusion_case: "fst (validate_by_exclusion c asserted) =
    c\<lparr>case_nodes := case_nodes (fst (validate_by_exclusion c asserted))\<rparr>"
  by (simp add: validate_by_exclusion_def split: prod.split)

lemma exclusion_flag: "snd (validate_by_exclusion c asserted) \<longleftrightarrow>
    (\<exists>sid \<in> set asserted. \<exists>node. dict_get (case_nodes c) sid = Some node
       \<and> eligible_survivor (case_edges c) (restating_root_ids c) (case_nodes c) sid node)"
  using fold_exclusion [of "case_edges c" "restating_root_ids c" asserted "case_nodes c" False undefined]
  by (auto simp: validate_by_exclusion_def split: prod.splits)

section \<open>Properties\<close>

text \<open>The example's differential: one open root and one absolutely refuted sibling.\<close>

definition ex_differential :: case_data where
  "ex_differential = ex_case\<lparr>
     case_nodes := [
       (''D'', ex_node ''D'' PROBLEM ''checkout fails'' []),
       (''R1'', ex_node ''R1'' ROOT ''session leak'' []),
       (''R2'', (ex_node ''R2'' ROOT ''expired cert'' [])
          \<lparr>node_state := REFUTED, node_belief := 0, node_refutation_reason := Some ''renewed''\<rparr>)],
     case_edges := [ex_edge ''R1'' ''D'' None, ex_edge ''R2'' ''D'' None]\<rparr>"

text \<open>Proof by exclusion does not depend on the order in which the set of asserted survivors is
  iterated, nor on repetitions: the same set gives the same case and the same flag.\<close>

theorem exclusion_order_irrelevant:
  assumes "dict_wf (case_nodes c)" "set asserted = set asserted'"
  shows "validate_by_exclusion c asserted = validate_by_exclusion c asserted'"
proof (rule prod_eqI)
  have "case_nodes (fst (validate_by_exclusion c asserted)) = case_nodes (fst (validate_by_exclusion c asserted'))"
    by (rule pydict_eqI) (use assms in \<open>simp_all add: exclusion_keys exclusion_get split: option.split\<close>)
  then show "fst (validate_by_exclusion c asserted) = fst (validate_by_exclusion c asserted')"
    by (metis exclusion_case)
  show "snd (validate_by_exclusion c asserted) = snd (validate_by_exclusion c asserted')"
    unfolding exclusion_flag assms(2) ..
qed

theorem exclusion_order_irrelevant_witness:
  "validate_by_exclusion ex_differential [''R1'', ''R2''] =
   validate_by_exclusion ex_differential [''R2'', ''R1'', ''R2'']"
  by (rule exclusion_order_irrelevant) (auto simp: ex_differential_def dict_keys_def)

text \<open>C5: Exclusion stamps nothing but an asserted, open, non-restating root that competes as an
  OR-alternative for some effect with at least one other alternative, when every other one is
  REFUTED with a belief of at most 0.05; the stamp is VALIDATED, DEDUCTIVE and actionable.\<close>

theorem exclusion_sound:
  assumes "dict_get (case_nodes c) k = Some n"
    and "dict_get (case_nodes (fst (validate_by_exclusion c asserted))) k = Some n'" "n' \<noteq> n"
  shows "k \<in> set asserted \<and> node_type n = ROOT \<and> node_state n \<notin> {VALIDATED, REFUTED}
     \<and> k \<notin> restating_root_ids c
     \<and> node_state n' = VALIDATED \<and> node_method n' = DEDUCTIVE \<and> node_actionable n'
     \<and> (\<exists>eff. k \<in> set (group_members eff None (case_edges c))
          \<and> (\<exists>x \<in> set (group_members eff None (case_edges c)). x \<noteq> k)
          \<and> (\<forall>x \<in> set (group_members eff None (case_edges c)). x \<noteq> k \<longrightarrow>
               (\<exists>m. dict_get (case_nodes c) x = Some m \<and> node_state m = REFUTED
                  \<and> node_belief m \<le> 5 / 100)))"
proof -
  have el: "k \<in> set asserted" "eligible_survivor (case_edges c) (restating_root_ids c) (case_nodes c) k n"
    and n': "n' = stamp_deductive n"
    using assms by (auto simp: exclusion_get split: if_splits)
  from el(2) obtain or_set where o: "or_set \<in> set (survivor_or_sets k (case_edges c))"
    "deductively_validated k or_set (case_nodes c) True"
    by (auto simp: eligible_survivor_def)
  from o(1) obtain eff where eff: "or_set = group_members eff None (case_edges c)"
    by (auto simp: survivor_or_sets_iff)
  from o(2) have "k \<in> set or_set \<and> (\<exists>x \<in> set or_set. x \<noteq> k) \<and> (\<forall>x \<in> set or_set. x \<noteq> k \<longrightarrow>
      (\<exists>m. dict_get (case_nodes c) x = Some m \<and> node_state m = REFUTED \<and> node_belief m \<le> 5 / 100))"
    unfolding deductively_validated_iff DEDUCTIVE_EXCLUSION_MAX_BELIEF_def by blast
  then have "\<exists>eff. k \<in> set (group_members eff None (case_edges c))
          \<and> (\<exists>x \<in> set (group_members eff None (case_edges c)). x \<noteq> k)
          \<and> (\<forall>x \<in> set (group_members eff None (case_edges c)). x \<noteq> k \<longrightarrow>
               (\<exists>m. dict_get (case_nodes c) x = Some m \<and> node_state m = REFUTED
                  \<and> node_belief m \<le> 5 / 100))"
    unfolding eff by blast
  with el n' show ?thesis unfolding eligible_survivor_def by (simp add: stamp_deductive_def)
qed

lemma ex_differential_R1:
  "dict_get (case_nodes ex_differential) ''R1'' = Some (ex_node ''R1'' ROOT ''session leak'' [])"
  "dict_get (case_nodes (fst (validate_by_exclusion ex_differential [''R1'']))) ''R1'' =
    Some (stamp_deductive (ex_node ''R1'' ROOT ''session leak'' []))"
  by code_simp+

theorem exclusion_sound_witness:
  "\<exists>eff. ''R1'' \<in> set (group_members eff None (case_edges ex_differential))"
  using exclusion_sound [OF ex_differential_R1] by (auto simp: stamp_deductive_def ex_node_def)

text \<open>Exclusion keeps every node reloadable.\<close>

theorem exclusion_keeps_nodes_valid:
  assumes "nodes_ok (case_nodes c)"
  shows "nodes_ok (case_nodes (fst (validate_by_exclusion c asserted)))"
  using assms
  by (auto simp: nodes_ok_def exclusion_keys exclusion_get node_ok_def stamp_deductive_def
      split: option.splits if_splits)

theorem exclusion_keeps_nodes_valid_witness:
  "nodes_ok (case_nodes (fst (validate_by_exclusion ex_differential [''R1''])))"
  by (rule exclusion_keeps_nodes_valid) code_simp

end
