(* ===== verification/Union_Find.thy ===== *)
theory Union_Find
  imports Prelude
begin

text \<open>
  The union-find structure inside \<open>_distinct_cause_partition\<close>
  (\<open>core/investigation/causal_graph/clusters.py\<close>): a parent dictionary, \<open>_find\<close> with path halving
  and \<open>_union\<close> towards the smaller representative. The locale states what the clustering relies
  on; the interpretation discharges it for the code's dictionary.
\<close>

section \<open>The operations\<close>

type_synonym 'k parents = "('k, 'k) pydict"

text \<open>\<open>None\<close> is a loop that does not return, or the \<open>KeyError\<close> of an unknown id.\<close>

partial_function (option) uf_find :: "'k parents \<Rightarrow> 'k \<Rightarrow> ('k parents \<times> 'k) option" where
  "uf_find parent x =
    (case dict_get parent x of
       None \<Rightarrow> None
     | Some y \<Rightarrow>
        if y = x then Some (parent, x)
        else (case dict_get parent y of
                None \<Rightarrow> None
              | Some z \<Rightarrow> uf_find (dict_put x z parent) z))"

declare uf_find.simps [code]

definition uf_union :: "('k::linorder) \<Rightarrow> 'k \<Rightarrow> 'k parents \<Rightarrow> 'k parents option" where
  "uf_union a b parent =
    (case uf_find parent a of
       None \<Rightarrow> None
     | Some (parent1, ra) \<Rightarrow>
        (case uf_find parent1 b of
           None \<Rightarrow> None
         | Some (parent2, rb) \<Rightarrow>
             if ra \<noteq> rb
             then let (lo, hi) = (if ra < rb then (ra, rb) else (rb, ra)) in Some (dict_put hi lo parent2)
             else Some parent2))"

definition uf_init :: "'k list \<Rightarrow> 'k parents" where
  "uf_init members = fold (\<lambda>m d. dict_put m m d) members []"

text \<open>A sequence of unions.\<close>

fun merge_all :: "('k \<Rightarrow> 'k \<Rightarrow> 'p \<Rightarrow> 'p option) \<Rightarrow> ('k \<times> 'k) list \<Rightarrow> 'p \<Rightarrow> 'p option" where
  "merge_all merge [] p = Some p"
| "merge_all merge ((a, b) # rest) p =
    (case merge a b p of None \<Rightarrow> None | Some p' \<Rightarrow> merge_all merge rest p')"

section \<open>Representatives\<close>

text \<open>Parents point at keys and downwards in the order; every chain ends at a fixed point.\<close>

definition uf_ok :: "('k::linorder) parents \<Rightarrow> bool" where
  "uf_ok p \<longleftrightarrow> (\<forall>x y. dict_get p x = Some y \<longrightarrow> y \<le> x \<and> dict_get p y \<noteq> None)"

inductive uf_root :: "'k parents \<Rightarrow> 'k \<Rightarrow> 'k \<Rightarrow> bool" for p where
  stop: "dict_get p r = Some r \<Longrightarrow> uf_root p r r"
| up: "dict_get p x = Some y \<Longrightarrow> y \<noteq> x \<Longrightarrow> uf_root p y r \<Longrightarrow> uf_root p x r"

inductive_cases uf_root_stepE: "uf_root p x r"

lemma uf_root_fixed: "uf_root p x r \<Longrightarrow> dict_get p r = Some r"
  by (induction rule: uf_root.induct)

lemma uf_root_unique: "uf_root p x r \<Longrightarrow> uf_root p x s \<Longrightarrow> r = s"
proof (induction arbitrary: s rule: uf_root.induct)
  case (stop r)
  then show ?case by (auto elim: uf_root_stepE)
next
  case (up x y r)
  from up.prems up.hyps have "uf_root p y s" by (auto elim: uf_root_stepE)
  then show ?case by (rule up.IH)
qed

lemma uf_root_le: "uf_root p x r \<Longrightarrow> uf_ok p \<Longrightarrow> r \<le> x"
  by (induction rule: uf_root.induct) (auto simp: uf_ok_def intro: order_trans)

text \<open>The number of smaller keys bounds the length of a chain.\<close>

definition below :: "('k::linorder) parents \<Rightarrow> 'k \<Rightarrow> nat" where
  "below p x = card {k \<in> set (dict_keys p). k < x}"

lemma below_less: "y < x \<Longrightarrow> y \<in> set (dict_keys p) \<Longrightarrow> below p y < below p x"
  unfolding below_def by (rule psubset_card_mono) auto

lemma uf_root_exists:
  assumes "uf_ok p"
  shows "dict_get p x \<noteq> None \<Longrightarrow> \<exists>r. uf_root p x r"
proof (induction "below p x" arbitrary: x rule: less_induct)
  case less
  from less.prems obtain y where y: "dict_get p x = Some y" by blast
  show ?case
  proof (cases "y = x")
    case True
    with y show ?thesis by (blast intro: stop)
  next
    case False
    with y assms have "y < x" "dict_get p y \<noteq> None" by (auto simp: uf_ok_def order_less_le)
    moreover from this have "y \<in> set (dict_keys p)" using dict_get_None_iff by metis
    ultimately obtain r where "uf_root p y r" using less.hyps below_less by blast
    with y False show ?thesis by (blast intro: up)
  qed
qed

text \<open>Halving a path keeps every representative.\<close>

lemma halve_ok:
  assumes "uf_ok p" "dict_get p x = Some y" "dict_get p y = Some z"
  shows "uf_ok (dict_put x z p)"
  using assms unfolding uf_ok_def by (auto split: if_splits) (metis order_trans)+

lemma halve_root:
  assumes ok: "uf_ok p" and xy: "dict_get p x = Some y" "y \<noteq> x" "dict_get p y = Some z"
  shows "uf_root (dict_put x z p) w r \<longleftrightarrow> uf_root p w r"
proof -
  have zx: "z \<noteq> x" using assms unfolding uf_ok_def by (metis order.antisym)
  have forth: "uf_root p w r \<Longrightarrow> uf_root (dict_put x z p) w r" for w r
  proof (induction rule: uf_root.induct)
    case (stop r)
    with xy show ?case by (intro uf_root.stop) auto
  next
    case (up v u r)
    show ?case
    proof (cases "v = x")
      case True
      with up.hyps xy have u: "u = y" by simp
      have "uf_root (dict_put x z p) z r"
      proof (cases "z = y")
        case True
        with up.IH u show ?thesis by simp
      next
        case False
        with up.IH u xy show ?thesis by (auto elim: uf_root_stepE)
      qed
      with zx show ?thesis unfolding True by (intro uf_root.up [of _ x z]) auto
    next
      case False
      with up show ?thesis by (intro uf_root.up [of _ v u]) auto
    qed
  qed
  moreover have "uf_root p w r" if r: "uf_root (dict_put x z p) w r"
  proof -
    have "dict_get p w \<noteq> None"
      using r xy by (cases rule: uf_root.cases) (auto split: if_splits)
    then obtain s where s: "uf_root p w s" using uf_root_exists [OF ok] by blast
    with forth uf_root_unique r show ?thesis by metis
  qed
  ultimately show ?thesis by blast
qed

text \<open>\<open>_find\<close> always returns, with the representative, and changes no representative.\<close>

lemma uf_find_correct:
  assumes "uf_ok p" "dict_get p x \<noteq> None"
  shows "\<exists>p' r. uf_find p x = Some (p', r) \<and> uf_root p x r \<and> uf_ok p'
     \<and> set (dict_keys p') = set (dict_keys p) \<and> (\<forall>w s. uf_root p' w s \<longleftrightarrow> uf_root p w s)"
  using assms
proof (induction "below p x" arbitrary: p x rule: less_induct)
  case less
  from less.prems obtain y where y: "dict_get p x = Some y" by blast
  show ?case
  proof (cases "y = x")
    case True
    with y less.prems show ?thesis by (subst uf_find.simps) (auto intro: stop)
  next
    case False
    with y less.prems obtain z where z: "dict_get p y = Some z" by (auto simp: uf_ok_def)
    let ?q = "dict_put x z p"
    have ok: "uf_ok ?q" using less.prems(1) y z by (rule halve_ok)
    have keys: "set (dict_keys ?q) = set (dict_keys p)" using y by (auto dest: dict_get_Some_key)
    have "z < x" using less.prems(1) y z False unfolding uf_ok_def by (metis order.not_eq_order_implies_strict order.trans order.antisym)
    have zkey: "dict_get p z \<noteq> None" using less.prems(1) z by (auto simp: uf_ok_def)
    then have "z \<in> set (dict_keys p)" using dict_get_None_iff by metis
    then have "below ?q z < below p x" using \<open>z < x\<close> below_less keys by (metis below_def)
    moreover have "dict_get ?q z \<noteq> None" using zkey by simp
    ultimately obtain p' r where r: "uf_find ?q z = Some (p', r)" "uf_root ?q z r" "uf_ok p'"
      "set (dict_keys p') = set (dict_keys ?q)" "\<forall>w s. uf_root p' w s \<longleftrightarrow> uf_root ?q w s"
      using less.hyps ok by blast
    have same: "uf_root ?q w s \<longleftrightarrow> uf_root p w s" for w s
      using halve_root [OF less.prems(1) y False z] .
    have "uf_find p x = Some (p', r)" using r(1) y z False by (subst uf_find.simps) simp
    moreover have "uf_root p x r"
    proof -
      have "uf_root ?q x r" using r(2) \<open>z < x\<close> by (intro uf_root.up [of _ x z]) auto
      then show ?thesis using same by blast
    qed
    ultimately show ?thesis using r(3-5) same keys by blast
  qed
qed

section \<open>Merging\<close>

text \<open>
  What a client needs of the structure: an invariant, the relation "same class", that merging two
  known keys succeeds, keeps the invariant and the known keys, and joins exactly their classes.
\<close>

locale merge_structure =
  fixes merge :: "'k \<Rightarrow> 'k \<Rightarrow> 'p \<Rightarrow> 'p option"
    and inv :: "'k set \<Rightarrow> 'p \<Rightarrow> bool"
    and same :: "'p \<Rightarrow> 'k \<Rightarrow> 'k \<Rightarrow> bool"
  assumes same_equiv: "inv K p \<Longrightarrow> equiv K {(x, y). same p x y}"
    and merge_step: "inv K p \<Longrightarrow> a \<in> K \<Longrightarrow> b \<in> K \<Longrightarrow> \<exists>p'. merge a b p = Some p' \<and> inv K p'
      \<and> (\<forall>x y. same p' x y \<longleftrightarrow> same p x y \<or> (same p x a \<and> same p b y) \<or> (same p x b \<and> same p a y))"
begin

text \<open>The equivalence generated by a set of pairs.\<close>

definition joined :: "'k set \<Rightarrow> ('k \<times> 'k) set \<Rightarrow> ('k \<times> 'k) set" where
  "joined K R = {(x, y). x \<in> K \<and> (x, y) \<in> (R \<union> R\<inverse>)\<^sup>*}"

lemma joined_insert:
  assumes "a \<in> K" "b \<in> K" "R \<subseteq> K \<times> K"
  shows "(x, y) \<in> joined K (insert (a, b) R) \<longleftrightarrow>
    (x, y) \<in> joined K R \<or> ((x, a) \<in> joined K R \<and> (b, y) \<in> joined K R)
      \<or> ((x, b) \<in> joined K R \<and> (a, y) \<in> joined K R)"
proof
  let ?S = "R \<union> R\<inverse>" and ?T = "insert (a, b) R \<union> (insert (a, b) R)\<inverse>"
  assume l: "(x, y) \<in> joined K (insert (a, b) R)"
  then have x: "x \<in> K" and xy: "(x, y) \<in> ?T\<^sup>*" by (auto simp: joined_def)
  have "sym (?S\<^sup>*)" by (intro sym_rtrancl sym_Un_converse)
  then have flip: "(u, v) \<in> ?S\<^sup>* \<Longrightarrow> (v, u) \<in> ?S\<^sup>*" for u v by (rule symD)
  from xy have "(x, y) \<in> ?S\<^sup>* \<or> ((x, a) \<in> ?S\<^sup>* \<and> (b, y) \<in> ?S\<^sup>*) \<or> ((x, b) \<in> ?S\<^sup>* \<and> (a, y) \<in> ?S\<^sup>*)"
  proof (induction rule: rtrancl_induct)
    case (step y z)
    from step.hyps(2) consider "(y, z) \<in> ?S" | "y = a" "z = b" | "y = b" "z = a" by auto
    then show ?case
    proof cases
      case 1
      with step.IH show ?thesis by (meson rtrancl.rtrancl_into_rtrancl)
    next
      case 2
      with step.IH flip show ?thesis by (meson rtrancl.rtrancl_refl rtrancl_trans)
    next
      case 3
      with step.IH flip show ?thesis by (meson rtrancl.rtrancl_refl rtrancl_trans)
    qed
  qed simp
  with x assms(1,2) show "(x, y) \<in> joined K R \<or> ((x, a) \<in> joined K R \<and> (b, y) \<in> joined K R)
      \<or> ((x, b) \<in> joined K R \<and> (a, y) \<in> joined K R)"
    by (auto simp: joined_def)
next
  let ?S = "R \<union> R\<inverse>" and ?T = "insert (a, b) R \<union> (insert (a, b) R)\<inverse>"
  assume r: "(x, y) \<in> joined K R \<or> ((x, a) \<in> joined K R \<and> (b, y) \<in> joined K R)
      \<or> ((x, b) \<in> joined K R \<and> (a, y) \<in> joined K R)"
  have sub: "(u, v) \<in> ?S\<^sup>* \<Longrightarrow> (u, v) \<in> ?T\<^sup>*" for u v
    by (erule rev_subsetD [OF _ rtrancl_mono]) auto
  have ab: "(a, b) \<in> ?T\<^sup>*" "(b, a) \<in> ?T\<^sup>*" by auto
  have "(x, y) \<in> ?T\<^sup>*"
    using r sub ab unfolding joined_def mem_Collect_eq case_prod_conv by (meson rtrancl_trans)
  moreover have "x \<in> K" using r by (auto simp: joined_def)
  ultimately show "(x, y) \<in> joined K (insert (a, b) R)" by (simp add: joined_def)
qed

lemma merge_all_joins:
  assumes "inv K p" "set ps \<subseteq> K \<times> K" "R \<subseteq> K \<times> K"
    and "\<And>x y. same p x y \<longleftrightarrow> (x, y) \<in> joined K R"
  shows "\<exists>p'. merge_all merge ps p = Some p' \<and> inv K p'
     \<and> (\<forall>x y. same p' x y \<longleftrightarrow> (x, y) \<in> joined K (set ps \<union> R))"
  using assms
proof (induction ps arbitrary: p R)
  case (Cons ab ps)
  obtain a b where ab: "ab = (a, b)" by (cases ab)
  with Cons.prems have K: "a \<in> K" "b \<in> K" by auto
  from merge_step [OF Cons.prems(1) K] obtain p1 where p1: "merge a b p = Some p1" "inv K p1"
    "\<forall>x y. same p1 x y \<longleftrightarrow> same p x y \<or> (same p x a \<and> same p b y) \<or> (same p x b \<and> same p a y)" by blast
  have "same p1 x y \<longleftrightarrow> (x, y) \<in> joined K (insert (a, b) R)" for x y
    using p1(3) Cons.prems(4) joined_insert [OF K Cons.prems(3)] by simp
  from Cons.IH [OF p1(2) _ _ this] Cons.prems(2,3) K obtain p' where
    "merge_all merge ps p1 = Some p'" "inv K p'" "\<forall>x y. same p' x y \<longleftrightarrow> (x, y) \<in> joined K (set ps \<union> insert (a, b) R)"
    by auto
  with p1(1) ab show ?case by simp
qed simp

end

definition uf_same :: "'k parents \<Rightarrow> 'k \<Rightarrow> 'k \<Rightarrow> bool" where
  "uf_same p x y \<longleftrightarrow> (\<exists>r. uf_root p x r \<and> uf_root p y r)"

definition uf_inv :: "('k::linorder) set \<Rightarrow> 'k parents \<Rightarrow> bool" where
  "uf_inv K p \<longleftrightarrow> uf_ok p \<and> set (dict_keys p) = K"

lemma uf_root_key: "uf_root p x r \<Longrightarrow> x \<in> set (dict_keys p)"
  by (cases rule: uf_root.cases) (auto dest: dict_get_Some_key)

lemma uf_link_root:
  assumes ok: "uf_ok p" and hi: "dict_get p hi = Some hi" and lo: "dict_get p lo = Some lo" "lo < hi"
  shows "uf_ok (dict_put hi lo p)"
    and "uf_root (dict_put hi lo p) w r \<longleftrightarrow> (if uf_root p w hi then r = lo else uf_root p w r)"
proof -
  let ?q = "dict_put hi lo p"
  show okq: "uf_ok ?q" using assms by (auto simp: uf_ok_def split: if_splits)
  have base: "uf_root ?q lo lo" using lo by (intro stop) auto
  then have hi_lo: "uf_root ?q hi lo" using lo by (intro up [of _ hi lo]) auto
  have forth: "uf_root p w s \<Longrightarrow> uf_root ?q w (if s = hi then lo else s)" for w s
  proof (induction rule: uf_root.induct)
    case (stop r)
    with hi_lo show ?case by (auto intro: uf_root.stop)
  next
    case (up x y r)
    then have "x \<noteq> hi" using hi by auto
    with up show ?case by (intro uf_root.up [of _ x y]) auto
  qed
  show "uf_root ?q w r \<longleftrightarrow> (if uf_root p w hi then r = lo else uf_root p w r)"
  proof
    assume q: "uf_root ?q w r"
    have "w \<in> set (dict_keys p)" using uf_root_key [OF q] dict_get_Some_key [OF hi] by auto
    then have "dict_get p w \<noteq> None" by (simp add: dict_get_None_iff)
    then obtain s where s: "uf_root p w s" using uf_root_exists [OF ok] by blast
    have "r = (if s = hi then lo else s)" by (rule uf_root_unique [OF q forth [OF s]])
    moreover have "uf_root p w hi \<longleftrightarrow> s = hi" using s uf_root_unique [OF s, of hi] by blast
    ultimately show "if uf_root p w hi then r = lo else uf_root p w r" using s by simp
  next
    assume r: "if uf_root p w hi then r = lo else uf_root p w r"
    show "uf_root ?q w r"
    proof (cases "uf_root p w hi")
      case True
      with r forth [of w hi] show ?thesis by simp
    next
      case False
      with r have "uf_root p w r" by simp
      moreover from this False have "r \<noteq> hi" by blast
      ultimately show ?thesis using forth [of w r] by simp
    qed
  qed
qed

lemma uf_init_get: "dict_get (uf_init ms) x = (if x \<in> set ms then Some x else None)"
proof -
  have "dict_get (fold (\<lambda>m d. dict_put m m d) ms d) x = (if x \<in> set ms then Some x else dict_get d x)" for d
    by (induction ms arbitrary: d) auto
  from this [of "[]"] show ?thesis by (simp add: uf_init_def)
qed

lemma uf_init_root: "uf_root (uf_init ms) x r \<longleftrightarrow> x \<in> set ms \<and> r = x"
proof
  assume "uf_root (uf_init ms) x r"
  then show "x \<in> set ms \<and> r = x"
    by (induction rule: uf_root.induct) (auto simp: uf_init_get split: if_splits)
qed (auto simp: uf_init_get intro: stop)

lemma uf_init_inv: "uf_inv (set ms) (uf_init ms)"
proof -
  have "k \<in> set (dict_keys (uf_init ms)) \<longleftrightarrow> k \<in> set ms" for k
    using dict_get_None_iff [of "uf_init ms" k] by (simp add: uf_init_get split: if_splits)
  moreover have "uf_ok (uf_init ms)" by (simp add: uf_ok_def uf_init_get split: if_splits)
  ultimately show ?thesis by (auto simp: uf_inv_def)
qed

interpretation uf: merge_structure uf_union uf_inv uf_same
proof unfold_locales
  fix K and p :: "'a parents" assume inv: "uf_inv K p"
  then have ok: "uf_ok p" and K: "set (dict_keys p) = K" by (simp_all add: uf_inv_def)
  show "equiv K {(x, y). uf_same p x y}"
  proof (rule equivI)
    show "{(x, y). uf_same p x y} \<subseteq> K \<times> K" using uf_root_key K by (auto simp: uf_same_def)
    show "refl_on K {(x, y). uf_same p x y}"
      using uf_root_exists [OF ok] K by (auto simp: refl_on_def uf_same_def dict_get_None_iff)
    show "sym {(x, y). uf_same p x y}" by (auto simp: sym_def uf_same_def)
    show "trans {(x, y). uf_same p x y}" by (auto simp: trans_def uf_same_def) (metis uf_root_unique)
  qed
next
  fix K and p :: "'a parents" and a b assume inv: "uf_inv K p" and ab: "a \<in> K" "b \<in> K"
  then have ok: "uf_ok p" and K: "set (dict_keys p) = K" by (simp_all add: uf_inv_def)
  have "dict_get p a \<noteq> None" "dict_get p b \<noteq> None" using ab K by (auto simp: dict_get_None_iff)
  from uf_find_correct [OF ok this(1)] obtain p1 ra where 1: "uf_find p a = Some (p1, ra)" "uf_root p a ra"
    "uf_ok p1" "set (dict_keys p1) = K" "\<forall>w s. uf_root p1 w s \<longleftrightarrow> uf_root p w s" using K by auto
  have "dict_get p1 b \<noteq> None" using ab 1(4) by (auto simp: dict_get_None_iff)
  from uf_find_correct [OF 1(3) this] obtain p2 rb where 2: "uf_find p1 b = Some (p2, rb)" "uf_root p b rb"
    "uf_ok p2" "set (dict_keys p2) = K" "\<forall>w s. uf_root p2 w s \<longleftrightarrow> uf_root p w s" using 1(4,5) by auto
  have fixed: "dict_get p2 ra = Some ra" "dict_get p2 rb = Some rb"
    using 1(2) 2(2,5) uf_root_fixed by metis+
  have same: "uf_same p x a \<longleftrightarrow> uf_root p x ra" "uf_same p b y \<longleftrightarrow> uf_root p y rb"
    "uf_same p x b \<longleftrightarrow> uf_root p x rb" "uf_same p a y \<longleftrightarrow> uf_root p y ra" for x y
    using 1(2) 2(2) uf_root_unique by (metis uf_same_def)+
  show "\<exists>p'. uf_union a b p = Some p' \<and> uf_inv K p' \<and> (\<forall>x y. uf_same p' x y \<longleftrightarrow>
      uf_same p x y \<or> (uf_same p x a \<and> uf_same p b y) \<or> (uf_same p x b \<and> uf_same p a y))"
  proof (cases "ra = rb")
    case True
    then have "uf_union a b p = Some p2" using 1(1) 2(1) by (simp add: uf_union_def)
    moreover have "uf_same p2 x y \<longleftrightarrow> uf_same p x y" for x y using 2(5) by (simp add: uf_same_def)
    ultimately show ?thesis
      using 2(3,4) True same by (auto simp: uf_inv_def uf_same_def)
  next
    case False
    define lo hi where "lo = min ra rb" and "hi = max ra rb"
    have lohi: "lo < hi" "dict_get p2 lo = Some lo" "dict_get p2 hi = Some hi"
      using False fixed by (auto simp: lo_def hi_def min_def max_def)
    let ?q = "dict_put hi lo p2"
    have u: "uf_union a b p = Some ?q"
      using 1(1) 2(1) False by (auto simp: uf_union_def lo_def hi_def min_def max_def not_less_iff_gr_or_eq)
    have inv': "uf_inv K ?q"
      using uf_link_root(1) [OF 2(3) lohi(3,2,1)] 2(4) lohi(3) by (auto simp: uf_inv_def dest: dict_get_Some_key)
    have q: "uf_root ?q w r \<longleftrightarrow> (if uf_root p w hi then r = lo else uf_root p w r)" for w r
      using uf_link_root(2) [OF 2(3) lohi(3,2,1)] 2(5) by simp
    have "uf_same ?q x y \<longleftrightarrow> uf_same p x y \<or> (uf_root p x lo \<and> uf_root p y hi) \<or> (uf_root p x hi \<and> uf_root p y lo)" for x y
    proof -
      have "uf_root p u hi \<Longrightarrow> uf_root p u r \<longleftrightarrow> r = hi" for u r using uf_root_unique by metis
      then show ?thesis
        unfolding uf_same_def q using lohi(1)
        by (cases "uf_root p x hi"; cases "uf_root p y hi") auto
    qed
    moreover have "(uf_root p x lo \<and> uf_root p y hi) \<or> (uf_root p x hi \<and> uf_root p y lo) \<longleftrightarrow>
        (uf_root p x ra \<and> uf_root p y rb) \<or> (uf_root p x rb \<and> uf_root p y ra)" for x y
      by (auto simp: lo_def hi_def min_def max_def)
    ultimately show ?thesis using u inv' same by simp
  qed
qed

end
