(* ===== verification/Clusters.thy ===== *)
theory Clusters
  imports Evidence_Links Union_Find "HOL-Library.Product_Lexorder"
begin

text \<open>
  Distinct causes and their arbitration (7.1.2): \<open>core/investigation/causal_graph/clusters.py\<close>.
  Roots that restate each other, lie on one live causal line, or are members of one AND-set are one
  cause; the clusters are the connected components of these relations. A walk or a search that
  would not return is \<open>None\<close>.
\<close>

section \<open>Live reachability\<close>

definition ROOT_DISTINCT_JACCARD :: rat where
  "ROOT_DISTINCT_JACCARD = 6 / 10"

definition edge_adjacency :: "case_data \<Rightarrow> (string, string list) pydict" where
  "edge_adjacency c =
    fold (\<lambda>e d. dict_put (edge_cause e)
        ((case dict_get d (edge_cause e) of None \<Rightarrow> [] | Some l \<Rightarrow> l) @ [edge_effect e]) d)
      (case_edges c) []"

text \<open>The effects of one expanded node; the head of \<open>frontier\<close> is the end Python pops from.\<close>

definition live_visit ::
    "(string, causal_node) pydict \<Rightarrow> string \<Rightarrow> string \<Rightarrow> string set \<times> string list \<Rightarrow> string set \<times> string list" where
  "live_visit nodes start nxt = (\<lambda>(descendants, frontier).
    if nxt \<in> descendants \<or> nxt = start then (descendants, frontier)
    else if state_of nxt nodes = Some REFUTED then (descendants, frontier)
    else (insert nxt descendants, nxt # frontier))"

definition adjacent :: "(string, string list) pydict \<Rightarrow> string \<Rightarrow> string list" where
  "adjacent adjacency current = (case dict_get adjacency current of None \<Rightarrow> [] | Some l \<Rightarrow> l)"

definition live_expand ::
    "(string, string list) pydict \<Rightarrow> (string, causal_node) pydict \<Rightarrow> string \<Rightarrow> string
      \<Rightarrow> string set \<times> string list \<Rightarrow> string set \<times> string list" where
  "live_expand adjacency nodes start current st =
    fold (live_visit nodes start) (adjacent adjacency current) st"

definition all_effects :: "(string, string list) pydict \<Rightarrow> string set" where
  "all_effects adjacency = \<Union> (set (map set (dict_values adjacency)))"

lemma adjacent_effects: "set (adjacent adjacency x) \<subseteq> all_effects adjacency"
proof (cases "dict_get adjacency x")
  case (Some l)
  then have "(x, l) \<in> set adjacency" by (simp add: dict_get_def map_of_SomeD)
  then have "l \<in> set (dict_values adjacency)" by (force simp: dict_values_def)
  with Some show ?thesis by (auto simp: adjacent_def all_effects_def)
qed (simp add: adjacent_def)

definition walk_measure :: "(string, string list) pydict \<Rightarrow> string set \<times> string list \<Rightarrow> nat" where
  "walk_measure adjacency = (\<lambda>(descendants, frontier).
    2 * card (all_effects adjacency - descendants) + length frontier)"

lemma finite_all_effects [simp]: "finite (all_effects adjacency)"
  by (simp add: all_effects_def)

lemma live_visit_measure:
  assumes "nxt \<in> all_effects adjacency"
  shows "walk_measure adjacency (live_visit nodes start nxt st) \<le> walk_measure adjacency st"
proof -
  obtain d f where st: "st = (d, f)" by (cases st)
  show ?thesis
  proof (cases "nxt \<in> d")
    case False
    have "all_effects adjacency - insert nxt d = (all_effects adjacency - d) - {nxt}" by blast
    moreover have "nxt \<in> all_effects adjacency - d" using assms False by blast
    ultimately have "card (all_effects adjacency - insert nxt d) + 1 = card (all_effects adjacency - d)"
      by (metis Suc_eq_plus1 card.remove finite_Diff finite_all_effects)
    then show ?thesis by (simp add: st live_visit_def walk_measure_def)
  qed (simp add: st live_visit_def walk_measure_def)
qed

lemma live_expand_measure:
  "walk_measure adjacency (live_expand adjacency nodes start x st) \<le> walk_measure adjacency st"
proof -
  have "set xs \<subseteq> all_effects adjacency \<Longrightarrow>
      walk_measure adjacency (fold (live_visit nodes start) xs st) \<le> walk_measure adjacency st" for xs st
  proof (induction xs arbitrary: st)
    case (Cons x xs)
    from Cons.IH [of "live_visit nodes start x st"] live_visit_measure [of x adjacency nodes start st] Cons.prems
    show ?case by simp
  qed simp
  then show ?thesis using adjacent_effects by (simp add: live_expand_def)
qed

text \<open>The loop: every round takes one node off the frontier.\<close>

function live_walk ::
    "(string, string list) pydict \<Rightarrow> (string, causal_node) pydict \<Rightarrow> string \<Rightarrow> string set \<times> string list
      \<Rightarrow> string set" where
  "live_walk adjacency nodes start (descendants, []) = descendants"
| "live_walk adjacency nodes start (descendants, current # frontier) =
    live_walk adjacency nodes start (live_expand adjacency nodes start current (descendants, frontier))"
  by pat_completeness auto
termination
proof (relation "measure (\<lambda>(adjacency, nodes, start, st). walk_measure adjacency st)", simp)
  fix adjacency nodes start descendants current frontier
  have "walk_measure adjacency (live_expand adjacency nodes start current (descendants, frontier))
      < walk_measure adjacency (descendants, current # frontier)"
    using live_expand_measure [of adjacency nodes start current "(descendants, frontier)"]
    by (simp add: walk_measure_def)
  then show "((adjacency, nodes, start, live_expand adjacency nodes start current (descendants, frontier)),
      adjacency, nodes, start, descendants, current # frontier)
      \<in> measure (\<lambda>(adjacency, nodes, start, st). walk_measure adjacency st)"
    by simp
qed

definition live_descendant_ids ::
    "string \<Rightarrow> (string, string list) pydict \<Rightarrow> (string, causal_node) pydict \<Rightarrow> string set" where
  "live_descendant_ids nid adjacency nodes = live_walk adjacency nodes nid ({}, [nid])"

section \<open>The partition\<close>

definition cluster_relations :: "case_data \<Rightarrow> string set \<Rightarrow> string list \<times> (string, string set) pydict" where
  "cluster_relations c root_ids =
    (let members = sorted_list_of_set (Set.filter (\<lambda>rid. rid \<in> set (dict_keys (case_nodes c))) root_ids);
         adjacency = edge_adjacency c
     in (members, map (\<lambda>rid. (rid, live_descendant_ids rid adjacency (case_nodes c))) members))"

definition co_necessary_sets :: "causal_edge list \<Rightarrow> string list list" where
  "co_necessary_sets edges =
    concat (map (\<lambda>effect_id.
        map snd (filter (\<lambda>(key, cause_ids). key \<noteq> None \<and> length cause_ids > 1)
          (incoming_and_groups effect_id edges)))
      (sort (remdups (map edge_effect (filter (\<lambda>e. edge_group e \<noteq> None) edges)))))"

text \<open>The unions of the AND-sets, then those of the pairs of members, in the order they run.\<close>

definition and_set_unions :: "string list \<Rightarrow> causal_edge list \<Rightarrow> (string \<times> string) list" where
  "and_set_unions members edges =
    concat (map (\<lambda>and_set.
        let in_scope = sort (filter (\<lambda>rid. rid \<in> set members) and_set)
        in map (\<lambda>other. (hd in_scope, other)) (tl in_scope)) (co_necessary_sets edges))"

fun later_pairs :: "'a list \<Rightarrow> ('a \<times> 'a) list" where
  "later_pairs [] = []"
| "later_pairs (a # rest) = map (Pair a) rest @ later_pairs rest"

definition desc_of :: "(string, string set) pydict \<Rightarrow> string \<Rightarrow> string set" where
  "desc_of desc rid = (case dict_get desc rid of None \<Rightarrow> {} | Some s \<Rightarrow> s)"

definition same_cause :: "case_data \<Rightarrow> (string, string set) pydict \<Rightarrow> string \<Rightarrow> string \<Rightarrow> bool" where
  "same_cause c desc a b \<longleftrightarrow>
    (let tokens = (\<lambda>rid. case dict_get (case_nodes c) rid of
          None \<Rightarrow> {} | Some n \<Rightarrow> cached_content_tokens (node_statement n))
     in b \<in> desc_of desc a \<or> a \<in> desc_of desc b
        \<or> mutual_mirror (tokens a) (tokens b) ROOT_DISTINCT_JACCARD)"

fun build_clusters ::
    "string list \<Rightarrow> string parents \<Rightarrow> (string, string set) pydict \<Rightarrow> (string, string set) pydict option" where
  "build_clusters [] parent clusters = Some clusters"
| "build_clusters (rid # rest) parent clusters =
    (case uf_find parent rid of
       None \<Rightarrow> None
     | Some (parent', r) \<Rightarrow>
         build_clusters rest parent'
           (dict_put r (insert rid (case dict_get clusters r of None \<Rightarrow> {} | Some s \<Rightarrow> s)) clusters))"

definition distinct_cause_partition ::
    "case_data \<Rightarrow> string set \<Rightarrow> (string set list \<times> (string, string set) pydict) option" where
  "distinct_cause_partition c root_ids =
    (case cluster_relations c root_ids of (members, desc) \<Rightarrow>
      if members = [] then Some ([], desc)
      else case merge_all uf_union
             (and_set_unions members (case_edges c)
              @ filter (\<lambda>(a, b). same_cause c desc a b) (later_pairs members))
             (uf_init members) of
          None \<Rightarrow> None
        | Some parent \<Rightarrow>
           (case build_clusters members parent [] of
              None \<Rightarrow> None
            | Some clusters \<Rightarrow>
                Some (map (\<lambda>key. case dict_get clusters key of None \<Rightarrow> {} | Some s \<Rightarrow> s)
                        (sort (dict_keys clusters)), desc)))"

definition distinct_cause_clusters :: "case_data \<Rightarrow> string set \<Rightarrow> string set list option" where
  "distinct_cause_clusters c root_ids = map_option fst (distinct_cause_partition c root_ids)"

definition origin_of :: "string set \<Rightarrow> (string, string set) pydict \<Rightarrow> string" where
  "origin_of cluster desc =
    hd (sort_key (\<lambda>m. (- int (card (desc_of desc m \<inter> cluster)), m)) (sorted_list_of_set cluster))"

text \<open>The outer option is termination, the inner one the \<open>None\<close> of the code.\<close>

definition sole_cluster_origin :: "case_data \<Rightarrow> string set \<Rightarrow> (string \<times> string set) option option" where
  "sole_cluster_origin c root_ids =
    (case distinct_cause_partition c root_ids of
       None \<Rightarrow> None
     | Some (clusters, desc) \<Rightarrow>
         Some (case clusters of [cluster] \<Rightarrow> Some (origin_of cluster desc, cluster) | _ \<Rightarrow> None))"

definition standing_validated_roots :: "case_data \<Rightarrow> string set" where
  "standing_validated_roots c =
    set (map (\<lambda>h. or_empty (hyp_root h)) (filter (\<lambda>h. truthy (hyp_root h)
        \<and> state_of (or_empty (hyp_root h)) (case_nodes c) = Some VALIDATED) (standing_hypotheses c)))"

definition mece_contested_root_ids :: "case_data \<Rightarrow> string set option" where
  "mece_contested_root_ids c =
    (let root_ids = standing_validated_roots c in
     if card root_ids < 2 then Some {}
     else case distinct_cause_clusters c root_ids of
        None \<Rightarrow> None
      | Some clusters \<Rightarrow>
          if length clusters < 2 then Some {}
          else if (\<exists>rid \<in> root_ids. case dict_get (case_nodes c) rid of None \<Rightarrow> False
                    | Some n \<Rightarrow> root_counterfactually_confirmed n (evidence_category_map c))
          then Some {} else Some root_ids)"

section \<open>The walk computes live reachability\<close>

definition live_step :: "(string, string list) pydict \<Rightarrow> (string, causal_node) pydict \<Rightarrow> (string \<times> string) set" where
  "live_step adjacency nodes = {(a, b). b \<in> set (adjacent adjacency a) \<and> state_of b nodes \<noteq> Some REFUTED}"

lemma fold_live_visit:
  "fst (fold (live_visit nodes s) xs (d, f)) =
     d \<union> {x \<in> set xs. x \<noteq> s \<and> state_of x nodes \<noteq> Some REFUTED}
   \<and> set (snd (fold (live_visit nodes s) xs (d, f))) =
     set f \<union> {x \<in> set xs. x \<notin> d \<and> x \<noteq> s \<and> state_of x nodes \<noteq> Some REFUTED}"
proof (induction xs arbitrary: d f)
  case (Cons x xs)
  obtain d' f' where v: "live_visit nodes s x (d, f) = (d', f')" by (cases "live_visit nodes s x (d, f)")
  show ?case
    using Cons.IH [of d' f'] v
    by (auto simp: live_visit_def split: if_splits)
qed simp

definition walk_inv :: "(string \<times> string) set \<Rightarrow> string \<Rightarrow> string set \<Rightarrow> string list \<Rightarrow> bool" where
  "walk_inv L s d f \<longleftrightarrow> s \<notin> d \<and> (\<forall>x \<in> d. (s, x) \<in> L\<^sup>+) \<and> set f \<subseteq> insert s d
     \<and> (\<forall>a \<in> insert s d - set f. \<forall>b. (a, b) \<in> L \<longrightarrow> b \<in> d \<or> b = s)"

lemma walk_inv_step:
  assumes inv: "walk_inv (live_step adjacency nodes) s d (x # f)"
    and e: "live_expand adjacency nodes s x (d, f) = (d', f')"
  shows "walk_inv (live_step adjacency nodes) s d' f'"
proof -
  let ?L = "live_step adjacency nodes"
  let ?new = "{y \<in> set (adjacent adjacency x). y \<noteq> s \<and> state_of y nodes \<noteq> Some REFUTED}"
  have d': "d' = d \<union> ?new" and f': "set f' = set f \<union> {y \<in> ?new. y \<notin> d}"
    using fold_live_visit [of nodes s "adjacent adjacency x" d f] e by (auto simp: live_expand_def)
  have x: "x \<in> insert s d" and sf: "set f \<subseteq> insert s d" using inv by (auto simp: walk_inv_def)
  have step: "(x, y) \<in> ?L \<longleftrightarrow> y \<in> ?new \<or> (y = s \<and> (x, y) \<in> ?L)" for y by (auto simp: live_step_def)
  have "(s, y) \<in> ?L\<^sup>+" if "y \<in> ?new" for y
  proof -
    have xy: "(x, y) \<in> ?L" using that by (auto simp: live_step_def)
    show ?thesis
    proof (cases "x = s")
      case True
      with xy show ?thesis by auto
    next
      case False
      with x inv have "(s, x) \<in> ?L\<^sup>+" by (auto simp: walk_inv_def)
      with xy show ?thesis by (rule trancl_into_trancl [rotated])
    qed
  qed
  moreover have "s \<notin> ?new" by simp
  moreover have "b \<in> d' \<or> b = s" if "a \<in> insert s d' - set f'" "(a, b) \<in> ?L" for a b
  proof (cases "a = x")
    case True
    with that step show ?thesis by (auto simp: d')
  next
    case False
    have "a \<in> insert s d - set (x # f)" using that(1) False by (auto simp: d' f')
    with inv that(2) show ?thesis by (auto simp: walk_inv_def d')
  qed
  ultimately show ?thesis using inv sf unfolding walk_inv_def by (auto simp: d' f')
qed

lemma live_walk_correct:
  "walk_inv (live_step adjacency nodes) s (fst st) (snd st) \<Longrightarrow>
    live_walk adjacency nodes s st = {x. (s, x) \<in> (live_step adjacency nodes)\<^sup>+} - {s}"
proof (induction adjacency nodes s st rule: live_walk.induct)
  case (1 adjacency nodes s d)
  let ?L = "live_step adjacency nodes"
  have closed: "\<And>a b. a \<in> insert s d \<Longrightarrow> (a, b) \<in> ?L \<Longrightarrow> b \<in> insert s d"
    and sound: "\<And>x. x \<in> d \<Longrightarrow> (s, x) \<in> ?L\<^sup>+" and s: "s \<notin> d"
    using 1 by (auto simp: walk_inv_def)
  have "(s, x) \<in> ?L\<^sup>+ \<Longrightarrow> x \<in> insert s d" for x
    by (induction rule: trancl_induct) (use closed in blast)+
  with sound s show ?case by auto
next
  case (2 adjacency nodes s d x f)
  obtain d' f' where e: "live_expand adjacency nodes s x (d, f) = (d', f')"
    by (cases "live_expand adjacency nodes s x (d, f)")
  from walk_inv_step [OF _ e] 2 e show ?case by simp
qed

lemma live_descendants:
  "live_descendant_ids s adjacency nodes = {x. (s, x) \<in> (live_step adjacency nodes)\<^sup>+} - {s}"
  unfolding live_descendant_ids_def
  by (subst live_walk_correct) (simp_all add: walk_inv_def)

lemma edge_adjacency_get:
  "set (adjacent (edge_adjacency c) a) = {edge_effect e | e. e \<in> set (case_edges c) \<and> edge_cause e = a}"
proof -
  let ?f = "\<lambda>e d. dict_put (edge_cause e)
        ((case dict_get d (edge_cause e) of None \<Rightarrow> [] | Some l \<Rightarrow> l) @ [edge_effect e]) d"
  have "set (adjacent (fold ?f es d) a) =
      set (adjacent d a) \<union> {edge_effect e | e. e \<in> set es \<and> edge_cause e = a}" for es d
  proof (induction es arbitrary: d)
    case (Cons e es)
    have "set (adjacent (?f e d) a) = set (adjacent d a) \<union> (if edge_cause e = a then {edge_effect e} else {})"
      by (auto simp: adjacent_def)
    then show ?case using Cons.IH [of "?f e d"] by auto
  qed simp
  from this [of "case_edges c" "[]"] show ?thesis by (simp add: edge_adjacency_def adjacent_def)
qed

section \<open>The clusters are connected components\<close>

lemma build_clusters_correct:
  assumes "uf_inv K p" "set ms \<subseteq> K"
  shows "\<exists>d'. build_clusters ms p d = Some d' \<and> (dict_wf d \<longrightarrow> dict_wf d') \<and>
    (\<forall>r. dict_get d' r = (if {m \<in> set ms. uf_root p m r} = {} then dict_get d r
       else Some ({m \<in> set ms. uf_root p m r} \<union> (case dict_get d r of None \<Rightarrow> {} | Some t \<Rightarrow> t))))"
  using assms
proof (induction ms arbitrary: p d)
  case (Cons m ms)
  have ok: "uf_ok p" and keys: "set (dict_keys p) = K" using Cons.prems(1) by (simp_all add: uf_inv_def)
  have "dict_get p m \<noteq> None" using Cons.prems(2) keys by (auto simp: dict_get_None_iff)
  from uf_find_correct [OF ok this] obtain p' r where f: "uf_find p m = Some (p', r)" "uf_root p m r"
    "uf_ok p'" "set (dict_keys p') = K" "\<forall>w s. uf_root p' w s \<longleftrightarrow> uf_root p w s" using keys by auto
  let ?d = "dict_put r (insert m (case dict_get d r of None \<Rightarrow> {} | Some s \<Rightarrow> s)) d"
  have "uf_inv K p'" using f(3,4) by (simp add: uf_inv_def)
  have sub: "set ms \<subseteq> K" using Cons.prems(2) by simp
  from Cons.IH [OF \<open>uf_inv K p'\<close> sub, of ?d] obtain d' where d': "build_clusters ms p' ?d = Some d'"
    "dict_wf ?d \<longrightarrow> dict_wf d'"
    "\<forall>q. dict_get d' q = (if {m \<in> set ms. uf_root p m q} = {} then dict_get ?d q
       else Some ({m \<in> set ms. uf_root p m q} \<union> (case dict_get ?d q of None \<Rightarrow> {} | Some t \<Rightarrow> t)))"
    unfolding f(5) [rule_format] by (elim exE conjE) (rule that)
  have "uf_root p m q \<longleftrightarrow> q = r" for q using f(2) uf_root_unique by metis
  then have "{x \<in> set (m # ms). uf_root p x q} =
      (if q = r then insert m {x \<in> set ms. uf_root p x q} else {x \<in> set ms. uf_root p x q})" for q by auto
  then show ?case using f(1) d' by (intro exI [of _ d']) (auto split: option.splits)
qed simp

lemma component_quotient:
  assumes "uf_inv K p"
  shows "{{m \<in> K. uf_root p m r} | r. {m \<in> K. uf_root p m r} \<noteq> {}} = K // {(x, y). uf_same p x y}"
proof -
  have key: "uf_root p x r \<Longrightarrow> x \<in> K" for x r using assms uf_root_key by (auto simp: uf_inv_def)
  have cls: "{y. uf_same p x y} = {m \<in> K. uf_root p m r}" if "uf_root p x r" for x r
  proof -
    have "uf_same p x y \<longleftrightarrow> uf_root p y r" for y
      unfolding uf_same_def using that uf_root_unique [OF that] by blast
    with key show ?thesis by blast
  qed
  show ?thesis
  proof (intro set_eqI iffI)
    fix C assume "C \<in> {{m \<in> K. uf_root p m r} | r. {m \<in> K. uf_root p m r} \<noteq> {}}"
    then obtain r x where "C = {m \<in> K. uf_root p m r}" "x \<in> K" "uf_root p x r" by auto
    with cls show "C \<in> K // {(x, y). uf_same p x y}" by (auto simp: quotient_def)
  next
    fix C assume "C \<in> K // {(x, y). uf_same p x y}"
    then obtain x where x: "x \<in> K" "C = {y. uf_same p x y}" by (auto simp: quotient_def)
    have "dict_get p x \<noteq> None" using x(1) assms by (auto simp: uf_inv_def dict_get_None_iff)
    then obtain r where "uf_root p x r" using uf_root_exists assms by (auto simp: uf_inv_def)
    with x cls [of x r] show "C \<in> {{m \<in> K. uf_root p m r} | r. {m \<in> K. uf_root p m r} \<noteq> {}}" by auto
  qed
qed

text \<open>The merges of the code, and the members they range over.\<close>

definition cluster_members :: "case_data \<Rightarrow> string set \<Rightarrow> string set" where
  "cluster_members c root_ids = root_ids \<inter> set (dict_keys (case_nodes c))"

definition unions_of :: "case_data \<Rightarrow> string set \<Rightarrow> (string \<times> string) list" where
  "unions_of c root_ids = (case cluster_relations c root_ids of (members, desc) \<Rightarrow>
     and_set_unions members (case_edges c) @ filter (\<lambda>(a, b). same_cause c desc a b) (later_pairs members))"

lemma members_set:
  "set (fst (cluster_relations c root_ids)) = cluster_members c root_ids"
  "distinct (fst (cluster_relations c root_ids))"
  "sorted (fst (cluster_relations c root_ids))"
proof -
  have "finite (cluster_members c root_ids)" by (simp add: cluster_members_def)
  moreover have "Set.filter (\<lambda>rid. rid \<in> set (dict_keys (case_nodes c))) root_ids = cluster_members c root_ids"
    by (auto simp: cluster_members_def)
  ultimately show "set (fst (cluster_relations c root_ids)) = cluster_members c root_ids"
    "distinct (fst (cluster_relations c root_ids))" "sorted (fst (cluster_relations c root_ids))"
    by (simp_all add: cluster_relations_def Let_def)
qed

lemma later_pairs_subset: "set (later_pairs xs) \<subseteq> set xs \<times> set xs"
  by (induction xs) auto

lemma later_pairs_cover: "x \<in> set xs \<Longrightarrow> y \<in> set xs \<Longrightarrow> x \<noteq> y \<Longrightarrow>
    (x, y) \<in> set (later_pairs xs) \<or> (y, x) \<in> set (later_pairs xs)"
  by (induction xs) auto

lemma and_set_unions_subset: "set (and_set_unions members edges) \<subseteq> set members \<times> set members"
proof -
  have "hd l \<in> set members" "o' \<in> set members"
    if "l = sort (filter (\<lambda>rid. rid \<in> set members) s)" "o' \<in> set (tl l)" for l o' s
  proof -
    have "set l \<subseteq> set members" using that(1) by auto
    moreover have "l \<noteq> []" using that(2) by auto
    ultimately show "hd l \<in> set members" "o' \<in> set members"
      using that(2) by (auto dest: list.set_sel(2))
  qed
  note inside = this
  show ?thesis
  proof
    fix p assume "p \<in> set (and_set_unions members edges)"
    then obtain s o' where so: "p = (hd (sort (filter (\<lambda>rid. rid \<in> set members) s)), o')"
      "o' \<in> set (tl (sort (filter (\<lambda>rid. rid \<in> set members) s)))"
      by (auto simp: and_set_unions_def Let_def)
    then show "p \<in> set members \<times> set members" by (simp add: inside [OF refl so(2)])
  qed
qed

lemma unions_subset: "set (unions_of c root_ids) \<subseteq> cluster_members c root_ids \<times> cluster_members c root_ids"
proof (cases "cluster_relations c root_ids")
  case (Pair members desc)
  then have "set members = cluster_members c root_ids" using members_set(1) [of c root_ids] by simp
  then show ?thesis
    using Pair and_set_unions_subset [of members "case_edges c"] later_pairs_subset [of members]
    by (auto simp: unions_of_def)
qed

lemma finite_cluster_members [simp]: "finite (cluster_members c root_ids)"
  by (simp add: cluster_members_def)

lemma cluster_desc:
  "a \<in> cluster_members c root_ids \<Longrightarrow> desc_of (snd (cluster_relations c root_ids)) a =
     live_descendant_ids a (edge_adjacency c) (case_nodes c)"
proof -
  have "dict_get (map (\<lambda>rid. (rid, f rid)) ms) a = (if a \<in> set ms then Some (f a) else None)" for f :: "string \<Rightarrow> string set" and ms
    by (induction ms) auto
  then show "a \<in> cluster_members c root_ids \<Longrightarrow> ?thesis"
    using members_set(1) [of c root_ids] by (simp add: cluster_relations_def Let_def desc_of_def)
qed

lemma same_cause_sym: "same_cause c desc a b = same_cause c desc b a"
  by (auto simp: same_cause_def Let_def mutual_mirror_commute)

definition co_necessary :: "causal_edge list \<Rightarrow> string \<Rightarrow> string \<Rightarrow> bool" where
  "co_necessary edges a b \<longleftrightarrow> (\<exists>d \<in> set edges. \<exists>e \<in> set edges. edge_cause d = a \<and> edge_cause e = b
     \<and> edge_effect d = edge_effect e \<and> group_key (edge_group d) = group_key (edge_group e)
     \<and> group_key (edge_group d) \<noteq> None)"

lemma co_necessary_sets_iff:
  assumes "a \<noteq> b"
  shows "(\<exists>S \<in> set (co_necessary_sets edges). a \<in> set S \<and> b \<in> set S) \<longleftrightarrow> co_necessary edges a b"
proof
  assume "\<exists>S \<in> set (co_necessary_sets edges). a \<in> set S \<and> b \<in> set S"
  then obtain S eff key where S: "(key, S) \<in> set (incoming_and_groups eff edges)" "key \<noteq> None"
      "a \<in> set S" "b \<in> set S"
    by (auto simp: co_necessary_sets_def)
  then show "co_necessary edges a b"
    by (fastforce simp: incoming_and_groups_items set_group_members co_necessary_def)
next
  assume "co_necessary edges a b"
  then obtain d e where de: "d \<in> set edges" "e \<in> set edges" "edge_cause d = a" "edge_cause e = b"
    "edge_effect d = edge_effect e" "group_key (edge_group d) = group_key (edge_group e)"
    "group_key (edge_group d) \<noteq> None" unfolding co_necessary_def by blast
  let ?S = "group_members (edge_effect d) (group_key (edge_group d)) edges"
  have mem: "a \<in> set ?S" "b \<in> set ?S" using de by (auto simp: set_group_members)
  then have "(group_key (edge_group d), ?S) \<in> set (incoming_and_groups (edge_effect d) edges)"
    by (auto simp: incoming_and_groups_items)
  moreover have "1 < length ?S"
  proof -
    have "card {a, b} \<le> card (set ?S)" using mem by (intro card_mono) auto
    also have "\<dots> \<le> length ?S" by (rule card_length)
    finally show ?thesis using assms by simp
  qed
  moreover have "edge_group d \<noteq> None" using de(7) by (cases "edge_group d") (simp_all add: group_key_def)
  ultimately have "?S \<in> set (co_necessary_sets edges)"
    using de(1,7) by (force simp: co_necessary_sets_def)
  with mem show "\<exists>S \<in> set (co_necessary_sets edges). a \<in> set S \<and> b \<in> set S" by blast
qed

text \<open>One cause recorded as two roots: the relation whose components are the clusters.\<close>

definition one_cause :: "case_data \<Rightarrow> string \<Rightarrow> string \<Rightarrow> bool" where
  "one_cause c a b \<longleftrightarrow>
     (let live = (\<lambda>x. {y. (x, y) \<in> (live_step (edge_adjacency c) (case_nodes c))\<^sup>+} - {x});
          tokens = (\<lambda>rid. case dict_get (case_nodes c) rid of
             None \<Rightarrow> {} | Some n \<Rightarrow> cached_content_tokens (node_statement n))
      in co_necessary (case_edges c) a b \<or> b \<in> live a \<or> a \<in> live b
         \<or> mutual_mirror (tokens a) (tokens b) ROOT_DISTINCT_JACCARD)"

definition cause_relation :: "case_data \<Rightarrow> string set \<Rightarrow> (string \<times> string) set" where
  "cause_relation c root_ids = {(a, b). a \<in> cluster_members c root_ids \<and> b \<in> cluster_members c root_ids
     \<and> one_cause c a b}"

lemma one_cause_same: "a \<in> cluster_members c root_ids \<Longrightarrow> b \<in> cluster_members c root_ids \<Longrightarrow>
    one_cause c a b \<longleftrightarrow> co_necessary (case_edges c) a b
      \<or> same_cause c (snd (cluster_relations c root_ids)) a b"
  by (simp add: one_cause_def same_cause_def Let_def cluster_desc live_descendants)

lemma co_necessary_sym: "co_necessary edges a b \<Longrightarrow> co_necessary edges b a"
  unfolding co_necessary_def by metis

lemma one_cause_sym: "one_cause c a b \<Longrightarrow> one_cause c b a"
  by (auto simp: one_cause_def Let_def mutual_mirror_commute dest: co_necessary_sym)

lemma unions_sound:
  assumes "(a, b) \<in> set (unions_of c root_ids)"
  shows "a = b \<or> one_cause c a b"
proof -
  obtain ms desc where rel: "cluster_relations c root_ids = (ms, desc)" by (cases "cluster_relations c root_ids")
  have mem: "a \<in> cluster_members c root_ids" "b \<in> cluster_members c root_ids"
    using assms unions_subset by blast+
  from assms rel consider "(a, b) \<in> set (and_set_unions ms (case_edges c))" | "same_cause c desc a b"
    by (auto simp: unions_of_def)
  then show ?thesis
  proof cases
    case 1
    then obtain S where S: "S \<in> set (co_necessary_sets (case_edges c))"
      "a = hd (sort (filter (\<lambda>r. r \<in> set ms) S))" "b \<in> set (tl (sort (filter (\<lambda>r. r \<in> set ms) S)))"
      by (auto simp: and_set_unions_def Let_def)
    let ?l = "sort (filter (\<lambda>r. r \<in> set ms) S)"
    have "?l \<noteq> []" using S(3) by auto
    then have "hd ?l \<in> set ?l" and "b \<in> set ?l"
      using S(3) hd_in_set [of ?l] list.set_sel(2) [of ?l b] by blast+
    then have "a \<in> set S" "b \<in> set S" unfolding S(2) set_sort set_filter by simp_all
    with S(1) co_necessary_sets_iff [of a b "case_edges c"] mem show ?thesis
      by (auto simp: one_cause_same [OF mem])
  next
    case 2
    with rel show ?thesis by (simp add: one_cause_same [OF mem])
  qed
qed

lemma unions_complete:
  assumes "(a, b) \<in> cause_relation c root_ids"
  shows "(a, b) \<in> (set (unions_of c root_ids) \<union> (set (unions_of c root_ids))\<inverse>)\<^sup>*"
proof (cases "a = b")
  case False
  obtain ms desc where rel: "cluster_relations c root_ids = (ms, desc)" by (cases "cluster_relations c root_ids")
  have mem: "a \<in> cluster_members c root_ids" "b \<in> cluster_members c root_ids"
    and one: "one_cause c a b" using assms by (auto simp: cause_relation_def)
  have ms: "set ms = cluster_members c root_ids" using members_set(1) [of c root_ids] rel by simp
  let ?U = "set (unions_of c root_ids)"
  from one mem rel consider "co_necessary (case_edges c) a b" | "same_cause c desc a b"
    by (auto simp: one_cause_same [OF mem])
  then show ?thesis
  proof cases
    case 1
    then obtain S where S: "S \<in> set (co_necessary_sets (case_edges c))" "a \<in> set S" "b \<in> set S"
      using co_necessary_sets_iff [OF False] by blast
    let ?l = "sort (filter (\<lambda>r. r \<in> set ms) S)"
    have l: "a \<in> set ?l" "b \<in> set ?l" using S mem ms by auto
    have "x = hd ?l \<or> (hd ?l, x) \<in> ?U" if "x \<in> set ?l" for x
    proof (cases "x = hd ?l")
      case False
      with that have "x \<in> set (tl ?l)" by (cases ?l) auto
      with S(1) rel show ?thesis by (auto simp: unions_of_def and_set_unions_def Let_def)
    qed simp
    with l have "a = hd ?l \<or> (hd ?l, a) \<in> ?U" "b = hd ?l \<or> (hd ?l, b) \<in> ?U" by blast+
    then have "(a, hd ?l) \<in> (?U \<union> ?U\<inverse>)\<^sup>*" "(hd ?l, b) \<in> (?U \<union> ?U\<inverse>)\<^sup>*" by auto
    then show ?thesis by (rule rtrancl_trans)
  next
    case 2
    have "(a, b) \<in> set (later_pairs ms) \<or> (b, a) \<in> set (later_pairs ms)"
      using later_pairs_cover [of a ms b] mem ms False by simp
    with 2 rel same_cause_sym [of c desc a b] have "(a, b) \<in> ?U \<union> ?U\<inverse>" by (auto simp: unions_of_def)
    then show ?thesis by blast
  qed
qed simp

lemma cause_components:
  "uf.joined (cluster_members c root_ids) (set (unions_of c root_ids)) =
    {(a, b). a \<in> cluster_members c root_ids \<and> (a, b) \<in> (cause_relation c root_ids)\<^sup>*}"
proof -
  let ?U = "set (unions_of c root_ids)" and ?R = "cause_relation c root_ids"
  have "?U \<union> ?U\<inverse> \<subseteq> ?R\<^sup>*"
  proof (rule subrelI)
    fix a b assume "(a, b) \<in> ?U \<union> ?U\<inverse>"
    then have "a \<in> cluster_members c root_ids" "b \<in> cluster_members c root_ids" "a = b \<or> one_cause c a b"
      using unions_subset [of c root_ids] unions_sound one_cause_sym by blast+
    then show "(a, b) \<in> ?R\<^sup>*" by (auto simp: cause_relation_def)
  qed
  moreover have "?R \<subseteq> (?U \<union> ?U\<inverse>)\<^sup>*" using unions_complete by auto
  ultimately have "(?U \<union> ?U\<inverse>)\<^sup>* = ?R\<^sup>*" by (intro equalityI rtrancl_subset_rtrancl)
  then show ?thesis by (simp add: uf.joined_def)
qed

definition components :: "case_data \<Rightarrow> string set \<Rightarrow> string set set" where
  "components c root_ids = cluster_members c root_ids //
     {(a, b). a \<in> cluster_members c root_ids \<and> (a, b) \<in> (cause_relation c root_ids)\<^sup>*}"

lemma quotient_empty [simp]: "{} // r = {}"
  by (simp add: quotient_def)

lemma partition_correct:
  "\<exists>clusters. distinct_cause_clusters c root_ids = Some clusters
     \<and> distinct clusters \<and> set clusters = components c root_ids"
proof -
  obtain ms desc where rel: "cluster_relations c root_ids = (ms, desc)" by (cases "cluster_relations c root_ids")
  let ?K = "cluster_members c root_ids"
  have ms: "set ms = ?K" using members_set(1) [of c root_ids] rel by simp
  show ?thesis
  proof (cases "ms = []")
    case True
    with rel ms show ?thesis
      by (simp add: distinct_cause_clusters_def distinct_cause_partition_def components_def)
  next
    case False
    have inv0: "uf_inv ?K (uf_init ms)" using uf_init_inv [of ms] ms by simp
    have "uf_same (uf_init ms) x y \<longleftrightarrow> (x, y) \<in> uf.joined ?K {}" for x y
      using ms by (auto simp: uf_same_def uf_init_root uf.joined_def)
    from uf.merge_all_joins [OF inv0 unions_subset _ this] obtain p where
      p: "merge_all uf_union (unions_of c root_ids) (uf_init ms) = Some p" "uf_inv ?K p"
         "\<forall>x y. uf_same p x y \<longleftrightarrow> (x, y) \<in> uf.joined ?K (set (unions_of c root_ids) \<union> {})"
      by blast
    from build_clusters_correct [OF p(2) eq_refl [OF ms], of "[]"] obtain d where
      d: "build_clusters ms p [] = Some d" "dict_wf d"
         "\<forall>r. dict_get d r = (if {m \<in> ?K. uf_root p m r} = {} then None else Some {m \<in> ?K. uf_root p m r})"
      by (auto simp: ms dict_keys_def)
    let ?at = "\<lambda>key. case dict_get d key of None \<Rightarrow> {} | Some s \<Rightarrow> s"
    have keys: "k \<in> set (dict_keys d) \<longleftrightarrow> {m \<in> ?K. uf_root p m k} \<noteq> {}" for k
      using d(3) [rule_format, of k] dict_get_None_iff [of d k] by (simp split: if_splits)
    have at: "?at k = {m \<in> ?K. uf_root p m k}" if "k \<in> set (dict_keys d)" for k
      using that keys [of k] d(3) [rule_format, of k] by simp
    have "set (map ?at (sort (dict_keys d))) = {{m \<in> ?K. uf_root p m r} | r. {m \<in> ?K. uf_root p m r} \<noteq> {}}"
    proof -
      have "set (dict_keys d) = {r. {m \<in> ?K. uf_root p m r} \<noteq> {}}" using keys by blast
      moreover have "?at ` set (dict_keys d) = (\<lambda>r. {m \<in> ?K. uf_root p m r}) ` set (dict_keys d)"
        by (rule image_cong [OF refl at])
      ultimately show ?thesis by (simp only: set_map set_sort) (rule image_Collect)
    qed
    also have "\<dots> = ?K // {(x, y). uf_same p x y}" by (rule component_quotient [OF p(2)])
    also have "{(x, y). uf_same p x y} = uf.joined ?K (set (unions_of c root_ids))" using p(3) by auto
    finally have "set (map ?at (sort (dict_keys d))) = components c root_ids"
      by (simp add: cause_components components_def)
    moreover have "distinct (map ?at (sort (dict_keys d)))"
    proof -
      have "inj_on ?at (set (dict_keys d))"
      proof (rule inj_onI)
        fix k l assume kl: "k \<in> set (dict_keys d)" "l \<in> set (dict_keys d)" "?at k = ?at l"
        from kl(1) keys obtain m where "m \<in> ?K" "uf_root p m k" by auto
        with kl at have "uf_root p m l" by auto
        with \<open>uf_root p m k\<close> show "k = l" by (rule uf_root_unique)
      qed
      with d(2) show ?thesis by (simp add: distinct_map)
    qed
    moreover have "distinct_cause_clusters c root_ids = Some (map ?at (sort (dict_keys d)))"
      using rel False p(1) d(1)
      by (simp add: distinct_cause_clusters_def distinct_cause_partition_def unions_of_def)
    ultimately show ?thesis by blast
  qed
qed

lemma cause_equiv:
  "equiv (cluster_members c root_ids)
     {(a, b). a \<in> cluster_members c root_ids \<and> (a, b) \<in> (cause_relation c root_ids)\<^sup>*}"
proof -
  let ?K = "cluster_members c root_ids" and ?R = "cause_relation c root_ids"
  have "sym ?R" by (auto simp: sym_def cause_relation_def one_cause_sym)
  then have "sym (?R\<^sup>*)" by (rule sym_rtrancl)
  moreover have inK: "(a, b) \<in> ?R\<^sup>* \<Longrightarrow> a \<in> ?K \<Longrightarrow> b \<in> ?K" for a b
    by (induction rule: rtrancl_induct) (auto simp: cause_relation_def)
  ultimately show ?thesis
    by (intro equivI) (auto simp: refl_on_def sym_def trans_def dest: rtrancl_trans)
qed

text \<open>The origin: no member has more live descendants inside the cluster.\<close>

lemma hd_sort_key_least:
  "x \<in> set xs \<Longrightarrow> hd (sort_key f xs) \<in> set xs \<and> f (hd (sort_key f xs)) \<le> (f x :: 'b::linorder)"
proof -
  assume x: "x \<in> set xs"
  have "set (sort_key f xs) = set xs" by simp
  with x obtain y ys where y: "sort_key f xs = y # ys" by (cases "sort_key f xs") force+
  have "sorted (map f (y # ys))" unfolding y [symmetric] by simp
  moreover have "set (y # ys) = set xs" unfolding y [symmetric] by simp
  ultimately show ?thesis using x unfolding y by auto
qed

lemma origin_most_descendants:
  assumes "finite cluster" "m \<in> cluster"
  shows "origin_of cluster desc \<in> cluster \<and>
    card (desc_of desc m \<inter> cluster) \<le> card (desc_of desc (origin_of cluster desc) \<inter> cluster)"
  using hd_sort_key_least [of m "sorted_list_of_set cluster" "\<lambda>m. (- int (card (desc_of desc m \<inter> cluster)), m)"] assms
  by (auto simp: origin_of_def less_eq_prod_def)

section \<open>Properties\<close>

text \<open>C30: Clustering always returns, and its clusters are exactly the connected components of the
  given in-graph roots under "one cause": members of one AND-set, one on the live causal path of the
  other, or mutual restatements.\<close>

theorem clusters_are_components:
  "\<exists>clusters. distinct_cause_clusters c root_ids = Some clusters \<and> distinct clusters
     \<and> set clusters = cluster_members c root_ids //
         {(a, b). a \<in> cluster_members c root_ids \<and> (a, b) \<in> (cause_relation c root_ids)\<^sup>*}"
  using partition_correct [of c root_ids] by (simp add: components_def)

text \<open>The walk over the causal graph terminates and returns exactly the nodes reachable along
  edges whose targets are not REFUTED, the start left out, on cyclic graphs too.\<close>

theorem live_descendants_are_reachable:
  "live_descendant_ids s (edge_adjacency c) (case_nodes c) =
    {x. (s, x) \<in> {(edge_cause e, edge_effect e) | e. e \<in> set (case_edges c)
           \<and> state_of (edge_effect e) (case_nodes c) \<noteq> Some REFUTED}\<^sup>+} - {s}"
proof -
  have "live_step (edge_adjacency c) (case_nodes c) = {(edge_cause e, edge_effect e) | e. e \<in> set (case_edges c)
           \<and> state_of (edge_effect e) (case_nodes c) \<noteq> Some REFUTED}"
    by (auto simp: live_step_def edge_adjacency_get)
  then show ?thesis by (simp add: live_descendants)
qed

text \<open>Identification is contested exactly when the validated roots of the standing hypotheses
  fall into two or more clusters and none of them is confirmed by the absence of its cause; then
  every one of them is contested.\<close>

theorem contested_iff_unconfirmed_distinct_causes:
  "mece_contested_root_ids c =
    Some (if 2 \<le> card (components c (standing_validated_roots c))
             \<and> \<not> (\<exists>r n. r \<in> standing_validated_roots c \<and> dict_get (case_nodes c) r = Some n
                     \<and> root_counterfactually_confirmed n (evidence_category_map c))
          then standing_validated_roots c else {})"
proof -
  let ?R = "standing_validated_roots c"
  obtain cl where cl: "distinct_cause_clusters c ?R = Some cl" "distinct cl" "set cl = components c ?R"
    using partition_correct by blast
  have len: "length cl = card (components c ?R)" using cl(2,3) distinct_card by metis
  have fin: "finite ?R" by (simp add: standing_validated_roots_def)
  have "card (components c ?R) \<le> card ?R"
  proof -
    have "components c ?R \<subseteq> (\<lambda>x. {b. x \<in> cluster_members c ?R \<and> (x, b) \<in> (cause_relation c ?R)\<^sup>*}) ` ?R"
      by (auto simp: components_def quotient_def cluster_members_def)
    then have "card (components c ?R) \<le> card ((\<lambda>x. {b. x \<in> cluster_members c ?R \<and> (x, b) \<in> (cause_relation c ?R)\<^sup>*}) ` ?R)"
      using fin by (intro card_mono) auto
    also have "\<dots> \<le> card ?R" using fin by (rule card_image_le)
    finally show ?thesis .
  qed
  with cl(1) len show ?thesis
    by (auto simp: mece_contested_root_ids_def Let_def split: option.splits)
qed

text \<open>When the roots collapse to one distinct cause, the cited origin is one of them, the reported
  cluster is all of them, and on an acyclic live graph no other root lies upstream of the origin.\<close>

theorem sole_origin_heads_its_line:
  assumes "sole_cluster_origin c root_ids = Some (Some (org, cl))"
    and "acyclic (live_step (edge_adjacency c) (case_nodes c))"
  shows "org \<in> cl \<and> cl = cluster_members c root_ids
     \<and> (\<forall>m \<in> cl. (m, org) \<notin> (live_step (edge_adjacency c) (case_nodes c))\<^sup>+)"
proof -
  let ?K = "cluster_members c root_ids" and ?L = "live_step (edge_adjacency c) (case_nodes c)"
  obtain desc where p: "distinct_cause_partition c root_ids = Some ([cl], desc)" "org = origin_of cl desc"
    using assms(1) by (auto simp: sole_cluster_origin_def split: option.splits list.splits)
  have desc: "desc = snd (cluster_relations c root_ids)"
    using p(1) by (auto simp: distinct_cause_partition_def split: prod.splits if_splits option.splits)
  have "components c root_ids = {cl}"
    using partition_correct [of c root_ids] p(1) by (auto simp: distinct_cause_clusters_def)
  then have K: "cl = ?K" using Union_quotient [OF cause_equiv, of c root_ids] by (simp add: components_def)
  have "cl \<in> components c root_ids" using \<open>components c root_ids = {cl}\<close> by simp
  then have "cl \<noteq> {}" unfolding components_def by (rule in_quotient_imp_non_empty [OF cause_equiv])
  then obtain m0 where "m0 \<in> cl" by blast
  have fin: "finite cl" using K by simp
  have org: "org \<in> cl" using origin_most_descendants [OF fin \<open>m0 \<in> cl\<close>] p(2) by simp
  have "(m, org) \<notin> ?L\<^sup>+" if m: "m \<in> cl" for m
  proof
    assume mo: "(m, org) \<in> ?L\<^sup>+"
    have d: "desc_of desc x = {y. (x, y) \<in> ?L\<^sup>+} - {x}" if "x \<in> cl" for x
      using that K by (simp add: desc cluster_desc live_descendants)
    have irr: "(x, x) \<notin> ?L\<^sup>+" for x using assms(2) by (simp add: acyclic_def)
    have "desc_of desc org \<inter> cl \<subset> desc_of desc m \<inter> cl"
    proof
      show "desc_of desc org \<inter> cl \<subseteq> desc_of desc m \<inter> cl"
        using mo irr unfolding d [OF org] d [OF m] by (auto dest: trancl_trans)
      show "desc_of desc org \<inter> cl \<noteq> desc_of desc m \<inter> cl"
        using mo irr org unfolding d [OF org] d [OF m] by auto
    qed
    then have "card (desc_of desc org \<inter> cl) < card (desc_of desc m \<inter> cl)"
      using fin by (intro psubset_card_mono) auto
    with origin_most_descendants [OF fin m, of desc] p(2) show False by simp
  qed
  with org K show ?thesis by blast
qed

theorem sole_origin_heads_its_line_witness:
  "\<exists>org cl. sole_cluster_origin (ex_case\<lparr>case_edges := []\<rparr>) {''R1''} = Some (Some (org, cl)) \<and> org \<in> cl
     \<and> (\<forall>m \<in> cl. (m, org) \<notin> (live_step (edge_adjacency (ex_case\<lparr>case_edges := []\<rparr>))
           (case_nodes (ex_case\<lparr>case_edges := []\<rparr>)))\<^sup>+)"
proof -
  have r: "sole_cluster_origin (ex_case\<lparr>case_edges := []\<rparr>) {''R1''} = Some (Some (''R1'', {''R1''}))"
    by code_simp
  have "live_step (edge_adjacency (ex_case\<lparr>case_edges := []\<rparr>)) (case_nodes (ex_case\<lparr>case_edges := []\<rparr>)) = {}"
    by (simp add: live_step_def edge_adjacency_def adjacent_def)
  then have "acyclic (live_step (edge_adjacency (ex_case\<lparr>case_edges := []\<rparr>))
      (case_nodes (ex_case\<lparr>case_edges := []\<rparr>)))" by (simp add: acyclic_def)
  note h = sole_origin_heads_its_line [OF r this]
  show ?thesis
    by (rule exI [of _ "''R1''"], rule exI [of _ "{''R1''}"])
      (rule conjI [OF r conjI [OF conjunct1 [OF h] conjunct2 [OF conjunct2 [OF h]]]])
qed

end
