(* ===== verification/Chain_Paths.thy ===== *)
theory Chain_Paths
  imports Clusters Examples
begin

text \<open>
  Anchoring a chain: \<open>seed_problem_node\<close> and \<open>chain_path_to_problem\<close> of
  \<open>core/investigation/causal_graph/ingestion.py\<close>. The breadth-first search and the walk back over
  its parents are loops on their own state; \<open>None\<close> is a walk that would not return.
\<close>

section \<open>The PROBLEM node\<close>

text \<open>
  \<open>fresh\<close> is the id \<open>uuid4\<close> would give a node created now; \<open>turn\<close> is the optional argument. The
  result is the case and the PROBLEM node, or the error its construction raises.
\<close>

definition seed_problem_node ::
    "string \<Rightarrow> int option \<Rightarrow> case_data \<Rightarrow> validation_error + (case_data \<times> causal_node option)" where
  "seed_problem_node fresh turn c =
    (case problem_node (case_nodes c) of
       Some n \<Rightarrow> Inr (c, Some n)
     | None \<Rightarrow>
        (case case_symptom_statement c of
           None \<Rightarrow> Inr (c, None)
         | Some statement \<Rightarrow>
            if statement = [] \<or> strip statement = [] then Inr (c, None)
            else (case new_node fresh (take 500 statement) PROBLEM
                     (case turn of None \<Rightarrow> case_current_turn c | Some t \<Rightarrow> t) of
                Inl err \<Rightarrow> Inl err
              | Inr n \<Rightarrow> Inr (c\<lparr>case_nodes := dict_put (node_id n) n (case_nodes c)\<rparr>, Some n))))"

section \<open>The search\<close>

definition bfs_visit ::
    "string \<Rightarrow> string \<Rightarrow> (string, string option) pydict \<times> string list \<Rightarrow> (string, string option) pydict \<times> string list" where
  "bfs_visit cur nxt = (\<lambda>(parent, queue).
    if nxt \<in> set (dict_keys parent) then (parent, queue)
    else (dict_put nxt (Some cur) parent, queue @ [nxt]))"

definition bfs_measure :: "(string, string list) pydict \<Rightarrow> (string, string option) pydict \<times> string list \<Rightarrow> nat" where
  "bfs_measure adj = (\<lambda>(parent, queue). 2 * card (all_effects adj - set (dict_keys parent)) + length queue)"

lemma bfs_visit_measure:
  assumes "nxt \<in> all_effects adj"
  shows "bfs_measure adj (bfs_visit cur nxt st) \<le> bfs_measure adj st"
proof (cases st)
  case (Pair parent queue)
  show ?thesis
  proof (cases "nxt \<in> set (dict_keys parent)")
    case False
    let ?A = "all_effects adj - set (dict_keys parent)"
    have "nxt \<in> ?A" using assms False by simp
    moreover have "finite ?A" by simp
    ultimately have "card (?A - {nxt}) < card ?A" by (intro psubset_card_mono) auto
    moreover have "all_effects adj - insert nxt (set (dict_keys parent)) = ?A - {nxt}" by auto
    ultimately show ?thesis using False by (simp add: Pair bfs_visit_def bfs_measure_def)
  qed (simp add: Pair bfs_visit_def)
qed

lemma bfs_fold_measure:
  "set xs \<subseteq> all_effects adj \<Longrightarrow> bfs_measure adj (fold (bfs_visit cur) xs st) \<le> bfs_measure adj st"
proof (induction xs arbitrary: st)
  case (Cons x xs)
  then have "bfs_measure adj (fold (bfs_visit cur) xs (bfs_visit cur x st)) \<le> bfs_measure adj (bfs_visit cur x st)"
    by simp
  also have "\<dots> \<le> bfs_measure adj st" using Cons.prems by (intro bfs_visit_measure) simp
  finally show ?case by simp
qed simp

text \<open>The loop; it leaves with the parents as they are when the target is popped.\<close>

function bfs ::
    "(string, string list) pydict \<Rightarrow> string \<Rightarrow> (string, string option) pydict \<times> string list
      \<Rightarrow> (string, string option) pydict option" where
  "bfs adj d (parent, []) = None"
| "bfs adj d (parent, cur # queue) =
    (if cur = d then Some parent
     else bfs adj d (fold (bfs_visit cur) (adjacent adj cur) (parent, queue)))"
  by pat_completeness auto

termination
proof (relation "measure (\<lambda>(adj, d, st). bfs_measure adj st)")
  fix adj :: "(string, string list) pydict" and d cur :: string
    and parent :: "(string, string option) pydict" and queue :: "string list"
  have "bfs_measure adj (fold (bfs_visit cur) (adjacent adj cur) (parent, queue)) \<le> bfs_measure adj (parent, queue)"
    by (rule bfs_fold_measure) (rule adjacent_effects)
  also have "\<dots> < bfs_measure adj (parent, cur # queue)" by (simp add: bfs_measure_def)
  finally show "((adj, d, fold (bfs_visit cur) (adjacent adj cur) (parent, queue)), adj, d, parent, cur # queue)
      \<in> measure (\<lambda>(adj, d, st). bfs_measure adj st)" by simp
qed simp

partial_function (option) trace_back :: "(string, string option) pydict \<Rightarrow> string \<Rightarrow> string list option" where
  "trace_back parent node =
    (case dict_get parent node of
       None \<Rightarrow> None
     | Some None \<Rightarrow> Some [node]
     | Some (Some p) \<Rightarrow> Option.bind (trace_back parent p) (\<lambda>rest. Some (node # rest)))"

definition chain_path_to_problem :: "string \<Rightarrow> case_data \<Rightarrow> string list option" where
  "chain_path_to_problem root_id c =
    (case problem_node (case_nodes c) of
       None \<Rightarrow> Some []
     | Some problem \<Rightarrow>
        if dict_get (case_nodes c) root_id = None then Some []
        else if root_id = node_id problem then Some []
        else (case bfs (edge_adjacency c) (node_id problem) ([(root_id, None)], [root_id]) of
            None \<Rightarrow> Some []
          | Some parent \<Rightarrow> map_option rev (trace_back parent (node_id problem))))"

section \<open>What the search keeps\<close>

definition adj_rel :: "(string, string list) pydict \<Rightarrow> (string \<times> string) set" where
  "adj_rel adj = {(x, y). y \<in> set (adjacent adj x)}"

text \<open>
  \<open>lv\<close> gives each visited node its distance from the root. A visited node outside the queue is
  done: all its effects are visited, one level further at most.
\<close>

definition bfs_inv ::
    "(string \<times> string) set \<Rightarrow> string \<Rightarrow> string \<Rightarrow> (string \<Rightarrow> nat) \<Rightarrow> (string, string option) pydict \<Rightarrow> string list \<Rightarrow> bool" where
  "bfs_inv E r d lv parent queue \<longleftrightarrow>
     dict_get parent r = Some None \<and> lv r = 0
     \<and> (\<forall>x. dict_get parent x = Some None \<longrightarrow> x = r)
     \<and> (\<forall>x p. dict_get parent x = Some (Some p) \<longrightarrow>
           p \<in> set (dict_keys parent) \<and> (p, x) \<in> E \<and> lv x = Suc (lv p))
     \<and> set queue \<subseteq> set (dict_keys parent) \<and> distinct queue \<and> sorted (map lv queue)
     \<and> (\<forall>x \<in> set queue. lv x \<le> Suc (lv (hd queue)))
     \<and> (\<forall>x \<in> set (dict_keys parent) - set queue. x \<noteq> d
           \<and> (\<forall>y. (x, y) \<in> E \<longrightarrow> y \<in> set (dict_keys parent) \<and> lv y \<le> Suc (lv x))
           \<and> (\<forall>q \<in> set queue. lv x \<le> lv q))"

lemma fold_bfs_visit:
  "\<exists>parent' news. fold (bfs_visit cur) xs (parent, queue) = (parent', queue @ news)
     \<and> set (dict_keys parent') = set (dict_keys parent) \<union> set xs
     \<and> set news = set xs - set (dict_keys parent) \<and> distinct news
     \<and> (\<forall>x. dict_get parent' x = (if x \<in> set news then Some (Some cur) else dict_get parent x))"
proof (induction xs arbitrary: parent queue)
  case Nil
  show ?case by (rule exI [of _ parent], rule exI [of _ "[]"]) simp
next
  case (Cons a xs)
  show ?case
  proof (cases "a \<in> set (dict_keys parent)")
    case True
    then have "fold (bfs_visit cur) (a # xs) (parent, queue) = fold (bfs_visit cur) xs (parent, queue)"
      by (simp add: bfs_visit_def)
    moreover obtain parent' news where
      "fold (bfs_visit cur) xs (parent, queue) = (parent', queue @ news)"
      "set (dict_keys parent') = set (dict_keys parent) \<union> set xs"
      "set news = set xs - set (dict_keys parent)" "distinct news"
      "\<forall>x. dict_get parent' x = (if x \<in> set news then Some (Some cur) else dict_get parent x)"
      using Cons.IH [of parent queue] by (elim exE conjE) (rule that)
    ultimately show ?thesis using True by (intro exI [of _ parent'] exI [of _ news]) auto
  next
    case False
    let ?p = "dict_put a (Some cur) parent"
    have s: "fold (bfs_visit cur) (a # xs) (parent, queue) = fold (bfs_visit cur) xs (?p, queue @ [a])"
      using False by (simp add: bfs_visit_def)
    obtain parent' news where n:
      "fold (bfs_visit cur) xs (?p, queue @ [a]) = (parent', (queue @ [a]) @ news)"
      "set (dict_keys parent') = set (dict_keys ?p) \<union> set xs"
      "set news = set xs - set (dict_keys ?p)" "distinct news"
      "\<forall>x. dict_get parent' x = (if x \<in> set news then Some (Some cur) else dict_get ?p x)"
      using Cons.IH [of ?p "queue @ [a]"] by (elim exE conjE) (rule that)
    show ?thesis
      using s n False by (intro exI [of _ parent'] exI [of _ "a # news"]) auto
  qed
qed

lemma bfs_invD:
  assumes "bfs_inv E r d lv parent queue"
  shows bfs_root: "dict_get parent r = Some None" and bfs_root_level: "lv r = 0"
    and bfs_root_only: "\<And>x. dict_get parent x = Some None \<Longrightarrow> x = r"
    and bfs_parent: "\<And>x p. dict_get parent x = Some (Some p) \<Longrightarrow>
          p \<in> set (dict_keys parent) \<and> (p, x) \<in> E \<and> lv x = Suc (lv p)"
    and bfs_queue: "set queue \<subseteq> set (dict_keys parent)" "distinct queue" "sorted (map lv queue)"
    and bfs_near: "\<And>x. x \<in> set queue \<Longrightarrow> lv x \<le> Suc (lv (hd queue))"
    and bfs_done: "\<And>x. x \<in> set (dict_keys parent) \<Longrightarrow> x \<notin> set queue \<Longrightarrow> x \<noteq> d"
          "\<And>x y. x \<in> set (dict_keys parent) \<Longrightarrow> x \<notin> set queue \<Longrightarrow> (x, y) \<in> E \<Longrightarrow>
             y \<in> set (dict_keys parent) \<and> lv y \<le> Suc (lv x)"
          "\<And>x q. x \<in> set (dict_keys parent) \<Longrightarrow> x \<notin> set queue \<Longrightarrow> q \<in> set queue \<Longrightarrow> lv x \<le> lv q"
  using assms unfolding bfs_inv_def by blast+

lemma bfs_inv_step:
  assumes inv: "bfs_inv (adj_rel adj) r d lv parent (cur # queue)" and d: "cur \<noteq> d"
    and f: "fold (bfs_visit cur) (adjacent adj cur) (parent, queue) = (parent', queue')"
  shows "\<exists>lv'. bfs_inv (adj_rel adj) r d lv' parent' queue'"
proof -
  let ?E = "adj_rel adj" and ?K = "set (dict_keys parent)"
  obtain news where q': "queue' = queue @ news" and K': "set (dict_keys parent') = ?K \<union> set (adjacent adj cur)"
    and news: "set news = set (adjacent adj cur) - ?K" "distinct news"
    and get: "\<And>x. dict_get parent' x = (if x \<in> set news then Some (Some cur) else dict_get parent x)"
    using fold_bfs_visit [of cur "adjacent adj cur" parent queue] f by auto
  note i = bfs_invD [OF inv]
  have K'': "set (dict_keys parent') = ?K \<union> set news" using K' news by auto
  define lv' where "lv' = (\<lambda>x. if x \<in> set news then Suc (lv cur) else lv x)"
  have old: "lv' x = lv x" if "x \<in> ?K" for x using that news by (simp add: lv'_def)
  have new: "lv' x = Suc (lv cur)" if "x \<in> set news" for x using that by (simp add: lv'_def)
  have qK: "set queue \<subseteq> ?K" and curK: "cur \<in> ?K" and dq: "cur \<notin> set queue" "distinct queue"
    and sq: "sorted (map lv queue)" and far: "\<And>x. x \<in> set queue \<Longrightarrow> lv cur \<le> lv x"
    using i(5-7) by auto
  have rK: "r \<in> ?K" by (rule dict_get_Some_key [OF i(1)])
  have near: "lv x \<le> Suc (lv cur)" if "x \<in> set queue" for x using i(8) [of x] that by simp
  have upto: "lv x \<le> lv cur" if "x \<in> ?K - set (cur # queue)" for x using i(11) [of x cur] that by simp
  have done_keys: "y \<in> set (dict_keys parent') \<and> lv' y \<le> Suc (lv x)"
    if x: "x \<in> ?K - set queue" "(x, y) \<in> ?E" for x y
  proof (cases "x = cur")
    case True
    then have "y \<in> set (adjacent adj cur)" using x(2) by (simp add: adj_rel_def)
    moreover have "lv y \<le> Suc (lv cur)" if "y \<in> ?K"
    proof (cases "y \<in> set (cur # queue)")
      case True
      then show ?thesis using near by auto
    next
      case False
      with that have "lv y \<le> lv cur" by (intro upto) simp
      then show ?thesis by simp
    qed
    ultimately show ?thesis using True K' news by (auto simp: lv'_def)
  next
    case False
    then have "y \<in> ?K \<and> lv y \<le> Suc (lv x)" using i(10) [of x y] x by auto
    then show ?thesis using K' old by auto
  qed
  have "bfs_inv ?E r d lv' parent' queue'"
    unfolding bfs_inv_def
  proof (intro conjI)
    show "dict_get parent' r = Some None" using get [of r] i(1) rK news by auto
    show "lv' r = 0" using old [OF rK] i(2) by simp
    show "\<forall>x. dict_get parent' x = Some None \<longrightarrow> x = r" using get i(3) by auto
    show "\<forall>x p. dict_get parent' x = Some (Some p) \<longrightarrow>
        p \<in> set (dict_keys parent') \<and> (p, x) \<in> ?E \<and> lv' x = Suc (lv' p)"
    proof (intro allI impI)
      fix x p
      assume xp: "dict_get parent' x = Some (Some p)"
      show "p \<in> set (dict_keys parent') \<and> (p, x) \<in> ?E \<and> lv' x = Suc (lv' p)"
      proof (cases "x \<in> set news")
        case True
        with xp get have "p = cur" by simp
        then show ?thesis using True curK K'' news by (auto simp: old new adj_rel_def)
      next
        case False
        with xp get have g: "dict_get parent x = Some (Some p)" by simp
        then have "x \<in> ?K" "p \<in> ?K" "(p, x) \<in> ?E" "lv x = Suc (lv p)"
          using i(4) [OF g] dict_get_Some_key [OF g] by auto
        then show ?thesis using K'' old by auto
      qed
    qed
    show "set queue' \<subseteq> set (dict_keys parent')" using q' qK K'' by auto
    show "distinct queue'" using q' dq(2) news qK by auto
    have "map lv' queue' = map lv queue @ map (\<lambda>_. Suc (lv cur)) news"
      using q' qK old new by (auto intro!: map_cong)
    then show "sorted (map lv' queue')" using sq near by (auto simp: sorted_append sorted_wrt_map)
    have levels: "lv cur \<le> lv' x \<and> lv' x \<le> Suc (lv cur)" if "x \<in> set queue'" for x
      using that q' near far old qK new by auto
    show "\<forall>x \<in> set queue'. lv' x \<le> Suc (lv' (hd queue'))"
    proof
      fix x assume x: "x \<in> set queue'"
      then have "lv' x \<le> Suc (lv cur)" using levels by blast
      moreover have "hd queue' \<in> set queue'" using x by (cases queue') auto
      then have "lv cur \<le> lv' (hd queue')" using levels by blast
      ultimately show "lv' x \<le> Suc (lv' (hd queue'))" by simp
    qed
    show "\<forall>x \<in> set (dict_keys parent') - set queue'. x \<noteq> d
        \<and> (\<forall>y. (x, y) \<in> ?E \<longrightarrow> y \<in> set (dict_keys parent') \<and> lv' y \<le> Suc (lv' x))
        \<and> (\<forall>q \<in> set queue'. lv' x \<le> lv' q)"
    proof
      fix x assume "x \<in> set (dict_keys parent') - set queue'"
      then have x: "x \<in> ?K - set queue" using q' K'' by auto
      then have lx: "lv' x = lv x" by (simp add: old)
      have "lv x \<le> lv cur" using x upto by (cases "x = cur") auto
      then have "\<forall>q \<in> set queue'. lv' x \<le> lv' q"
        unfolding lx using levels by (meson order_trans)
      moreover have "x \<noteq> d" using x d i(9) [of x] by (cases "x = cur") auto
      ultimately show "x \<noteq> d \<and> (\<forall>y. (x, y) \<in> ?E \<longrightarrow> y \<in> set (dict_keys parent') \<and> lv' y \<le> Suc (lv' x))
        \<and> (\<forall>q \<in> set queue'. lv' x \<le> lv' q)"
        using done_keys [OF x] by (simp add: lx)
    qed
  qed
  then show ?thesis by blast
qed

lemma bfs_correct:
  assumes "bfs_inv (adj_rel adj) r d lv parent queue"
  shows "case bfs adj d (parent, queue) of
      None \<Rightarrow> (r, d) \<notin> (adj_rel adj)\<^sup>*
    | Some parent' \<Rightarrow> \<exists>lv' queue'. bfs_inv (adj_rel adj) r d lv' parent' (d # queue')"
  using assms
proof (induction adj d "(parent, queue)" arbitrary: parent queue lv rule: bfs.induct)
  case (1 adj d parent)
  note i = bfs_invD [OF 1]
  have r: "r \<in> set (dict_keys parent)" by (rule dict_get_Some_key [OF i(1)])
  have "x \<in> set (dict_keys parent)" if "(r, x) \<in> (adj_rel adj)\<^sup>*" for x
    using that by induction (use r i(10) in auto)
  then show ?case using i(9) by auto
next
  case (2 adj d parent cur queue)
  show ?case
  proof (cases "cur = d")
    case True
    with 2(2) show ?thesis by auto
  next
    case False
    obtain parent' queue' where f: "fold (bfs_visit cur) (adjacent adj cur) (parent, queue) = (parent', queue')"
      by (cases "fold (bfs_visit cur) (adjacent adj cur) (parent, queue)")
    then obtain lv' where "bfs_inv (adj_rel adj) r d lv' parent' queue'"
      using bfs_inv_step [OF 2(2) False f] by blast
    then show ?thesis using 2(1) [OF False f] False f by simp
  qed
qed

text \<open>A path is a non-empty list of nodes, each joined to the next by an edge.\<close>

definition edge_path :: "(string \<times> string) set \<Rightarrow> string \<Rightarrow> string \<Rightarrow> string list \<Rightarrow> bool" where
  "edge_path E a b p \<longleftrightarrow> p \<noteq> [] \<and> hd p = a \<and> last p = b \<and> successively (\<lambda>x y. (x, y) \<in> E) p"

lemma edge_path_Cons:
  "edge_path E a b (x # y # p) \<longleftrightarrow> a = x \<and> (x, y) \<in> E \<and> edge_path E y b (y # p)"
  by (auto simp: edge_path_def)

lemma edge_path_single: "edge_path E a b [x] \<longleftrightarrow> a = x \<and> b = x"
  by (auto simp: edge_path_def)

lemma edge_path_reach: "edge_path E a b p \<Longrightarrow> (a, b) \<in> E\<^sup>*"
proof (induction p arbitrary: a rule: induct_list012)
  case (3 x y zs)
  then show ?case by (auto simp: edge_path_Cons intro: converse_rtrancl_into_rtrancl)
qed (auto simp: edge_path_def)

lemma bfs_level_minimal:
  assumes inv: "bfs_inv E r d lv parent (d # queue)"
    and "edge_path E x d p" "x \<in> set (dict_keys parent)"
  shows "Suc (lv d) \<le> lv x + length p"
  using assms(2,3)
proof (induction p arbitrary: x rule: induct_list012)
  case (2 a)
  then show ?case by (simp add: edge_path_single)
next
  case (3 a b zs)
  note i = bfs_invD [OF inv]
  have p: "x = a" "(a, b) \<in> E" "edge_path E b d (b # zs)" using 3(3) by (auto simp: edge_path_Cons)
  show ?case
  proof (cases "a \<in> set (d # queue)")
    case True
    then have "lv d \<le> lv a" using i(7) by auto
    then show ?thesis using p(1) by simp
  next
    case False
    with 3(4) p(1) have b: "b \<in> set (dict_keys parent)" "lv b \<le> Suc (lv a)" using i(10) [OF _ False p(2)] by auto
    then show ?thesis using 3(2) [OF p(3)] p(1) by simp
  qed
qed (simp add: edge_path_def)

lemma trace_back_path:
  assumes inv: "bfs_inv E r d lv parent queue" and "x \<in> set (dict_keys parent)"
  shows "\<exists>p. trace_back parent x = Some p \<and> p \<noteq> [] \<and> hd p = x \<and> last p = r
    \<and> successively (\<lambda>a b. (b, a) \<in> E) p \<and> map lv p = rev [0..<Suc (lv x)]"
  using assms(2)
proof (induction "lv x" arbitrary: x rule: less_induct)
  case less
  note i = bfs_invD [OF inv]
  obtain v where v: "dict_get parent x = Some v" using dict_key_get [OF less.prems] by (elim exE)
  show ?case
  proof (cases v)
    case None
    with v have "x = r" using i(3) by simp
    then have "lv x = 0" using i(2) by simp
    moreover have "trace_back parent x = Some [x]" using v None by (simp add: trace_back.simps [of parent x])
    ultimately show ?thesis using \<open>x = r\<close> by (intro exI [of _ "[x]"]) simp
  next
    case (Some q)
    with v have q: "q \<in> set (dict_keys parent)" "(q, x) \<in> E" "lv x = Suc (lv q)" using i(4) [of x q] by auto
    have "lv q < lv x" using q(3) by simp
    from less.hyps [OF this q(1)]
    obtain p where p: "trace_back parent q = Some p" "p \<noteq> []" "hd p = q" "last p = r"
      "successively (\<lambda>a b. (b, a) \<in> E) p" "map lv p = rev [0..<Suc (lv q)]"
      by (elim exE conjE) (rule that)
    have "trace_back parent x = Some (x # p)" using v Some p by (simp add: trace_back.simps [of parent x])
    moreover have "successively (\<lambda>a b. (b, a) \<in> E) (x # p)" using p q by (cases p) auto
    moreover have "map lv (x # p) = rev [0..<Suc (lv x)]" using p q by simp
    ultimately show ?thesis using p(2,4) by (intro exI [of _ "x # p"]) simp
  qed
qed

section \<open>Properties\<close>

definition edge_rel :: "case_data \<Rightarrow> (string \<times> string) set" where
  "edge_rel c = {(edge_cause e, edge_effect e) | e. e \<in> set (case_edges c)}"

lemma adj_rel_edges: "adj_rel (edge_adjacency c) = edge_rel c"
  by (auto simp: adj_rel_def edge_rel_def edge_adjacency_get)

lemma bfs_inv_init: "bfs_inv E r d (\<lambda>_. 0) [(r, None)] [r]"
  by (auto simp: bfs_inv_def dict_keys_def)

text \<open>The search, in one statement.\<close>

lemma chain_path_search:
  assumes "problem_node (case_nodes c) = Some n" "dict_get (case_nodes c) r \<noteq> None" "r \<noteq> node_id n"
  shows "\<exists>p. chain_path_to_problem r c = Some p \<and> (p = [] \<longleftrightarrow> (r, node_id n) \<notin> (edge_rel c)\<^sup>*)
     \<and> (p \<noteq> [] \<longrightarrow> edge_path (edge_rel c) r (node_id n) p \<and> distinct p
          \<and> (\<forall>q. edge_path (edge_rel c) r (node_id n) q \<longrightarrow> length p \<le> length q))"
proof -
  let ?d = "node_id n" and ?E = "edge_rel c"
  have def: "chain_path_to_problem r c =
      (case bfs (edge_adjacency c) ?d ([(r, None)], [r]) of None \<Rightarrow> Some []
       | Some parent \<Rightarrow> map_option rev (trace_back parent ?d))"
    using assms by (auto simp: chain_path_to_problem_def simp del: bfs.simps)
  note b = bfs_correct [of "edge_adjacency c" r ?d "\<lambda>_. 0" "[(r, None)]" "[r]", unfolded adj_rel_edges, OF bfs_inv_init]
  show ?thesis
  proof (cases "bfs (edge_adjacency c) ?d ([(r, None)], [r])")
    case None
    with b def show ?thesis by simp
  next
    case (Some parent)
    with b obtain lv queue where inv: "bfs_inv ?E r ?d lv parent (?d # queue)" by auto
    then have d: "?d \<in> set (dict_keys parent)" and r: "r \<in> set (dict_keys parent)" "lv r = 0"
      using bfs_invD(1,2,5) [OF inv] by (auto dest: dict_get_Some_key)
    obtain p where p: "trace_back parent ?d = Some p" "p \<noteq> []" "hd p = ?d" "last p = r"
      "successively (\<lambda>a b. (b, a) \<in> ?E) p" "map lv p = rev [0..<Suc (lv ?d)]"
      using trace_back_path [OF inv d] by blast
    have "length p = Suc (lv ?d)" using arg_cong [OF p(6), of length] by simp
    moreover have "distinct p" using p(6) by (metis distinct_map distinct_rev distinct_upt)
    moreover have path: "edge_path ?E r ?d (rev p)"
      using p(2-5) by (simp add: edge_path_def hd_rev last_rev)
    moreover have "Suc (lv ?d) \<le> length q" if "edge_path ?E r ?d q" for q
      using bfs_level_minimal [OF inv that r(1)] r(2) by simp
    ultimately show ?thesis
      using def Some p(1,2) edge_path_reach [OF path] by simp
  qed
qed

lemma chain_path_total: "\<exists>p. chain_path_to_problem r c = Some p"
proof (cases "\<exists>n. problem_node (case_nodes c) = Some n \<and> dict_get (case_nodes c) r \<noteq> None \<and> r \<noteq> node_id n")
  case True
  then show ?thesis using chain_path_search [of c _ r] by (elim exE conjE) blast
next
  case False
  then show ?thesis
    by (auto simp: chain_path_to_problem_def simp del: bfs.simps split: option.splits)
qed

text \<open>C32: The walk from a root to the problem always returns. It returns a path exactly when the root is
  a known node, is not the problem itself and reaches it along recorded edges; the path then starts
  at the root, ends at the problem, follows edges, repeats no node, and no route is shorter.\<close>

theorem chain_path_is_shortest:
  assumes "problem_node (case_nodes c) = Some n"
  shows "\<exists>p. chain_path_to_problem r c = Some p
     \<and> (p \<noteq> [] \<longleftrightarrow> dict_get (case_nodes c) r \<noteq> None \<and> r \<noteq> node_id n \<and> (r, node_id n) \<in> (edge_rel c)\<^sup>*)
     \<and> (p \<noteq> [] \<longrightarrow> edge_path (edge_rel c) r (node_id n) p \<and> distinct p
          \<and> (\<forall>q. edge_path (edge_rel c) r (node_id n) q \<longrightarrow> length p \<le> length q))"
proof (cases "dict_get (case_nodes c) r \<noteq> None \<and> r \<noteq> node_id n")
  case True
  then have r: "dict_get (case_nodes c) r \<noteq> None" "r \<noteq> node_id n" by simp_all
  from chain_path_search [OF assms r] show ?thesis
    by (elim exE conjE) (intro exI conjI, assumption, use True in blast, assumption)
next
  case False
  then have "chain_path_to_problem r c = Some []"
    using assms by (auto simp: chain_path_to_problem_def simp del: bfs.simps split: option.split)
  then show ?thesis using False by auto
qed

theorem chain_path_is_shortest_witness:
  "chain_path_to_problem ''R1'' ex_case = Some [''R1'', ''M'', ''D'']
   \<and> edge_path (edge_rel ex_case) ''R1'' ''D'' [''R1'', ''M'', ''D''] \<and> \<not> edge_path (edge_rel ex_case) ''R1'' ''D'' [''R1'', ''D'']"
proof -
  let ?n = "ex_node ''D'' PROBLEM ''checkout fails'' []"
  have n: "problem_node (case_nodes ex_case) = Some ?n" by code_simp
  have p: "chain_path_to_problem ''R1'' ex_case = Some [''R1'', ''M'', ''D'']"
    by (code_simp, simp add: trace_back.simps)
  have d: "node_id ?n = ''D''" by (simp add: ex_node_def)
  note s = chain_path_is_shortest [OF n, of "''R1''", unfolded p d, simplified]
  then have "\<not> edge_path (edge_rel ex_case) ''R1'' ''D'' [''R1'', ''D'']" by force
  with s p show ?thesis by simp
qed

end
