(* ===== verification/Sha256.thy ===== *)
theory Sha256
  imports Prelude "HOL-Library.Word"
begin

unbundle bit_operations_syntax

text \<open>
  What \<open>hashlib.sha256(text.encode("utf-8")).hexdigest()\<close> of the standard library computes, for
  text over the Latin-1 characters: the 32-bit arithmetic wraps.
\<close>

section \<open>Bytes\<close>

definition utf8 :: "string \<Rightarrow> 8 word list" where
  "utf8 s = concat (map (\<lambda>ch. let k = (of_char ch :: nat) in
      if k < 128 then [of_nat k] else [of_nat (192 + k div 64), of_nat (128 + k mod 64)]) s)"

definition be_word :: "8 word list \<Rightarrow> 32 word" where
  "be_word bs = fold (\<lambda>b w. push_bit 8 w OR ucast b) bs 0"

definition padded :: "8 word list \<Rightarrow> 8 word list" where
  "padded bs =
    (let n = length bs; bits = (of_nat (8 * n) :: 64 word) in
     bs @ 128 # replicate ((119 - n mod 64) mod 64) 0
        @ map (\<lambda>i. ucast (drop_bit (8 * i) bits)) (rev [0..<8]))"

fun chunks :: "nat \<Rightarrow> nat \<Rightarrow> 'a list \<Rightarrow> 'a list list" where
  "chunks n 0 xs = []"
| "chunks n (Suc fuel) xs = (if xs = [] then [] else take n xs # chunks n fuel (drop n xs))"

section \<open>The compression function\<close>

definition round_constants :: "32 word list" where
  "round_constants = [
     1116352408, 1899447441, 3049323471, 3921009573, 961987163, 1508970993, 2453635748,
     2870763221, 3624381080, 310598401, 607225278, 1426881987, 1925078388, 2162078206,
     2614888103, 3248222580, 3835390401, 4022224774, 264347078, 604807628, 770255983,
     1249150122, 1555081692, 1996064986, 2554220882, 2821834349, 2952996808, 3210313671,
     3336571891, 3584528711, 113926993, 338241895, 666307205, 773529912, 1294757372,
     1396182291, 1695183700, 1986661051, 2177026350, 2456956037, 2730485921, 2820302411,
     3259730800, 3345764771, 3516065817, 3600352804, 4094571909, 275423344, 430227734,
     506948616, 659060556, 883997877, 958139571, 1322822218, 1537002063, 1747873779,
     1955562222, 2024104815, 2227730452, 2361852424, 2428436474, 2756734187, 3204031479,
     3329325298]"

definition initial_state :: "32 word list" where
  "initial_state = [
     1779033703, 3144134277, 1013904242, 2773480762, 1359893119, 2600822924, 528734635,
     1541459225]"

definition rotr :: "nat \<Rightarrow> 32 word \<Rightarrow> 32 word" where
  "rotr k w = drop_bit k w OR push_bit (32 - k) w"

fun schedule :: "nat \<Rightarrow> 32 word list \<Rightarrow> 32 word list" where
  "schedule 0 ws = ws"
| "schedule (Suc k) ws =
    (let n = length ws; w15 = ws ! (n - 15); w2 = ws ! (n - 2);
         s0 = rotr 7 w15 XOR rotr 18 w15 XOR drop_bit 3 w15;
         s1 = rotr 17 w2 XOR rotr 19 w2 XOR drop_bit 10 w2
     in schedule k (ws @ [ws ! (n - 16) + s0 + ws ! (n - 7) + s1]))"

fun sha_round :: "32 word \<times> 32 word \<Rightarrow> 32 word list \<Rightarrow> 32 word list" where
  "sha_round (k, w) [a, b, c, d, e, f, g, h] =
    (let s1 = rotr 6 e XOR rotr 11 e XOR rotr 25 e;
         choice = (e AND f) XOR (NOT e AND g);
         t1 = h + s1 + choice + k + w;
         s0 = rotr 2 a XOR rotr 13 a XOR rotr 22 a;
         majority = (a AND b) XOR (a AND c) XOR (b AND c)
     in [t1 + s0 + majority, a, b, c, d + t1, e, f, g])"
| "sha_round kw st = st"

definition compress :: "8 word list \<Rightarrow> 32 word list \<Rightarrow> 32 word list" where
  "compress block st =
    (let ws = schedule 48 (map be_word (chunks 4 16 block))
     in map2 (+) st (fold sha_round (zip round_constants ws) st))"

definition hex_digit :: "nat \<Rightarrow> char" where
  "hex_digit d = (if d < 10 then char_of (48 + d) else char_of (87 + d))"

definition hex_word :: "32 word \<Rightarrow> string" where
  "hex_word w = map (\<lambda>i. hex_digit (unat (drop_bit (4 * i) w AND 15))) (rev [0..<8])"

definition sha256_hexdigest :: "string \<Rightarrow> string" where
  "sha256_hexdigest s =
    (let bs = padded (utf8 s)
     in concat (map hex_word (fold compress (chunks 64 (length bs) bs) initial_state)))"

section \<open>The shape of a digest\<close>

lemma length_sha_round [simp]: "length st = 8 \<Longrightarrow> length (sha_round kw st) = 8"
  by (cases "(kw, st)" rule: sha_round.cases) (simp_all add: Let_def)

lemma length_fold_rounds: "length st = 8 \<Longrightarrow> length (fold sha_round kws st) = 8"
  by (induction kws arbitrary: st) simp_all

lemma length_compress [simp]: "length st = 8 \<Longrightarrow> length (compress block st) = 8"
  by (simp add: compress_def Let_def length_fold_rounds)

lemma length_fold_compress: "length st = 8 \<Longrightarrow> length (fold compress blocks st) = 8"
  by (induction blocks arbitrary: st) simp_all

lemma length_hex_word [simp]: "length (hex_word w) = 8"
  by (simp add: hex_word_def)

lemma length_sha256_hexdigest: "length (sha256_hexdigest s) = 64"
proof -
  have "length (concat (map hex_word ws)) = 8 * length ws" for ws by (induction ws) simp_all
  then show ?thesis by (simp add: sha256_hexdigest_def Let_def length_fold_compress initial_state_def)
qed

definition hex_digits :: string where
  "hex_digits = ''0123456789abcdef''"

lemma hex_digit_mem: "d < 16 \<Longrightarrow> hex_digit d \<in> set hex_digits"
proof -
  have "\<forall>d \<in> {0..<16}. hex_digit d \<in> set hex_digits" by code_simp
  then show "d < 16 \<Longrightarrow> hex_digit d \<in> set hex_digits" by simp
qed

lemma hex_word_digits: "set (hex_word w) \<subseteq> set hex_digits"
proof -
  have "unat (drop_bit k w AND 15) < 16" for k
    using word_and_le1 [of "drop_bit k w" 15] by (simp add: word_le_nat_alt)
  then show ?thesis by (auto simp: hex_word_def intro: hex_digit_mem)
qed

lemma sha256_hexdigest_digits: "set (sha256_hexdigest s) \<subseteq> set hex_digits"
  using hex_word_digits by (auto simp: sha256_hexdigest_def Let_def)

end
