(* ===== verification/And_Groups.thy ===== *)
theory And_Groups
  imports Chain_Queries Sha256
begin

text \<open>
  The keys of AND-sets where edges are written: \<open>_normalize_and_group\<close> and the late-grouping
  observation of \<open>core/investigation/causal_graph/clusters.py\<close>.
\<close>

section \<open>Normalising a key\<close>

definition AND_GROUP_MAX_LEN :: nat where
  "AND_GROUP_MAX_LEN = 64"

text \<open>The argument is any Python value; only a string names a group.\<close>

definition normalize_and_group :: "meta_value option \<Rightarrow> string option" where
  "normalize_and_group and_group =
    (case and_group of
       Some (MStr raw) \<Rightarrow>
         (let k = strip raw in
          if k = [] then None
          else if length k \<le> AND_GROUP_MAX_LEN then Some k
          else let digest = take 8 (sha256_hexdigest k)
               in Some (take (AND_GROUP_MAX_LEN - 9) k @ ''-'' @ digest))
     | _ \<Rightarrow> None)"

section \<open>Grouping after validation\<close>

text \<open>The causes an observation names: it fires (the counter and the log line) when there are two.\<close>

definition late_grouping_members :: "case_data \<Rightarrow> string \<Rightarrow> string \<Rightarrow> string list" where
  "late_grouping_members c effect_id grp =
    sort (filter (\<lambda>nid. state_of nid (case_nodes c) = Some VALIDATED)
      (map edge_cause (filter (\<lambda>e. edge_effect e = effect_id \<and> edge_group e = Some grp) (case_edges c))))"

definition observe_late_grouping :: "case_data \<Rightarrow> string \<Rightarrow> string \<Rightarrow> string list option" where
  "observe_late_grouping c effect_id grp =
    (let validated = late_grouping_members c effect_id grp
     in if length validated < 2 then None else Some validated)"

section \<open>Lemmas\<close>

lemma folded_key_stable:
  assumes "strip k = k" "64 < length k"
  shows "strip (take 55 k @ ''-'' @ take 8 (sha256_hexdigest k)) = take 55 k @ ''-'' @ take 8 (sha256_hexdigest k)"
proof (rule strip_id)
  have k: "k \<noteq> []" using assms(2) by auto
  show "\<not> isspace_ch (hd (take 55 k @ ''-'' @ take 8 (sha256_hexdigest k)))"
    using strip_ends(1) [of k] assms(1) k by (cases k) auto
  let ?d = "take 8 (sha256_hexdigest k)"
  have d: "?d \<noteq> []" using length_sha256_hexdigest [of k] by auto
  then have "last ?d \<in> set hex_digits"
    using last_in_set [OF d] sha256_hexdigest_digits [of k] set_take_subset [of 8 "sha256_hexdigest k"] by blast
  moreover have "\<forall>ch \<in> set hex_digits. \<not> isspace_ch ch" by (simp add: hex_digits_def isspace_ch_def)
  ultimately have "\<not> isspace_ch (last ?d)" by blast
  then show "\<not> isspace_ch (last (take 55 k @ ''-'' @ ?d))" using d by simp
qed simp

lemma normalize_unfold:
  "normalize_and_group (Some (MStr raw)) =
    (if strip raw = [] then None
     else if length (strip raw) \<le> 64 then Some (strip raw)
     else Some (take 55 (strip raw) @ ''-'' @ take 8 (sha256_hexdigest (strip raw))))"
  by (simp add: normalize_and_group_def Let_def AND_GROUP_MAX_LEN_def)

lemma normalized_group_stable:
  assumes "normalize_and_group v = Some k"
  shows "length k \<le> 64 \<and> group_key (Some k) = Some k \<and> normalize_and_group (Some (MStr k)) = Some k"
proof -
  obtain raw where raw: "v = Some (MStr raw)"
    using assms by (cases v) (auto simp: normalize_and_group_def split: meta_value.splits)
  let ?s = "strip raw"
  have s: "?s \<noteq> []" using assms raw by (auto simp: normalize_unfold)
  have k: "k = (if length ?s \<le> 64 then ?s else take 55 ?s @ ''-'' @ take 8 (sha256_hexdigest ?s))"
    using assms raw s by (auto simp: normalize_unfold split: if_splits)
  have len: "length k \<le> 64"
    unfolding k by (auto simp: length_sha256_hexdigest)
  have "strip k = k" using k folded_key_stable [of ?s] by auto
  moreover have "k \<noteq> []" using k s by auto
  ultimately show ?thesis
    using len strip_empty_iff [of k] by (simp add: normalize_unfold group_key_def)
qed

lemma normalize_group_idem:
  "normalize_and_group (map_option MStr (normalize_and_group v)) = normalize_and_group v"
  by (cases "normalize_and_group v") (simp_all add: normalized_group_stable, simp add: normalize_and_group_def)

section \<open>Properties\<close>

text \<open>A normalised key fits the 64-character column, is not blank, is read back as itself by the
  AND-group query, and normalises to itself.\<close>

theorem normalized_group_is_stable:
  assumes "normalize_and_group v = Some k"
  shows "length k \<le> 64 \<and> group_key (Some k) = Some k \<and> normalize_and_group (Some (MStr k)) = Some k"
  by (rule normalized_group_stable [OF assms])

theorem normalized_group_is_stable_witness:
  "normalize_and_group (Some (MStr '' disk and cache '')) = Some ''disk and cache''
   \<and> group_key (Some ''disk and cache'') = Some ''disk and cache''"
proof -
  have n: "normalize_and_group (Some (MStr '' disk and cache '')) = Some ''disk and cache''"
    by (simp add: normalize_unfold strip_def isspace_ch_def)
  with normalized_group_is_stable [OF n] show ?thesis by blast
qed

end
