(* ===== verification/Numbers.thy ===== *)
theory Numbers
  imports Text
begin

text \<open>
  What Python's \<open>int()\<close> and \<open>float()\<close> read from a string: white space around, one sign, digit
  groups with single underscores, and for floats a fraction, an exponent and the three names of
  the non-finite values. A float is the exact rational its literal denotes (no rounding to a
  double); a literal too large for a double is a large rational here and infinite in Python.
\<close>

definition decimal_ch :: "char \<Rightarrow> bool" where
  "decimal_ch c = (let n = (of_char c :: nat) in 48 \<le> n \<and> n \<le> 57)"

definition digit_val :: "char \<Rightarrow> nat" where
  "digit_val c = of_char c - 48"

fun digit_group :: "string \<Rightarrow> bool" where
  "digit_group [] = False"
| "digit_group [c] = decimal_ch c"
| "digit_group (c # d # cs) =
    (decimal_ch c \<and> (if d = CHR ''_'' then digit_group cs else digit_group (d # cs)))"

definition digits_of :: "string \<Rightarrow> string" where
  "digits_of s = filter decimal_ch s"

definition digits_value :: "string \<Rightarrow> nat" where
  "digits_value s = foldl (\<lambda>a c. 10 * a + digit_val c) 0 (digits_of s)"

definition split_sign :: "string \<Rightarrow> bool \<times> string" where
  "split_sign s = (case s of [] \<Rightarrow> (False, [])
     | c # r \<Rightarrow> if c = CHR ''+'' then (False, r) else if c = CHR ''-'' then (True, r) else (False, s))"

text \<open>CPython refuses to convert strings of more than 4300 digits (\<open>sys.get_int_max_str_digits\<close>).\<close>

definition INT_MAX_STR_DIGITS :: nat where
  "INT_MAX_STR_DIGITS = 4300"

definition parse_int :: "string \<Rightarrow> int option" where
  "parse_int s =
    (case split_sign (strip s) of (neg, body) \<Rightarrow>
      if digit_group body \<and> length (digits_of body) \<le> INT_MAX_STR_DIGITS
      then Some (if neg then - int (digits_value body) else int (digits_value body))
      else None)"

datatype py_float = Finite rat | Infinite | NotANumber

definition power10 :: "int \<Rightarrow> rat" where
  "power10 e = (if e < 0 then 1 / 10 ^ nat (- e) else 10 ^ nat e)"

definition parse_decimal :: "string \<Rightarrow> rat option" where
  "parse_decimal body =
    (let mantissa = takeWhile (\<lambda>c. c \<noteq> CHR ''e'') body;
         rest = dropWhile (\<lambda>c. c \<noteq> CHR ''e'') body;
         whole = takeWhile (\<lambda>c. c \<noteq> CHR ''.'') mantissa;
         frac = dropWhile (\<lambda>c. c \<noteq> CHR ''.'') mantissa;
         group = (\<lambda>g. g = [] \<or> digit_group g);
         mantissa_ok = (if frac = [] then digit_group whole
            else group whole \<and> group (tl frac) \<and> (whole \<noteq> [] \<or> tl frac \<noteq> []));
         e = split_sign (tl rest);
         exponent = (if rest = [] then 0
            else if fst e then - int (digits_value (snd e)) else int (digits_value (snd e)))
     in if mantissa_ok \<and> (rest = [] \<or> digit_group (snd e))
        then Some (rat_of_nat (digits_value (whole @ tl frac))
               * power10 (exponent - int (length (digits_of (tl frac)))))
        else None)"

definition parse_float :: "string \<Rightarrow> py_float option" where
  "parse_float s =
    (case split_sign (strip s) of (neg, raw) \<Rightarrow>
      let body = map lower_ch raw in
      if body = ''inf'' \<or> body = ''infinity'' then Some Infinite
      else if body = ''nan'' then Some NotANumber
      else map_option (\<lambda>q. Finite (if neg then - q else q)) (parse_decimal body))"

section \<open>Decimal numerals\<close>

text \<open>\<open>str(n)\<close> of a natural number.\<close>

fun numeral_of :: "nat \<Rightarrow> string" where
  "numeral_of n =
    (if n < 10 then [char_of (48 + n)] else numeral_of (n div 10) @ [char_of (48 + n mod 10)])"

declare numeral_of.simps [simp del]

lemma digit_char_simps [simp]:
  "n < 10 \<Longrightarrow> decimal_ch (char_of (48 + n))"
  "n < 10 \<Longrightarrow> digit_val (char_of (48 + n)) = n"
  by (simp_all add: decimal_ch_def digit_val_def)

lemma decimal_ch_plain: "decimal_ch c \<Longrightarrow> c \<noteq> CHR ''_'' \<and> c \<noteq> CHR ''+'' \<and> c \<noteq> CHR ''-'' \<and> \<not> isspace_ch c"
  by (auto simp: decimal_ch_def isspace_ch_def Let_def)

lemma digit_group_digits: "list_all decimal_ch s \<Longrightarrow> s \<noteq> [] \<Longrightarrow> digit_group s"
  by (induction s rule: digit_group.induct) (auto dest: decimal_ch_plain)

lemma digits_value_snoc:
  "decimal_ch c \<Longrightarrow> digits_value (s @ [c]) = 10 * digits_value s + digit_val c"
  by (simp add: digits_value_def digits_of_def)

lemma numeral_of_digits: "list_all decimal_ch (numeral_of n) \<and> numeral_of n \<noteq> []"
  by (induction n rule: numeral_of.induct) (subst (1 2) numeral_of.simps, auto)

lemma numeral_of_value: "digits_value (numeral_of n) = n"
proof (induction n rule: numeral_of.induct)
  case (1 n)
  show ?case
  proof (cases "n < 10")
    case True
    then have "numeral_of n = [] @ [char_of (48 + n)]" by (simp add: numeral_of.simps)
    also have "digits_value \<dots> = n" using True by (subst digits_value_snoc) (simp_all add: digits_value_def digits_of_def)
    finally show ?thesis .
  next
    case False
    then have "numeral_of n = numeral_of (n div 10) @ [char_of (48 + n mod 10)]"
      by (subst numeral_of.simps) simp
    also have "digits_value \<dots> = 10 * (n div 10) + n mod 10"
      using 1 False by (subst digits_value_snoc) simp_all
    finally show ?thesis by simp
  qed
qed

lemma strip_digits: "list_all decimal_ch s \<Longrightarrow> s \<noteq> [] \<Longrightarrow> strip s = s"
  by (rule strip_id) (simp_all add: list_all_iff decimal_ch_plain)

lemma parse_int_numeral:
  assumes "length (numeral_of n) \<le> INT_MAX_STR_DIGITS"
  shows "parse_int (numeral_of n) = Some (int n)"
proof -
  have d: "list_all decimal_ch (numeral_of n)" "numeral_of n \<noteq> []" using numeral_of_digits [of n] by auto
  have "split_sign (numeral_of n) = (False, numeral_of n)"
    using d by (cases "numeral_of n") (auto simp: split_sign_def dest: decimal_ch_plain)
  moreover have "digits_of (numeral_of n) = numeral_of n"
    using d(1) by (simp add: digits_of_def filter_id_conv list_all_iff)
  ultimately show ?thesis
    using assms by (simp add: parse_int_def strip_digits [OF d] digit_group_digits [OF d] numeral_of_value)
qed

end
