(* ===== verification/Confidence_Repair.thy ===== *)
theory Confidence_Repair
  imports Numbers Case_Model
begin

text \<open>
  What an out-of-range confidence costs: \<open>core/investigation/confidence_repair.py\<close> and the three
  validators of \<open>core/investigation/schemas.py\<close> that call it. Field values as a provider may send
  them are \<open>raw_value\<close>s; the notes list of the turn and the Prometheus counter are explicit sinks
  of repair records (their rendering as text is not modelled).
\<close>

section \<open>Classification\<close>

datatype raw_value = RBool bool | RInt int | RFloat py_float | RStr string | ROther

datatype confidence_kind = Conforming | Rescaled | Coerced | Unrepairable

datatype confidence_action = RESCALED | COERCED | DROPPED | PRUNED | DEFAULTED | SET_ASIDE

definition MEANING_PRESERVING_ACTIONS :: "confidence_action set" where
  "MEANING_PRESERVING_ACTIONS = {RESCALED, COERCED}"

record confidence_repair =
  rep_schema :: string
  rep_field :: string
  rep_action :: confidence_action
  rep_raw :: raw_value
  rep_value :: "rat option"
  rep_where :: "string option"
  rep_detail :: "string option"

definition to_float :: "raw_value \<Rightarrow> py_float option" where
  "to_float raw = (case raw of RInt i \<Rightarrow> Some (Finite (of_int i)) | RFloat f \<Rightarrow> Some f
     | RStr s \<Rightarrow> parse_float (strip s) | RBool b \<Rightarrow> Some (Finite (of_bool b)) | ROther \<Rightarrow> None)"

definition classify :: "raw_value \<Rightarrow> confidence_kind \<times> rat option" where
  "classify raw =
    (case raw of
       RBool b \<Rightarrow> (Coerced, Some (if b then 1 else 0))
     | ROther \<Rightarrow> (Unrepairable, None)
     | _ \<Rightarrow>
       (case to_float raw of
          Some (Finite number) \<Rightarrow>
            if 0 \<le> number \<and> number \<le> 1 then (Conforming, Some number)
            else if 1 < number \<and> number \<le> 100 then (Rescaled, Some (number / 100))
            else (Unrepairable, None)
        | _ \<Rightarrow> (Unrepairable, None)))"

section \<open>The sinks\<close>

text \<open>\<open>report\<close> appends to the validation context's sink when there is one; \<open>count\<close> increments the
counter for every action but a deferral. A counter is the list of its increments.\<close>

definition report :: "confidence_repair list option \<Rightarrow> confidence_repair \<Rightarrow> confidence_repair list option" where
  "report context repair = map_option (\<lambda>sink. sink @ [repair]) context"

definition count_repair :: "confidence_repair \<Rightarrow> (string \<times> string \<times> confidence_action) list
    \<Rightarrow> (string \<times> string \<times> confidence_action) list" where
  "count_repair repair counter =
    (if rep_action repair = SET_ASIDE then counter
     else counter @ [(rep_schema repair, rep_field repair, rep_action repair)])"

section \<open>Validation: fields of a record to add, to update, and of a link\<close>

datatype confidence_error = ConfidenceUnrepairable string string raw_value

definition action_of_kind :: "confidence_kind \<Rightarrow> confidence_action" where
  "action_of_kind k = (if k = Rescaled then RESCALED else COERCED)"

definition repair_add_confidence ::
    "string \<Rightarrow> string \<Rightarrow> raw_value option \<Rightarrow> confidence_repair list option
      \<Rightarrow> confidence_error + (rat option \<times> confidence_repair list option)" where
  "repair_add_confidence cls fld v context =
    (case v of None \<Rightarrow> Inr (None, context)
     | Some raw \<Rightarrow>
       (case classify raw of
          (Conforming, value) \<Rightarrow> Inr (value, context)
        | (Unrepairable, _) \<Rightarrow> Inl (ConfidenceUnrepairable cls fld raw)
        | (kind, value) \<Rightarrow>
            Inr (value, report context \<lparr>rep_schema = cls, rep_field = fld,
              rep_action = action_of_kind kind, rep_raw = raw, rep_value = value,
              rep_where = None, rep_detail = None\<rparr>)))"

definition drop_update_confidence ::
    "string \<Rightarrow> string \<Rightarrow> raw_value option \<Rightarrow> confidence_repair list option
      \<Rightarrow> rat option \<times> confidence_repair list option" where
  "drop_update_confidence cls fld v context =
    (case v of None \<Rightarrow> (None, context)
     | Some raw \<Rightarrow>
       (case classify raw of
          (Conforming, value) \<Rightarrow> (value, context)
        | _ \<Rightarrow> (None, report context \<lparr>rep_schema = cls, rep_field = fld, rep_action = DROPPED,
              rep_raw = raw, rep_value = None, rep_where = None, rep_detail = None\<rparr>)))"

text \<open>The confidence a link keeps, the raw value set aside, and the context's sink.\<close>

definition set_aside_link_confidence ::
    "string \<Rightarrow> raw_value option \<Rightarrow> confidence_repair list option
      \<Rightarrow> rat option \<times> raw_value option \<times> confidence_repair list option" where
  "set_aside_link_confidence cls candidate context =
    (case candidate of None \<Rightarrow> (None, None, context)
     | Some raw \<Rightarrow>
       (case classify raw of
          (Conforming, value) \<Rightarrow> (value, None, context)
        | _ \<Rightarrow> (None, Some raw, report context \<lparr>rep_schema = cls, rep_field = ''stance_confidence'',
              rep_action = SET_ASIDE, rep_raw = raw, rep_value = None, rep_where = None,
              rep_detail = None\<rparr>)))"

section \<open>Ingest\<close>

definition decide_link_at_ingest :: "raw_value \<Rightarrow> bool \<Rightarrow> confidence_action \<times> rat option" where
  "decide_link_at_ingest raw re_emitted =
    (if re_emitted then (DROPPED, None)
     else case classify raw of
        (Rescaled, value) \<Rightarrow> (RESCALED, value)
      | (Coerced, value) \<Rightarrow> (COERCED, value)
      | _ \<Rightarrow> (PRUNED, None))"

type_synonym repair_sinks = "confidence_repair list option \<times> (string \<times> string \<times> confidence_action) list"

definition settle_set_aside_link ::
    "string \<Rightarrow> raw_value option \<Rightarrow> evidence_stance option \<Rightarrow> evidence_stance option \<Rightarrow> string
      \<Rightarrow> repair_sinks \<Rightarrow> (confidence_action \<times> rat option) option \<times> repair_sinks" where
  "settle_set_aside_link schema set_aside stance stored_stance loc = (\<lambda>(notes, counter).
    case set_aside of None \<Rightarrow> (None, notes, counter)
    | Some raw \<Rightarrow>
       (let re_emitted = (stored_stance \<noteq> None \<and> stored_stance = stance);
            (action, value) = decide_link_at_ingest raw re_emitted;
            repair = \<lparr>rep_schema = schema, rep_field = ''stance_confidence'', rep_action = action,
              rep_raw = raw, rep_value = value, rep_where = Some (''link '' @ loc), rep_detail = None\<rparr>
        in (Some (action, value), report notes repair, count_repair repair counter)))"

section \<open>Lemmas\<close>

lemma classify_cases:
  obtains (conforming) q where "classify raw = (Conforming, Some q)" "0 \<le> q" "q \<le> 1"
  | (rescaled) q where "classify raw = (Rescaled, Some q)" "0 < q" "q \<le> 1"
  | (coerced) b where "raw = RBool b" "classify raw = (Coerced, Some (of_bool b))"
  | (unrepairable) "classify raw = (Unrepairable, None)"
proof -
  note all = that
  show thesis
  proof (cases "\<exists>b. raw = RBool b")
    case True
    then obtain b where b: "raw = RBool b" by blast
    have "classify raw = (Coerced, Some (of_bool b))" by (simp add: b classify_def)
    with all(3) b show thesis by blast
  next
    case nb: False
    show thesis
    proof (cases "raw \<noteq> ROther \<and> (\<exists>q. to_float raw = Some (Finite q) \<and> 0 \<le> q \<and> q \<le> 100)")
      case True
      then obtain q where q: "raw \<noteq> ROther" "to_float raw = Some (Finite q)" "0 \<le> q" "q \<le> 100" by blast
      show thesis
      proof (cases "q \<le> 1")
        case True
        with q nb have "classify raw = (Conforming, Some q)"
          by (cases raw) (simp_all add: classify_def)
        with all(1) q True show thesis by blast
      next
        case False
        with q nb have "classify raw = (Rescaled, Some (q / 100))"
          by (cases raw) (simp_all add: classify_def)
        moreover have "0 < q / 100" "q / 100 \<le> 1" using q False by (simp_all add: divide_le_eq)
        ultimately show thesis using all(2) by blast
      qed
    next
      case False
      then have "\<not> (0 \<le> q \<and> q \<le> 100)" if "raw \<noteq> ROther" "to_float raw = Some (Finite q)" for q
        using that by blast
      with nb have "classify raw = (Unrepairable, None)"
        by (cases raw) (auto simp: classify_def split: option.splits py_float.splits)
      with all(4) show thesis .
    qed
  qed
qed

text \<open>What each reader of a classified value does with it.\<close>

lemmas confidence_defs = repair_add_confidence_def drop_update_confidence_def
  set_aside_link_confidence_def decide_link_at_ingest_def

lemma decide_link_value:
  "set_option (snd (decide_link_at_ingest raw re_emitted)) \<subseteq> {0..1}"
  by (cases raw rule: classify_cases) (auto simp: decide_link_at_ingest_def)

lemma settle_value:
  "(case fst (settle_set_aside_link schema set_aside stance stored loc sinks) of
      None \<Rightarrow> set_aside = None
    | Some (action, q) \<Rightarrow> set_aside \<noteq> None \<and> set_option q \<subseteq> {0..1} \<and> (q = None \<longleftrightarrow> action \<in> {DROPPED, PRUNED}))"
proof (cases set_aside)
  case (Some raw)
  have "set_option (snd (decide_link_at_ingest raw e)) \<subseteq> {0..1}
      \<and> (snd (decide_link_at_ingest raw e) = None \<longleftrightarrow> fst (decide_link_at_ingest raw e) \<in> {DROPPED, PRUNED})" for e
    by (cases raw rule: classify_cases) (auto simp: decide_link_at_ingest_def)
  note H = this
  let ?e = "stored \<noteq> None \<and> stored = stance"
  obtain ns cs where s: "sinks = (ns, cs)" by (cases sinks)
  obtain a q where d: "decide_link_at_ingest raw ?e = (a, q)" by (cases "decide_link_at_ingest raw ?e")
  have "fst (settle_set_aside_link schema set_aside stance stored loc sinks) = Some (a, q)"
    by (simp only: s Some settle_set_aside_link_def Let_def d prod.case option.case fst_conv)
  with H [of ?e] Some show ?thesis by (simp only: d) simp
qed (cases sinks, simp add: settle_set_aside_link_def)

section \<open>Properties\<close>

text \<open>Whatever a provider sends as a confidence, the value that leaves validation or ingest is a
  number in [0, 1]: for a field of a new record, of an update, of a link, and for a set-aside link
  confidence decided at ingest.\<close>

theorem confidences_stay_in_unit:
  "(case repair_add_confidence cls fld v context of Inl _ \<Rightarrow> True | Inr (q, _) \<Rightarrow> set_option q \<subseteq> {0..1})
   \<and> set_option (fst (drop_update_confidence cls fld v context)) \<subseteq> {0..1}
   \<and> set_option (fst (set_aside_link_confidence cls v context)) \<subseteq> {0..1}
   \<and> set_option (snd (decide_link_at_ingest raw re_emitted)) \<subseteq> {0..1}"
proof (cases v)
  case None
  then show ?thesis by (simp add: confidence_defs(1-3) decide_link_value)
next
  case (Some r)
  then show ?thesis
    by (cases r rule: classify_cases) (simp_all add: confidence_defs(1-3) decide_link_value)
qed

text \<open>C33: The three roles cost a bad value what the ruling says: a new record is repaired or refused with
  an error, never given a default; an update loses the field and keeps its record; a link keeps the
  raw value for ingest, which keeps the stored value of a re-emitted claim and otherwise repairs the
  value or prunes the link. A conforming value passes all three unchanged and unreported.\<close>

theorem confidence_ruling:
  "classify r = (k, q) \<Longrightarrow>
     (k = Conforming \<longrightarrow> repair_add_confidence cls fld (Some r) ctx = Inr (q, ctx)
        \<and> drop_update_confidence cls fld (Some r) ctx = (q, ctx)
        \<and> set_aside_link_confidence cls (Some r) ctx = (q, None, ctx))
   \<and> (k \<noteq> Conforming \<longrightarrow> fst (drop_update_confidence cls fld (Some r) ctx) = None
        \<and> fst (snd (set_aside_link_confidence cls (Some r) ctx)) = Some r
        \<and> decide_link_at_ingest r True = (DROPPED, None))
   \<and> (k \<in> {Rescaled, Coerced} \<longrightarrow> map_sum id fst (repair_add_confidence cls fld (Some r) ctx) = Inr q
        \<and> decide_link_at_ingest r False = (action_of_kind k, q))
   \<and> (k = Unrepairable \<longrightarrow> repair_add_confidence cls fld (Some r) ctx = Inl (ConfidenceUnrepairable cls fld r)
        \<and> decide_link_at_ingest r False = (PRUNED, None))"
  by (cases r rule: classify_cases) (auto simp: confidence_defs action_of_kind_def)

theorem confidence_ruling_witness:
  "classify (RInt 90) = (Rescaled, Some (9 / 10)) \<and> decide_link_at_ingest (RInt 90) False = (RESCALED, Some (9 / 10))
   \<and> decide_link_at_ingest (RInt 90) True = (DROPPED, None)"
proof -
  have c: "classify (RInt 90) = (Rescaled, Some (9 / 10))" by (simp add: classify_def to_float_def)
  from confidence_ruling [OF c, of "''S''" "''f''" None] show ?thesis by (simp add: c action_of_kind_def)
qed

end
