(* ===== verification/Ingestion.thy ===== *)
theory Ingestion
  imports Chain_Paths And_Groups Confidence_Repair
begin

text \<open>
  Building the causal graph from a turn's emitted fragments: \<open>ingest_emitted_chain\<close> and
  \<open>mirror_hypothesis_support_to_root_nodes\<close> of \<open>core/investigation/causal_graph/ingestion.py\<close>.

  The emitted items are records of the attributes the code reads from them, \<open>None\<close> where an
  attribute is missing. The ids \<open>uuid4\<close> would draw are a function \<open>new_id\<close>: \<open>new_id 0\<close> is the PROBLEM
  node's and \<open>new_id (Suc i)\<close> the id of the i-th emitted node. A constructor that raises ends the
  ingest with its error. Metrics and log lines are the events of the result.
\<close>

section \<open>The emitted items\<close>

record node_spec =
  ns_statement :: "string option"
  ns_type :: "node_type option"
  ns_produces :: "string option"
  ns_group :: "string option"

record edge_spec =
  es_cause :: "string option"
  es_effect :: "string option"
  es_group :: "string option"
  es_reasoning :: "string option"

record link_spec =
  ls_schema :: string
  ls_node_ref :: "string option"
  ls_evidence_id :: "string option"
  ls_evidence_id_ref :: "string option"
  ls_stance :: "evidence_stance option"
  ls_confidence :: "rat option"
  ls_set_aside :: "raw_value option"
  ls_reasoning :: "string option"

datatype ingest_event =
    LateGrouping string string "string list"
  | RegroupRefused string string bool
  | AbsenceRowRefused string string

section \<open>Statements and references\<close>

definition normalize_statement :: "string option \<Rightarrow> string" where
  "normalize_statement s = map lower_ch (join_with '' '' (split_words (take 500 (or_empty s))))"

type_synonym node_key = "node_type \<times> string"

definition node_key_of :: "causal_node \<Rightarrow> node_key" where
  "node_key_of n = (node_type n, normalize_statement (Some (node_statement n)))"

text \<open>\<open>setdefault\<close> over the nodes in their order: the first node of a key is the canonical one.\<close>

definition canonical_index :: "(string, causal_node) pydict \<Rightarrow> (node_key, string) pydict" where
  "canonical_index nodes =
    fold (\<lambda>(nid, n) d. if node_key_of n \<in> set (dict_keys d) then d else dict_put (node_key_of n) nid d) nodes []"

definition NEW_INDEX :: string where
  "NEW_INDEX = ''new_index_''"

definition is_slot_ref :: "string \<Rightarrow> bool" where
  "is_slot_ref ref \<longleftrightarrow> take (length NEW_INDEX) ref = NEW_INDEX"

text \<open>The slot a \<open>new_index_N\<close> reference names, \<open>None\<close> when \<open>N\<close> is no number or out of range.\<close>

definition slot_of :: "'a option list \<Rightarrow> string \<Rightarrow> 'a option" where
  "slot_of slots ref =
    (case parse_int (drop (length NEW_INDEX) ref) of
       None \<Rightarrow> None
     | Some idx \<Rightarrow> if 0 \<le> idx \<and> idx < int (length slots) then slots ! nat idx else None)"

definition resolve_ref ::
    "string \<Rightarrow> string option list \<Rightarrow> (string, causal_node) pydict \<Rightarrow> string option \<Rightarrow> string option" where
  "resolve_ref d_id created nodes ref =
    (if \<not> truthy ref then None
     else if or_empty ref = ''D'' then Some d_id
     else if is_slot_ref (or_empty ref) then slot_of created (or_empty ref)
     else if dict_get nodes (or_empty ref) \<noteq> None then ref else None)"

definition resolve_evidence_ref :: "string option list \<Rightarrow> string option \<Rightarrow> string option" where
  "resolve_evidence_ref slots ref =
    (if \<not> truthy ref then None
     else if is_slot_ref (or_empty ref) then slot_of slots (or_empty ref)
     else ref)"

section \<open>Nodes\<close>

text \<open>The nodes, the canonical index and the answer for each emitted node so far.\<close>

type_synonym node_pass = "(string, causal_node) pydict \<times> (node_key, string) pydict \<times> string option list"

definition add_node :: "(nat \<Rightarrow> string) \<Rightarrow> int \<Rightarrow> node_spec \<Rightarrow> node_pass \<Rightarrow> validation_error + node_pass" where
  "add_node new_id turn spec = (\<lambda>(nodes, canonical, created).
    let statement = strip (or_empty (ns_statement spec)) in
    if statement = [] \<or> ns_type spec \<notin> {Some ROOT, Some INTERMEDIATE}
    then Inr (nodes, canonical, created @ [None])
    else
      let ntype = the (ns_type spec);
          key = (ntype, normalize_statement (Some statement)) in
      (case dict_get canonical key of
         Some nid \<Rightarrow> Inr (nodes, canonical, created @ [Some nid])
       | None \<Rightarrow>
          (case new_node (new_id (Suc (length created))) (take 500 statement) ntype turn of
             Inl err \<Rightarrow> Inl err
           | Inr n \<Rightarrow> Inr (dict_put (node_id n) n nodes, dict_put key (node_id n) canonical,
               created @ [Some (node_id n)]))))"

section \<open>Edges\<close>

definition same_ends :: "string \<Rightarrow> string \<Rightarrow> causal_edge \<Rightarrow> bool" where
  "same_ends cause effect e \<longleftrightarrow> edge_cause e = cause \<and> edge_effect e = effect"

type_synonym edge_pass = "case_data \<times> ingest_event list"

definition join_edge ::
    "int \<Rightarrow> string \<Rightarrow> string \<Rightarrow> string option \<Rightarrow> string option \<Rightarrow> edge_pass \<Rightarrow> validation_error + edge_pass" where
  "join_edge turn cause effect and_group reasoning = (\<lambda>(c, events).
    let grp = normalize_and_group (map_option MStr and_group) in
    (case find (same_ends cause effect) (case_edges c) of
       Some existing \<Rightarrow>
         (if edge_group existing = None \<and> grp \<noteq> None
          then let c' = c\<lparr>case_edges := update_first (same_ends cause effect)
                   (\<lambda>e. e\<lparr>edge_group := grp\<rparr>) (case_edges c)\<rparr>
               in Inr (c', case observe_late_grouping c' effect (the grp) of
                    None \<Rightarrow> events | Some members \<Rightarrow> events @ [LateGrouping effect (the grp) members])
          else if grp \<noteq> edge_group existing \<and> edge_group existing \<noteq> None
          then Inr (c, events @ [RegroupRefused cause effect (grp = None)])
          else Inr (c, events))
     | None \<Rightarrow>
         (case new_edge cause effect grp reasoning turn of
            Inl err \<Rightarrow> Inl err
          | Inr e \<Rightarrow> Inr (c\<lparr>case_edges := case_edges c @ [e]\<rparr>, events))))"

definition add_edge ::
    "int \<Rightarrow> string option \<Rightarrow> string option \<Rightarrow> string option \<Rightarrow> string option \<Rightarrow> edge_pass
      \<Rightarrow> validation_error + edge_pass" where
  "add_edge turn cause effect and_group reasoning = (\<lambda>(c, events).
    if \<not> truthy cause \<or> \<not> truthy effect \<or> cause = effect then Inr (c, events)
    else if dict_get (case_nodes c) (or_empty cause) = None
          \<or> dict_get (case_nodes c) (or_empty effect) = None then Inr (c, events)
    else join_edge turn (or_empty cause) (or_empty effect) and_group reasoning (c, events))"

definition add_produced ::
    "int \<Rightarrow> string \<Rightarrow> string option list \<Rightarrow> node_spec \<times> string option \<Rightarrow> edge_pass \<Rightarrow> validation_error + edge_pass" where
  "add_produced turn d_id created = (\<lambda>(spec, nid) st.
    if truthy (ns_produces spec)
    then add_edge turn nid (resolve_ref d_id created (case_nodes (fst st)) (ns_produces spec))
           (ns_group spec) None st
    else Inr st)"

definition add_explicit ::
    "int \<Rightarrow> string \<Rightarrow> string option list \<Rightarrow> edge_spec \<Rightarrow> edge_pass \<Rightarrow> validation_error + edge_pass" where
  "add_explicit turn d_id created spec st =
    add_edge turn (resolve_ref d_id created (case_nodes (fst st)) (es_cause spec))
      (resolve_ref d_id created (case_nodes (fst st)) (es_effect spec))
      (es_group spec) (es_reasoning spec) st"

section \<open>Evidence links\<close>

text \<open>The case, the events, and the sinks the confidence repairs are reported to.\<close>

type_synonym link_pass = "case_data \<times> ingest_event list \<times> repair_sinks"

definition or_else :: "string option \<Rightarrow> string option \<Rightarrow> string option" where
  "or_else a b = (if truthy a then a else b)"

text \<open>The confidence a link is written with: \<open>None\<close> when it is pruned.\<close>

definition written_confidence ::
    "node_link option \<Rightarrow> rat option \<Rightarrow> (confidence_action \<times> rat option) option \<Rightarrow> rat option option" where
  "written_confidence existing emitted settled =
    (let emitted' = (case settled of None \<Rightarrow> emitted | Some (_, q) \<Rightarrow> q) in
     if (case settled of Some (PRUNED, _) \<Rightarrow> True | _ \<Rightarrow> False) then None
     else Some (if emitted' = None
        then (case existing of Some l \<Rightarrow> link_confidence l | None \<Rightarrow> Some 1) else emitted'))"

definition for_evidence :: "string \<Rightarrow> node_link \<Rightarrow> bool" where
  "for_evidence eid l \<longleftrightarrow> link_evidence_id l = eid"

text \<open>An update replaces the link at its position; a new link goes to the end.\<close>

definition upsert_link :: "node_link \<Rightarrow> node_link list \<Rightarrow> node_link list" where
  "upsert_link fresh links =
    (if list_ex (for_evidence (link_evidence_id fresh)) links
     then update_first (for_evidence (link_evidence_id fresh)) (\<lambda>_. fresh) links
     else links @ [fresh])"

definition write_link ::
    "link_spec \<Rightarrow> string \<Rightarrow> causal_node \<Rightarrow> string \<Rightarrow> evidence_stance \<Rightarrow> link_pass \<Rightarrow> validation_error + link_pass" where
  "write_link spec nid node eid stance = (\<lambda>(c, events, sinks).
    let existing = find (for_evidence eid) (node_links node);
        (settled, sinks') = settle_set_aside_link (ls_schema spec) (ls_set_aside spec) (Some stance)
           (map_option link_stance existing) (nid @ ''<-'' @ eid) sinks
    in case written_confidence existing (ls_confidence spec) settled of
         None \<Rightarrow> Inr (c, events, sinks')
       | Some confidence \<Rightarrow>
          (case new_link eid stance (if truthy (ls_reasoning spec) then or_empty (ls_reasoning spec) else ''node evidence'')
                 confidence 0 of
             Inl err \<Rightarrow> Inl err
           | Inr fresh \<Rightarrow>
              Inr (c\<lparr>case_nodes := dict_put nid (node\<lparr>node_links := upsert_link fresh (node_links node)\<rparr>) (case_nodes c)\<rparr>,
                   events, sinks')))"

definition add_link ::
    "string \<Rightarrow> string option list \<Rightarrow> string option list \<Rightarrow> link_spec \<Rightarrow> link_pass \<Rightarrow> validation_error + link_pass" where
  "add_link d_id created slots spec = (\<lambda>(c, events, sinks).
    let nid = resolve_ref d_id created (case_nodes c) (ls_node_ref spec);
        node = (if truthy nid then dict_get (case_nodes c) (or_empty nid) else None);
        eid = resolve_evidence_ref slots (or_else (ls_evidence_id spec) (ls_evidence_id_ref spec))
    in case (node, eid, ls_stance spec) of
         (Some n, Some e, Some stance) \<Rightarrow>
           if e \<notin> set (map ev_id (case_evidence c)) then Inr (c, events, sinks)
           else if absence_row_link_refused (dict_get (evidence_category_map c) e)
           then Inr (c, events @ [AbsenceRowRefused (or_empty nid) e], sinks)
           else write_link spec (or_empty nid) n e stance (c, events, sinks)
       | _ \<Rightarrow> Inr (c, events, sinks))"

section \<open>The ingest\<close>

record ingest_result =
  ing_case :: case_data
  ing_created :: "string option list"
  ing_events :: "ingest_event list"
  ing_sinks :: repair_sinks

definition ingest_emitted_chain ::
    "(nat \<Rightarrow> string) \<Rightarrow> case_data \<Rightarrow> node_spec list \<Rightarrow> edge_spec list \<Rightarrow> link_spec list \<Rightarrow> int
      \<Rightarrow> string option list \<Rightarrow> repair_sinks \<Rightarrow> validation_error + ingest_result" where
  "ingest_emitted_chain new_id c nodes_to_add edges_to_add node_evidence turn slots sinks =
    (case seed_problem_node (new_id 0) (Some turn) c of
       Inl err \<Rightarrow> Inl err
     | Inr (c0, None) \<Rightarrow> Inr \<lparr>ing_case = c0, ing_created = [], ing_events = [], ing_sinks = sinks\<rparr>
     | Inr (c0, Some problem) \<Rightarrow>
        (case try_fold (add_node new_id turn) nodes_to_add
               (case_nodes c0, if nodes_to_add = [] then [] else canonical_index (case_nodes c0), []) of
           Inl err \<Rightarrow> Inl err
         | Inr (nodes, _, created) \<Rightarrow>
            (case try_fold (add_produced turn (node_id problem) created) (zip nodes_to_add created)
                   (c0\<lparr>case_nodes := nodes\<rparr>, []) of
               Inl err \<Rightarrow> Inl err
             | Inr st1 \<Rightarrow>
                (case try_fold (add_explicit turn (node_id problem) created) edges_to_add st1 of
                   Inl err \<Rightarrow> Inl err
                 | Inr (c2, events) \<Rightarrow>
                    (case try_fold (add_link (node_id problem) created slots) node_evidence (c2, events, sinks) of
                       Inl err \<Rightarrow> Inl err
                     | Inr (c3, events', sinks') \<Rightarrow>
                        Inr \<lparr>ing_case = c3, ing_created = created, ing_events = events', ing_sinks = sinks'\<rparr>)))))"

section \<open>Mirroring hypothesis support onto roots\<close>

definition mirror_link ::
    "(string, evidence_category) pydict \<Rightarrow> int \<Rightarrow> hypothesis_link \<Rightarrow> node_link list \<times> string set \<times> nat
      \<Rightarrow> validation_error + (node_link list \<times> string set \<times> nat)" where
  "mirror_link cats turn link = (\<lambda>(links, ids, mirrored).
    if link_stance link \<noteq> SUPPORTS then Inr (links, ids, mirrored)
    else if dict_get cats (link_evidence_id link) \<noteq> Some CAUSAL_EVIDENCE then Inr (links, ids, mirrored)
    else if link_evidence_id link \<in> ids then Inr (links, ids, mirrored)
    else (case new_link (link_evidence_id link) SUPPORTS
             (if link_reasoning link = [] then ''mirrored from hypothesis support'' else link_reasoning link)
             (link_confidence link) turn of
        Inl err \<Rightarrow> Inl err
      | Inr l \<Rightarrow> Inr (links @ [l], insert (link_evidence_id link) ids, Suc mirrored)))"

definition mirror_hypothesis ::
    "(string, evidence_category) pydict \<Rightarrow> int \<Rightarrow> hypothesis \<Rightarrow> (string, causal_node) pydict \<times> nat
      \<Rightarrow> validation_error + ((string, causal_node) pydict \<times> nat)" where
  "mirror_hypothesis cats turn hyp = (\<lambda>(nodes, mirrored).
    if \<not> truthy (hyp_root hyp) then Inr (nodes, mirrored)
    else (case dict_get nodes (or_empty (hyp_root hyp)) of
        None \<Rightarrow> Inr (nodes, mirrored)
      | Some node \<Rightarrow>
          if node_type node \<noteq> ROOT then Inr (nodes, mirrored)
          else (case try_fold (mirror_link cats turn) (hyp_links hyp)
                   (node_links node, set (map link_evidence_id (node_links node)), mirrored) of
              Inl err \<Rightarrow> Inl err
            | Inr (links, _, mirrored') \<Rightarrow>
                Inr (dict_put (or_empty (hyp_root hyp)) (node\<lparr>node_links := links\<rparr>) nodes, mirrored'))))"

definition mirror_hypothesis_support_to_root_nodes :: "case_data \<Rightarrow> int \<Rightarrow> validation_error + (case_data \<times> nat)" where
  "mirror_hypothesis_support_to_root_nodes c turn =
    (if case_hypotheses c = [] \<or> case_nodes c = [] then Inr (c, 0)
     else (case try_fold (mirror_hypothesis (evidence_category_map c) turn)
              (dict_values (case_hypotheses c)) (case_nodes c, 0) of
         Inl err \<Rightarrow> Inl err
       | Inr (nodes, mirrored) \<Rightarrow> Inr (c\<lparr>case_nodes := nodes\<rparr>, mirrored)))"

end
