(* ===== verification/Ingestion_Laws.thy ===== *)
theory Ingestion_Laws
  imports Ingestion
begin

text \<open>
  What the ingest keeps: the shape of the graph, the identity of nodes by their canonical statement,
  the monotone growth of nodes, edges and AND-sets, and the trust boundary of absence rows.
\<close>

section \<open>The graph invariant\<close>

definition edge_ends :: "causal_edge \<Rightarrow> string \<times> string" where
  "edge_ends e = (edge_cause e, edge_effect e)"

definition edge_ok :: "(string, causal_node) pydict \<Rightarrow> causal_edge \<Rightarrow> bool" where
  "edge_ok nodes e \<longleftrightarrow> edge_cause e \<noteq> edge_effect e
     \<and> dict_get nodes (edge_cause e) \<noteq> None \<and> dict_get nodes (edge_effect e) \<noteq> None
     \<and> normalize_and_group (map_option MStr (edge_group e)) = edge_group e"

definition edges_ok :: "(string, causal_node) pydict \<Rightarrow> causal_edge list \<Rightarrow> bool" where
  "edges_ok nodes es \<longleftrightarrow> list_all (edge_ok nodes) es \<and> distinct (map edge_ends es)"

definition graph_ok :: "case_data \<Rightarrow> bool" where
  "graph_ok c \<longleftrightarrow> nodes_ok (case_nodes c) \<and> edges_ok (case_nodes c) (case_edges c)"

text \<open>The ids a turn draws are new and pairwise different.\<close>

definition fresh_node_ids :: "(nat \<Rightarrow> string) \<Rightarrow> (string, causal_node) pydict \<Rightarrow> bool" where
  "fresh_node_ids new_id nodes \<longleftrightarrow> inj new_id \<and> (\<forall>i. new_id (Suc i) \<notin> set (dict_keys nodes))"

definition fresh_ids :: "(nat \<Rightarrow> string) \<Rightarrow> (string, causal_node) pydict \<Rightarrow> bool" where
  "fresh_ids new_id nodes \<longleftrightarrow> inj new_id \<and> (\<forall>i. new_id i \<notin> set (dict_keys nodes))"

section \<open>The node pass\<close>

lemma node_key_take: "node_key_of n = (t, normalize_statement (Some s))"
  if "node_type n = t" "node_statement n = take 500 s"
  using that by (simp add: node_key_of_def normalize_statement_def)

text \<open>The canonical index names, for each key, a node that has it, and knows every key.\<close>

definition index_ok :: "(string, causal_node) pydict \<Rightarrow> (node_key, string) pydict \<Rightarrow> bool" where
  "index_ok nodes canonical \<longleftrightarrow>
     (\<forall>key nid. dict_get canonical key = Some nid \<longrightarrow>
        (\<exists>n. dict_get nodes nid = Some n \<and> node_key_of n = key))
     \<and> (\<forall>nid n. dict_get nodes nid = Some n \<longrightarrow> dict_get canonical (node_key_of n) \<noteq> None)"

definition index_step :: "string \<times> causal_node \<Rightarrow> (node_key, string) pydict \<Rightarrow> (node_key, string) pydict" where
  "index_step = (\<lambda>(nid, n) d. if node_key_of n \<in> set (dict_keys d) then d else dict_put (node_key_of n) nid d)"

lemma index_fold:
  "dict_get (fold index_step xs d) key =
    (case dict_get d key of Some nid \<Rightarrow> Some nid
     | None \<Rightarrow> map_option fst (find (\<lambda>(nid, n). node_key_of n = key) xs))"
proof (induction xs arbitrary: d)
  case (Cons x xs)
  obtain nid n where x: "x = (nid, n)" by (cases x)
  have step: "dict_get (index_step x d) key =
      (case dict_get d key of Some i \<Rightarrow> Some i | None \<Rightarrow> if node_key_of n = key then Some nid else None)"
    using dict_key_get [of "node_key_of n" d]
    by (auto simp: index_step_def x dict_get_None_iff dest: dict_get_Some_key split: option.split)
  show ?case by (cases "dict_get d key") (simp_all add: Cons.IH step [unfolded x] x)
qed (simp split: option.split)

lemma canonical_index_get:
  "dict_get (canonical_index nodes) key = map_option fst (find (\<lambda>(nid, n). node_key_of n = key) nodes)"
  using index_fold [of nodes "[]" key] by (simp add: canonical_index_def index_step_def)

lemma index_okD:
  assumes "index_ok nodes canonical"
  shows index_known: "dict_get canonical key = Some nid \<Longrightarrow> \<exists>n. dict_get nodes nid = Some n \<and> node_key_of n = key"
    and index_knows: "dict_get nodes nid = Some n \<Longrightarrow> dict_get canonical (node_key_of n) \<noteq> None"
  using assms unfolding index_ok_def by blast+

lemma canonical_index_ok:
  assumes "dict_wf nodes"
  shows "index_ok nodes (canonical_index nodes)"
  unfolding index_ok_def
proof (intro conjI allI impI)
  fix key nid
  assume "dict_get (canonical_index nodes) key = Some nid"
  then obtain n where "find (\<lambda>(nid, n). node_key_of n = key) nodes = Some (nid, n)"
    by (auto simp: canonical_index_get)
  then have "(nid, n) \<in> set nodes" "node_key_of n = key" by (auto dest: find_SomeD)
  then show "\<exists>n. dict_get nodes nid = Some n \<and> node_key_of n = key"
    using assms by (auto simp: dict_get_mem)
next
  fix nid n
  assume "dict_get nodes nid = Some n"
  then have "(nid, n) \<in> set nodes" using assms by (simp add: dict_get_mem)
  then show "dict_get (canonical_index nodes) (node_key_of n) \<noteq> None"
    by (auto simp: canonical_index_get find_None_iff)
qed

text \<open>
  What holds after some emitted nodes, relative to the nodes the pass started from: the old nodes
  are as they were, a new one is an empty candidate whose key no other node has, and every answer
  names a node of the emitted type and statement.
\<close>

definition new_in :: "(string, causal_node) pydict \<Rightarrow> (string, causal_node) pydict \<Rightarrow> string \<Rightarrow> causal_node \<Rightarrow> bool" where
  "new_in nodes0 nodes k n \<longleftrightarrow> dict_get nodes k = Some n \<and> dict_get nodes0 k = None"

definition sole_owner :: "(string, causal_node) pydict \<Rightarrow> string \<Rightarrow> causal_node \<Rightarrow> bool" where
  "sole_owner nodes k n \<longleftrightarrow> (\<forall>k' n'. dict_get nodes k' = Some n' \<and> node_key_of n' = node_key_of n \<longrightarrow> k' = k)"

definition added_ok :: "(nat \<Rightarrow> string) \<Rightarrow> nat \<Rightarrow> (string, causal_node) pydict \<Rightarrow> string \<Rightarrow> causal_node \<Rightarrow> bool" where
  "added_ok new_id m nodes k n \<longleftrightarrow> (\<exists>i < m. k = new_id (Suc i)) \<and> node_state n = CANDIDATE \<and> node_links n = []
     \<and> node_type n \<in> {ROOT, INTERMEDIATE} \<and> sole_owner nodes k n"

definition answer_ok :: "(string, causal_node) pydict \<Rightarrow> string option \<Rightarrow> bool" where
  "answer_ok nodes a \<longleftrightarrow> (\<forall>nid. a = Some nid \<longrightarrow>
     (\<exists>n. dict_get nodes nid = Some n \<and> node_type n \<in> {ROOT, INTERMEDIATE}))"

definition node_pass_inv :: "(nat \<Rightarrow> string) \<Rightarrow> (string, causal_node) pydict \<Rightarrow> node_pass \<Rightarrow> bool" where
  "node_pass_inv new_id nodes0 = (\<lambda>(nodes, canonical, created).
     nodes_ok nodes \<and> index_ok nodes canonical \<and> (\<exists>extra. nodes = nodes0 @ extra)
     \<and> (\<forall>k n. new_in nodes0 nodes k n \<longrightarrow> added_ok new_id (length created) nodes k n)
     \<and> list_all (answer_ok nodes) created)"

lemma added_ok_Suc: "added_ok new_id m nodes k n \<Longrightarrow> added_ok new_id (Suc m) nodes k n"
  by (auto simp: added_ok_def less_Suc_eq)

lemma node_pass_start:
  assumes "nodes_ok nodes0"
  shows "node_pass_inv new_id nodes0 (nodes0, canonical_index nodes0, [])"
  using assms canonical_index_ok [OF nodes_ok_wf [OF assms]]
  by (auto simp: node_pass_inv_def new_in_def)

lemma index_ok_put:
  assumes "index_ok nodes canonical" "k \<notin> set (dict_keys nodes)"
  shows "index_ok (dict_put k n nodes) (dict_put (node_key_of n) k canonical)"
  unfolding index_ok_def
proof (intro conjI allI impI)
  fix key nid
  assume g: "dict_get (dict_put (node_key_of n) k canonical) key = Some nid"
  show "\<exists>m. dict_get (dict_put k n nodes) nid = Some m \<and> node_key_of m = key"
  proof (cases "key = node_key_of n")
    case False
    with g have "dict_get canonical key = Some nid" by simp
    then obtain m where m: "dict_get nodes nid = Some m" "node_key_of m = key"
      using index_known [OF assms(1)] by blast
    moreover have "nid \<noteq> k" using dict_get_Some_key [OF m(1)] assms(2) by blast
    ultimately show ?thesis by auto
  qed (use g in auto)
next
  fix nid m
  assume "dict_get (dict_put k n nodes) nid = Some m"
  then show "dict_get (dict_put (node_key_of n) k canonical) (node_key_of m) \<noteq> None"
    using index_knows [OF assms(1), of nid m] by (auto split: if_splits)
qed

lemma add_node_cases:
  assumes "add_node new_id turn spec (nodes, canonical, created) = Inr st'"
  obtains (dropped) "st' = (nodes, canonical, created @ [None])"
      "strip (or_empty (ns_statement spec)) = [] \<or> ns_type spec \<notin> {Some ROOT, Some INTERMEDIATE}"
  | (reused) t nid where "st' = (nodes, canonical, created @ [Some nid])" "ns_type spec = Some t"
      "t \<in> {ROOT, INTERMEDIATE}" "strip (or_empty (ns_statement spec)) \<noteq> []"
      "dict_get canonical (t, normalize_statement (Some (strip (or_empty (ns_statement spec))))) = Some nid"
  | (created) t n where
      "st' = (dict_put (node_id n) n nodes, dict_put (node_key_of n) (node_id n) canonical, created @ [Some (node_id n)])"
      "ns_type spec = Some t" "t \<in> {ROOT, INTERMEDIATE}" "strip (or_empty (ns_statement spec)) \<noteq> []"
      "node_key_of n = (t, normalize_statement (Some (strip (or_empty (ns_statement spec)))))"
      "dict_get canonical (node_key_of n) = None"
      "new_node (new_id (Suc (length created))) (take 500 (strip (or_empty (ns_statement spec)))) t turn = Inr n"
proof -
  let ?s = "strip (or_empty (ns_statement spec))"
  note cases = that
  show thesis
  proof (cases "?s = [] \<or> ns_type spec \<notin> {Some ROOT, Some INTERMEDIATE}")
    case True
    then show thesis using assms cases(1) by (simp add: add_node_def Let_def)
  next
    case False
    then obtain t where t: "ns_type spec = Some t" "t \<in> {ROOT, INTERMEDIATE}" by auto
    let ?key = "(t, normalize_statement (Some ?s))"
    have step: "add_node new_id turn spec (nodes, canonical, created) =
        (case dict_get canonical ?key of
           Some nid \<Rightarrow> Inr (nodes, canonical, created @ [Some nid])
         | None \<Rightarrow> (case new_node (new_id (Suc (length created))) (take 500 ?s) t turn of
             Inl err \<Rightarrow> Inl err
           | Inr n \<Rightarrow> Inr (dict_put (node_id n) n nodes, dict_put ?key (node_id n) canonical,
               created @ [Some (node_id n)])))"
      using False t by (simp add: add_node_def Let_def)
    show thesis
    proof (cases "dict_get canonical ?key")
      case (Some nid)
      with assms step have "st' = (nodes, canonical, created @ [Some nid])" by simp
      then show thesis by (rule cases(2) [OF _ t]) (use False Some in auto)
    next
      case None
      have "\<exists>n. new_node (new_id (Suc (length created))) (take 500 ?s) t turn = Inr n
          \<and> st' = (dict_put (node_id n) n nodes, dict_put ?key (node_id n) canonical, created @ [Some (node_id n)])"
        using assms None unfolding step by (simp split: sum.splits)
      then obtain n where n: "new_node (new_id (Suc (length created))) (take 500 ?s) t turn = Inr n"
        "st' = (dict_put (node_id n) n nodes, dict_put ?key (node_id n) canonical, created @ [Some (node_id n)])"
        by (elim exE conjE)
      have key: "node_key_of n = ?key" using new_node_Inr [OF n(1)] by (intro node_key_take) simp_all
      show thesis
        by (rule cases(3) [OF _ t _ key _ n(1)]) (use n(2) None False key in auto)
    qed
  qed
qed

lemma next_id_new:
  assumes fresh: "fresh_node_ids new_id nodes0" and inv: "node_pass_inv new_id nodes0 (nodes, canonical, created)"
  shows "new_id (Suc (length created)) \<notin> set (dict_keys nodes)"
proof
  let ?i = "new_id (Suc (length created))"
  assume "?i \<in> set (dict_keys nodes)"
  from dict_key_get [OF this] obtain m where m: "dict_get nodes ?i = Some m" by (elim exE)
  have "dict_get nodes0 ?i = None" using fresh by (simp add: fresh_node_ids_def dict_get_None_iff)
  with m have "new_in nodes0 nodes ?i m" by (simp add: new_in_def)
  then have "added_ok new_id (length created) nodes ?i m" using inv by (simp add: node_pass_inv_def)
  then obtain j where j: "j < length created" "?i = new_id (Suc j)" by (auto simp: added_ok_def)
  have "inj new_id" using fresh by (simp add: fresh_node_ids_def)
  from injD [OF this j(2)] j(1) show False by simp
qed

lemma add_node_inv:
  assumes fresh: "fresh_node_ids new_id nodes0" and inv: "node_pass_inv new_id nodes0 st"
    and step: "add_node new_id turn spec st = Inr st'"
  shows "node_pass_inv new_id nodes0 st'"
proof -
  obtain nodes canonical created where st: "st = (nodes, canonical, created)" by (cases st)
  note inv' = inv [unfolded st node_pass_inv_def prod.case]
  have ok: "nodes_ok nodes" and idx: "index_ok nodes canonical" using inv' by blast+
  obtain extra where extra: "nodes = nodes0 @ extra" using inv' by blast
  have added: "\<And>k n. new_in nodes0 nodes k n \<Longrightarrow> added_ok new_id (length created) nodes k n"
    using inv' by blast
  show ?thesis
    using step unfolding st
  proof (cases rule: add_node_cases)
    case dropped
    then show ?thesis
      using inv' by (simp add: node_pass_inv_def added_ok_Suc answer_ok_def del: insert_iff)
  next
    case (reused t nid)
    obtain n where "dict_get nodes nid = Some n" "node_type n = t"
      using index_known [OF idx reused(5)] by (auto simp: node_key_of_def)
    then have "answer_ok nodes (Some nid)" using reused(3) by (simp add: answer_ok_def)
    then show ?thesis using inv' reused(1) by (simp add: node_pass_inv_def added_ok_Suc)
  next
    case (created t n)
    let ?i = "new_id (Suc (length created))"
    note n = new_node_Inr [OF created(7)]
    have new: "?i \<notin> set (dict_keys nodes)" by (rule next_id_new [OF fresh inv [unfolded st]])
    have id: "node_id n = ?i" using n by simp
    have kept: "dict_get nodes k = Some m \<Longrightarrow> dict_get (dict_put ?i n nodes) k = Some m" for k m
      using new dict_get_Some_key [of nodes k m] by auto
    have answers: "answer_ok (dict_put ?i n nodes) a" if "answer_ok nodes a" for a
      using that kept unfolding answer_ok_def by (metis option.inject)
    have keys: "node_key_of m \<noteq> node_key_of n" if "dict_get nodes k = Some m" for k m
      using index_knows [OF idx that] created(6) by metis
    have "added_ok new_id (Suc (length created)) (dict_put ?i n nodes) k m"
      if "new_in nodes0 (dict_put ?i n nodes) k m" for k m
    proof (cases "k = ?i")
      case True
      then have "m = n" using that by (simp add: new_in_def)
      moreover have "sole_owner (dict_put ?i n nodes) ?i n"
        using keys by (auto simp: sole_owner_def split: if_splits)
      ultimately show ?thesis using True n created(3) by (auto simp: added_ok_def)
    next
      case False
      then have "new_in nodes0 nodes k m" using that by (simp add: new_in_def)
      then have m: "added_ok new_id (length created) nodes k m" "dict_get nodes k = Some m"
        using added by (auto simp: new_in_def)
      have "sole_owner (dict_put ?i n nodes) k m"
        using m keys [OF m(2)] False by (auto simp: added_ok_def sole_owner_def split: if_splits)
      with added_ok_Suc [OF m(1)] show ?thesis by (simp add: added_ok_def)
    qed
    moreover have "nodes_ok (dict_put ?i n nodes)" using n id ok by (intro nodes_ok_put) simp_all
    moreover have "index_ok (dict_put ?i n nodes) (dict_put (node_key_of n) ?i canonical)"
      by (rule index_ok_put [OF idx new])
    moreover have "\<exists>extra. dict_put ?i n nodes = nodes0 @ extra"
      unfolding dict_put_new [OF new] using extra by simp
    moreover have "answer_ok (dict_put ?i n nodes) (Some ?i)" using n created(3) by (simp add: answer_ok_def)
    moreover have "list_all (answer_ok (dict_put ?i n nodes)) created"
      using inv' answers by (simp add: list_all_iff)
    ultimately show ?thesis
      unfolding created(1) id node_pass_inv_def prod.case by (intro conjI allI impI) simp_all
  qed
qed

lemma node_pass_keeps:
  assumes "fresh_node_ids new_id nodes0" "node_pass_inv new_id nodes0 st"
    and "try_fold (add_node new_id turn) specs st = Inr st'"
  shows "node_pass_inv new_id nodes0 st'"
  using try_fold_invariant [OF assms(3), of "node_pass_inv new_id nodes0"] add_node_inv [OF assms(1)] assms(2)
  by blast

lemma add_node_answers:
  assumes "add_node new_id turn spec st = Inr st'"
  shows "length (snd (snd st')) = Suc (length (snd (snd st)))"
  using assms by (cases st) (auto elim: add_node_cases)

text \<open>Whatever the emitted nodes are: an empty list leaves the nodes as they are.\<close>

definition node_result_ok ::
    "(nat \<Rightarrow> string) \<Rightarrow> (string, causal_node) pydict \<Rightarrow> (string, causal_node) pydict \<Rightarrow> string option list \<Rightarrow> bool" where
  "node_result_ok new_id nodes0 nodes created \<longleftrightarrow>
     nodes_ok nodes \<and> (\<exists>extra. nodes = nodes0 @ extra)
     \<and> (\<forall>k n. new_in nodes0 nodes k n \<longrightarrow> added_ok new_id (length created) nodes k n)
     \<and> list_all (answer_ok nodes) created"

lemma node_pass_result:
  assumes "nodes_ok nodes0" "fresh_node_ids new_id nodes0"
    and "try_fold (add_node new_id turn) specs
      (nodes0, if specs = [] then [] else canonical_index nodes0, []) = Inr (nodes, canonical, created)"
  shows "node_result_ok new_id nodes0 nodes created"
proof (cases "specs = []")
  case True
  with assms show ?thesis by (auto simp: node_result_ok_def new_in_def)
next
  case False
  with assms(3) have "try_fold (add_node new_id turn) specs (nodes0, canonical_index nodes0, [])
      = Inr (nodes, canonical, created)" by simp
  from node_pass_keeps [OF assms(2) node_pass_start [OF assms(1)] this]
  show ?thesis unfolding node_pass_inv_def node_result_ok_def by simp
qed

section \<open>The edge passes\<close>

text \<open>
  What an edge operation may do to the edges: keep them, give the first matching edge the group it
  lacks, or append one new edge between known nodes.
\<close>

definition fill_group :: "string option \<Rightarrow> causal_edge \<Rightarrow> causal_edge" where
  "fill_group grp e = e\<lparr>edge_group := grp\<rparr>"

lemma edge_ends_fill [simp]: "edge_ends (fill_group grp e) = edge_ends e"
  by (simp add: fill_group_def edge_ends_def)

lemma add_edge_cases:
  assumes "add_edge turn cause effect and_group reasoning (c, events) = Inr (c', events')"
  obtains (kept) "case_edges c' = case_edges c" "c' = c"
  | (grouped) a b grp e where "c' = c\<lparr>case_edges := update_first (same_ends a b) (fill_group (Some grp)) (case_edges c)\<rparr>"
      "find (same_ends a b) (case_edges c) = Some e" "edge_group e = None"
      "normalize_and_group (Some (MStr grp)) = Some grp"
  | (appended) e where "c' = c\<lparr>case_edges := case_edges c @ [e]\<rparr>" "edge_ok (case_nodes c) e"
      "edge_ends e \<notin> set (map edge_ends (case_edges c))"
proof -
  note cases = that
  show thesis
  proof (cases "\<not> truthy cause \<or> \<not> truthy effect \<or> cause = effect
      \<or> dict_get (case_nodes c) (or_empty cause) = None \<or> dict_get (case_nodes c) (or_empty effect) = None")
    case True
    then have "c' = c" using assms by (auto simp: add_edge_def split: if_splits)
    then show thesis using cases(1) by simp
  next
    case False
    let ?a = "or_empty cause" and ?b = "or_empty effect"
    define grp where "grp = normalize_and_group (map_option MStr and_group)"
    have ab: "?a \<noteq> ?b" using False by (auto elim!: truthyE)
    have stable: "normalize_and_group (map_option MStr grp) = grp"
      unfolding grp_def by (rule normalize_group_idem)
    have j: "join_edge turn ?a ?b and_group reasoning (c, events) = Inr (c', events')"
      using assms False by (auto simp: add_edge_def split: if_splits)
    show thesis
    proof (cases "find (same_ends ?a ?b) (case_edges c)")
      case None
      then obtain e where e: "new_edge ?a ?b grp reasoning turn = Inr e" "c' = c\<lparr>case_edges := case_edges c @ [e]\<rparr>"
        using j by (auto simp: join_edge_def grp_def split: sum.splits)
      have "edge_ok (case_nodes c) e" using e(1) False ab stable by (auto simp: new_edge_Inr edge_ok_def)
      moreover have "edge_ends e \<notin> set (map edge_ends (case_edges c))"
        using None e(1) by (auto simp: find_None_iff new_edge_Inr same_ends_def edge_ends_def)
      ultimately show thesis using cases(3) e(2) by simp
    next
      case (Some e)
      show thesis
      proof (cases "edge_group e = None \<and> grp \<noteq> None")
        case True
        then obtain k where k: "grp = Some k" by auto
        have "c' = c\<lparr>case_edges := update_first (same_ends ?a ?b) (fill_group (Some k)) (case_edges c)\<rparr>"
          using j Some True k by (simp add: join_edge_def grp_def [symmetric] Let_def fill_group_def [abs_def])
        then show thesis using cases(2) Some True stable k by simp
      next
        case False
        then have "c' = c" using j Some by (auto simp: join_edge_def grp_def [symmetric] Let_def split: if_splits)
        then show thesis using cases(1) by simp
      qed
    qed
  qed
qed

text \<open>The monotone merge: edges are never dropped, and a group, once set, stays.\<close>

definition edge_grows :: "causal_edge \<Rightarrow> causal_edge \<Rightarrow> bool" where
  "edge_grows e e' \<longleftrightarrow> e' = e \<or> edge_group e = None \<and> (\<exists>grp. e' = fill_group (Some grp) e)"

definition edges_grow :: "causal_edge list \<Rightarrow> causal_edge list \<Rightarrow> bool" where
  "edges_grow es es' \<longleftrightarrow> (\<exists>ts new. es' = ts @ new \<and> list_all2 edge_grows es ts)"

lemma edge_grows_refl [simp]: "edge_grows e e"
  by (simp add: edge_grows_def)

lemma edge_grows_trans: "edge_grows a b \<Longrightarrow> edge_grows b c \<Longrightarrow> edge_grows a c"
  by (auto simp: edge_grows_def fill_group_def)

lemma edges_grow_append: "edges_grow es (es @ new)"
  unfolding edges_grow_def
  by (rule exI [of _ es], rule exI [of _ new]) (simp add: list.rel_refl)

lemma edges_grow_refl: "edges_grow es es"
  using edges_grow_append [of es "[]"] by simp

lemma edges_grow_trans:
  assumes "edges_grow as bs" "edges_grow bs cs"
  shows "edges_grow as cs"
proof -
  obtain ts new where 1: "bs = ts @ new" "list_all2 edge_grows as ts" using assms(1) by (auto simp: edges_grow_def)
  obtain us new' where 2: "cs = us @ new'" "list_all2 edge_grows bs us" using assms(2) by (auto simp: edges_grow_def)
  then obtain u1 u2 where u: "us = u1 @ u2" "list_all2 edge_grows ts u1"
    unfolding 1 by (auto simp: list_all2_append1)
  have "list_all2 edge_grows as u1"
    by (rule list_all2_trans [OF _ 1(2) u(2)]) (rule edge_grows_trans)
  with 2 u show ?thesis unfolding edges_grow_def by (intro exI [of _ u1] exI [of _ "u2 @ new'"]) simp
qed

lemma update_first_grows:
  "find P es = Some e \<Longrightarrow> edge_group e = None \<Longrightarrow> list_all2 edge_grows es (update_first P (fill_group (Some grp)) es)"
proof (induction es)
  case (Cons x es)
  show ?case
  proof (cases "P x")
    case True
    with Cons.prems show ?thesis by (auto simp: edge_grows_def intro!: list.rel_refl)
  qed (use Cons in simp)
qed simp

definition edge_pass_ok :: "case_data \<Rightarrow> edge_pass \<Rightarrow> bool" where
  "edge_pass_ok c0 = (\<lambda>(c, _). \<exists>es. c = c0\<lparr>case_edges := es\<rparr> \<and> edges_ok (case_nodes c0) es \<and> edges_grow (case_edges c0) es)"

lemma add_edge_ok:
  assumes "edge_pass_ok c0 st" "add_edge turn cause effect and_group reasoning st = Inr st'"
  shows "edge_pass_ok c0 st'"
proof -
  obtain c events c' events' where st: "st = (c, events)" "st' = (c', events')" by (cases st, cases st')
  obtain es where es: "c = c0\<lparr>case_edges := es\<rparr>" "edges_ok (case_nodes c0) es" "edges_grow (case_edges c0) es"
    using assms(1) by (auto simp: edge_pass_ok_def st)
  have "\<exists>es'. c' = c0\<lparr>case_edges := es'\<rparr> \<and> edges_ok (case_nodes c0) es' \<and> edges_grow es es'"
    using assms(2) unfolding st
  proof (cases rule: add_edge_cases)
    case kept
    then show ?thesis using es by (intro exI [of _ es]) (simp add: edges_grow_refl)
  next
    case (grouped a b grp e)
    let ?u = "update_first (same_ends a b) (fill_group (Some grp)) es"
    have "map edge_ends ?u = map edge_ends es" by (rule map_update_first) simp
    moreover have "list_all (edge_ok (case_nodes c0)) ?u"
      using es(2) grouped(4) by (auto simp: edges_ok_def list_all_iff edge_ok_def fill_group_def dest!: update_first_mem)
    moreover have "edges_grow es ?u"
      unfolding edges_grow_def
      using update_first_grows [of "same_ends a b" es e grp] grouped(2,3) es(1) by auto
    ultimately show ?thesis using grouped(1) es by (intro exI [of _ ?u]) (simp add: edges_ok_def)
  next
    case (appended e)
    have "edges_grow es (es @ [e])" by (rule edges_grow_append)
    then show ?thesis using appended es by (intro exI [of _ "es @ [e]"]) (simp add: edges_ok_def)
  qed
  then show ?thesis using es(3) edges_grow_trans by (auto simp: st edge_pass_ok_def)
qed

lemma add_produced_ok:
  "edge_pass_ok c0 st \<Longrightarrow> add_produced turn d created x st = Inr st' \<Longrightarrow> edge_pass_ok c0 st'"
  by (cases x) (auto simp: add_produced_def split: if_splits dest: add_edge_ok)

lemma add_explicit_ok:
  "edge_pass_ok c0 st \<Longrightarrow> add_explicit turn d created x st = Inr st' \<Longrightarrow> edge_pass_ok c0 st'"
  by (auto simp: add_explicit_def dest: add_edge_ok)

lemma edge_passes_ok:
  assumes "edges_ok (case_nodes c0) (case_edges c0)"
    and "try_fold (add_produced turn d created) xs (c0, []) = Inr st1"
    and "try_fold (add_explicit turn d created) ys st1 = Inr st2"
  shows "edge_pass_ok c0 st2"
proof -
  have "edge_pass_ok c0 (c0, [])"
    using assms(1) edges_grow_refl by (auto simp: edge_pass_ok_def intro!: exI [of _ "case_edges c0"])
  with assms(2) have "edge_pass_ok c0 st1"
    by (rule try_fold_invariant) (rule add_produced_ok)
  with assms(3) show ?thesis by (rule try_fold_invariant) (rule add_explicit_ok)
qed

section \<open>The link pass\<close>

definition absence_link :: "(string, evidence_category) pydict \<Rightarrow> node_link \<Rightarrow> bool" where
  "absence_link cats l \<longleftrightarrow> absence_row_link_refused (dict_get cats (link_evidence_id l))"

text \<open>A node after link operations: only its links may differ, those on absence rows not at all, and
there is at most one link per row if there was before.\<close>

definition relinked :: "(string, evidence_category) pydict \<Rightarrow> causal_node \<Rightarrow> causal_node \<Rightarrow> bool" where
  "relinked cats n0 n \<longleftrightarrow> n = n0\<lparr>node_links := node_links n\<rparr>
     \<and> filter (absence_link cats) (node_links n) = filter (absence_link cats) (node_links n0)
     \<and> (distinct (map link_evidence_id (node_links n0)) \<longrightarrow> distinct (map link_evidence_id (node_links n)))"

lemma relinked_refl [simp]: "relinked cats n n"
  by (simp add: relinked_def)

lemma relinked_trans:
  assumes "relinked cats a b" "relinked cats b c"
  shows "relinked cats a c"
proof -
  have "c = a\<lparr>node_links := node_links c\<rparr>"
    using assms unfolding relinked_def by (metis causal_node.update_convs(8) causal_node.surjective)
  with assms show ?thesis by (simp add: relinked_def)
qed

lemma filter_update_first_other:
  "\<not> Q y \<Longrightarrow> (\<And>x. x \<in> set xs \<Longrightarrow> P x \<Longrightarrow> \<not> Q x) \<Longrightarrow> filter Q (update_first P (\<lambda>_. y) xs) = filter Q xs"
  by (induction xs) auto

lemma upsert_relinked:
  assumes "\<not> absence_link cats fresh"
  shows "relinked cats n (n\<lparr>node_links := upsert_link fresh (node_links n)\<rparr>)"
proof -
  let ?P = "for_evidence (link_evidence_id fresh)" and ?ls = "node_links n"
  have "filter (absence_link cats) (upsert_link fresh ?ls) = filter (absence_link cats) ?ls"
    using assms by (auto simp: upsert_link_def for_evidence_def absence_link_def intro!: filter_update_first_other)
  moreover have "map link_evidence_id (update_first ?P (\<lambda>_. fresh) ?ls) = map link_evidence_id ?ls"
    by (rule map_update_first) (simp add: for_evidence_def)
  then have "distinct (map link_evidence_id ?ls) \<longrightarrow> distinct (map link_evidence_id (upsert_link fresh ?ls))"
    by (auto simp: upsert_link_def list_ex_iff for_evidence_def)
  ultimately show ?thesis by (simp add: relinked_def)
qed

lemma write_link_cases:
  assumes "write_link spec nid node eid stance (c, events, sinks) = Inr (c', events', sinks')"
  obtains (kept) "c' = c"
  | (written) fresh where "link_evidence_id fresh = eid" "link_stance fresh = stance"
      "c' = c\<lparr>case_nodes := dict_put nid (node\<lparr>node_links := upsert_link fresh (node_links node)\<rparr>) (case_nodes c)\<rparr>"
proof -
  note cases = that
  obtain settled s1 where s: "settle_set_aside_link (ls_schema spec) (ls_set_aside spec) (Some stance)
      (map_option link_stance (find (for_evidence eid) (node_links node))) (nid @ ''<-'' @ eid) sinks = (settled, s1)"
    by (metis surj_pair)
  let ?w = "written_confidence (find (for_evidence eid) (node_links node)) (ls_confidence spec) settled"
  show thesis
  proof (cases ?w)
    case None
    then show thesis using assms s cases(1) by (simp add: write_link_def)
  next
    case (Some q)
    let ?l = "new_link eid stance (if truthy (ls_reasoning spec) then or_empty (ls_reasoning spec) else ''node evidence'') q 0"
    show thesis
    proof (cases ?l)
      case (Inl err)
      then show thesis using assms s Some by (simp add: write_link_def)
    next
      case (Inr fresh)
      then have "link_evidence_id fresh = eid" "link_stance fresh = stance" by (auto simp: new_link_Inr)
      then show thesis using assms s Some Inr cases(2) by (simp add: write_link_def)
    qed
  qed
qed

lemma add_link_cases:
  assumes "add_link d created slots spec (c, events, sinks) = Inr (c', events', sinks')"
  obtains (kept) "c' = c"
  | (written) nid node fresh where "dict_get (case_nodes c) nid = Some node"
      "link_evidence_id fresh \<in> set (map ev_id (case_evidence c))"
      "\<not> absence_link (evidence_category_map c) fresh"
      "c' = c\<lparr>case_nodes := dict_put nid (node\<lparr>node_links := upsert_link fresh (node_links node)\<rparr>) (case_nodes c)\<rparr>"
proof -
  note cases = that
  let ?nid = "resolve_ref d created (case_nodes c) (ls_node_ref spec)"
  let ?node = "if truthy ?nid then dict_get (case_nodes c) (or_empty ?nid) else None"
  let ?eid = "resolve_evidence_ref slots (or_else (ls_evidence_id spec) (ls_evidence_id_ref spec))"
  show thesis
  proof (cases "\<exists>n e stance. ?node = Some n \<and> ?eid = Some e \<and> ls_stance spec = Some stance
      \<and> e \<in> set (map ev_id (case_evidence c)) \<and> \<not> absence_row_link_refused (dict_get (evidence_category_map c) e)")
    case True
    then obtain n e stance where h: "?node = Some n" "?eid = Some e" "ls_stance spec = Some stance"
      "e \<in> set (map ev_id (case_evidence c))" "\<not> absence_row_link_refused (dict_get (evidence_category_map c) e)"
      by (elim exE conjE)
    then have "write_link spec (or_empty ?nid) n e stance (c, events, sinks) = Inr (c', events', sinks')"
      using assms by (simp add: add_link_def Let_def)
    moreover have "dict_get (case_nodes c) (or_empty ?nid) = Some n" using h(1) by (simp split: if_splits)
    ultimately show thesis
      using h(4,5) by (cases rule: write_link_cases) (use cases in \<open>auto simp: absence_link_def\<close>)
  next
    case False
    then have "c' = c"
      using assms unfolding add_link_def Let_def
      by (auto split: option.splits if_splits)
    then show thesis by (rule cases(1))
  qed
qed

definition relinked_nodes ::
    "(string, evidence_category) pydict \<Rightarrow> (string, causal_node) pydict \<Rightarrow> (string, causal_node) pydict \<Rightarrow> bool" where
  "relinked_nodes cats nodes0 nodes \<longleftrightarrow> dict_keys nodes = dict_keys nodes0
     \<and> (\<forall>k n. dict_get nodes k = Some n \<longrightarrow> (\<exists>n0. dict_get nodes0 k = Some n0 \<and> relinked cats n0 n))"

lemma relinked_nodes_refl: "relinked_nodes cats nodes nodes"
  by (simp add: relinked_nodes_def)

lemma relinked_nodes_put:
  assumes "relinked_nodes cats nodes0 nodes" "dict_get nodes k = Some n" "relinked cats n m"
  shows "relinked_nodes cats nodes0 (dict_put k m nodes)"
proof -
  obtain n0 where "dict_get nodes0 k = Some n0" "relinked cats n0 n"
    using assms(1,2) unfolding relinked_nodes_def by blast
  then have "\<exists>n0. dict_get nodes0 k = Some n0 \<and> relinked cats n0 m"
    using relinked_trans [OF _ assms(3)] by blast
  moreover have "dict_keys (dict_put k m nodes) = dict_keys nodes"
    using dict_get_Some_key [OF assms(2)] by simp
  ultimately show ?thesis
    using assms(1) unfolding relinked_nodes_def by simp
qed

lemma relinked_nodes_ok:
  assumes "nodes_ok nodes0" "relinked_nodes cats nodes0 nodes"
  shows "nodes_ok nodes"
  unfolding nodes_ok_def
proof (intro conjI allI impI)
  show "dict_wf nodes" using assms by (simp add: relinked_nodes_def nodes_ok_wf)
next
  fix k n
  assume "dict_get nodes k = Some n"
  then obtain n0 where n0: "dict_get nodes0 k = Some n0" "relinked cats n0 n"
    using assms(2) unfolding relinked_nodes_def by blast
  then obtain ls where "n = n0\<lparr>node_links := ls\<rparr>" unfolding relinked_def by blast
  then show "node_id n = k" "node_ok n"
    using nodes_okD [OF assms(1) n0(1)] by (simp_all add: node_ok_def)
qed

definition link_pass_ok :: "case_data \<Rightarrow> link_pass \<Rightarrow> bool" where
  "link_pass_ok c0 = (\<lambda>(c, _). \<exists>nodes. c = c0\<lparr>case_nodes := nodes\<rparr>
     \<and> relinked_nodes (evidence_category_map c0) (case_nodes c0) nodes)"

lemma evidence_category_map_nodes [simp]:
  "evidence_category_map (c\<lparr>case_nodes := ns\<rparr>) = evidence_category_map c"
  "evidence_category_map (c\<lparr>case_edges := es\<rparr>) = evidence_category_map c"
  by (simp_all add: evidence_category_map_def)

lemma add_link_ok:
  assumes "link_pass_ok c0 st" "add_link d created slots spec st = Inr st'"
  shows "link_pass_ok c0 st'"
proof -
  obtain c events sinks c' events' sinks' where st: "st = (c, events, sinks)" "st' = (c', events', sinks')"
    by (cases st, cases st')
  obtain nodes where n: "c = c0\<lparr>case_nodes := nodes\<rparr>" "relinked_nodes (evidence_category_map c0) (case_nodes c0) nodes"
    using assms(1) by (auto simp: link_pass_ok_def st)
  from assms(2) have "add_link d created slots spec (c, events, sinks) = Inr (c', events', sinks')" by (simp only: st)
  then show ?thesis
  proof (cases rule: add_link_cases)
    case kept
    then show ?thesis using assms(1) by (simp only: st link_pass_ok_def prod.case)
  next
    case (written nid node fresh)
    have "relinked_nodes (evidence_category_map c0) (case_nodes c0)
        (dict_put nid (node\<lparr>node_links := upsert_link fresh (node_links node)\<rparr>) nodes)"
      by (rule relinked_nodes_put [OF n(2) _ upsert_relinked]) (use n(1) written(1,3) in simp_all)
    then show ?thesis using written(4) n(1) by (auto simp: st link_pass_ok_def)
  qed
qed

section \<open>The whole ingest\<close>

text \<open>
  The stages of a returning ingest: seeding, the nodes, the edges, the links. Without a problem to
  anchor on nothing changes.
\<close>

lemma seed_cases:
  assumes "seed_problem_node fresh turn c = Inr (c', p)"
  obtains (present) n where "c' = c" "p = Some n" "problem_node (case_nodes c) = Some n"
  | (absent) "c' = c" "p = None" "problem_node (case_nodes c) = None"
  | (seeded) n where "c' = c\<lparr>case_nodes := dict_put fresh n (case_nodes c)\<rparr>" "p = Some n"
      "problem_node (case_nodes c) = None" "node_id n = fresh" "node_type n = PROBLEM" "node_ok n"
      "node_links n = []" "node_state n = CANDIDATE"
proof (cases "problem_node (case_nodes c)")
  case (Some n)
  then show thesis using assms present [of n] by (simp add: seed_problem_node_def)
next
  case None
  show thesis
  proof (cases "p = None")
    case True
    then show thesis
      using assms None absent by (auto simp: seed_problem_node_def split: option.splits if_splits sum.splits)
  next
    case False
    then obtain s t n where n: "new_node fresh s PROBLEM t = Inr n"
      "c' = c\<lparr>case_nodes := dict_put (node_id n) n (case_nodes c)\<rparr>" "p = Some n"
      using assms None by (auto simp: seed_problem_node_def split: option.splits if_splits sum.splits)
    then show thesis using seeded [of n] None new_node_Inr [OF n(1)] by simp
  qed
qed

lemma ingest_cases:
  assumes "ingest_emitted_chain new_id c nodes_to_add edges_to_add node_evidence turn slots sinks = Inr r"
  obtains (unanchored) "ing_case r = c" "ing_created r = []" "seed_problem_node (new_id 0) (Some turn) c = Inr (c, None)"
  | (anchored) c0 p nodes canonical st1 c2 events where
      "seed_problem_node (new_id 0) (Some turn) c = Inr (c0, Some p)"
      "try_fold (add_node new_id turn) nodes_to_add
         (case_nodes c0, if nodes_to_add = [] then [] else canonical_index (case_nodes c0), [])
         = Inr (nodes, canonical, ing_created r)"
      "try_fold (add_produced turn (node_id p) (ing_created r)) (zip nodes_to_add (ing_created r))
         (c0\<lparr>case_nodes := nodes\<rparr>, []) = Inr st1"
      "try_fold (add_explicit turn (node_id p) (ing_created r)) edges_to_add st1 = Inr (c2, events)"
      "try_fold (add_link (node_id p) (ing_created r) slots) node_evidence (c2, events, sinks)
         = Inr (ing_case r, ing_events r, ing_sinks r)"
proof -
  note cases = that
  obtain c0 q where seed: "seed_problem_node (new_id 0) (Some turn) c = Inr (c0, q)"
    using assms by (auto simp: ingest_emitted_chain_def split: sum.splits)
  show thesis
  proof (cases q)
    case None
    then have "c0 = c" using seed by (auto elim: seed_cases)
    with None show thesis
      using assms seed cases(1) by (auto simp: ingest_emitted_chain_def)
  next
    case (Some p)
    let ?canon = "if nodes_to_add = [] then [] else canonical_index (case_nodes c0)"
    note start = assms [unfolded ingest_emitted_chain_def seed Some sum.case prod.case option.case]
    obtain nodes canonical created where 1: "try_fold (add_node new_id turn) nodes_to_add
        (case_nodes c0, ?canon, []) = Inr (nodes, canonical, created)"
      using start by (auto split: sum.splits)
    note start = start [unfolded 1 sum.case prod.case]
    obtain st1 where 2: "try_fold (add_produced turn (node_id p) created) (zip nodes_to_add created)
        (c0\<lparr>case_nodes := nodes\<rparr>, []) = Inr st1"
      using start by (auto split: sum.splits)
    note start = start [unfolded 2 sum.case prod.case]
    obtain c2 events where 3: "try_fold (add_explicit turn (node_id p) created) edges_to_add st1 = Inr (c2, events)"
      using start by (auto split: sum.splits)
    note start = start [unfolded 3 sum.case prod.case]
    obtain c3 ev s where 4: "try_fold (add_link (node_id p) created slots) node_evidence (c2, events, sinks) = Inr (c3, ev, s)"
      using start by (auto split: sum.splits)
    have "r = \<lparr>ing_case = c3, ing_created = created, ing_events = ev, ing_sinks = s\<rparr>"
      using start [unfolded 4 sum.case prod.case] by simp
    then show thesis using cases(2) [of c0 p nodes canonical st1 c2 events] seed Some 1 2 3 4 by simp
  qed
qed

lemma seed_graph_ok:
  assumes "graph_ok c" "fresh \<notin> set (dict_keys (case_nodes c))"
    and "seed_problem_node fresh turn c = Inr (c', p)"
  shows "graph_ok c' \<and> case_edges c' = case_edges c \<and> (\<exists>extra. case_nodes c' = case_nodes c @ extra)
    \<and> set (dict_keys (case_nodes c')) \<subseteq> insert fresh (set (dict_keys (case_nodes c)))"
  using assms(3)
proof (cases rule: seed_cases)
  case (seeded n)
  let ?ns = "dict_put fresh n (case_nodes c)"
  have "nodes_ok ?ns" using assms(1) seeded by (intro nodes_ok_put) (simp_all add: graph_ok_def)
  moreover have "edges_ok ?ns (case_edges c)"
    using assms(1) by (auto simp: graph_ok_def edges_ok_def list_all_iff edge_ok_def)
  moreover have "\<exists>extra. ?ns = case_nodes c @ extra" by (simp add: dict_put_new [OF assms(2)])
  moreover have "set (dict_keys ?ns) = insert fresh (set (dict_keys (case_nodes c)))" by simp
  ultimately show ?thesis using seeded(1) by (simp add: graph_ok_def)
qed (use assms in auto)

definition same_rest :: "case_data \<Rightarrow> case_data \<Rightarrow> bool" where
  "same_rest c c' \<longleftrightarrow> c' = c\<lparr>case_nodes := case_nodes c', case_edges := case_edges c'\<rparr>"

lemma seed_new:
  assumes "seed_problem_node fresh turn c = Inr (c', p)"
  shows "same_rest c c'"
    and "new_in (case_nodes c) (case_nodes c') k n \<Longrightarrow> node_type n = PROBLEM \<and> node_state n = CANDIDATE \<and> node_links n = []"
  using assms by (auto elim!: seed_cases simp: same_rest_def new_in_def split: if_splits)

lemma dict_get_append_old: "dict_get nodes k = Some n \<Longrightarrow> dict_get (nodes @ extra) k = Some n"
  by (simp add: dict_get_def)

lemma edges_ok_append: "edges_ok nodes es \<Longrightarrow> edges_ok (nodes @ extra) es"
  by (auto simp: edges_ok_def list_all_iff edge_ok_def dest: dict_get_append_old)

lemma edges_ok_relinked: "relinked_nodes cats nodes0 nodes \<Longrightarrow> edges_ok nodes0 es \<Longrightarrow> edges_ok nodes es"
  by (simp add: edges_ok_def edge_ok_def [abs_def] dict_get_None_iff relinked_nodes_def)

text \<open>What a returning ingest leaves, relative to the case before it.\<close>

definition ingest_ok :: "case_data \<Rightarrow> ingest_result \<Rightarrow> bool" where
  "ingest_ok c r \<longleftrightarrow> (let c' = ing_case r; cats = evidence_category_map c in
     graph_ok c' \<and> edges_grow (case_edges c) (case_edges c') \<and> same_rest c c'
     \<and> (\<forall>k n. dict_get (case_nodes c) k = Some n \<longrightarrow>
          (\<exists>n'. dict_get (case_nodes c') k = Some n' \<and> relinked cats n n'))
     \<and> (\<forall>k n. new_in (case_nodes c) (case_nodes c') k n \<longrightarrow>
          node_state n = CANDIDATE \<and> list_all (\<lambda>l. \<not> absence_link cats l) (node_links n)
          \<and> (node_type n = PROBLEM \<or> sole_owner (case_nodes c') k n))
     \<and> list_all (answer_ok (case_nodes c')) (ing_created r))"

lemma relinked_same [simp]: "relinked cats n m \<Longrightarrow> node_key_of m = node_key_of n \<and> node_type m = node_type n \<and> node_state m = node_state n"
  unfolding relinked_def by (metis causal_node.select_convs(2,3,4) causal_node.surjective causal_node.update_convs(8) node_key_of_def)

lemma ingest_keeps:
  assumes ok: "graph_ok c" and fresh: "fresh_ids new_id (case_nodes c)"
    and ing: "ingest_emitted_chain new_id c nodes_to_add edges_to_add node_evidence turn slots sinks = Inr r"
  shows "ingest_ok c r"
  using ing
proof (cases rule: ingest_cases)
  case unanchored
  then show ?thesis
    using ok by (auto simp: ingest_ok_def Let_def edges_grow_refl same_rest_def new_in_def)
next
  case (anchored c0 p nodes canonical st1 c2 events)
  let ?cats = "evidence_category_map c"
  have new0: "new_id 0 \<notin> set (dict_keys (case_nodes c))" and inj: "inj new_id"
    using fresh by (simp_all add: fresh_ids_def)
  note seed = seed_graph_ok [OF ok new0 anchored(1)]
  have "new_id (Suc i) \<notin> set (dict_keys (case_nodes c0))" for i
    using seed fresh by (auto simp: fresh_ids_def dest: injD)
  then have fresh0: "fresh_node_ids new_id (case_nodes c0)" by (simp add: fresh_node_ids_def inj)
  have ok0: "nodes_ok (case_nodes c0)" using seed by (simp add: graph_ok_def)
  note nodes = node_pass_result [OF ok0 fresh0 anchored(2), unfolded node_result_ok_def]
  obtain extra where extra: "nodes = case_nodes c0 @ extra" using nodes by blast
  obtain extra0 where extra0: "case_nodes c0 = case_nodes c @ extra0" using seed by blast
  have cats: "evidence_category_map c0 = ?cats" and e0: "case_edges c0 = case_edges c"
    using seed_new(1) [OF anchored(1)] seed unfolding same_rest_def
    by (metis evidence_category_map_nodes, simp)
  have "edges_ok nodes (case_edges c0)"
    unfolding extra by (rule edges_ok_append) (use seed in \<open>unfold graph_ok_def, blast\<close>)
  then have "edge_pass_ok (c0\<lparr>case_nodes := nodes\<rparr>) (c2, events)"
    using edge_passes_ok [OF _ anchored(3,4)] by simp
  then obtain es where es: "c2 = c0\<lparr>case_nodes := nodes, case_edges := es\<rparr>" "edges_ok nodes es"
    "edges_grow (case_edges c) es"
    by (auto simp: edge_pass_ok_def e0)
  have "link_pass_ok c2 (c2, events, sinks)"
    by (auto simp: link_pass_ok_def intro!: exI [of _ "case_nodes c2"] relinked_nodes_refl)
  with anchored(5) have "link_pass_ok c2 (ing_case r, ing_events r, ing_sinks r)"
    by (rule try_fold_invariant) (rule add_link_ok)
  then obtain nodes' where n': "ing_case r = c0\<lparr>case_edges := es, case_nodes := nodes'\<rparr>" "relinked_nodes ?cats nodes nodes'"
    by (auto simp: link_pass_ok_def es(1) cats)
  have origin: "\<exists>n0. dict_get nodes k = Some n0 \<and> relinked ?cats n0 n" if "dict_get nodes' k = Some n" for k n
    using n'(2) that unfolding relinked_nodes_def by blast
  have forth: "\<exists>n. dict_get nodes' k = Some n \<and> relinked ?cats n0 n" if "dict_get nodes k = Some n0" for k n0
  proof -
    have "k \<in> set (dict_keys nodes')"
      using n'(2) dict_get_Some_key [OF that] by (simp add: relinked_nodes_def)
    from dict_key_get [OF this] obtain n where n: "dict_get nodes' k = Some n" by (elim exE)
    with origin [OF n] that show ?thesis by auto
  qed
  have "graph_ok (ing_case r)"
    using relinked_nodes_ok [OF _ n'(2)] nodes edges_ok_relinked [OF n'(2) es(2)] n'(1) by (simp add: graph_ok_def)
  moreover have "same_rest c (ing_case r)"
    using seed_new(1) [OF anchored(1)] n'(1) unfolding same_rest_def by (metis (no_types) case_data.update_convs(1,2) case_data.select_convs(1,2) case_data.surjective)
  moreover have "\<exists>n'. dict_get nodes' k = Some n' \<and> relinked ?cats n n'" if "dict_get (case_nodes c) k = Some n" for k n
    using forth [of k n] that by (simp add: extra extra0 dict_get_append_old)
  moreover have "node_state n = CANDIDATE \<and> list_all (\<lambda>l. \<not> absence_link ?cats l) (node_links n)
      \<and> (node_type n = PROBLEM \<or> sole_owner nodes' k n)" if "new_in (case_nodes c) nodes' k n" for k n
  proof -
    from that obtain n0 where n0: "dict_get nodes k = Some n0" "relinked ?cats n0 n"
      using origin unfolding new_in_def by blast
    have "node_state n0 = CANDIDATE \<and> node_links n0 = [] \<and> (node_type n0 = PROBLEM \<or> sole_owner nodes k n0)"
    proof (cases "dict_get (case_nodes c0) k")
      case None
      with n0 have "new_in (case_nodes c0) nodes k n0" by (simp add: new_in_def)
      then show ?thesis using nodes by (auto simp: added_ok_def)
    next
      case (Some m)
      with n0(1) have "m = n0" by (simp add: extra dict_get_append_old)
      with Some that have "new_in (case_nodes c) (case_nodes c0) k n0" by (simp add: new_in_def)
      from seed_new(2) [OF anchored(1) this] show ?thesis by simp
    qed
    moreover have "sole_owner nodes' k n" if "sole_owner nodes k n0"
      unfolding sole_owner_def
    proof (intro allI impI)
      fix k' m
      assume m: "dict_get nodes' k' = Some m \<and> node_key_of m = node_key_of n"
      then obtain m0 where "dict_get nodes k' = Some m0" "relinked ?cats m0 m" using origin by blast
      with m n0(2) that show "k' = k" by (simp add: sole_owner_def)
    qed
    moreover have "filter (absence_link ?cats) (node_links n) = filter (absence_link ?cats) (node_links n0)"
      using n0(2) by (simp add: relinked_def)
    ultimately show ?thesis using relinked_same [OF n0(2)] by (auto simp: filter_empty_conv list_all_iff)
  qed
  moreover have "list_all (answer_ok nodes') (ing_created r)"
  proof -
    have "answer_ok nodes' a" if "answer_ok nodes a" for a
      unfolding answer_ok_def
    proof (intro allI impI)
      fix nid
      assume "a = Some nid"
      with that obtain n0 where n0: "dict_get nodes nid = Some n0" "node_type n0 \<in> {ROOT, INTERMEDIATE}"
        unfolding answer_ok_def by blast
      from forth [OF n0(1)] n0(2) relinked_same
      show "\<exists>n. dict_get nodes' nid = Some n \<and> node_type n \<in> {ROOT, INTERMEDIATE}" by metis
    qed
    then show ?thesis using nodes by (simp add: list_all_iff)
  qed
  ultimately show ?thesis using n'(1) es(3) by (simp add: ingest_ok_def Let_def)
qed

section \<open>Re-emission\<close>

subsection \<open>The answer a node gets depends on the final nodes only\<close>

definition has_key :: "node_key \<Rightarrow> string \<times> causal_node \<Rightarrow> bool" where
  "has_key key = (\<lambda>(_, n). node_key_of n = key)"

definition spec_dropped :: "node_spec \<Rightarrow> bool" where
  "spec_dropped spec \<longleftrightarrow> strip (or_empty (ns_statement spec)) = [] \<or> ns_type spec \<notin> {Some ROOT, Some INTERMEDIATE}"

definition spec_key :: "node_spec \<Rightarrow> node_key" where
  "spec_key spec = (the (ns_type spec), normalize_statement (Some (strip (or_empty (ns_statement spec)))))"

definition answer_in :: "(string, causal_node) pydict \<Rightarrow> node_spec \<Rightarrow> string option" where
  "answer_in nodes spec = (if spec_dropped spec then None else map_option fst (find (has_key (spec_key spec)) nodes))"

definition index_exact :: "(string, causal_node) pydict \<Rightarrow> (node_key, string) pydict \<Rightarrow> bool" where
  "index_exact nodes canonical \<longleftrightarrow> (\<forall>key. dict_get canonical key = map_option fst (find (has_key key) nodes))"

lemma index_exactD: "index_exact nodes canonical \<Longrightarrow> dict_get canonical key = map_option fst (find (has_key key) nodes)"
  unfolding index_exact_def by blast

lemma canonical_index_exact: "index_exact nodes (canonical_index nodes)"
  by (simp add: index_exact_def canonical_index_get has_key_def)

lemma find_append_Some: "find P xs = Some x \<Longrightarrow> find P (xs @ ys) = Some x"
  by (induction xs) (auto split: if_splits)

lemma find_append_None: "find P xs = None \<Longrightarrow> find P (xs @ ys) = find P ys"
  by (induction xs) (auto split: if_splits)

lemma index_exact_append:
  assumes "index_exact nodes canonical" "find (has_key (node_key_of n)) nodes = None"
  shows "index_exact (nodes @ [(k, n)]) (dict_put (node_key_of n) k canonical)"
  unfolding index_exact_def
proof
  fix key
  show "dict_get (dict_put (node_key_of n) k canonical) key = map_option fst (find (has_key key) (nodes @ [(k, n)]))"
  proof (cases "key = node_key_of n")
    case True
    then show ?thesis using assms(2) by (simp add: find_append_None) (simp add: has_key_def)
  next
    case False
    have "find (has_key key) (nodes @ [(k, n)]) = find (has_key key) nodes"
      using False by (cases "find (has_key key) nodes")
        (simp_all add: find_append_None find_append_Some, simp add: has_key_def)
    with False index_exactD [OF assms(1), of key] show ?thesis by simp
  qed
qed

lemma node_pass_answers:
  assumes "try_fold (add_node new_id turn) specs (nodes0, canonical0, created0) = Inr (nodes, canonical, created)"
    and "index_exact nodes0 canonical0" "fresh_node_ids new_id base" "node_pass_inv new_id base (nodes0, canonical0, created0)"
  shows "(\<exists>extra. nodes = nodes0 @ extra) \<and> created = created0 @ map (answer_in nodes) specs
    \<and> (\<forall>spec \<in> set specs. \<not> spec_dropped spec \<longrightarrow> answer_in nodes spec \<noteq> None)"
  using assms
proof (induction specs arbitrary: nodes0 canonical0 created0)
  case (Cons spec specs)
  then obtain st1 where st1: "add_node new_id turn spec (nodes0, canonical0, created0) = Inr st1"
    "try_fold (add_node new_id turn) specs st1 = Inr (nodes, canonical, created)"
    by (auto split: sum.splits)
  obtain n1 c1 a1 where s1: "st1 = (n1, c1, a1)" by (cases st1)
  have inv1: "node_pass_inv new_id base (n1, c1, a1)"
    using add_node_inv [OF Cons.prems(3,4) st1(1)] by (simp add: s1)
  have "(\<exists>extra. n1 = nodes0 @ extra) \<and> index_exact n1 c1
      \<and> (\<exists>a. a1 = created0 @ [a] \<and> (\<forall>extra. answer_in (n1 @ extra) spec = a) \<and> (\<not> spec_dropped spec \<longrightarrow> a \<noteq> None))"
    using st1(1) unfolding s1
  proof (cases rule: add_node_cases)
    case dropped
    then show ?thesis using Cons.prems(2) by (auto simp: spec_dropped_def answer_in_def)
  next
    case (reused t nid)
    have key: "spec_key spec = (t, normalize_statement (Some (strip (or_empty (ns_statement spec)))))"
      using reused(2) by (simp add: spec_key_def)
    have keep: "\<not> spec_dropped spec" using reused(2-4) by (auto simp: spec_dropped_def)
    obtain n where "find (has_key (spec_key spec)) nodes0 = Some (nid, n)"
      using reused(5) Cons.prems(2) unfolding index_exact_def key by auto
    then have "answer_in (nodes0 @ extra) spec = Some nid" for extra
      using keep by (simp add: answer_in_def find_append_Some)
    then show ?thesis using reused(1) Cons.prems(2) by auto
  next
    case (created t n)
    have key: "spec_key spec = node_key_of n"
      using created(2,5) by (simp add: spec_key_def)
    have keep: "\<not> spec_dropped spec" using created(2-4) by (auto simp: spec_dropped_def)
    have none: "find (has_key (node_key_of n)) nodes0 = None"
      using created(6) Cons.prems(2) unfolding index_exact_def by simp
    have "nodes_ok n1" "\<exists>extra. n1 = base @ extra" using inv1 by (simp_all add: node_pass_inv_def)
    have new: "node_id n \<notin> set (dict_keys nodes0)"
      using next_id_new [OF Cons.prems(3,4)] new_node_Inr [OF created(7)] by simp
    have n1: "n1 = nodes0 @ [(node_id n, n)]" using created(1) dict_put_new [OF new] by simp
    have "answer_in (n1 @ extra) spec = Some (node_id n)" for extra
      using keep none by (simp add: answer_in_def key n1 find_append_None has_key_def)
    moreover have "index_exact n1 c1"
      using index_exact_append [OF Cons.prems(2) none, of "node_id n"] created(1) unfolding n1 by blast
    moreover have "a1 = created0 @ [Some (node_id n)]" using created(1) by simp
    ultimately show ?thesis using n1 by blast
  qed
  then obtain e1 a where h: "n1 = nodes0 @ e1" "index_exact n1 c1" "a1 = created0 @ [a]"
    "\<And>extra. answer_in (n1 @ extra) spec = a" "\<not> spec_dropped spec \<longrightarrow> a \<noteq> None" by blast
  from Cons.IH [OF st1(2) [unfolded s1] h(2) Cons.prems(3) inv1]
  show ?case using h by auto
qed simp

lemma add_node_again:
  assumes "index_exact nodes canonical" "spec_dropped spec \<or> answer_in nodes spec \<noteq> None"
  shows "add_node new_id turn spec (nodes, canonical, created) = Inr (nodes, canonical, created @ [answer_in nodes spec])"
proof (cases "spec_dropped spec")
  case True
  then show ?thesis by (simp add: add_node_def answer_in_def spec_dropped_def Let_def)
next
  case False
  then obtain nid where a: "answer_in nodes spec = Some nid" using assms(2) by auto
  then have "dict_get canonical (spec_key spec) = Some nid"
    using False index_exactD [OF assms(1)] by (simp add: answer_in_def)
  then show ?thesis using False a by (simp add: add_node_def spec_dropped_def spec_key_def Let_def)
qed

lemma node_pass_again:
  assumes "index_exact nodes canonical" "\<forall>spec \<in> set specs. spec_dropped spec \<or> answer_in nodes spec \<noteq> None"
  shows "try_fold (add_node new_id turn) specs (nodes, canonical, created)
    = Inr (nodes, canonical, created @ map (answer_in nodes) specs)"
  using assms(2) by (induction specs arbitrary: created) (simp_all add: add_node_again [OF assms(1)])

subsection \<open>An edge emitted once is settled\<close>

definition edge_settled ::
    "(string, causal_node) pydict \<Rightarrow> causal_edge list \<Rightarrow> string option \<Rightarrow> string option \<Rightarrow> string option \<Rightarrow> bool" where
  "edge_settled nodes es cause effect and_group \<longleftrightarrow>
     \<not> truthy cause \<or> \<not> truthy effect \<or> cause = effect
     \<or> dict_get nodes (or_empty cause) = None \<or> dict_get nodes (or_empty effect) = None
     \<or> (\<exists>e. find (same_ends (or_empty cause) (or_empty effect)) es = Some e
          \<and> (normalize_and_group (map_option MStr and_group) = None \<or> edge_group e \<noteq> None))"

lemma find_grows:
  assumes "list_all2 edge_grows es ts" "find (same_ends a b) es = Some e"
  shows "\<exists>e'. find (same_ends a b) (ts @ new) = Some e' \<and> edge_grows e e'"
  using assms
proof (induction rule: list_all2_induct)
  case (Cons x xs y ys)
  have "same_ends a b y = same_ends a b x"
    using Cons.hyps(1) by (auto simp: edge_grows_def fill_group_def same_ends_def)
  with Cons show ?case by (auto split: if_splits)
qed simp

lemma edge_settled_grow:
  assumes "edge_settled nodes es cause effect and_group" "edges_grow es es'"
  shows "edge_settled nodes es' cause effect and_group"
proof -
  obtain ts new where ts: "es' = ts @ new" "list_all2 edge_grows es ts"
    using assms(2) by (auto simp: edges_grow_def)
  have "edge_group e' \<noteq> None" if "edge_grows e e'" "edge_group e \<noteq> None" for e e'
    using that by (auto simp: edge_grows_def)
  then show ?thesis
    using assms(1) find_grows [OF ts(2)] unfolding edge_settled_def ts(1) by meson
qed

lemma find_update_first: "find P es = Some e \<Longrightarrow> P (f e) \<Longrightarrow> find P (update_first P f es) = Some (f e)"
  by (induction es) (auto split: if_splits)

lemma add_edge_settles:
  assumes "add_edge turn cause effect and_group reasoning (c, ev) = Inr (c', ev')"
  shows "edge_settled (case_nodes c) (case_edges c') cause effect and_group"
proof (cases "\<not> truthy cause \<or> \<not> truthy effect \<or> cause = effect
      \<or> dict_get (case_nodes c) (or_empty cause) = None \<or> dict_get (case_nodes c) (or_empty effect) = None")
  case True
  then show ?thesis unfolding edge_settled_def by blast
next
  case False
  let ?P = "same_ends (or_empty cause) (or_empty effect)"
  define grp where "grp = normalize_and_group (map_option MStr and_group)"
  have j: "join_edge turn (or_empty cause) (or_empty effect) and_group reasoning (c, ev) = Inr (c', ev')"
    using assms False by (auto simp: add_edge_def split: if_splits)
  have "\<exists>e. find ?P (case_edges c') = Some e \<and> (grp = None \<or> edge_group e \<noteq> None)"
  proof (cases "find ?P (case_edges c)")
    case None
    then obtain e where e: "new_edge (or_empty cause) (or_empty effect) grp reasoning turn = Inr e"
      "c' = c\<lparr>case_edges := case_edges c @ [e]\<rparr>"
      using j by (auto simp: join_edge_def grp_def split: sum.splits)
    then show ?thesis using None by (auto simp: find_append_None new_edge_Inr same_ends_def)
  next
    case (Some e)
    show ?thesis
    proof (cases "edge_group e = None \<and> grp \<noteq> None")
      case True
      have "c' = c\<lparr>case_edges := update_first ?P (\<lambda>e. e\<lparr>edge_group := grp\<rparr>) (case_edges c)\<rparr>"
        using j Some True by (simp add: join_edge_def grp_def [symmetric] Let_def)
      moreover have "?P (e\<lparr>edge_group := grp\<rparr>)" using find_SomeD [OF Some] by (simp add: same_ends_def)
      ultimately show ?thesis using find_update_first [OF Some, of "\<lambda>e. e\<lparr>edge_group := grp\<rparr>"] True by simp
    next
      case False
      then have "c' = c" using j Some by (auto simp: join_edge_def grp_def [symmetric] Let_def split: if_splits)
      then show ?thesis using Some False by auto
    qed
  qed
  then show ?thesis unfolding edge_settled_def grp_def by blast
qed

lemma add_edge_settled:
  assumes "edge_settled (case_nodes c) (case_edges c) cause effect and_group"
  shows "\<exists>ev'. add_edge turn cause effect and_group reasoning (c, ev) = Inr (c, ev')"
  using assms by (auto simp: edge_settled_def add_edge_def join_edge_def Let_def)

lemma seed_none: "seed_problem_node f t c = Inr (c', None) \<Longrightarrow> seed_problem_node f' t' c = Inr (c, None)"
  by (auto simp: seed_problem_node_def split: option.splits if_splits sum.splits)

lemma problem_node_append: "problem_node nodes = Some p \<Longrightarrow> problem_node (nodes @ extra) = Some p"
  by (simp add: problem_node_def dict_values_def find_append_Some)

lemma seed_problem:
  assumes "seed_problem_node fresh turn c = Inr (c', Some p)" "fresh \<notin> set (dict_keys (case_nodes c))"
  shows "problem_node (case_nodes c') = Some p"
  using assms(1)
proof (cases rule: seed_cases)
  case (seeded n)
  then show ?thesis
    by (simp add: dict_put_new [OF assms(2)] problem_node_def dict_values_def find_append_None)
qed simp_all

lemma seed_again: "problem_node (case_nodes c) = Some p \<Longrightarrow> seed_problem_node f t c = Inr (c, Some p)"
  by (simp add: seed_problem_node_def)

definition produced_settled ::
    "string \<Rightarrow> string option list \<Rightarrow> node_spec \<times> string option \<Rightarrow> case_data \<Rightarrow> bool" where
  "produced_settled d created = (\<lambda>(spec, nid) c. truthy (ns_produces spec) \<longrightarrow>
     edge_settled (case_nodes c) (case_edges c) nid (resolve_ref d created (case_nodes c) (ns_produces spec)) (ns_group spec))"

definition explicit_settled :: "string \<Rightarrow> string option list \<Rightarrow> edge_spec \<Rightarrow> case_data \<Rightarrow> bool" where
  "explicit_settled d created spec c \<longleftrightarrow> edge_settled (case_nodes c) (case_edges c)
     (resolve_ref d created (case_nodes c) (es_cause spec)) (resolve_ref d created (case_nodes c) (es_effect spec)) (es_group spec)"

lemma add_edge_frame:
  assumes "add_edge turn cause effect and_group reasoning (c, ev) = Inr (c', ev')"
  shows "case_nodes c' = case_nodes c \<and> edges_grow (case_edges c) (case_edges c')"
  using assms
proof (cases rule: add_edge_cases)
  case (grouped a b grp e)
  then show ?thesis
    using update_first_grows [OF grouped(2,3), of grp] by (auto simp: edges_grow_def)
qed (simp_all add: edges_grow_refl edges_grow_append)

lemma edge_step_frame:
  "add_produced turn d created x (c, ev) = Inr (c', ev') \<Longrightarrow> case_nodes c' = case_nodes c \<and> edges_grow (case_edges c) (case_edges c')"
  "add_explicit turn d created y (c, ev) = Inr (c', ev') \<Longrightarrow> case_nodes c' = case_nodes c \<and> edges_grow (case_edges c) (case_edges c')"
  by (cases x) (auto simp: add_produced_def add_explicit_def edges_grow_refl split: if_splits dest: add_edge_frame)

lemma settled_mono:
  assumes "case_nodes c' = case_nodes c \<and> edges_grow (case_edges c) (case_edges c')"
  shows "produced_settled d created x c \<Longrightarrow> produced_settled d created x c'"
    and "explicit_settled d created y c \<Longrightarrow> explicit_settled d created y c'"
  using conjunct1 [OF assms] edge_settled_grow [OF _ conjunct2 [OF assms]]
  by (auto simp: produced_settled_def explicit_settled_def split: prod.splits)

lemma step_settles:
  "add_produced turn d created x (c, ev) = Inr (c', ev') \<Longrightarrow> produced_settled d created x c'"
  "add_explicit turn d created y (c, ev) = Inr (c', ev') \<Longrightarrow> explicit_settled d created y c'"
proof -
  assume a: "add_produced turn d created x (c, ev) = Inr (c', ev')"
  obtain spec nid where x: "x = (spec, nid)" by (cases x)
  show "produced_settled d created x c'"
    using a edge_step_frame(1) [OF a] by (auto simp: x produced_settled_def add_produced_def dest: add_edge_settles)
next
  assume a: "add_explicit turn d created y (c, ev) = Inr (c', ev')"
  show "explicit_settled d created y c'"
    using a edge_step_frame(2) [OF a] by (auto simp: explicit_settled_def add_explicit_def dest: add_edge_settles)
qed

lemma settled_step:
  "produced_settled d created x c \<Longrightarrow> \<exists>ev'. add_produced turn d created x (c, ev) = Inr (c, ev')"
  "explicit_settled d created y c \<Longrightarrow> \<exists>ev'. add_explicit turn d created y (c, ev) = Inr (c, ev')"
  by (cases x) (auto simp: produced_settled_def add_produced_def explicit_settled_def add_explicit_def intro: add_edge_settled)

lemma edge_passes_settle:
  assumes "try_fold (add_produced turn d created) xs (c, ev) = Inr st1"
    and "try_fold (add_explicit turn d created) ys st1 = Inr (c2, ev2)"
  shows "(\<forall>x \<in> set xs. produced_settled d created x c2) \<and> (\<forall>y \<in> set ys. explicit_settled d created y c2)"
proof -
  have "True \<and> (\<forall>x \<in> set xs. produced_settled d created x (fst st1))
      \<and> (\<forall>y. produced_settled d created y (fst (c, ev)) \<longrightarrow> produced_settled d created y (fst st1))"
  proof (rule try_fold_establishes [OF assms(1), where I = "\<lambda>_. True" and Q = "\<lambda>x st. produced_settled d created x (fst st)"])
    fix x s s'
    assume a: "add_produced turn d created x s = Inr s'"
    show "True \<and> produced_settled d created x (fst s')"
      using a step_settles(1) by (cases s, cases s') simp
    show "produced_settled d created y (fst s')" if "produced_settled d created y (fst s)" for y
      using a that settled_mono(1) [OF edge_step_frame(1)] by (cases s, cases s') simp
  qed simp
  moreover have "True \<and> (\<forall>y \<in> set ys. explicit_settled d created y (fst (c2, ev2)))
      \<and> (\<forall>y. explicit_settled d created y (fst st1) \<longrightarrow> explicit_settled d created y (fst (c2, ev2)))"
  proof (rule try_fold_establishes [OF assms(2), where I = "\<lambda>_. True" and Q = "\<lambda>x st. explicit_settled d created x (fst st)"])
    fix x s s'
    assume a: "add_explicit turn d created x s = Inr s'"
    show "True \<and> explicit_settled d created x (fst s')"
      using a step_settles(2) by (cases s, cases s') simp
    show "explicit_settled d created y (fst s')" if "explicit_settled d created y (fst s)" for y
      using a that settled_mono(2) [OF edge_step_frame(2)] by (cases s, cases s') simp
  qed simp
  moreover have "produced_settled d created x (fst (c2, ev2))" if "produced_settled d created x (fst st1)" for x
  proof (rule try_fold_invariant [OF assms(2), where I = "\<lambda>st. produced_settled d created x (fst st)"])
    fix y s s'
    assume "add_explicit turn d created y s = Inr s'" "produced_settled d created x (fst s)"
    then show "produced_settled d created x (fst s')"
      using settled_mono(1) [OF edge_step_frame(2)] by (cases s, cases s') simp
  qed (rule that)
  ultimately show ?thesis by simp
qed

lemma ingest_again:
  assumes ok: "graph_ok c" and fresh: "fresh_ids new_id (case_nodes c)"
    and ing: "ingest_emitted_chain new_id c ns es [] turn slots sinks = Inr r"
  shows "\<exists>r'. ingest_emitted_chain new_id' (ing_case r) ns es [] turn' slots' sinks' = Inr r'
    \<and> ing_case r' = ing_case r \<and> ing_created r' = ing_created r"
  using ing
proof (cases rule: ingest_cases)
  case unanchored
  then show ?thesis using seed_none [OF unanchored(3)] by (simp add: ingest_emitted_chain_def)
next
  case (anchored c0 p nodes canonical st1 c2 events)
  let ?c1 = "c0\<lparr>case_nodes := nodes\<rparr>"
  have new0: "new_id 0 \<notin> set (dict_keys (case_nodes c))" and inj: "inj new_id"
    using fresh by (simp_all add: fresh_ids_def)
  note seed = seed_graph_ok [OF ok new0 anchored(1)]
  have "new_id (Suc i) \<notin> set (dict_keys (case_nodes c0))" for i
    using seed fresh by (auto simp: fresh_ids_def dest: injD)
  then have fresh0: "fresh_node_ids new_id (case_nodes c0)" by (simp add: fresh_node_ids_def inj)
  have ok0: "nodes_ok (case_nodes c0)" using seed by (simp add: graph_ok_def)
  have answers: "(\<exists>extra. nodes = case_nodes c0 @ extra) \<and> ing_created r = map (answer_in nodes) ns
      \<and> (\<forall>spec \<in> set ns. spec_dropped spec \<or> answer_in nodes spec \<noteq> None)"
  proof (cases "ns = []")
    case True
    with anchored(2) show ?thesis by simp
  next
    case False
    with anchored(2) have f: "try_fold (add_node new_id turn) ns
        (case_nodes c0, canonical_index (case_nodes c0), []) = Inr (nodes, canonical, ing_created r)" by simp
    from node_pass_answers [OF f canonical_index_exact fresh0 node_pass_start [OF ok0]] show ?thesis by auto
  qed
  then obtain extra where extra: "nodes = case_nodes c0 @ extra" by blast
  have r: "ing_case r = c2" using anchored(5) by simp
  have nodes2: "case_nodes c2 = nodes"
  proof -
    have "edges_ok nodes (case_edges c0)"
      unfolding extra by (rule edges_ok_append) (use seed in \<open>unfold graph_ok_def, blast\<close>)
    then have "edge_pass_ok ?c1 (c2, events)" using edge_passes_ok [OF _ anchored(3,4)] by simp
    then show ?thesis by (auto simp: edge_pass_ok_def)
  qed
  have "problem_node (case_nodes c2) = Some p"
    using problem_node_append [OF seed_problem [OF anchored(1) new0], of extra] by (simp add: nodes2 extra)
  note seeded = seed_again [OF this, of "new_id' 0" "Some turn'"]
  have again: "\<exists>canonical'. try_fold (add_node new_id' turn') ns
      (case_nodes c2, if ns = [] then [] else canonical_index (case_nodes c2), [])
      = Inr (case_nodes c2, canonical', ing_created r)"
    using node_pass_again [OF canonical_index_exact, of ns nodes new_id' turn' "[]"] answers
    by (cases "ns = []") (simp_all add: nodes2)
  note settled = edge_passes_settle [OF anchored(3,4)]
  obtain ev1 where 1: "try_fold (add_produced turn' (node_id p) (ing_created r)) (zip ns (ing_created r)) (c2, []) = Inr (c2, ev1)"
    using try_fold_still [of "zip ns (ing_created r)" "add_produced turn' (node_id p) (ing_created r)" c2 "[]"]
      settled settled_step(1) by blast
  obtain ev2 where 2: "try_fold (add_explicit turn' (node_id p) (ing_created r)) es (c2, ev1) = Inr (c2, ev2)"
    using try_fold_still [of es "add_explicit turn' (node_id p) (ing_created r)" c2 ev1]
      settled settled_step(2) by blast
  obtain canonical' where 0: "try_fold (add_node new_id' turn') ns
      (case_nodes c2, if ns = [] then [] else canonical_index (case_nodes c2), [])
      = Inr (case_nodes c2, canonical', ing_created r)" using again by (elim exE)
  show ?thesis
    unfolding r by (simp add: ingest_emitted_chain_def seeded 0 1 2)
qed

section \<open>When the ingest returns\<close>

definition confident_link :: "node_link \<Rightarrow> bool" where
  "confident_link l \<longleftrightarrow> (case link_confidence l of None \<Rightarrow> False | Some q \<Rightarrow> 0 \<le> q \<and> q \<le> 1)"

text \<open>Every stored link has a confidence in [0, 1], as its class demands.\<close>

definition links_ok :: "(string, causal_node) pydict \<Rightarrow> bool" where
  "links_ok nodes \<longleftrightarrow> list_all (\<lambda>n. list_all confident_link (node_links n)) (dict_values nodes)"

definition short :: "string option \<Rightarrow> bool" where
  "short s \<longleftrightarrow> length (or_empty s) \<le> 1000"

definition unit_confidence :: "rat option \<Rightarrow> bool" where
  "unit_confidence q \<longleftrightarrow> set_option q \<subseteq> {0..1}"

lemma links_ok_get: "links_ok nodes \<Longrightarrow> dict_get nodes k = Some n \<Longrightarrow> list_all confident_link (node_links n)"
  by (auto simp: links_ok_def list_all_iff dict_values_def dict_get_def dest!: map_of_SomeD)

lemma set_dict_put: "set (dict_put k v d) \<subseteq> insert (k, v) (set d)"
  by (induction d) (auto simp: dict_put_def)

lemma links_ok_put:
  "links_ok nodes \<Longrightarrow> list_all confident_link (node_links n) \<Longrightarrow> links_ok (dict_put k n nodes)"
  using set_dict_put [of k n nodes] by (fastforce simp: links_ok_def list_all_iff dict_values_def)

lemma strip_head: "strip s \<noteq> [] \<Longrightarrow> statement_not_empty (take 500 (strip s))"
  using strip_ends(1) [of s] by (cases "strip s") (auto simp: statement_not_empty_def)

lemma add_node_returns:
  assumes "0 \<le> turn" "links_ok (fst st)"
  shows "\<exists>st'. add_node new_id turn spec st = Inr st' \<and> links_ok (fst st')"
proof -
  obtain nodes canonical created where st: "st = (nodes, canonical, created)" by (cases st)
  let ?s = "strip (or_empty (ns_statement spec))"
  show ?thesis
  proof (cases "?s = []")
    case True
    then show ?thesis using assms(2) by (simp add: add_node_def st)
  next
    case False
    obtain n where n: "new_node (new_id (Suc (length created))) (take 500 ?s) (the (ns_type spec)) turn = Inr n"
      using new_node_ok [OF strip_head [OF False], of turn] assms(1) by auto
    have "links_ok (dict_put (node_id n) n nodes)"
      using assms(2) new_node_Inr [OF n] by (intro links_ok_put) (simp_all add: st)
    then show ?thesis using assms(2) n by (auto simp: add_node_def st Let_def split: option.split)
  qed
qed

lemma add_edge_returns:
  assumes "0 \<le> turn" "short reasoning"
  shows "\<exists>st'. add_edge turn cause effect and_group reasoning st = Inr st' \<and> case_nodes (fst st') = case_nodes (fst st)"
proof (cases st)
  case (Pair c ev)
  show ?thesis
  proof (cases "truthy cause \<and> truthy effect \<and> cause \<noteq> effect")
    case True
    then have "or_empty cause \<noteq> or_empty effect" by (auto elim!: truthyE)
    then obtain e where e: "new_edge (or_empty cause) (or_empty effect)
        (normalize_and_group (map_option MStr and_group)) reasoning turn = Inr e"
      using assms by (auto simp: new_edge_Inr short_def)
    then show ?thesis
      by (auto simp: Pair add_edge_def join_edge_def Let_def split: option.split)
  next
    case False
    then show ?thesis by (auto simp: Pair add_edge_def)
  qed
qed

lemma find_confident: "find P ls = Some l \<Longrightarrow> list_all confident_link ls \<Longrightarrow> confident_link l"
  by (auto simp: list_all_iff dest: find_SomeD)

lemma written_confidence_unit:
  assumes "unit_confidence emitted" "case existing of None \<Rightarrow> True | Some l \<Rightarrow> confident_link l"
    and "case settled of None \<Rightarrow> True | Some (_, q) \<Rightarrow> set_option q \<subseteq> {0..1}"
    and "written_confidence existing emitted settled = Some q"
  shows "\<exists>x. q = Some x \<and> 0 \<le> x \<and> x \<le> 1"
proof -
  define q0 where "q0 = (case settled of None \<Rightarrow> emitted | Some (_, q) \<Rightarrow> q)"
  have q0: "set_option q0 \<subseteq> {0..1}"
    using assms(1,3) by (auto simp: q0_def unit_confidence_def split: option.splits)
  have q: "q = (if q0 = None then (case existing of Some l \<Rightarrow> link_confidence l | None \<Rightarrow> Some 1) else q0)"
    using assms(4) by (auto simp: written_confidence_def Let_def q0_def split: if_splits)
  show ?thesis
    using q q0 assms(2) by (cases q0) (auto simp: confident_link_def split: option.splits)
qed

lemma write_link_returns:
  assumes "short (ls_reasoning spec)" "unit_confidence (ls_confidence spec)"
    and "links_ok (case_nodes (fst st))" "list_all confident_link (node_links node)"
  shows "\<exists>st'. write_link spec nid node eid stance st = Inr st' \<and> links_ok (case_nodes (fst st'))"
proof -
  obtain c ev sinks where st: "st = (c, ev, sinks)" by (cases st)
  let ?ex = "find (for_evidence eid) (node_links node)"
  obtain settled s1 where s: "settle_set_aside_link (ls_schema spec) (ls_set_aside spec) (Some stance)
      (map_option link_stance ?ex) (nid @ ''<-'' @ eid) sinks = (settled, s1)"
    by (metis surj_pair)
  have "case settled of None \<Rightarrow> True | Some (_, q) \<Rightarrow> set_option q \<subseteq> {0..1}"
    using settle_value [where schema = "ls_schema spec" and set_aside = "ls_set_aside spec" and stance = "Some stance"
        and stored = "map_option link_stance ?ex" and loc = "nid @ ''<-'' @ eid" and sinks = sinks]
    unfolding s fst_conv by (auto split: option.splits)
  note unit = written_confidence_unit [OF assms(2) _ this]
  have ex: "case ?ex of None \<Rightarrow> True | Some l \<Rightarrow> confident_link l"
    using find_confident [OF _ assms(4)] by (auto split: option.split)
  show ?thesis
  proof (cases "written_confidence ?ex (ls_confidence spec) settled")
    case None
    then show ?thesis using s assms(3) by (simp add: st write_link_def)
  next
    case (Some q)
    from unit [OF ex Some] obtain x where x: "q = Some x" "0 \<le> x" "x \<le> 1" by blast
    let ?r = "if truthy (ls_reasoning spec) then or_empty (ls_reasoning spec) else ''node evidence''"
    have "length ?r \<le> 1000" using assms(1) by (simp add: short_def)
    then obtain l where l: "new_link eid stance ?r q 0 = Inr l" "confident_link l"
      using x by (auto simp: new_link_Inr confident_link_def)
    have "list_all confident_link (upsert_link l (node_links node))"
      using l(2) assms(4) by (auto simp: upsert_link_def list_all_iff dest!: update_first_mem)
    then have "links_ok (dict_put nid (node\<lparr>node_links := upsert_link l (node_links node)\<rparr>) (case_nodes c))"
      using assms(3) by (intro links_ok_put) (simp_all add: st)
    then show ?thesis using s Some l(1) by (simp add: st write_link_def)
  qed
qed

lemma add_link_returns:
  assumes "short (ls_reasoning spec)" "unit_confidence (ls_confidence spec)" "links_ok (case_nodes (fst st))"
  shows "\<exists>st'. add_link d created slots spec st = Inr st' \<and> links_ok (case_nodes (fst st'))"
proof -
  obtain c ev sinks where st: "st = (c, ev, sinks)" by (cases st)
  have w: "\<exists>st'. write_link spec nid node eid stance (c, ev, sinks) = Inr st' \<and> links_ok (case_nodes (fst st'))"
    if "dict_get (case_nodes c) k = Some node" for nid node eid stance k
    using write_link_returns [OF assms(1,2)] assms(3) links_ok_get [OF _ that] by (simp add: st)
  show ?thesis
    using assms(3) w unfolding st add_link_def Let_def
    by (auto split: option.split)
qed

text \<open>A problem to anchor on can be built: it exists, or there is nothing to build it from, or the
statement shows a visible character within its first 500.\<close>

definition seedable :: "case_data \<Rightarrow> bool" where
  "seedable c \<longleftrightarrow> problem_node (case_nodes c) \<noteq> None
     \<or> (case case_symptom_statement c of None \<Rightarrow> True
        | Some s \<Rightarrow> strip s = [] \<or> statement_not_empty (take 500 s))"

lemma seed_returns:
  assumes "seedable c" "0 \<le> turn" "links_ok (case_nodes c)"
  shows "\<exists>c' p. seed_problem_node fresh (Some turn) c = Inr (c', p) \<and> links_ok (case_nodes c')"
proof (cases "problem_node (case_nodes c) = None \<and> (\<exists>s. case_symptom_statement c = Some s \<and> strip s \<noteq> [])")
  case True
  then obtain s where s: "case_symptom_statement c = Some s" "strip s \<noteq> []" "problem_node (case_nodes c) = None" by blast
  then have ne: "statement_not_empty (take 500 s)" using assms(1) by (simp add: seedable_def)
  obtain n where n: "new_node fresh (take 500 s) PROBLEM turn = Inr n"
    using new_node_ok [OF ne _ assms(2)] by auto
  have "links_ok (dict_put (node_id n) n (case_nodes c))"
    using assms(3) new_node_Inr [OF n] by (intro links_ok_put) simp_all
  moreover have "s \<noteq> []" using s(2) by (auto simp: strip_def)
  ultimately show ?thesis using s n by (simp add: seed_problem_node_def)
next
  case False
  then show ?thesis using assms(3) by (auto simp: seed_problem_node_def split: option.split)
qed

lemma ingest_returns:
  assumes "0 \<le> turn" "seedable c" "links_ok (case_nodes c)"
    and es: "list_all (\<lambda>e. short (es_reasoning e)) es"
    and ls: "list_all (\<lambda>l. short (ls_reasoning l) \<and> unit_confidence (ls_confidence l)) ls"
  shows "\<exists>r. ingest_emitted_chain new_id c ns es ls turn slots sinks = Inr r"
proof -
  obtain c0 p where seed: "seed_problem_node (new_id 0) (Some turn) c = Inr (c0, p)" "links_ok (case_nodes c0)"
    using seed_returns [OF assms(2,1,3)] by blast
  show ?thesis
  proof (cases p)
    case None
    then show ?thesis using seed by (simp add: ingest_emitted_chain_def)
  next
    case (Some q)
    have "\<exists>st. try_fold (add_node new_id turn) ns
        (case_nodes c0, if ns = [] then [] else canonical_index (case_nodes c0), []) = Inr st \<and> links_ok (fst st)"
      by (rule try_fold_total [where I = "\<lambda>st. links_ok (fst st)"]) (use add_node_returns [OF assms(1)] seed(2) in auto)
    then obtain nodes canonical created where 1: "try_fold (add_node new_id turn) ns
        (case_nodes c0, if ns = [] then [] else canonical_index (case_nodes c0), []) = Inr (nodes, canonical, created)"
      "links_ok nodes" by (metis fst_conv surj_pair)
    have produced: "\<exists>st'. add_produced turn (node_id q) created x st = Inr st' \<and> case_nodes (fst st') = case_nodes (fst st)" for x st
      using add_edge_returns [OF assms(1), of None] by (cases x; cases st) (auto simp: add_produced_def short_def)
    have "\<exists>st. try_fold (add_produced turn (node_id q) created) (zip ns created) (c0\<lparr>case_nodes := nodes\<rparr>, []) = Inr st
        \<and> links_ok (case_nodes (fst st))"
      by (rule try_fold_total [where I = "\<lambda>st. links_ok (case_nodes (fst st))"]) (use produced 1(2) in \<open>metis, simp\<close>)
    then obtain st1 where 2: "try_fold (add_produced turn (node_id q) created) (zip ns created) (c0\<lparr>case_nodes := nodes\<rparr>, []) = Inr st1"
      "links_ok (case_nodes (fst st1))" by blast
    have explicit: "\<exists>st'. add_explicit turn (node_id q) created x st = Inr st' \<and> case_nodes (fst st') = case_nodes (fst st)"
      if "x \<in> set es" for x st
      using add_edge_returns [OF assms(1), of "es_reasoning x"] es that by (simp add: add_explicit_def list_all_iff)
    have "\<exists>st. try_fold (add_explicit turn (node_id q) created) es st1 = Inr st \<and> links_ok (case_nodes (fst st))"
      by (rule try_fold_total [where I = "\<lambda>st. links_ok (case_nodes (fst st))"]) (use explicit 2(2) in \<open>metis, simp\<close>)
    then obtain c2 ev where 3: "try_fold (add_explicit turn (node_id q) created) es st1 = Inr (c2, ev)"
      "links_ok (case_nodes c2)" by (metis fst_conv surj_pair)
    have "\<exists>st. try_fold (add_link (node_id q) created slots) ls (c2, ev, sinks) = Inr st \<and> links_ok (case_nodes (fst st))"
      by (rule try_fold_total [where I = "\<lambda>st. links_ok (case_nodes (fst st))"])
        (use add_link_returns ls 3(2) in \<open>auto simp: list_all_iff\<close>)
    then obtain c3 ev3 s3 where 4: "try_fold (add_link (node_id q) created slots) ls (c2, ev, sinks) = Inr (c3, ev3, s3)"
      by (metis surj_pair)
    show ?thesis using seed Some 1 2 3 4 by (simp add: ingest_emitted_chain_def)
  qed
qed

end
