(* ===== verification/Ingestion_Properties.thy ===== *)
theory Ingestion_Properties
  imports Ingestion_Laws
begin

text \<open>
  The contract of the ingest: what it keeps of the graph, that a repeated emission changes nothing,
  that absence rows stay out of reach, when it raises, and the references it resolves.
\<close>

section \<open>A concrete ingest\<close>

definition ex_ids :: "nat \<Rightarrow> string" where
  "ex_ids i = replicate (Suc i) (CHR ''x'')"

definition ex_spec :: node_spec where
  "ex_spec = \<lparr>ns_statement = Some '' disk full '', ns_type = Some ROOT, ns_produces = Some ''D'', ns_group = None\<rparr>"

definition ex_link_spec :: link_spec where
  "ex_link_spec = \<lparr>ls_schema = ''NodeEvidenceLinkToAdd'', ls_node_ref = Some ''new_index_0'',
     ls_evidence_id = None, ls_evidence_id_ref = Some ''e1'', ls_stance = Some SUPPORTS,
     ls_confidence = None, ls_set_aside = Some (RInt 90), ls_reasoning = None\<rparr>"

definition ex_ingest :: "validation_error + ingest_result" where
  "ex_ingest = ingest_emitted_chain ex_ids ex_case [ex_spec] [] [ex_link_spec] 4 [] (Some [], [])"

lemma ex_graph_ok: "graph_ok ex_case"
proof -
  have "edges_ok (case_nodes ex_case) (case_edges ex_case)"
    by code_simp
  then show ?thesis using ex_nodes_ok by (simp add: graph_ok_def)
qed

lemma ex_fresh: "fresh_ids ex_ids (case_nodes ex_case)"
proof -
  have "inj ex_ids" by (auto simp: inj_def ex_ids_def dest: arg_cong [of _ _ length])
  moreover have "ex_ids i \<notin> set (dict_keys (case_nodes ex_case))" for i
    by (simp add: ex_ids_def ex_case_def dict_keys_def)
  ultimately show ?thesis by (simp add: fresh_ids_def)
qed

lemma ex_ingest_answers:
  "case ex_ingest of Inl _ \<Rightarrow> False
   | Inr r \<Rightarrow> ing_created r = [Some ''xx''] \<and> length (case_nodes (ing_case r)) = 5
       \<and> length (case_edges (ing_case r)) = 4
       \<and> map_option (map link_confidence \<circ> node_links) (dict_get (case_nodes (ing_case r)) ''xx'') = Some [Some (9 / 10)]"
  by code_simp

lemma case_sum_Inr: "(case s of Inl _ \<Rightarrow> False | Inr x \<Rightarrow> P x) \<Longrightarrow> \<exists>x. s = Inr x \<and> P x"
  by (cases s) simp_all

lemma ex_ingest_returns:
  "\<exists>r. ex_ingest = Inr r \<and> ing_created r = [Some ''xx''] \<and> length (case_nodes (ing_case r)) = 5
       \<and> length (case_edges (ing_case r)) = 4
       \<and> map_option (map link_confidence \<circ> node_links) (dict_get (case_nodes (ing_case r)) ''xx'') = Some [Some (9 / 10)]"
  by (rule case_sum_Inr) (rule ex_ingest_answers)

section \<open>Lemmas\<close>

lemma ingest_absence_links:
  assumes "graph_ok c" "fresh_ids new_id (case_nodes c)"
    and "ingest_emitted_chain new_id c ns es ls turn slots sinks = Inr r"
    and "dict_get (case_nodes (ing_case r)) k = Some n"
  shows "filter (absence_link (evidence_category_map c)) (node_links n) =
     (case dict_get (case_nodes c) k of None \<Rightarrow> []
      | Some n0 \<Rightarrow> filter (absence_link (evidence_category_map c)) (node_links n0))"
proof -
  note keeps = ingest_keeps [OF assms(1-3), unfolded ingest_ok_def Let_def]
  show ?thesis
  proof (cases "dict_get (case_nodes c) k")
    case None
    with assms(4) have "new_in (case_nodes c) (case_nodes (ing_case r)) k n" by (simp add: new_in_def)
    then have "list_all (\<lambda>l. \<not> absence_link (evidence_category_map c) l) (node_links n)" using keeps by blast
    with None show ?thesis by (simp add: filter_empty_conv list_all_iff)
  next
    case (Some n0)
    then obtain n' where "dict_get (case_nodes (ing_case r)) k = Some n'" "relinked (evidence_category_map c) n0 n'"
      using keeps by blast
    with Some assms(4) show ?thesis by (simp add: relinked_def)
  qed
qed

section \<open>Properties\<close>

text \<open>C34: An ingest keeps the graph well formed: node ids and validators, edges only between known,
  different nodes, one edge per ordered pair, AND-keys in normal form. It is monotone: every node
  keeps everything but its links, every edge stays and loses no group, and nothing else of the case
  changes.\<close>

theorem ingest_keeps_graph:
  assumes "graph_ok c" "fresh_ids new_id (case_nodes c)"
    and "ingest_emitted_chain new_id c ns es ls turn slots sinks = Inr r"
  shows "graph_ok (ing_case r) \<and> edges_grow (case_edges c) (case_edges (ing_case r)) \<and> same_rest c (ing_case r)
     \<and> (\<forall>k n. dict_get (case_nodes c) k = Some n \<longrightarrow>
          (\<exists>ls'. dict_get (case_nodes (ing_case r)) k = Some (n\<lparr>node_links := ls'\<rparr>)))"
  using ingest_keeps [OF assms] unfolding ingest_ok_def Let_def relinked_def by metis

theorem ingest_keeps_graph_witness:
  "\<exists>r. ex_ingest = Inr r \<and> graph_ok (ing_case r) \<and> edges_grow (case_edges ex_case) (case_edges (ing_case r))
     \<and> length (case_edges (ing_case r)) = 4"
proof -
  obtain r where r: "ex_ingest = Inr r" "length (case_edges (ing_case r)) = 4"
    using ex_ingest_returns by blast
  from ingest_keeps_graph [OF ex_graph_ok ex_fresh r(1) [unfolded ex_ingest_def]] r show ?thesis by blast
qed

text \<open>C35: Identity of causes: a node the ingest creates is an unjudged candidate, and no other node of the
  graph has its type and canonical statement; every answer names a node of the graph that can be a
  cause.\<close>

theorem ingest_creates_distinct_causes:
  assumes "graph_ok c" "fresh_ids new_id (case_nodes c)"
    and "ingest_emitted_chain new_id c ns es ls turn slots sinks = Inr r"
  shows "(\<forall>k n. new_in (case_nodes c) (case_nodes (ing_case r)) k n \<longrightarrow>
       node_state n = CANDIDATE \<and> (node_type n = PROBLEM \<or> sole_owner (case_nodes (ing_case r)) k n))
     \<and> (\<forall>nid. Some nid \<in> set (ing_created r) \<longrightarrow>
       (\<exists>n. dict_get (case_nodes (ing_case r)) nid = Some n \<and> node_type n \<in> {ROOT, INTERMEDIATE}))"
  using ingest_keeps [OF assms] unfolding ingest_ok_def Let_def list_all_iff answer_ok_def by blast

theorem ingest_creates_distinct_causes_witness:
  "\<exists>r. ex_ingest = Inr r \<and> ing_created r = [Some ''xx'']
     \<and> (\<exists>n. dict_get (case_nodes (ing_case r)) ''xx'' = Some n \<and> node_type n \<in> {ROOT, INTERMEDIATE})"
proof -
  obtain r where r: "ex_ingest = Inr r" "ing_created r = [Some ''xx'']" using ex_ingest_returns by blast
  from ingest_creates_distinct_causes [OF ex_graph_ok ex_fresh r(1) [unfolded ex_ingest_def]] r
  show ?thesis by (intro exI [of _ r]) simp
qed

text \<open>The trust boundary of absence rows: whatever a turn emits, the links of a node to absence rows
  are exactly those it had, in their order; a created node has none.\<close>

theorem ingest_never_touches_absence_links:
  assumes "graph_ok c" "fresh_ids new_id (case_nodes c)"
    and "ingest_emitted_chain new_id c ns es ls turn slots sinks = Inr r"
    and "dict_get (case_nodes (ing_case r)) k = Some n"
  shows "filter (absence_link (evidence_category_map c)) (node_links n) =
     (case dict_get (case_nodes c) k of None \<Rightarrow> []
      | Some n0 \<Rightarrow> filter (absence_link (evidence_category_map c)) (node_links n0))"
  by (rule ingest_absence_links [OF assms])

theorem ingest_never_touches_absence_links_witness:
  "\<exists>r n. ex_ingest = Inr r \<and> dict_get (case_nodes (ing_case r)) ''xx'' = Some n
     \<and> filter (absence_link (evidence_category_map ex_case)) (node_links n) = []"
proof -
  obtain r n where r: "ex_ingest = Inr r" and n: "dict_get (case_nodes (ing_case r)) ''xx'' = Some n"
    using ex_ingest_returns by blast
  have "dict_get (case_nodes ex_case) ''xx'' = None" by (simp add: ex_case_def)
  with ingest_never_touches_absence_links [OF ex_graph_ok ex_fresh r(1) [unfolded ex_ingest_def] n] r(1) n
  show ?thesis by (intro exI [of _ r] exI [of _ n]) simp
qed

text \<open>C36: Re-emission: ingesting the same nodes and edges again, in any later turn and with any new ids,
  returns the same answers and leaves the case exactly as the first ingest left it.\<close>

theorem reemission_changes_nothing:
  assumes "graph_ok c" "fresh_ids new_id (case_nodes c)"
    and "ingest_emitted_chain new_id c ns es [] turn slots sinks = Inr r"
  shows "\<exists>r'. ingest_emitted_chain new_id' (ing_case r) ns es [] turn' slots' sinks' = Inr r'
    \<and> ing_case r' = ing_case r \<and> ing_created r' = ing_created r"
  by (rule ingest_again [OF assms])

text \<open>The same statement in other case and spacing is the same cause.\<close>

definition ex_respec :: node_spec where
  "ex_respec = ex_spec\<lparr>ns_statement := Some ''Disk  FULL''\<rparr>"

theorem reemission_changes_nothing_witness:
  "\<exists>r r'. ingest_emitted_chain ex_ids ex_case [ex_spec, ex_respec] [] [] 4 [] (None, []) = Inr r
     \<and> ing_created r = [Some ''xx'', Some ''xx'']
     \<and> ingest_emitted_chain ex_ids (ing_case r) [ex_spec, ex_respec] [] [] 9 [] (None, []) = Inr r'
     \<and> ing_case r' = ing_case r"
proof -
  let ?i = "ingest_emitted_chain ex_ids ex_case [ex_spec, ex_respec] [] [] 4 [] (None, [])"
  have "case ?i of Inl _ \<Rightarrow> False | Inr r \<Rightarrow> ing_created r = [Some ''xx'', Some ''xx'']" by code_simp
  from case_sum_Inr [OF this] obtain r where r: "?i = Inr r" "ing_created r = [Some ''xx'', Some ''xx'']" by blast
  from reemission_changes_nothing [OF ex_graph_ok ex_fresh r(1)] r show ?thesis by blast
qed

end
