(* ===== verification/Mirror_Laws.thy ===== *)
theory Mirror_Laws
  imports Ingestion_Properties
begin

text \<open>
  The support mirror of \<open>ingestion.py\<close>: what it adds to a root, and that it settles in one run. Also
  the references and confidences the link pass reads, on every branch.
\<close>

section \<open>One hypothesis\<close>

definition row_ids :: "node_link list \<Rightarrow> string set" where
  "row_ids links = set (map link_evidence_id links)"

definition mirrors :: "(string, evidence_category) pydict \<Rightarrow> hypothesis_link \<Rightarrow> bool" where
  "mirrors cats l \<longleftrightarrow> link_stance l = SUPPORTS \<and> dict_get cats (link_evidence_id l) = Some CAUSAL_EVIDENCE"

lemma mirror_link_step:
  assumes "mirror_link cats turn l (links, ids, m) = Inr (links', ids', m')" "ids = row_ids links"
  shows "ids' = row_ids links' \<and> ids \<subseteq> ids' \<and> (mirrors cats l \<longrightarrow> link_evidence_id l \<in> ids')"
  using assms by (auto simp: mirror_link_def mirrors_def row_ids_def new_link_Inr split: if_splits sum.splits)

lemma mirror_links:
  assumes "try_fold (mirror_link cats turn) ls (links, row_ids links, m) = Inr (links', ids', m')"
  shows "row_ids links \<subseteq> row_ids links' \<and> (\<forall>l \<in> set ls. mirrors cats l \<longrightarrow> link_evidence_id l \<in> row_ids links')"
proof -
  let ?I = "\<lambda>st. fst (snd st) = row_ids (fst st) \<and> row_ids links \<subseteq> fst (snd st)"
  let ?Q = "\<lambda>l st. mirrors cats l \<longrightarrow> link_evidence_id l \<in> fst (snd st)"
  have "?I (links', ids', m') \<and> (\<forall>l \<in> set ls. ?Q l (links', ids', m'))
      \<and> (\<forall>l. ?Q l (links, row_ids links, m) \<longrightarrow> ?Q l (links', ids', m'))"
  proof (rule try_fold_establishes [OF assms, where I = ?I and Q = ?Q])
    fix l s s'
    assume I: "?I s" and step: "mirror_link cats turn l s = Inr s'"
    obtain a b e where s: "s = (a, b, e)" by (cases s)
    obtain a' b' e' where s': "s' = (a', b', e')" by (cases s')
    have h: "b' = row_ids a' \<and> b \<subseteq> b' \<and> (mirrors cats l \<longrightarrow> link_evidence_id l \<in> b')"
      by (rule mirror_link_step [OF step [unfolded s s']]) (use I in \<open>simp add: s\<close>)
    show "?I s' \<and> ?Q l s'" using h I by (auto simp: s s')
    show "?Q y s'" if "?Q y s" for y using h that by (auto simp: s s')
  qed simp
  then show ?thesis by auto
qed

text \<open>A hypothesis whose support is all on its root.\<close>

definition mirrored ::
    "(string, evidence_category) pydict \<Rightarrow> hypothesis \<Rightarrow> (string, causal_node) pydict \<Rightarrow> bool" where
  "mirrored cats h nodes \<longleftrightarrow> (\<forall>n. truthy (hyp_root h) \<and> dict_get nodes (or_empty (hyp_root h)) = Some n
     \<and> node_type n = ROOT \<longrightarrow> (\<forall>l \<in> set (hyp_links h). mirrors cats l \<longrightarrow> link_evidence_id l \<in> row_ids (node_links n)))"

definition more_rows :: "(string, causal_node) pydict \<Rightarrow> (string, causal_node) pydict \<Rightarrow> bool" where
  "more_rows nodes nodes' \<longleftrightarrow> (\<forall>k n'. dict_get nodes' k = Some n' \<longrightarrow>
     (\<exists>n. dict_get nodes k = Some n \<and> node_type n' = node_type n \<and> row_ids (node_links n) \<subseteq> row_ids (node_links n')))"

lemma mirrored_more: "more_rows nodes nodes' \<Longrightarrow> mirrored cats h nodes \<Longrightarrow> mirrored cats h nodes'"
  unfolding more_rows_def mirrored_def by (metis subsetD)

lemma mirror_hypothesis_step:
  assumes "mirror_hypothesis cats turn h (nodes, m) = Inr (nodes', m')"
  shows "more_rows nodes nodes' \<and> mirrored cats h nodes'"
proof (cases "truthy (hyp_root h) \<and> (\<exists>n. dict_get nodes (or_empty (hyp_root h)) = Some n \<and> node_type n = ROOT)")
  case True
  then obtain n where n: "truthy (hyp_root h)" "dict_get nodes (or_empty (hyp_root h)) = Some n" "node_type n = ROOT" by blast
  with assms obtain links ids where f: "try_fold (mirror_link cats turn) (hyp_links h)
      (node_links n, row_ids (node_links n), m) = Inr (links, ids, m')"
    "nodes' = dict_put (or_empty (hyp_root h)) (n\<lparr>node_links := links\<rparr>) nodes"
    by (auto simp: mirror_hypothesis_def row_ids_def split: sum.splits)
  note l = mirror_links [OF f(1)]
  show ?thesis using l n by (auto simp: f(2) more_rows_def mirrored_def)
next
  case False
  then have "nodes' = nodes" using assms by (auto simp: mirror_hypothesis_def split: if_splits option.splits)
  with False show ?thesis by (auto simp: more_rows_def mirrored_def)
qed

lemma mirror_links_still:
  assumes "\<forall>l \<in> set ls. mirrors cats l \<longrightarrow> link_evidence_id l \<in> ids"
  shows "try_fold (mirror_link cats turn) ls (links, ids, m) = Inr (links, ids, m)"
  using assms by (intro try_fold_id) (auto simp: mirror_link_def mirrors_def)

lemma mirror_hypothesis_still:
  assumes "mirrored cats h nodes"
  shows "mirror_hypothesis cats turn h (nodes, m) = Inr (nodes, m)"
proof (cases "truthy (hyp_root h) \<and> (\<exists>n. dict_get nodes (or_empty (hyp_root h)) = Some n \<and> node_type n = ROOT)")
  case True
  then obtain n where n: "truthy (hyp_root h)" "dict_get nodes (or_empty (hyp_root h)) = Some n" "node_type n = ROOT" by blast
  then have "try_fold (mirror_link cats turn) (hyp_links h) (node_links n, row_ids (node_links n), m)
      = Inr (node_links n, row_ids (node_links n), m)"
    using assms by (intro mirror_links_still) (auto simp: mirrored_def)
  with n show ?thesis by (simp add: mirror_hypothesis_def row_ids_def dict_put_same)
next
  case False
  then show ?thesis by (auto simp: mirror_hypothesis_def split: option.split)
qed

section \<open>References and confidences of a link\<close>

lemma slot_of_numeral:
  assumes "i < length slots" "length (numeral_of i) \<le> INT_MAX_STR_DIGITS"
  shows "slot_of slots (NEW_INDEX @ numeral_of i) = slots ! i"
  using assms by (simp add: slot_of_def parse_int_numeral)

lemma slot_ref: "is_slot_ref (NEW_INDEX @ s)" "NEW_INDEX @ s \<noteq> ''D''"
  by (simp_all add: is_slot_ref_def) (simp add: NEW_INDEX_def)

text \<open>A link whose confidence was omitted inherits the stored one even when its stance is the opposite.\<close>

lemma flipped_link_inherits_confidence:
  assumes "ls_set_aside spec = None" "ls_confidence spec = None" "short (ls_reasoning spec)"
    and "find (for_evidence eid) (node_links node) = Some l" "confident_link l" "link_stance l \<noteq> stance"
  shows "\<exists>fresh. write_link spec nid node eid stance (c, ev, sinks) =
      Inr (c\<lparr>case_nodes := dict_put nid (node\<lparr>node_links := upsert_link fresh (node_links node)\<rparr>) (case_nodes c)\<rparr>, ev, sinks)
    \<and> link_stance fresh = stance \<and> link_confidence fresh = link_confidence l"
proof -
  let ?r = "if truthy (ls_reasoning spec) then or_empty (ls_reasoning spec) else ''node evidence''"
  have "length ?r \<le> 1000" using assms(3) by (simp add: short_def)
  then obtain fresh where "new_link eid stance ?r (link_confidence l) 0 = Inr fresh"
    "link_stance fresh = stance" "link_confidence fresh = link_confidence l"
    using assms(5) by (auto simp: new_link_Inr confident_link_def split: option.splits)
  then show ?thesis
    using assms by (cases sinks, intro exI [of _ fresh])
      (simp add: write_link_def settle_set_aside_link_def written_confidence_def)
qed

text \<open>A reasoning longer than the stored field allows ends the ingest with the error of the constructor.\<close>

lemma overlong_reasoning_raises:
  assumes "ls_set_aside spec = None" "1000 < length (or_empty (ls_reasoning spec))"
  shows "write_link spec nid node eid stance st = Inl (FieldConstraint ''reasoning'')"
proof -
  obtain c ev ns cs where "st = (c, ev, ns, cs)" by (cases st)
  moreover have "truthy (ls_reasoning spec)" using assms(2) by (auto simp: truthy_def)
  ultimately show ?thesis
    using assms by (simp add: write_link_def settle_set_aside_link_def written_confidence_def new_link_def Let_def)
qed

section \<open>Properties\<close>

text \<open>Mirroring a hypothesis's causal support onto its root settles in one run: a second run adds
  nothing, in whatever turn it comes.\<close>

theorem mirror_is_idempotent:
  assumes "mirror_hypothesis_support_to_root_nodes c turn = Inr (c', k)"
  shows "mirror_hypothesis_support_to_root_nodes c' turn' = Inr (c', 0)"
proof (cases "case_hypotheses c = [] \<or> case_nodes c = []")
  case True
  with assms show ?thesis by (auto simp: mirror_hypothesis_support_to_root_nodes_def)
next
  case False
  let ?cats = "evidence_category_map c" and ?hs = "dict_values (case_hypotheses c)"
  from assms False obtain nodes where f: "try_fold (mirror_hypothesis ?cats turn) ?hs (case_nodes c, 0) = Inr (nodes, k)"
    "c' = c\<lparr>case_nodes := nodes\<rparr>"
    by (auto simp: mirror_hypothesis_support_to_root_nodes_def split: sum.splits)
  have "True \<and> (\<forall>h \<in> set ?hs. mirrored ?cats h (fst (nodes, k)))
      \<and> (\<forall>h. mirrored ?cats h (fst (case_nodes c, 0 :: nat)) \<longrightarrow> mirrored ?cats h (fst (nodes, k)))"
  proof (rule try_fold_establishes [OF f(1), where I = "\<lambda>_. True" and Q = "\<lambda>h st. mirrored ?cats h (fst st)"])
    fix h s s'
    assume "mirror_hypothesis ?cats turn h s = Inr s'"
    then have "more_rows (fst s) (fst s') \<and> mirrored ?cats h (fst s')"
      using mirror_hypothesis_step by (cases s, cases s') simp
    then show "True \<and> mirrored ?cats h (fst s')" and "mirrored ?cats y (fst s) \<Longrightarrow> mirrored ?cats y (fst s')" for y
      using mirrored_more by blast+
  qed simp
  then have "try_fold (mirror_hypothesis ?cats turn') ?hs (nodes, 0) = Inr (nodes, 0)"
    by (intro try_fold_id mirror_hypothesis_still) simp
  then show ?thesis by (simp add: f(2) mirror_hypothesis_support_to_root_nodes_def)
qed

definition ex_mirror :: case_data where
  "ex_mirror = ex_case\<lparr>case_hypotheses := [(''h'', \<lparr>hyp_id = ''h'', hyp_statement = ''cert'', hyp_category = CONFIG,
     hyp_state = H_ACTIVE, hyp_likelihood = 1 / 2, hyp_initial_likelihood = 1 / 2, hyp_root = Some ''R2'',
     hyp_path = [''R2'', ''D''],
     hyp_links = [\<lparr>link_evidence_id = ''e2'', link_stance = SUPPORTS, link_confidence = Some 1,
        link_reasoning = ''seen'', link_hypothesis_id = ''h''\<rparr>],
     hyp_generated_at_turn = 1, hyp_last_updated_turn = 1, hyp_last_progress_at_turn = 1,
     hyp_iterations_without_progress = 0, hyp_generation_mode = SYSTEMATIC,
     hyp_retirement_reason = None, hyp_refutation_reason = None, hyp_rationale = ''first look''\<rparr>)]\<rparr>"

theorem mirror_is_idempotent_witness:
  "\<exists>c'. mirror_hypothesis_support_to_root_nodes ex_mirror 3 = Inr (c', 1)
     \<and> mirror_hypothesis_support_to_root_nodes c' 4 = Inr (c', 0)"
proof -
  let ?m = "mirror_hypothesis_support_to_root_nodes ex_mirror 3"
  have "case ?m of Inl _ \<Rightarrow> False | Inr p \<Rightarrow> snd p = 1" by code_simp
  from case_sum_Inr [OF this] obtain c' where m: "?m = Inr (c', 1)" by (metis prod.collapse)
  from mirror_is_idempotent [OF m] m show ?thesis by blast
qed

text \<open>A reference to the i-th item of a turn's own list, as the model is told to write it, resolves to
  exactly what that item became, for nodes and for evidence; an index beyond the list resolves to
  nothing.\<close>

theorem new_index_roundtrip:
  assumes "length (numeral_of i) \<le> INT_MAX_STR_DIGITS"
  shows "resolve_ref d created nodes (Some (NEW_INDEX @ numeral_of i)) = (if i < length created then created ! i else None)
    \<and> resolve_evidence_ref slots (Some (NEW_INDEX @ numeral_of i)) = (if i < length slots then slots ! i else None)"
proof -
  have "NEW_INDEX @ numeral_of i \<noteq> []" by (simp add: NEW_INDEX_def)
  then show ?thesis
    using assms slot_ref [of "numeral_of i"]
    by (simp add: resolve_ref_def resolve_evidence_ref_def slot_of_def parse_int_numeral)
qed

theorem new_index_roundtrip_witness:
  "resolve_ref ''D'' [Some ''a'', None, Some ''b''] [] (Some (NEW_INDEX @ numeral_of 2)) = Some ''b''"
proof -
  have "length (numeral_of 2) \<le> INT_MAX_STR_DIGITS" by (simp add: numeral_of.simps INT_MAX_STR_DIGITS_def)
  from new_index_roundtrip [OF this, of "''D''" "[Some ''a'', None, Some ''b'']" "[]" "[]"] show ?thesis by simp
qed

text \<open>Bounded input never raises: in a turn that is not negative, on a case whose symptom can seed the
  problem and whose stored links have confidences in [0, 1], an ingest of items with reasonings of
  at most 1000 characters and conforming or set-aside confidences returns, whatever else they hold.\<close>

theorem ingest_returns_on_bounded_input:
  assumes "0 \<le> turn" "seedable c" "links_ok (case_nodes c)"
    and "list_all (\<lambda>e. short (es_reasoning e)) es"
    and "list_all (\<lambda>l. short (ls_reasoning l) \<and> unit_confidence (ls_confidence l)) ls"
  shows "\<exists>r. ingest_emitted_chain new_id c ns es ls turn slots sinks = Inr r"
  by (rule ingest_returns [OF assms])

theorem ingest_returns_on_bounded_input_witness:
  "\<exists>r. ingest_emitted_chain ex_ids ex_case [ex_spec] [] [ex_link_spec] 4 [] (Some [], []) = Inr r"
proof (rule ingest_returns_on_bounded_input)
  show "seedable ex_case" by code_simp
  show "links_ok (case_nodes ex_case)" by code_simp
qed (simp_all add: ex_link_spec_def short_def unit_confidence_def)

end
