(* ===== verification/Pruning.thy ===== *)
theory Pruning
  imports Ingestion_Laws
begin

text \<open>
  Re-rooting hypotheses and collecting what they abandon: \<open>core/investigation/causal_graph/pruning.py\<close>
  and \<open>find_duplicate_hypothesis\<close> of \<open>similarity.py\<close>.

  A hypothesis object is the entry of the hypothesis dictionary under its own id. A \<open>KeyError\<close> of
  \<open>attach_root\<close> (an unknown root) and a path walk that would not return are the value \<open>None\<close>.
\<close>

section \<open>Duplicate hypotheses\<close>

definition find_duplicate_hypothesis :: "string \<Rightarrow> case_data \<Rightarrow> string option" where
  "find_duplicate_hypothesis statement c =
    map_option fst (find (\<lambda>(hid, h). \<not> hypothesis_is_terminal (hyp_state h)
        \<and> hypothesis_statements_duplicate statement (hyp_statement h)) (case_hypotheses c))"

section \<open>Collecting abandoned nodes\<close>

definition referenced_node_ids :: "case_data \<Rightarrow> string set" where
  "referenced_node_ids c = fold (\<lambda>h referenced.
      (if truthy (hyp_root h) then insert (or_empty (hyp_root h)) referenced else referenced) \<union> set (hyp_path h))
    (dict_values (case_hypotheses c)) {}"

definition prune_node ::
    "string set \<Rightarrow> string \<Rightarrow> (string, causal_node) pydict \<times> string set \<Rightarrow> (string, causal_node) pydict \<times> string set" where
  "prune_node referenced nid = (\<lambda>(nodes, pruned).
    case dict_get nodes nid of
      None \<Rightarrow> (nodes, pruned)
    | Some node \<Rightarrow>
        if node_type node = PROBLEM \<or> nid \<in> referenced then (nodes, pruned)
        else (dict_pop nid nodes, insert nid pruned))"

definition prune_solution :: "string set \<Rightarrow> solution \<Rightarrow> solution" where
  "prune_solution pruned s =
    (case sol_node_id s of None \<Rightarrow> s
     | Some nid \<Rightarrow> if nid \<in> pruned then s\<lparr>sol_node_id := None\<rparr> else s)"

definition prune_action :: "string set \<Rightarrow> proposed_action \<Rightarrow> proposed_action" where
  "prune_action pruned a =
    (let a1 = (if act_fix_kind a \<noteq> None \<and> list_ex (\<lambda>t. t \<in> pruned) (act_target_ids a)
               then a\<lparr>act_target_ids := filter (\<lambda>t. t \<notin> pruned) (act_target_ids a)\<rparr> else a)
     in case act_licence_ids a1 of None \<Rightarrow> a1
        | Some ids \<Rightarrow> if list_ex (\<lambda>t. t \<in> pruned) ids
            then a1\<lparr>act_licence_ids := Some (filter (\<lambda>t. t \<notin> pruned) ids)\<rparr> else a1)"

definition edge_survives :: "(string, causal_node) pydict \<Rightarrow> causal_edge \<Rightarrow> bool" where
  "edge_survives nodes e \<longleftrightarrow> dict_get nodes (edge_cause e) \<noteq> None \<and> dict_get nodes (edge_effect e) \<noteq> None"

definition prune_abandoned_nodes :: "case_data \<Rightarrow> string list \<Rightarrow> case_data" where
  "prune_abandoned_nodes c abandoned =
    (case fold (prune_node (referenced_node_ids c)) abandoned (case_nodes c, {}) of
       (nodes, pruned) \<Rightarrow>
         c\<lparr>case_nodes := nodes,
           case_edges := filter (edge_survives nodes) (case_edges c),
           case_solutions := map (prune_solution pruned) (case_solutions c),
           case_actions := map (prune_action pruned) (case_actions c)\<rparr>)"

section \<open>Attaching a root\<close>

definition meta_setdefault :: "string \<Rightarrow> meta_value \<Rightarrow> (string, meta_value) pydict \<Rightarrow> (string, meta_value) pydict" where
  "meta_setdefault k v d = (if dict_get d k = None then dict_put k v d else d)"

definition stamp_attached :: "int \<Rightarrow> causal_node \<Rightarrow> causal_node" where
  "stamp_attached turn n =
    n\<lparr>node_metadata := dict_put ''root_attached_turn'' (MInt turn)
       (meta_setdefault ''root_first_attached_turn''
          (case dict_get (node_metadata n) ''root_attached_turn'' of None \<Rightarrow> MInt turn | Some v \<Rightarrow> v)
          (node_metadata n))\<rparr>"

definition deepen_stale :: "string \<Rightarrow> int \<Rightarrow> causal_node \<Rightarrow> causal_node" where
  "deepen_stale root_id turn n =
    (let n1 = record_root_terminal False None turn n
     in n1\<lparr>node_metadata := dict_put ''deepened_to'' (MStr root_id) (node_metadata n1)\<rparr>)"

definition attach_root :: "case_data \<Rightarrow> hypothesis \<Rightarrow> string \<Rightarrow> string list \<Rightarrow> int \<Rightarrow> case_data option" where
  "attach_root c h root_id path turn =
    (let old_root = hyp_root h;
         c1 = c\<lparr>case_hypotheses := dict_put (hyp_id h) (h\<lparr>hyp_root := Some root_id, hyp_path := path\<rparr>) (case_hypotheses c)\<rparr>
     in if old_root = Some root_id then Some c1
        else (case dict_get (case_nodes c1) root_id of
            None \<Rightarrow> None
          | Some node \<Rightarrow>
             (let nodes1 = dict_put root_id (stamp_attached turn node) (case_nodes c1);
                  stale = (if truthy old_root then dict_get nodes1 (or_empty old_root) else None);
                  nodes2 = (case stale of
                     Some s \<Rightarrow> if node_type s = ROOT \<and> or_empty old_root \<in> set path
                        then dict_put (or_empty old_root) (deepen_stale root_id turn s) nodes1 else nodes1
                   | None \<Rightarrow> nodes1)
              in Some (c1\<lparr>case_nodes := nodes2\<rparr>))))"

section \<open>Orphan chains\<close>

definition hypothesis_lacks_real_chain :: "hypothesis \<Rightarrow> bool" where
  "hypothesis_lacks_real_chain h \<longleftrightarrow> hyp_path h = [] \<or> length (hyp_path h) \<le> 2"

record ambiguous_orphan =
  amb_root_id :: string
  amb_statement :: string
  amb_candidates :: "string list"

text \<open>The case, the adopted hypotheses, the ambiguous orphans and the current load-bearing set.\<close>

type_synonym orphan_pass = "case_data \<times> string set \<times> ambiguous_orphan list \<times> string set"

definition scored_hypotheses :: "case_data \<Rightarrow> string set \<Rightarrow> string \<Rightarrow> (rat \<times> hypothesis) list" where
  "scored_hypotheses c adopted statement =
    map (\<lambda>h. (restatement_score statement (hyp_statement h), h))
      (filter (\<lambda>h. hyp_id h \<notin> adopted
          \<and> restatement_score statement (hyp_statement h) \<ge> RESTATEMENT_AMBIGUOUS)
        (dict_values (case_hypotheses c)))"

definition clear_restatement :: "string \<Rightarrow> (rat \<times> hypothesis) list \<Rightarrow> hypothesis option" where
  "clear_restatement statement scored =
    (case scored of
       [(s, h)] \<Rightarrow> if s \<ge> RESTATEMENT_STRONG \<and> hypothesis_lacks_real_chain h
            \<and> substantive_overlap statement (hyp_statement h) then Some h else None
     | _ \<Rightarrow> None)"

definition resolve_orphan :: "int \<Rightarrow> string \<Rightarrow> orphan_pass \<Rightarrow> orphan_pass option" where
  "resolve_orphan turn root_id = (\<lambda>(c, adopted, ambiguous, referenced).
    case dict_get (case_nodes c) root_id of
      None \<Rightarrow> Some (c, adopted, ambiguous, referenced)
    | Some node \<Rightarrow>
       if root_id \<in> referenced then Some (c, adopted, ambiguous, referenced)
       else (case chain_path_to_problem root_id c of
          None \<Rightarrow> None
        | Some path \<Rightarrow>
           (if path = [] then Some (c, adopted, ambiguous, referenced)
            else let scored = scored_hypotheses c adopted (node_statement node) in
             if scored = [] then Some (c, adopted, ambiguous, referenced)
             else (case clear_restatement (node_statement node) scored of
                Some h \<Rightarrow>
                  (case attach_root c h root_id path turn of
                     None \<Rightarrow> None
                   | Some c1 \<Rightarrow>
                      (let c2 = prune_abandoned_nodes c1 (hyp_path h)
                       in Some (c2, insert (hyp_id h) adopted, ambiguous, referenced_node_ids c2)))
              | None \<Rightarrow>
                  Some (c, adopted,
                    ambiguous @ [\<lparr>amb_root_id = root_id, amb_statement = node_statement node,
                       amb_candidates = map (\<lambda>sh. hyp_statement (snd sh)) (sort_key (\<lambda>sh. - fst sh) scored)\<rparr>],
                    referenced)))))"

fun option_fold :: "('a \<Rightarrow> 's \<Rightarrow> 's option) \<Rightarrow> 'a list \<Rightarrow> 's \<Rightarrow> 's option" where
  "option_fold f [] s = Some s"
| "option_fold f (x # xs) s = (case f x s of None \<Rightarrow> None | Some s' \<Rightarrow> option_fold f xs s')"

definition orphan_root_ids :: "case_data \<Rightarrow> string list" where
  "orphan_root_ids c = map fst (filter (\<lambda>(nid, n). node_type n = ROOT \<and> nid \<notin> referenced_node_ids c) (case_nodes c))"

definition resolve_orphan_chains :: "case_data \<Rightarrow> int option \<Rightarrow> (case_data \<times> ambiguous_orphan list) option" where
  "resolve_orphan_chains c turn =
    (let t = (case turn of None \<Rightarrow> case_current_turn c | Some t \<Rightarrow> t) in
     if \<not> list_ex (\<lambda>n. node_type n = PROBLEM) (dict_values (case_nodes c)) then Some (c, [])
     else (case option_fold (resolve_orphan t) (orphan_root_ids c) (c, {}, [], referenced_node_ids c) of
         None \<Rightarrow> None
       | Some (c', _, ambiguous, _) \<Rightarrow> Some (c', ambiguous)))"

end
