(* ===== verification/Pruning_Laws.thy ===== *)
theory Pruning_Laws
  imports Pruning Examples
begin

text \<open>
  What collecting and re-rooting keep: the load-bearing nodes, the shape of the graph, and chains
  that are anchored on existing nodes.
\<close>

section \<open>The collector\<close>

lemma referenced_node_ids_eq:
  "referenced_node_ids c = (\<Union>h \<in> set (dict_values (case_hypotheses c)).
     (if truthy (hyp_root h) then {or_empty (hyp_root h)} else {}) \<union> set (hyp_path h))"
proof -
  have "fold (\<lambda>h r. (if truthy (hyp_root h) then insert (or_empty (hyp_root h)) r else r) \<union> set (hyp_path h)) hs A =
      A \<union> (\<Union>h \<in> set hs. (if truthy (hyp_root h) then {or_empty (hyp_root h)} else {}) \<union> set (hyp_path h))" for hs A
    by (induction hs arbitrary: A) auto
  from this [of "dict_values (case_hypotheses c)" "{}"]
  show ?thesis unfolding referenced_node_ids_def by (rule trans) simp
qed

definition droppable :: "string set \<Rightarrow> (string, causal_node) pydict \<Rightarrow> string list \<Rightarrow> string set" where
  "droppable referenced nodes ids = {k \<in> set ids. k \<notin> referenced
     \<and> (\<exists>n. dict_get nodes k = Some n \<and> node_type n \<noteq> PROBLEM)}"

definition without :: "string set \<Rightarrow> (string, causal_node) pydict \<Rightarrow> (string, causal_node) pydict" where
  "without gone nodes = filter (\<lambda>(k, _). k \<notin> gone) nodes"

lemma get_without: "dict_get (without gone nodes) k = (if k \<in> gone then None else dict_get nodes k)"
  by (induction nodes) (auto simp: without_def split: if_splits)

lemma pop_without: "dict_pop k (without gone nodes) = without (insert k gone) nodes"
  by (auto simp: dict_pop_def AList.delete_eq without_def intro: filter_cong)

lemma without_empty [simp]: "without {} nodes = nodes"
  by (simp add: without_def)

lemma prune_fold:
  "fold (prune_node referenced) ids (without gone nodes, gone) =
    (without (gone \<union> droppable referenced nodes ids) nodes, gone \<union> droppable referenced nodes ids)"
proof (induction ids arbitrary: gone)
  case Nil
  show ?case by (simp add: droppable_def)
next
  case (Cons k ids)
  let ?D = "droppable referenced nodes"
  show ?case
  proof (cases "k \<in> gone")
    case True
    then have "prune_node referenced k (without gone nodes, gone) = (without gone nodes, gone)"
      by (simp add: prune_node_def get_without)
    moreover have "gone \<union> ?D (k # ids) = gone \<union> ?D ids" using True by (auto simp: droppable_def)
    ultimately show ?thesis using Cons.IH by simp
  next
    case False
    show ?thesis
    proof (cases "k \<in> ?D [k]")
      case True
      then have "prune_node referenced k (without gone nodes, gone) = (without (insert k gone) nodes, insert k gone)"
        using False by (auto simp: droppable_def prune_node_def get_without pop_without)
      moreover have "gone \<union> ?D (k # ids) = insert k gone \<union> ?D ids" using True by (auto simp: droppable_def)
      ultimately show ?thesis using Cons.IH by simp
    next
      case no: False
      then have "prune_node referenced k (without gone nodes, gone) = (without gone nodes, gone)"
        using False by (auto simp: droppable_def prune_node_def get_without split: option.split)
      moreover have "gone \<union> ?D (k # ids) = gone \<union> ?D ids" using no by (auto simp: droppable_def)
      ultimately show ?thesis using Cons.IH by simp
    qed
  qed
qed

definition pruned_ids :: "case_data \<Rightarrow> string list \<Rightarrow> string set" where
  "pruned_ids c ids = droppable (referenced_node_ids c) (case_nodes c) ids"

lemma prune_unfold:
  "prune_abandoned_nodes c ids =
    c\<lparr>case_nodes := without (pruned_ids c ids) (case_nodes c),
      case_edges := filter (edge_survives (without (pruned_ids c ids) (case_nodes c))) (case_edges c),
      case_solutions := map (prune_solution (pruned_ids c ids)) (case_solutions c),
      case_actions := map (prune_action (pruned_ids c ids)) (case_actions c)\<rparr>"
  using prune_fold [of "referenced_node_ids c" ids "{}" "case_nodes c"]
  by (simp add: prune_abandoned_nodes_def pruned_ids_def)

lemma prune_nodes [simp]:
  "case_nodes (prune_abandoned_nodes c ids) = without (pruned_ids c ids) (case_nodes c)"
  "case_hypotheses (prune_abandoned_nodes c ids) = case_hypotheses c"
  "case_evidence (prune_abandoned_nodes c ids) = case_evidence c"
  by (simp_all add: prune_unfold)

lemma nodes_ok_without: "nodes_ok nodes \<Longrightarrow> nodes_ok (without gone nodes)"
  unfolding nodes_ok_def get_without
  by (auto simp: without_def dict_keys_def distinct_map_filter)

lemma prune_graph_ok:
  assumes "graph_ok c"
  shows "graph_ok (prune_abandoned_nodes c ids)"
proof -
  let ?ns = "without (pruned_ids c ids) (case_nodes c)"
  have "edge_ok ?ns e" if "e \<in> set (case_edges c)" "edge_survives ?ns e" for e
    using assms that by (auto simp: graph_ok_def edges_ok_def list_all_iff edge_ok_def edge_survives_def)
  moreover have "distinct (map edge_ends (filter (edge_survives ?ns) (case_edges c)))"
    using assms by (simp add: graph_ok_def edges_ok_def distinct_map_filter)
  ultimately show ?thesis
    using assms by (simp add: graph_ok_def edges_ok_def list_all_iff nodes_ok_without prune_unfold)
qed

lemma referenced_survive:
  assumes "k \<in> referenced_node_ids c"
  shows "dict_get (case_nodes (prune_abandoned_nodes c ids)) k = dict_get (case_nodes c) k"
  using assms by (simp add: get_without pruned_ids_def droppable_def)

section \<open>Anchored chains\<close>

text \<open>The root of a hypothesis is a ROOT node of the graph, and every rung of its path exists.\<close>

definition anchored_on :: "(string, causal_node) pydict \<Rightarrow> hypothesis \<Rightarrow> bool" where
  "anchored_on nodes h \<longleftrightarrow>
     (truthy (hyp_root h) \<longrightarrow> (\<exists>n. dict_get nodes (or_empty (hyp_root h)) = Some n \<and> node_type n = ROOT))
     \<and> (\<forall>k \<in> set (hyp_path h). dict_get nodes k \<noteq> None)"

definition anchors_ok :: "case_data \<Rightarrow> bool" where
  "anchors_ok c \<longleftrightarrow> hypotheses_ok (case_hypotheses c)
     \<and> (\<forall>h \<in> set (dict_values (case_hypotheses c)). anchored_on (case_nodes c) h)"

text \<open>One cause, one chain: no two hypotheses are rooted at the same node.\<close>

definition roots_unique :: "case_data \<Rightarrow> bool" where
  "roots_unique c \<longleftrightarrow> (\<forall>i j g h. dict_get (case_hypotheses c) i = Some g \<and> dict_get (case_hypotheses c) j = Some h
     \<and> truthy (hyp_root g) \<and> hyp_root g = hyp_root h \<longrightarrow> i = j)"

lemma anchored_referenced:
  assumes "h \<in> set (dict_values (case_hypotheses c))"
  shows "anchored_on (case_nodes (prune_abandoned_nodes c ids)) h = anchored_on (case_nodes c) h"
proof -
  have "truthy (hyp_root h) \<Longrightarrow> or_empty (hyp_root h) \<in> referenced_node_ids c"
    and "\<And>k. k \<in> set (hyp_path h) \<Longrightarrow> k \<in> referenced_node_ids c"
    using assms by (auto simp: referenced_node_ids_eq)
  then show ?thesis unfolding anchored_on_def by (metis referenced_survive)
qed

lemma prune_anchors: "anchors_ok c \<Longrightarrow> anchors_ok (prune_abandoned_nodes c ids)"
  using anchored_referenced [of _ c ids] by (simp add: anchors_ok_def)

text \<open>A hypothesis with a path is a chain: recorded edges lead from its root to the problem.\<close>

definition chain_ok :: "case_data \<Rightarrow> hypothesis \<Rightarrow> bool" where
  "chain_ok c h \<longleftrightarrow> hyp_path h = [] \<or> (\<exists>p. problem_node (case_nodes c) = Some p
     \<and> edge_path (edge_rel c) (or_empty (hyp_root h)) (node_id p) (hyp_path h))"

definition chains_ok :: "case_data \<Rightarrow> bool" where
  "chains_ok c \<longleftrightarrow> (\<forall>h \<in> set (dict_values (case_hypotheses c)). chain_ok c h)"

lemma problem_node_without:
  assumes "\<And>k n. (k, n) \<in> set nodes \<Longrightarrow> k \<in> gone \<Longrightarrow> node_type n \<noteq> PROBLEM"
  shows "problem_node (without gone nodes) = problem_node nodes"
  using assms
proof (induction nodes)
  case (Cons x nodes)
  obtain k n where x: "x = (k, n)" by (cases x)
  have "problem_node (without gone nodes) = problem_node nodes"
    by (rule Cons.IH, rule Cons.prems) simp_all
  with Cons.prems [of k n] show ?case by (auto simp: x without_def problem_node_def dict_values_def)
qed (simp add: without_def)

lemma prune_problem_node:
  assumes "nodes_ok (case_nodes c)"
  shows "problem_node (without (pruned_ids c ids) (case_nodes c)) = problem_node (case_nodes c)"
proof (rule problem_node_without)
  fix k n
  assume "(k, n) \<in> set (case_nodes c)" and k: "k \<in> pruned_ids c ids"
  then have "dict_get (case_nodes c) k = Some n" using nodes_ok_wf [OF assms] by (simp add: dict_get_mem)
  with k show "node_type n \<noteq> PROBLEM" by (auto simp: pruned_ids_def droppable_def)
qed

lemma successively_mono_set:
  "successively P xs \<Longrightarrow> (\<And>x y. x \<in> set xs \<Longrightarrow> y \<in> set xs \<Longrightarrow> P x y \<Longrightarrow> Q x y) \<Longrightarrow> successively Q xs"
  by (induction xs rule: induct_list012) auto

lemma prune_edge_rel:
  assumes "(x, y) \<in> edge_rel c" "graph_ok c" "x \<notin> pruned_ids c ids" "y \<notin> pruned_ids c ids"
  shows "(x, y) \<in> edge_rel (prune_abandoned_nodes c ids)"
proof -
  obtain e where e: "e \<in> set (case_edges c)" "x = edge_cause e" "y = edge_effect e"
    using assms(1) by (auto simp: edge_rel_def)
  then have "edge_survives (without (pruned_ids c ids) (case_nodes c)) e"
    using assms(2-4) by (auto simp: edge_survives_def get_without graph_ok_def edges_ok_def list_all_iff edge_ok_def)
  then show ?thesis using e by (auto simp: edge_rel_def prune_unfold)
qed

lemma prune_chains:
  assumes "graph_ok c" "chains_ok c"
  shows "chains_ok (prune_abandoned_nodes c ids)"
  unfolding chains_ok_def
proof
  fix h
  assume "h \<in> set (dict_values (case_hypotheses (prune_abandoned_nodes c ids)))"
  then have h: "h \<in> set (dict_values (case_hypotheses c))" by simp
  show "chain_ok (prune_abandoned_nodes c ids) h"
  proof (cases "hyp_path h = []")
    case False
    with assms(2) h obtain p where p: "problem_node (case_nodes c) = Some p"
      "edge_path (edge_rel c) (or_empty (hyp_root h)) (node_id p) (hyp_path h)"
      by (auto simp: chains_ok_def chain_ok_def)
    have kept: "k \<notin> pruned_ids c ids" if "k \<in> set (hyp_path h)" for k
      using h that by (auto simp: pruned_ids_def droppable_def referenced_node_ids_eq)
    have "successively (\<lambda>x y. (x, y) \<in> edge_rel (prune_abandoned_nodes c ids)) (hyp_path h)"
      using p(2) kept by (intro successively_mono_set [OF _ prune_edge_rel [OF _ assms(1)]]) (auto simp: edge_path_def)
    with p show ?thesis
      using prune_problem_node [of c ids] assms(1) by (auto simp: chain_ok_def edge_path_def graph_ok_def)
  qed (simp add: chain_ok_def)
qed

section \<open>Attaching\<close>

definition meta_only :: "causal_node \<Rightarrow> causal_node \<Rightarrow> bool" where
  "meta_only n n' \<longleftrightarrow> n' = n\<lparr>node_metadata := node_metadata n'\<rparr>"

definition remeta :: "(string, causal_node) pydict \<Rightarrow> (string, causal_node) pydict \<Rightarrow> bool" where
  "remeta = list_all2 (\<lambda>x x'. fst x' = fst x \<and> meta_only (snd x) (snd x'))"

lemma meta_onlyD:
  assumes "meta_only n n'"
  shows "node_type n' = node_type n" "node_id n' = node_id n" "node_ok n' = node_ok n" "node_key_of n' = node_key_of n"
    "node_state n' = node_state n"
proof -
  obtain m where m: "n' = n\<lparr>node_metadata := m\<rparr>" using assms unfolding meta_only_def by blast
  show "node_type n' = node_type n" "node_id n' = node_id n" "node_ok n' = node_ok n" "node_key_of n' = node_key_of n"
    "node_state n' = node_state n"
    by (simp_all add: m node_ok_def node_key_of_def)
qed

lemma meta_only_intros [simp]: "meta_only n n" "meta_only n (n\<lparr>node_metadata := m\<rparr>)"
  by (simp_all add: meta_only_def)

lemma meta_only_trans: "meta_only a b \<Longrightarrow> meta_only b c \<Longrightarrow> meta_only a c"
  unfolding meta_only_def by (metis causal_node.update_convs(11) causal_node.surjective)

lemma remeta_refl: "remeta nodes nodes"
  by (simp add: remeta_def list.rel_refl)

lemma remeta_put:
  assumes "dict_get nodes k = Some n" "meta_only n n'"
  shows "remeta nodes (dict_put k n' nodes)"
  using assms remeta_refl by (induction nodes) (auto simp: remeta_def dict_put_def split: if_splits)

lemma remeta_trans:
  assumes "remeta a b" "remeta b c"
  shows "remeta a c"
  unfolding remeta_def
  by (rule list_all2_trans [OF _ assms [unfolded remeta_def]]) (auto intro: meta_only_trans)

lemma remeta_keys: "remeta nodes nodes' \<Longrightarrow> dict_keys nodes' = dict_keys nodes"
  unfolding remeta_def by (induction rule: list_all2_induct) (simp_all add: dict_keys_def)

lemma remeta_get: "remeta nodes nodes' \<Longrightarrow> rel_option meta_only (dict_get nodes k) (dict_get nodes' k)"
  unfolding remeta_def by (induction rule: list_all2_induct) (auto split: prod.splits)

lemma remeta_problem:
  "remeta nodes nodes' \<Longrightarrow> rel_option meta_only (problem_node nodes) (problem_node nodes')"
  unfolding remeta_def problem_node_def dict_values_def
  by (induction rule: list_all2_induct) (auto simp: meta_onlyD)

lemma remeta_nodes_ok:
  assumes "nodes_ok nodes" "remeta nodes nodes'"
  shows "nodes_ok nodes'"
  unfolding nodes_ok_def
proof (intro conjI allI impI)
  show "dict_wf nodes'" using remeta_keys [OF assms(2)] nodes_ok_wf [OF assms(1)] by simp
next
  fix k n'
  assume n': "dict_get nodes' k = Some n'"
  with remeta_get [OF assms(2), of k] obtain n where n: "dict_get nodes k = Some n" "meta_only n n'"
    by (auto elim: option.rel_cases)
  from nodes_okD [OF assms(1) n(1)] show "node_id n' = k" "node_ok n'"
    by (simp_all add: meta_onlyD [OF n(2)])
qed

lemma stamp_meta [simp]: "meta_only n (stamp_attached turn n)"
  by (simp add: stamp_attached_def)

lemma deepen_meta [simp]: "meta_only n (deepen_stale r turn n)"
  by (simp add: deepen_stale_def record_root_terminal_def meta_only_def Let_def)

text \<open>What attaching does to the case: one hypothesis gets a root and a path, nodes only metadata.\<close>

lemma attach_root_effect:
  assumes "dict_get (case_nodes c) r \<noteq> None"
  shows "\<exists>nodes. attach_root c h r path turn = Some (c\<lparr>case_nodes := nodes,
      case_hypotheses := dict_put (hyp_id h) (h\<lparr>hyp_root := Some r, hyp_path := path\<rparr>) (case_hypotheses c)\<rparr>)
    \<and> remeta (case_nodes c) nodes"
proof (cases "hyp_root h = Some r")
  case True
  show ?thesis
    by (rule exI [of _ "case_nodes c"]) (simp add: attach_root_def Let_def True remeta_refl)
next
  case False
  obtain n where n: "dict_get (case_nodes c) r = Some n" using assms by blast
  let ?n1 = "dict_put r (stamp_attached turn n) (case_nodes c)"
  have r1: "remeta (case_nodes c) ?n1" by (rule remeta_put [OF n]) simp
  define stale where "stale = (if truthy (hyp_root h) then dict_get ?n1 (or_empty (hyp_root h)) else None)"
  define n2 where "n2 = (case stale of
       Some s \<Rightarrow> if node_type s = ROOT \<and> or_empty (hyp_root h) \<in> set path
          then dict_put (or_empty (hyp_root h)) (deepen_stale r turn s) ?n1 else ?n1
     | None \<Rightarrow> ?n1)"
  have "remeta ?n1 n2"
  proof (cases stale)
    case None
    then show ?thesis by (simp add: n2_def remeta_refl)
  next
    case (Some s)
    then have "dict_get ?n1 (or_empty (hyp_root h)) = Some s" by (simp add: stale_def split: if_splits)
    from remeta_put [OF this deepen_meta] show ?thesis by (simp add: n2_def Some remeta_refl)
  qed
  with r1 have "remeta (case_nodes c) n2" by (rule remeta_trans)
  moreover have "attach_root c h r path turn = Some (c\<lparr>case_nodes := n2,
      case_hypotheses := dict_put (hyp_id h) (h\<lparr>hyp_root := Some r, hyp_path := path\<rparr>) (case_hypotheses c)\<rparr>)"
    using False n by (simp add: attach_root_def Let_def n2_def stale_def)
  ultimately show ?thesis by blast
qed

lemma edge_path_nodes:
  assumes "graph_ok c" "edge_path (edge_rel c) a b p" "dict_get (case_nodes c) a \<noteq> None"
  shows "\<forall>k \<in> set p. dict_get (case_nodes c) k \<noteq> None"
  using assms(2,3)
proof (induction p arbitrary: a rule: induct_list012)
  case (3 x y zs)
  then have p: "a = x" "(x, y) \<in> edge_rel c" "edge_path (edge_rel c) y b (y # zs)" by (auto simp: edge_path_Cons)
  then have "dict_get (case_nodes c) y \<noteq> None"
    using assms(1) by (auto simp: edge_rel_def graph_ok_def edges_ok_def list_all_iff edge_ok_def)
  with 3(2) [OF p(3)] 3(4) p(1) show ?case by simp
qed (auto simp: edge_path_def)

text \<open>The invariant of the chains: graph, anchors and paths together.\<close>

definition chained :: "case_data \<Rightarrow> bool" where
  "chained c \<longleftrightarrow> graph_ok c \<and> anchors_ok c \<and> chains_ok c"

lemma prune_chained: "chained c \<Longrightarrow> chained (prune_abandoned_nodes c ids)"
  by (simp add: chained_def prune_graph_ok prune_anchors prune_chains)

lemma hyp_value:
  "hypotheses_ok hs \<Longrightarrow> h \<in> set (dict_values hs) \<Longrightarrow> dict_get hs (hyp_id h) = Some h"
  by (force simp: hypotheses_ok_def dict_values_get)

lemma attach_chained:
  assumes ok: "chained c" and h: "dict_get (case_hypotheses c) (hyp_id h) = Some h"
    and r: "dict_get (case_nodes c) r = Some n" "node_type n = ROOT"
    and path: "path = [] \<or> (\<exists>p. problem_node (case_nodes c) = Some p \<and> edge_path (edge_rel c) r (node_id p) path)"
    and nodes: "remeta (case_nodes c) nodes"
    and c1: "c1 = c\<lparr>case_nodes := nodes,
      case_hypotheses := dict_put (hyp_id h) (h\<lparr>hyp_root := Some r, hyp_path := path\<rparr>) (case_hypotheses c)\<rparr>"
  shows "chained c1"
proof -
  let ?h = "h\<lparr>hyp_root := Some r, hyp_path := path\<rparr>"
  have graph: "graph_ok c" and hyps: "hypotheses_ok (case_hypotheses c)"
    using ok by (simp_all add: chained_def anchors_ok_def)
  have same: "dict_get nodes k = None \<longleftrightarrow> dict_get (case_nodes c) k = None" for k
    using remeta_keys [OF nodes] by (simp add: dict_get_None_iff)
  have "edge_ok nodes = edge_ok (case_nodes c)" by (rule ext) (simp add: edge_ok_def same)
  then have 1: "graph_ok c1"
    using graph remeta_nodes_ok [OF _ nodes] by (simp add: c1 graph_ok_def edges_ok_def)
  have wf: "dict_wf (case_hypotheses c)" using hyps by (simp add: hypotheses_ok_def)
  have hok: "hypothesis_ok h" using hyps h unfolding hypotheses_ok_def by blast
  have "hypothesis_ok ?h" using hok path by (auto simp: hypothesis_ok_def edge_path_def)
  then have 2: "hypotheses_ok (case_hypotheses c1)"
    using hyps by (simp add: c1 hypotheses_ok_def)
  have typed: "\<exists>n'. dict_get nodes k = Some n' \<and> node_type n' = ROOT"
    if "dict_get (case_nodes c) k = Some m" "node_type m = ROOT" for k m
    using remeta_get [OF nodes, of k] that by (auto simp: meta_onlyD elim: option.rel_cases)
  have anch: "anchored_on nodes g" if "anchored_on (case_nodes c) g" for g
    using that typed unfolding anchored_on_def same by blast
  have "\<forall>k \<in> set path. dict_get nodes k \<noteq> None"
    using path edge_path_nodes [OF graph] r(1) by (auto simp: same)
  then have "anchored_on nodes ?h" using typed [OF r] by (simp add: anchored_on_def)
  then have 3: "anchors_ok c1"
    using 2 ball_values_put [OF wf, of "anchored_on nodes" ?h "hyp_id h"] anch ok
    by (simp add: c1 anchors_ok_def chained_def)
  have edges: "edge_rel c1 = edge_rel c" by (simp add: c1 edge_rel_def)
  have prob: "problem_node (case_nodes c) = Some p \<Longrightarrow> \<exists>p'. problem_node nodes = Some p' \<and> node_id p' = node_id p" for p
    using remeta_problem [OF nodes] by (auto simp: meta_onlyD elim: option.rel_cases)
  have keep: "chain_ok c1 g" if "chain_ok c g" for g
    using that prob unfolding chain_ok_def edges by (auto simp: c1)
  have "chain_ok c1 ?h" using path prob unfolding chain_ok_def edges by (auto simp: c1)
  then have "chains_ok c1"
    using ball_values_put [OF wf, of "chain_ok c1" ?h "hyp_id h"] keep ok
    by (simp add: chains_ok_def chained_def) (simp add: c1)
  with 1 3 show ?thesis by (simp add: chained_def)
qed

section \<open>Orphan resolution\<close>

text \<open>How a hypothesis may differ after the pass: as it was, or re-rooted onto an orphan it clearly restates.\<close>

definition adopted_onto :: "case_data \<Rightarrow> hypothesis \<Rightarrow> hypothesis \<Rightarrow> bool" where
  "adopted_onto c0 h h' \<longleftrightarrow> (\<exists>r n path. h' = h\<lparr>hyp_root := Some r, hyp_path := path\<rparr> \<and> path \<noteq> []
     \<and> r \<notin> referenced_node_ids c0 \<and> dict_get (case_nodes c0) r = Some n \<and> node_type n = ROOT
     \<and> hypothesis_lacks_real_chain h
     \<and> restatement_score (node_statement n) (hyp_statement h) \<ge> RESTATEMENT_STRONG
     \<and> substantive_overlap (node_statement n) (hyp_statement h))"

definition orphan_pass_ok :: "case_data \<Rightarrow> orphan_pass \<Rightarrow> bool" where
  "orphan_pass_ok c0 = (\<lambda>(c, adopted, _, referenced).
     chained c \<and> referenced = referenced_node_ids c \<and> (roots_unique c0 \<longrightarrow> roots_unique c)
     \<and> (\<forall>k n. dict_get (case_nodes c) k = Some n \<longrightarrow> (\<exists>n0. dict_get (case_nodes c0) k = Some n0 \<and> meta_only n0 n))
     \<and> (\<forall>k h. dict_get (case_hypotheses c0) k = Some h \<longrightarrow>
          (\<exists>h'. dict_get (case_hypotheses c) k = Some h' \<and> (h' = h \<or> k \<in> adopted \<and> adopted_onto c0 h h')))
     \<and> set (dict_keys (case_hypotheses c)) = set (dict_keys (case_hypotheses c0)))"

lemma clear_restatementD:
  assumes "clear_restatement st (scored_hypotheses c adopted st) = Some h"
  shows "h \<in> set (dict_values (case_hypotheses c)) \<and> hyp_id h \<notin> adopted \<and> hypothesis_lacks_real_chain h
    \<and> restatement_score st (hyp_statement h) \<ge> RESTATEMENT_STRONG \<and> substantive_overlap st (hyp_statement h)"
proof -
  obtain s where s: "scored_hypotheses c adopted st = [(s, h)]" "s \<ge> RESTATEMENT_STRONG"
    "hypothesis_lacks_real_chain h" "substantive_overlap st (hyp_statement h)"
    using assms by (auto simp: clear_restatement_def split: list.splits prod.splits if_splits)
  have "(s, h) \<in> set (scored_hypotheses c adopted st)" using s(1) by simp
  then show ?thesis using s(2-4) by (auto simp: scored_hypotheses_def)
qed

lemma attach_unique_root:
  assumes "roots_unique c"
    and other: "\<And>i g. dict_get (case_hypotheses c) i = Some g \<Longrightarrow> i \<noteq> hyp_id h \<Longrightarrow> r \<noteq> [] \<Longrightarrow> hyp_root g \<noteq> Some r"
    and c1: "c1 = c\<lparr>case_nodes := nodes,
      case_hypotheses := dict_put (hyp_id h) (h\<lparr>hyp_root := Some r, hyp_path := path\<rparr>) (case_hypotheses c)\<rparr>"
  shows "roots_unique c1"
  unfolding roots_unique_def
proof (intro allI impI)
  fix i j g g'
  assume a: "dict_get (case_hypotheses c1) i = Some g \<and> dict_get (case_hypotheses c1) j = Some g'
    \<and> truthy (hyp_root g) \<and> hyp_root g = hyp_root g'"
  consider "i = j" | "i \<noteq> hyp_id h" "j \<noteq> hyp_id h" | "i = hyp_id h" "j \<noteq> hyp_id h" | "i \<noteq> hyp_id h" "j = hyp_id h" by blast
  then show "i = j"
  proof cases
    case 2
    with a have "dict_get (case_hypotheses c) i = Some g" "dict_get (case_hypotheses c) j = Some g'"
      "truthy (hyp_root g)" "hyp_root g = hyp_root g'" by (auto simp: c1)
    with assms(1) show ?thesis unfolding roots_unique_def by blast
  next
    case 3
    with a have "hyp_root g = Some r" "dict_get (case_hypotheses c) j = Some g'" by (auto simp: c1)
    with a other [of j g'] 3 show ?thesis by auto
  next
    case 4
    with a have "hyp_root g' = Some r" "dict_get (case_hypotheses c) i = Some g" by (auto simp: c1)
    with a other [of i g] 4 show ?thesis by auto
  qed
qed

lemma attach_roots_unique:
  assumes "roots_unique c" "hypotheses_ok (case_hypotheses c)"
    and "r \<notin> referenced_node_ids c"
    and "c1 = c\<lparr>case_nodes := nodes,
      case_hypotheses := dict_put (hyp_id h) (h\<lparr>hyp_root := Some r, hyp_path := path\<rparr>) (case_hypotheses c)\<rparr>"
  shows "roots_unique c1"
proof (rule attach_unique_root [OF assms(1) _ assms(4)])
  fix i g
  assume g: "dict_get (case_hypotheses c) i = Some g" "r \<noteq> []"
  show "hyp_root g \<noteq> Some r"
  proof
    assume "hyp_root g = Some r"
    moreover have "g \<in> set (dict_values (case_hypotheses c))"
      using g(1) assms(2) by (auto simp: dict_values_get hypotheses_ok_def)
    ultimately show False using assms(3) g(2) by (force simp: referenced_node_ids_eq)
  qed
qed

lemma prune_roots_unique: "roots_unique (prune_abandoned_nodes c ids) = roots_unique c"
  by (simp add: roots_unique_def)

lemma chain_path_nonempty:
  assumes "chain_path_to_problem r c = Some path" "path \<noteq> []"
  shows "\<exists>p. problem_node (case_nodes c) = Some p \<and> edge_path (edge_rel c) r (node_id p) path"
proof -
  have "\<exists>p. problem_node (case_nodes c) = Some p \<and> dict_get (case_nodes c) r \<noteq> None \<and> r \<noteq> node_id p"
    using assms by (auto simp: chain_path_to_problem_def simp del: bfs.simps split: option.splits if_splits)
  then obtain p where p: "problem_node (case_nodes c) = Some p" "dict_get (case_nodes c) r \<noteq> None" "r \<noteq> node_id p" by blast
  with chain_path_search [OF p] assms show ?thesis by auto
qed

lemma resolve_orphan_step:
  assumes c0: "chained c0" and inv: "orphan_pass_ok c0 st" and r0: "r \<in> set (orphan_root_ids c0)"
  shows "\<exists>st'. resolve_orphan turn r st = Some st' \<and> orphan_pass_ok c0 st'"
proof -
  obtain c adopted amb ref where st: "st = (c, adopted, amb, ref)" by (cases st)
  note i = inv [unfolded st orphan_pass_ok_def prod.case]
  have ch: "chained c" and ref: "ref = referenced_node_ids c" using i by simp_all
  have stay: "orphan_pass_ok c0 (c, adopted, amb', ref)" for amb' using i by (simp add: orphan_pass_ok_def)
  obtain path where path: "chain_path_to_problem r c = Some path" using chain_path_total by blast
  show ?thesis
  proof (cases "\<exists>n h. dict_get (case_nodes c) r = Some n \<and> r \<notin> ref \<and> path \<noteq> []
      \<and> clear_restatement (node_statement n) (scored_hypotheses c adopted (node_statement n)) = Some h")
    case False
    then show ?thesis
      using stay path by (auto simp: st resolve_orphan_def Let_def split: option.split)
  next
    case True
    then obtain n h where h: "dict_get (case_nodes c) r = Some n" "r \<notin> ref" "path \<noteq> []"
      "clear_restatement (node_statement n) (scored_hypotheses c adopted (node_statement n)) = Some h" by blast
    let ?h = "h\<lparr>hyp_root := Some r, hyp_path := path\<rparr>"
    note cl = clear_restatementD [OF h(4)]
    have hyps: "hypotheses_ok (case_hypotheses c)" using ch by (simp add: chained_def anchors_ok_def)
    have hv: "dict_get (case_hypotheses c) (hyp_id h) = Some h" using hyp_value [OF hyps] cl by blast
    obtain n0 where n0: "dict_get (case_nodes c0) r = Some n0" "meta_only n0 n" using i h(1) by blast
    have "(r, n0) \<in> set (case_nodes c0)"
      using n0(1) by (simp add: dict_get_def map_of_SomeD)
    have root0: "node_type n0 = ROOT" "r \<notin> referenced_node_ids c0"
    proof -
      obtain m where m: "(r, m) \<in> set (case_nodes c0)" "node_type m = ROOT" and "r \<notin> referenced_node_ids c0"
        using r0 by (auto simp: orphan_root_ids_def)
      moreover have "dict_wf (case_nodes c0)" using c0 by (simp add: chained_def graph_ok_def nodes_ok_wf)
      then have "dict_get (case_nodes c0) r = Some m" using m(1) by (simp add: dict_get_mem)
      ultimately show "node_type n0 = ROOT" "r \<notin> referenced_node_ids c0" using n0(1) by simp_all
    qed
    have rn: "node_type n = ROOT" "node_statement n = node_statement n0"
      using root0(1) n0(2) unfolding meta_only_def
      by (metis causal_node.select_convs(3) causal_node.surjective causal_node.update_convs(11),
          metis causal_node.select_convs(2) causal_node.surjective causal_node.update_convs(11))
    have "dict_get (case_nodes c) r \<noteq> None" using h(1) by simp
    from attach_root_effect [OF this, of h path turn] obtain nodes where
      at: "attach_root c h r path turn = Some (c\<lparr>case_nodes := nodes, case_hypotheses := dict_put (hyp_id h) ?h (case_hypotheses c)\<rparr>)"
      and rm: "remeta (case_nodes c) nodes" by blast
    define c1 where "c1 = c\<lparr>case_nodes := nodes, case_hypotheses := dict_put (hyp_id h) ?h (case_hypotheses c)\<rparr>"
    let ?c2 = "prune_abandoned_nodes c1 (hyp_path h)"
    have "chained c1"
      by (rule attach_chained [OF ch hv h(1) rn(1) _ rm c1_def]) (use chain_path_nonempty [OF path h(3)] in blast)
    then have 1: "chained ?c2" by (rule prune_chained)
    have 2: "roots_unique c0 \<longrightarrow> roots_unique ?c2"
      using i attach_roots_unique [OF _ hyps _ c1_def] h(2) by (auto simp: prune_roots_unique ref)
    have 3: "\<exists>n0. dict_get (case_nodes c0) k = Some n0 \<and> meta_only n0 m" if "dict_get (case_nodes ?c2) k = Some m" for k m
    proof -
      have "dict_get nodes k = Some m" using that by (simp add: get_without c1_def split: if_splits)
      with remeta_get [OF rm, of k] obtain m0 where "dict_get (case_nodes c) k = Some m0" "meta_only m0 m"
        by (auto elim: option.rel_cases)
      with i meta_only_trans show ?thesis by blast
    qed
    have adopted: "adopted_onto c0 g ?h" if "g = h" for g
      unfolding adopted_onto_def
      by (rule exI [of _ r], rule exI [of _ n0], rule exI [of _ path]) (use that h(3) root0 n0(1) cl rn in simp)
    have 4: "\<exists>g'. dict_get (case_hypotheses ?c2) k = Some g' \<and> (g' = g \<or> k \<in> insert (hyp_id h) adopted \<and> adopted_onto c0 g g')"
      if g: "dict_get (case_hypotheses c0) k = Some g" for k g
    proof (cases "k = hyp_id h")
      case True
      have "\<exists>g'. dict_get (case_hypotheses c) k = Some g' \<and> (g' = g \<or> k \<in> adopted \<and> adopted_onto c0 g g')"
        using i g by blast
      then have "h = g" using hv cl by (auto simp: True)
      then show ?thesis using adopted True by (simp add: c1_def)
    next
      case False
      then have "dict_get (case_hypotheses ?c2) k = dict_get (case_hypotheses c) k" by (simp add: c1_def)
      moreover have "\<exists>g'. dict_get (case_hypotheses c) k = Some g' \<and> (g' = g \<or> k \<in> adopted \<and> adopted_onto c0 g g')"
        using i g by blast
      ultimately show ?thesis by auto
    qed
    have 5: "set (dict_keys (case_hypotheses ?c2)) = set (dict_keys (case_hypotheses c0))"
      using i dict_get_Some_key [OF hv] by (auto simp: c1_def)
    have sc: "scored_hypotheses c adopted (node_statement n) \<noteq> []" using h(4) by (auto simp: clear_restatement_def)
    have "resolve_orphan turn r st = Some (?c2, insert (hyp_id h) adopted, amb, referenced_node_ids ?c2)"
      using h path sc at by (simp add: st resolve_orphan_def Let_def c1_def)
    moreover have "orphan_pass_ok c0 (?c2, insert (hyp_id h) adopted, amb, referenced_node_ids ?c2)"
      unfolding orphan_pass_ok_def prod.case using 1 2 3 4 5 by blast
    ultimately show ?thesis by blast
  qed
qed

end
