(* ===== verification/Pruning_Properties.thy ===== *)
theory Pruning_Properties
  imports Pruning_Laws Ingestion_Properties
begin

text \<open>
  The properties of the collector and of orphan resolution, over the laws of \<open>Pruning_Laws\<close>.
\<close>

section \<open>The fold over the orphans\<close>

lemma option_fold_total:
  assumes "I s" "\<And>x s. x \<in> set xs \<Longrightarrow> I s \<Longrightarrow> \<exists>s'. f x s = Some s' \<and> I s'"
  shows "\<exists>s'. option_fold f xs s = Some s' \<and> I s'"
  using assms
proof (induction xs arbitrary: s)
  case (Cons x xs)
  obtain s1 where "f x s = Some s1" "I s1" using Cons.prems(2) [of x s] Cons.prems(1) by auto
  moreover have "\<exists>s'. option_fold f xs s1 = Some s' \<and> I s'"
    by (rule Cons.IH [OF \<open>I s1\<close>]) (use Cons.prems(2) in auto)
  ultimately show ?case by simp
qed simp

lemma orphan_pass_start: "chained c \<Longrightarrow> orphan_pass_ok c (c, {}, [], referenced_node_ids c)"
  by (simp add: orphan_pass_ok_def)

lemma orphan_pass_end:
  assumes "chained c"
  shows "\<exists>c' adopted amb ref. option_fold (resolve_orphan t) (orphan_root_ids c) (c, {}, [], referenced_node_ids c)
      = Some (c', adopted, amb, ref) \<and> orphan_pass_ok c (c', adopted, amb, ref)"
proof -
  have "\<exists>st. option_fold (resolve_orphan t) (orphan_root_ids c) (c, {}, [], referenced_node_ids c) = Some st
      \<and> orphan_pass_ok c st"
    by (rule option_fold_total [where I = "orphan_pass_ok c"])
      (simp_all only: orphan_pass_start [OF assms] resolve_orphan_step [OF assms])
  then show ?thesis by auto
qed

section \<open>Properties\<close>

text \<open>C38: Collecting the nodes a hypothesis has abandoned removes exactly the listed nodes that are
  neither the problem node nor part of any hypothesis's current chain; every other node keeps its
  value, the edges that survive are those with both ends, and afterwards no solution and no
  licence of an action points at a removed node.\<close>

theorem prune_removes_exactly_the_abandoned:
  "let gone = {k \<in> set ids. k \<notin> referenced_node_ids c \<and> (\<exists>n. dict_get (case_nodes c) k = Some n \<and> node_type n \<noteq> PROBLEM)};
       c' = prune_abandoned_nodes c ids
   in (\<forall>k. dict_get (case_nodes c') k = (if k \<in> gone then None else dict_get (case_nodes c) k))
    \<and> case_hypotheses c' = case_hypotheses c
    \<and> set (case_edges c') = {e \<in> set (case_edges c). dict_get (case_nodes c') (edge_cause e) \<noteq> None
         \<and> dict_get (case_nodes c') (edge_effect e) \<noteq> None}
    \<and> {k \<in> gone. \<exists>s \<in> set (case_solutions c'). sol_node_id s = Some k} = {}
    \<and> {k \<in> gone. \<exists>a \<in> set (case_actions c'). \<exists>l. act_licence_ids a = Some l \<and> k \<in> set l} = {}"
proof -
  let ?g = "pruned_ids c ids"
  have g: "{k \<in> set ids. k \<notin> referenced_node_ids c \<and> (\<exists>n. dict_get (case_nodes c) k = Some n \<and> node_type n \<noteq> PROBLEM)} = ?g"
    by (simp add: pruned_ids_def droppable_def)
  have sol: "sol_node_id (prune_solution ?g s) = Some k \<Longrightarrow> k \<notin> ?g" for s k
    by (auto simp: prune_solution_def split: option.splits if_splits)
  have act: "act_licence_ids (prune_action ?g a) = Some l \<Longrightarrow> k \<in> set l \<Longrightarrow> k \<notin> ?g" for a l k
    by (auto simp: prune_action_def Let_def list_ex_iff split: option.splits if_splits)
  show ?thesis
    unfolding g Let_def using sol
    by (auto simp: prune_unfold get_without edge_survives_def dest: act)
qed

text \<open>C37: Resolving orphan chains always returns on a case with anchored chains, keeps graph, anchors and
  chains well-formed, and never makes two hypotheses share a root. Every hypothesis is afterwards
  either what it was, or re-rooted onto a root no hypothesis referenced before, and then it had no
  chain of its own beyond root and problem and its statement strongly restates the orphan's.\<close>

theorem orphan_resolution_safe:
  assumes "chained c"
  shows "\<exists>c' ambiguous. resolve_orphan_chains c turn = Some (c', ambiguous) \<and> chained c'
    \<and> (roots_unique c \<longrightarrow> roots_unique c')
    \<and> (\<forall>k h. dict_get (case_hypotheses c) k = Some h \<longrightarrow>
        (\<exists>h'. dict_get (case_hypotheses c') k = Some h' \<and> (h' = h \<or> adopted_onto c h h')))"
proof -
  obtain c' adopted amb ref where
    run: "option_fold (resolve_orphan (case turn of None \<Rightarrow> case_current_turn c | Some t \<Rightarrow> t)) (orphan_root_ids c)
       (c, {}, [], referenced_node_ids c) = Some (c', adopted, amb, ref)"
    and inv: "orphan_pass_ok c (c', adopted, amb, ref)"
    using orphan_pass_end [OF assms] by blast
  have "chained c'" "roots_unique c \<longrightarrow> roots_unique c'"
    using inv by (simp_all add: orphan_pass_ok_def)
  moreover have "\<exists>h'. dict_get (case_hypotheses c') k = Some h' \<and> (h' = h \<or> adopted_onto c h h')"
    if "dict_get (case_hypotheses c) k = Some h" for k h
    using inv that unfolding orphan_pass_ok_def prod.case by blast
  ultimately show ?thesis
    using run assms unfolding resolve_orphan_chains_def Let_def by auto
qed

text \<open>A hypothesis with no chain restates the first root of the example case.\<close>

definition ex_orphans :: case_data where
  "ex_orphans = ex_case\<lparr>case_hypotheses := [(''h'', ex_hypothesis\<lparr>hyp_root := None, hyp_path := []\<rparr>)]\<rparr>"

lemma ex_orphans_chained: "chained ex_orphans"
  using ex_graph_ok
  by (simp add: chained_def ex_orphans_def graph_ok_def anchors_ok_def chains_ok_def hypotheses_ok_def
      anchored_on_def chain_ok_def ex_hypothesis_def hypothesis_ok_def truthy_def dict_values_def dict_keys_def)

declare trace_back.simps [code]

lemma ex_orphans_adopts:
  "map_option (\<lambda>(c', amb). (map_option hyp_root (dict_get (case_hypotheses c') ''h''), amb)) (resolve_orphan_chains ex_orphans None)
    = Some (Some (Some ''R1''), [])"
  by code_simp

theorem orphan_resolution_safe_witness:
  "\<exists>c' h'. resolve_orphan_chains ex_orphans None = Some (c', []) \<and> chained c'
     \<and> dict_get (case_hypotheses c') ''h'' = Some h' \<and> hyp_root h' = Some ''R1''"
proof -
  obtain h where h: "dict_get (case_hypotheses ex_orphans) ''h'' = Some h" by (simp add: ex_orphans_def)
  from orphan_resolution_safe [OF ex_orphans_chained, of None] h
  obtain c' amb where c': "resolve_orphan_chains ex_orphans None = Some (c', amb)" "chained c'"
    "\<exists>h'. dict_get (case_hypotheses c') ''h'' = Some h'" by blast
  have "map_option hyp_root (dict_get (case_hypotheses c') ''h'') = Some (Some ''R1'')" "amb = []"
    using ex_orphans_adopts c'(1) by simp_all
  then show ?thesis using c' by auto
qed

end
