(* ===== verification/Lifecycle.thy ===== *)
theory Lifecycle
  imports Case_Model
begin

text \<open>
  The states of a case, the legal moves between them and the moves a user may ask for
  (\<open>modules/case/domain/models/lifecycle.py\<close>, \<open>case_action_manager.py\<close>). A move is recorded as a
  \<open>CaseAction\<close>, whose constructor refuses an illegal one. Timestamps are left out.
\<close>

section \<open>States\<close>

datatype case_state = INQUIRY | INVESTIGATING | RESOLVED | CLOSED

definition state_is_terminal :: "case_state \<Rightarrow> bool" where
  "state_is_terminal s \<longleftrightarrow> s \<in> set [RESOLVED, CLOSED]"

definition state_is_active :: "case_state \<Rightarrow> bool" where
  "state_is_active s \<longleftrightarrow> s \<in> set [INQUIRY, INVESTIGATING]"

datatype closure_reason =
    INQUIRY_ONLY | CLOSED_FALSE_ALARM | RESOLUTION_DECLINED | SOLUTION_DEFERRED
  | CLOSED_RCA_INFEASIBLE | MITIGATION_SUFFICIENT | CLOSED_RESTATEMENT_HELD | CLOSED_INSUFFICIENT_EVIDENCE

definition LEGAL_TRANSITIONS :: "(case_state, case_state list) pydict" where
  "LEGAL_TRANSITIONS = [(INQUIRY, [INVESTIGATING, CLOSED]), (INVESTIGATING, [RESOLVED, CLOSED]),
     (RESOLVED, []), (CLOSED, [])]"

definition is_valid_action :: "case_state \<Rightarrow> case_state \<Rightarrow> bool" where
  "is_valid_action from_state to_state \<longleftrightarrow>
     to_state \<in> set (case dict_get LEGAL_TRANSITIONS from_state of None \<Rightarrow> [] | Some ts \<Rightarrow> ts)"

section \<open>Actions\<close>

record case_action =
  ca_from :: case_state
  ca_to :: case_state
  ca_triggered_by :: string
  ca_reason :: string

datatype action_error = InvalidAction case_state case_state | ReasonTooLong

definition new_case_action :: "case_state \<Rightarrow> case_state \<Rightarrow> string \<Rightarrow> string \<Rightarrow> action_error + case_action" where
  "new_case_action from_state to_state by reason =
    (if length reason > 500 then Inl ReasonTooLong
     else if \<not> is_valid_action from_state to_state then Inl (InvalidAction from_state to_state)
     else Inr \<lparr>ca_from = from_state, ca_to = to_state, ca_triggered_by = by, ca_reason = reason\<rparr>)"

definition USER_SELECTABLE_ACTIONS :: "(case_state, case_state list) pydict" where
  "USER_SELECTABLE_ACTIONS = [(INQUIRY, [CLOSED]), (INVESTIGATING, [CLOSED]), (RESOLVED, []), (CLOSED, [])]"

definition get_allowed_actions :: "case_state \<Rightarrow> case_state list" where
  "get_allowed_actions s = (case dict_get USER_SELECTABLE_ACTIONS s of None \<Rightarrow> [] | Some ts \<Rightarrow> ts)"

text \<open>The name a client sends for a state; \<open>CaseState(to_state)\<close> is its partial inverse.\<close>

fun state_value :: "case_state \<Rightarrow> string" where
  "state_value INQUIRY = ''inquiry''"
| "state_value INVESTIGATING = ''investigating''"
| "state_value RESOLVED = ''resolved''"
| "state_value CLOSED = ''closed''"

definition state_of_value :: "string \<Rightarrow> case_state option" where
  "state_of_value v = find (\<lambda>s. state_value s = v) [INQUIRY, INVESTIGATING, RESOLVED, CLOSED]"

datatype edge_refusal = NotACaseState string | EarnedEdge case_state | EngineEdge case_state

definition earned_edge_refusal :: "case_state \<Rightarrow> string \<Rightarrow> edge_refusal option" where
  "earned_edge_refusal from_state to_state =
    (if from_state \<in> set [RESOLVED, CLOSED] then None
     else if to_state \<in> set (map state_value (get_allowed_actions from_state)) then None
     else case state_of_value to_state of
        None \<Rightarrow> Some (NotACaseState to_state)
      | Some target \<Rightarrow>
          Some (if target \<in> set [INVESTIGATING, RESOLVED] then EarnedEdge target else EngineEdge target))"

section \<open>Lifetimes\<close>

inductive lifetime :: "case_state \<Rightarrow> case_action list \<Rightarrow> case_state \<Rightarrow> bool" where
  start: "lifetime s [] s"
| act: "lifetime s as t \<Longrightarrow> new_case_action t u by reason = Inr a \<Longrightarrow> lifetime s (as @ [a]) u"

inductive_cases lifetime_nilE: "lifetime s [] t"
inductive_cases lifetime_snocE: "lifetime s (as @ [a]) t"

lemma valid_action_iff:
  "is_valid_action s t \<longleftrightarrow> (s, t) \<in> {(INQUIRY, INVESTIGATING), (INQUIRY, CLOSED), (INVESTIGATING, RESOLVED), (INVESTIGATING, CLOSED)}"
  by (cases s; cases t) (simp_all add: is_valid_action_def LEGAL_TRANSITIONS_def)

lemma new_case_action_Inr:
  "new_case_action s t by reason = Inr a \<longleftrightarrow>
     is_valid_action s t \<and> length reason \<le> 500
     \<and> a = \<lparr>ca_from = s, ca_to = t, ca_triggered_by = by, ca_reason = reason\<rparr>"
  by (auto simp: new_case_action_def)

lemma state_of_value [simp]: "state_of_value (state_value s) = Some s"
  by (cases s) (simp_all add: state_of_value_def)

lemma terminal_is_final:
  "lifetime s as t \<Longrightarrow> state_is_terminal s \<Longrightarrow> as = [] \<and> t = s"
  by (induction rule: lifetime.induct) (auto simp: new_case_action_Inr valid_action_iff state_is_terminal_def)

text \<open>How far a state is from the end of a life.\<close>

fun moves_left :: "case_state \<Rightarrow> nat" where
  "moves_left INQUIRY = 2"
| "moves_left INVESTIGATING = 1"
| "moves_left RESOLVED = 0"
| "moves_left CLOSED = 0"

lemma lifetime_bound: "lifetime s as t \<Longrightarrow> length as + moves_left t \<le> moves_left s"
  by (induction rule: lifetime.induct) (auto simp: new_case_action_Inr valid_action_iff)

section \<open>Properties\<close>

text \<open>A case's recorded life from its inquiry is at most two moves long, and a case that is resolved
  was investigated before: resolution is reached by exactly the moves inquiry, investigating, resolved.\<close>

theorem resolution_follows_investigation:
  assumes "lifetime INQUIRY as t"
  shows "length as \<le> 2 \<and> (t = RESOLVED \<longrightarrow> map ca_to as = [INVESTIGATING, RESOLVED])"
proof -
  have inv: "(t = INQUIRY \<longrightarrow> as = []) \<and> (t = INVESTIGATING \<longrightarrow> map ca_to as = [INVESTIGATING])
      \<and> (t = RESOLVED \<longrightarrow> map ca_to as = [INVESTIGATING, RESOLVED])" if "lifetime s as t" "s = INQUIRY" for s
    using that by (induction rule: lifetime.induct) (auto simp: new_case_action_Inr valid_action_iff)
  then show ?thesis using lifetime_bound [OF assms] assms by auto
qed

theorem resolution_follows_investigation_witness:
  "\<exists>as. lifetime INQUIRY as RESOLVED \<and> map ca_to as = [INVESTIGATING, RESOLVED]"
proof -
  let ?a = "\<lambda>s t. \<lparr>ca_from = s, ca_to = t, ca_triggered_by = ''u'', ca_reason = []\<rparr>"
  have 1: "lifetime INQUIRY ([] @ [?a INQUIRY INVESTIGATING]) INVESTIGATING"
    by (rule lifetime.act [OF lifetime.start, where reason = "[]"]) (simp add: new_case_action_Inr valid_action_iff)
  have 2: "lifetime INQUIRY (([] @ [?a INQUIRY INVESTIGATING]) @ [?a INVESTIGATING RESOLVED]) RESOLVED"
    by (rule lifetime.act [OF 1, where reason = "[]"]) (simp add: new_case_action_Inr valid_action_iff)
  then have "map ca_to (([] @ [?a INQUIRY INVESTIGATING]) @ [?a INVESTIGATING RESOLVED]) = [INVESTIGATING, RESOLVED]"
    using resolution_follows_investigation by blast
  with 2 show ?thesis by (intro exI conjI)
qed

end
