(* ===== verification/Evidence_Needs.thy ===== *)
theory Evidence_Needs
  imports Numbers Case_Model
begin

text \<open>
  Evidence needs, what the investigation asks for: the model of \<open>evidence_needs.py\<close>, the emission's
  schema (\<open>EvidenceNeedUpdate\<close> of \<open>schemas.py\<close>), the resolution of id references
  (\<open>turn_records._resolve_id_ref\<close>) and the application of a turn's updates
  (\<open>evidence_need_updates.py\<close>). Timestamps, log lines and metrics are left out; a repair note is a
  value instead of its wording. Ids drawn by \<open>uuid4\<close> are an argument.
\<close>

section \<open>The model\<close>

datatype need_purpose = SYMPTOM_VERIFICATION | CAUSAL_VERIFICATION

datatype need_state = NEED_PENDING | PARTIALLY_MET | FULFILLED | SUPERSEDED

datatype need_priority = PRIORITY_HIGH | PRIORITY_MEDIUM | PRIORITY_LOW

datatype need_obtainability = OBT_UNKNOWN | OBTAINABLE | UNOBTAINABLE

record evidence_need =
  need_id :: string
  need_purpose :: need_purpose
  need_request_text :: string
  need_rationale :: string
  need_priority :: need_priority
  need_state :: need_state
  need_obtainability :: need_obtainability
  need_motivating_ids :: "string list"
  need_fulfilling_ids :: "string list"
  need_superseded_reason :: "string option"
  need_surfaced_turns :: "int list"
  need_engine_inferred :: bool
  need_created_at_turn :: int

definition is_outstanding :: "evidence_need \<Rightarrow> bool" where
  "is_outstanding n \<longleftrightarrow> need_state n \<in> set [NEED_PENDING, PARTIALLY_MET]"

definition times_surfaced :: "evidence_need \<Rightarrow> nat" where
  "times_surfaced n = length (need_surfaced_turns n)"

definition last_surfaced_turn :: "evidence_need \<Rightarrow> int option" where
  "last_surfaced_turn n =
    (if need_surfaced_turns n = [] then None else Some (fold max (need_surfaced_turns n) (hd (need_surfaced_turns n))))"

definition record_surfaced :: "int \<Rightarrow> evidence_need \<Rightarrow> evidence_need" where
  "record_surfaced turn n =
    (if turn \<in> set (need_surfaced_turns n) then n
     else n\<lparr>need_surfaced_turns := sort (need_surfaced_turns n @ [turn])\<rparr>)"

definition admissible_state :: "need_state option \<Rightarrow> string list \<Rightarrow> need_state option" where
  "admissible_state st fulfilling = (if st = Some FULFILLED \<and> fulfilling = [] then Some PARTIALLY_MET else st)"

definition revoke_obtainability_if_terminal :: "evidence_need \<Rightarrow> evidence_need" where
  "revoke_obtainability_if_terminal n =
    (if need_state n \<in> set [FULFILLED, SUPERSEDED] then n\<lparr>need_obtainability := OBT_UNKNOWN\<rparr> else n)"

datatype need_error =
    TextBlank | TextLength | EmptyId | SupersededNeedsReason | ReasonOnlyWhenSuperseded
  | FulfilledNeedsEvidence | NegativeTurn | CreateNeedsField | CreateState

definition text_not_whitespace_only :: "string \<Rightarrow> need_error + string" where
  "text_not_whitespace_only v =
    (if length v < 1 \<or> length v > 500 then Inl TextLength
     else if strip v = [] then Inl TextBlank else Inr v)"

definition ids_well_formed :: "string list \<Rightarrow> need_error + string list" where
  "ids_well_formed v = (if [] \<in> set v then Inl EmptyId else Inr (dict_fromkeys v))"

definition blank_reason :: "string option \<Rightarrow> bool" where
  "blank_reason r \<longleftrightarrow> strip (or_empty r) = []"

definition validate_state_consistency :: "evidence_need \<Rightarrow> need_error + evidence_need" where
  "validate_state_consistency n =
    (if need_state n = SUPERSEDED \<and> blank_reason (need_superseded_reason n) then Inl SupersededNeedsReason
     else if need_state n \<noteq> SUPERSEDED \<and> need_superseded_reason n \<noteq> None then Inl ReasonOnlyWhenSuperseded
     else if need_state n = FULFILLED \<and> need_fulfilling_ids n = [] then Inl FulfilledNeedsEvidence
     else if (need_purpose n \<noteq> CAUSAL_VERIFICATION \<or> need_state n \<in> set [FULFILLED, SUPERSEDED])
        \<and> need_obtainability n \<noteq> OBT_UNKNOWN
     then Inr (n\<lparr>need_obtainability := OBT_UNKNOWN\<rparr>)
     else Inr n)"

text \<open>Constructing a need from its fields: the field constraints, the field validators, the model validator.\<close>

definition new_need :: "evidence_need \<Rightarrow> need_error + evidence_need" where
  "new_need n =
    (case text_not_whitespace_only (need_request_text n) of Inl e \<Rightarrow> Inl e
     | Inr _ \<Rightarrow>
      (case text_not_whitespace_only (need_rationale n) of Inl e \<Rightarrow> Inl e
       | Inr _ \<Rightarrow>
        (case ids_well_formed (need_motivating_ids n) of Inl e \<Rightarrow> Inl e
         | Inr motivating \<Rightarrow>
          (case ids_well_formed (need_fulfilling_ids n) of Inl e \<Rightarrow> Inl e
           | Inr fulfilling \<Rightarrow>
              if length (or_empty (need_superseded_reason n)) > 500 then Inl TextLength
              else if need_created_at_turn n < 0 then Inl NegativeTurn
              else validate_state_consistency
                (n\<lparr>need_motivating_ids := motivating, need_fulfilling_ids := fulfilling\<rparr>)))))"

section \<open>References\<close>

definition normalise_id_ref :: "string \<Rightarrow> string" where
  "normalise_id_ref ref =
    (let r = strip ref in
     if length r \<ge> 2 \<and> hd r = CHR ''['' \<and> last r = CHR '']'' then strip (butlast (tl r)) else r)"

text \<open>\<open>str.replace(sub, "")\<close> for a \<open>sub\<close> that is not empty; the number counts the characters still to skip.\<close>

fun remove_all :: "string \<Rightarrow> nat \<Rightarrow> string \<Rightarrow> string" where
  "remove_all sub (Suc k) (ch # s) = remove_all sub k s"
| "remove_all sub 0 (ch # s) =
    (if take (length sub) (ch # s) = sub then remove_all sub (length sub - 1) s else ch # remove_all sub 0 s)"
| "remove_all sub k [] = []"

definition new_index_prefix :: string where
  "new_index_prefix = ''new_index_''"

definition resolve_id_ref :: "string list \<Rightarrow> string \<Rightarrow> string" where
  "resolve_id_ref created raw =
    (let ref = normalise_id_ref raw in
     if ref \<noteq> [] \<and> take (length new_index_prefix) ref = new_index_prefix
     then (case parse_int (remove_all new_index_prefix 0 ref) of
         None \<Rightarrow> ref
       | Some idx \<Rightarrow> if 0 \<le> idx \<and> idx < int (length created) then created ! nat idx else ref)
     else ref)"

section \<open>Updates\<close>

record need_update =
  nu_need_id :: "string option"
  nu_purpose :: "need_purpose option"
  nu_request_text :: "string option"
  nu_rationale :: "string option"
  nu_priority :: "need_priority option"
  nu_motivating_ids :: "string list"
  nu_state :: "need_state option"
  nu_fulfilling_ids :: "string list"
  nu_superseded_reason :: "string option"
  nu_obtainability :: "need_obtainability option"

definition validate_need_update :: "need_update \<Rightarrow> need_error + need_update" where
  "validate_need_update u =
    (if length (or_empty (nu_request_text u)) > 500 \<or> length (or_empty (nu_rationale u)) > 500
        \<or> length (or_empty (nu_superseded_reason u)) > 500 then Inl TextLength
     else if nu_need_id u = None \<and> (nu_purpose u = None \<or> \<not> truthy (nu_request_text u) \<or> \<not> truthy (nu_rationale u))
     then Inl CreateNeedsField
     else if nu_need_id u = None \<and> nu_state u \<notin> set [None, Some NEED_PENDING] then Inl CreateState
     else if nu_state u = Some SUPERSEDED \<and> blank_reason (nu_superseded_reason u) then Inl SupersededNeedsReason
     else if nu_state u \<noteq> Some SUPERSEDED \<and> nu_superseded_reason u \<noteq> None then Inl ReasonOnlyWhenSuperseded
     else if nu_state u = Some FULFILLED \<and> nu_fulfilling_ids u = [] then Inl FulfilledNeedsEvidence
     else Inr u)"

datatype need_repair =
    DanglingHypotheses | TerminalHypotheses | DanglingEvidence | CausalWithoutMotive
  | DemotedFulfilled | UnknownNeed string | PurposeChange string | Resurrection string

text \<open>The needs of the case, the ids created in the loop, the ids reported as updated, the repair notes.\<close>

record need_pass =
  np_needs :: "evidence_need list"
  np_created :: "string list"
  np_updated :: "string list"
  np_repairs :: "need_repair list"

definition valid_motivators :: "(string, hypothesis) pydict \<Rightarrow> string list \<Rightarrow> string list" where
  "valid_motivators hyps ids = filter (\<lambda>i. case dict_get hyps i of
     None \<Rightarrow> False | Some h \<Rightarrow> \<not> hypothesis_is_terminal (hyp_state h)) ids"

definition motivator_repairs :: "(string, hypothesis) pydict \<Rightarrow> string list \<Rightarrow> need_repair list" where
  "motivator_repairs hyps ids =
    (if list_ex (\<lambda>i. dict_get hyps i = None) ids then [DanglingHypotheses] else [])
    @ (if list_ex (\<lambda>i. case dict_get hyps i of None \<Rightarrow> False | Some h \<Rightarrow> hypothesis_is_terminal (hyp_state h)) ids
       then [TerminalHypotheses] else [])"

definition create_need ::
    "string \<Rightarrow> int \<Rightarrow> need_update \<Rightarrow> string list \<Rightarrow> string list \<Rightarrow> need_pass \<Rightarrow> need_error + need_pass" where
  "create_need new_id turn u motivators fulfillments p =
    (if nu_purpose u = Some CAUSAL_VERIFICATION \<and> motivators = []
     then Inr (p\<lparr>np_repairs := np_repairs p @ [CausalWithoutMotive]\<rparr>)
     else
      (let requested = (case nu_state u of None \<Rightarrow> NEED_PENDING | Some s \<Rightarrow> s);
           effective = (case admissible_state (Some requested) fulfillments of None \<Rightarrow> requested | Some s \<Rightarrow> s);
           reason = (if effective \<noteq> requested then None else nu_superseded_reason u);
           repairs = (if effective \<noteq> requested then [DemotedFulfilled] else [])
       in case new_need \<lparr>need_id = new_id,
            need_purpose = (case nu_purpose u of None \<Rightarrow> SYMPTOM_VERIFICATION | Some x \<Rightarrow> x),
            need_request_text = or_empty (nu_request_text u), need_rationale = or_empty (nu_rationale u),
            need_priority = (case nu_priority u of None \<Rightarrow> PRIORITY_MEDIUM | Some x \<Rightarrow> x),
            need_state = effective,
            need_obtainability = (case nu_obtainability u of None \<Rightarrow> OBT_UNKNOWN | Some x \<Rightarrow> x),
            need_motivating_ids = motivators, need_fulfilling_ids = fulfillments,
            need_superseded_reason = reason, need_surfaced_turns = [], need_engine_inferred = False,
            need_created_at_turn = turn\<rparr> of
          Inl e \<Rightarrow> Inl e
        | Inr n \<Rightarrow> Inr \<lparr>np_needs = np_needs p @ [n], np_created = np_created p @ [new_id],
            np_updated = np_updated p @ [new_id], np_repairs = np_repairs p @ repairs\<rparr>))"

text \<open>The writes to an existing need that is not refused.\<close>

definition revise_need :: "need_update \<Rightarrow> string list \<Rightarrow> string list \<Rightarrow> evidence_need \<Rightarrow> evidence_need" where
  "revise_need u motivators fulfillments n =
    (let fulfilling = dict_fromkeys (need_fulfilling_ids n @ fulfillments);
         effective = admissible_state (nu_state u) fulfilling;
         n1 = n\<lparr>need_motivating_ids := dict_fromkeys (need_motivating_ids n @ motivators),
                need_fulfilling_ids := fulfilling,
                need_request_text := (if truthy (nu_request_text u) then or_empty (nu_request_text u) else need_request_text n),
                need_rationale := (if truthy (nu_rationale u) then or_empty (nu_rationale u) else need_rationale n),
                need_priority := (case nu_priority u of None \<Rightarrow> need_priority n | Some x \<Rightarrow> x)\<rparr>;
         n2 = (case effective of None \<Rightarrow> n1
               | Some s \<Rightarrow> n1\<lparr>need_state := s,
                   need_superseded_reason := (if s = SUPERSEDED then nu_superseded_reason u else None)\<rparr>);
         n3 = (case nu_obtainability u of None \<Rightarrow> n2
               | Some x \<Rightarrow> if need_purpose n2 = CAUSAL_VERIFICATION then n2\<lparr>need_obtainability := x\<rparr> else n2)
     in revoke_obtainability_if_terminal n3)"

definition update_need ::
    "string \<Rightarrow> need_update \<Rightarrow> string list \<Rightarrow> string list \<Rightarrow> need_pass \<Rightarrow> need_pass" where
  "update_need nid u motivators fulfillments p =
    (case find (\<lambda>n. need_id n = nid) (np_needs p) of
       None \<Rightarrow> p\<lparr>np_repairs := np_repairs p @ [UnknownNeed nid]\<rparr>
     | Some n \<Rightarrow>
        (let flip = (if nu_purpose u \<noteq> None \<and> nu_purpose u \<noteq> Some (need_purpose n) then [PurposeChange nid] else [])
         in if need_state n = SUPERSEDED \<and> nu_state u \<notin> set [None, Some SUPERSEDED]
            then p\<lparr>np_repairs := np_repairs p @ flip @ [Resurrection nid]\<rparr>
            else
             (let demoted = (if admissible_state (nu_state u) (need_fulfilling_ids n @ fulfillments) \<noteq> nu_state u
                    then [DemotedFulfilled] else [])
              in p\<lparr>np_needs := update_first (\<lambda>n. need_id n = nid) (revise_need u motivators fulfillments) (np_needs p),
                   np_updated := (if nid \<in> set (np_updated p) then np_updated p else np_updated p @ [nid]),
                   np_repairs := np_repairs p @ flip @ demoted\<rparr>)))"

definition apply_need_update ::
    "string list \<Rightarrow> string list \<Rightarrow> case_data \<Rightarrow> int \<Rightarrow> string \<times> need_update \<Rightarrow> need_pass \<Rightarrow> need_error + need_pass" where
  "apply_need_update hyp_slots ev_slots c turn = (\<lambda>(new_id, u) p.
    let motivators = map (resolve_id_ref hyp_slots) (nu_motivating_ids u);
        fulfillments = map (resolve_id_ref ev_slots) (nu_fulfilling_ids u);
        valid_m = valid_motivators (case_hypotheses c) motivators;
        valid_f = filter (\<lambda>e. e \<in> set (map ev_id (case_evidence c))) fulfillments;
        p1 = p\<lparr>np_repairs := np_repairs p @ motivator_repairs (case_hypotheses c) motivators
               @ (if length valid_f \<noteq> length fulfillments then [DanglingEvidence] else [])\<rparr>
    in case nu_need_id u of
         None \<Rightarrow> create_need new_id turn u valid_m valid_f p1
       | Some ref \<Rightarrow> Inr (update_need (resolve_id_ref (np_created p) ref) u valid_m valid_f p1))"

text \<open>Each update of the list is paired with the id a creation draws.\<close>

definition apply_evidence_need_updates ::
    "string list \<Rightarrow> string list \<Rightarrow> case_data \<Rightarrow> int \<Rightarrow> (string \<times> need_update) list \<Rightarrow> evidence_need list
      \<Rightarrow> string list \<Rightarrow> need_error + need_pass" where
  "apply_evidence_need_updates hyp_slots ev_slots c turn updates needs updated =
    try_fold (apply_need_update hyp_slots ev_slots c turn) updates
      \<lparr>np_needs = needs, np_created = [], np_updated = updated, np_repairs = []\<rparr>"

end
