(* ===== verification/Offer_Model.thy ===== *)
theory Offer_Model
  imports Lifecycle Evidence_Needs
begin

text \<open>
  The data of the offer record and of the problem statement: \<open>modules/case/domain/models/offer.py\<close>,
  the status part of \<open>problem.py\<close> and the mitigation gate of \<open>progress.py\<close>.

  A \<open>problem_case\<close> is what \<open>offers.py\<close> and \<open>problem_status.py\<close> read and write of a case. The staged
  updates of a turn are carried as field names with the text of their JSON dump; timestamps, summaries
  of urgency and the severity fields are left out.
\<close>

section \<open>The problem statement\<close>

datatype problem_status = UNVERIFIED | PROBLEM_VERIFIED | REVISION_PENDING | INVALIDATED

datatype statement_record_kind =
  SR_CONFIRMED | SR_REVISED | SR_EDITED | SR_INVALIDATED | SR_INVALIDATION_WITHDRAWN

record statement_record =
  sr_kind :: statement_record_kind
  sr_text :: string
  sr_turn :: int
  sr_evidence_ids :: "string list"
  sr_rationale :: "string option"

record staged_cause_work =
  sw_turn :: int
  sw_updates :: "(string, string) pydict"
  sw_evidence_added :: "string list"
  sw_held_fix :: "string option"
  sw_held_fix_message :: string

record pending_revision =
  rev_text :: string
  rev_evidence_ids :: "string list"
  rev_basis :: string
  rev_proposed_at_turn :: int
  rev_held_since_turn :: int
  rev_prior_status :: problem_status
  rev_wording_key :: string
  rev_staged :: "staged_cause_work list"

record problem_invalidation =
  inv_rationale :: string
  inv_evidence_ids :: "string list"
  inv_turn :: int
  inv_prior_status :: problem_status

record problem_verification =
  pv_symptom_statement :: string
  pv_history :: "statement_record list"
  pv_invalidation :: "problem_invalidation option"
  pv_verifying_ids :: "string list"

section \<open>Offers\<close>

datatype offer_kind = K_RESOLVE | K_CLOSE | K_REVISION

datatype offer_origin = ORIGIN_ENGINE | ORIGIN_MODEL | ORIGIN_USER

datatype offer_basis =
    B_BACKSTOP | B_DEFERRED | B_FALSE_ALARM | B_RCA_INFEASIBLE | B_NEEDS_INFO_UNMET
  | B_MODEL | B_MENU | B_REOPEN | B_REVISION

fun basis_origin :: "offer_basis \<Rightarrow> offer_origin" where
  "basis_origin B_BACKSTOP = ORIGIN_ENGINE"
| "basis_origin B_DEFERRED = ORIGIN_ENGINE"
| "basis_origin B_FALSE_ALARM = ORIGIN_ENGINE"
| "basis_origin B_RCA_INFEASIBLE = ORIGIN_ENGINE"
| "basis_origin B_NEEDS_INFO_UNMET = ORIGIN_ENGINE"
| "basis_origin B_MODEL = ORIGIN_MODEL"
| "basis_origin B_REVISION = ORIGIN_MODEL"
| "basis_origin B_MENU = ORIGIN_USER"
| "basis_origin B_REOPEN = ORIGIN_USER"

datatype answer_kind = ACCEPTED | DECLINED | WITHDRAWN | LAPSED | PIVOTED | A_SUPERSEDED

datatype answer_via = VIA_CLICK | VIA_TOKEN | VIA_TYPED | VIA_MENU | VIA_ENGINE

record offer_premise =
  pr_solution_ids :: "string list"
  pr_confirmation_ids :: "string list"
  pr_finding_turn :: "int option"
  pr_wording_key :: "string option"

record offer =
  of_proposal_id :: string
  of_kind :: offer_kind
  of_basis :: offer_basis
  of_closure_reason :: "closure_reason option"
  of_summary :: string
  of_evidence_ids :: "string list"
  of_opened_at_turn :: int
  of_pivoted_from_close :: bool
  of_revision :: "pending_revision option"

record offer_answer =
  oa_proposal_id :: string
  oa_kind :: offer_kind
  oa_basis :: offer_basis
  oa_closure_reason :: "closure_reason option"
  oa_answer :: answer_kind
  oa_via :: answer_via
  oa_answered_by :: "string option"
  oa_at_turn :: int
  oa_premise :: offer_premise
  oa_lapsed_at_turn :: "int option"

record resolve_request =
  rq_missing :: "string list"
  rq_at_turn :: int

record offer_record =
  or_open :: "offer option"
  or_answers :: "offer_answer list"
  or_request :: "resolve_request option"

section \<open>The mitigation gate\<close>

datatype mitigation_disposition = DECLARED_STABLE | PROCEED_UNMITIGATED

record mitigation =
  mit_accepted :: bool
  mit_verified :: bool
  mit_disposition :: "mitigation_disposition option"

section \<open>The case as the problem statement sees it\<close>

text \<open>
  A row keeps its evidence, the entry \<open>metadata["fix_verification"]\<close> (always a dictionary of texts
  when it is there) and the rest of its metadata (\<open>None\<close> where the field is null).
\<close>

record problem_row =
  row_evidence :: evidence
  row_fix_verification :: "(string, string) pydict option"
  row_metadata :: "(string, string) pydict option"

record problem_case =
  pc_offers :: offer_record
  pc_turn :: int
  pc_state :: case_state
  pc_driver_id :: "string option"
  pc_user_id :: "string option"
  pc_description :: string
  pc_verification :: "problem_verification option"
  pc_status :: problem_status
  pc_cause_state :: cause_state
  pc_contested :: bool
  pc_mitigation :: "mitigation option"
  pc_solution_verified :: bool
  pc_rows :: "problem_row list"
  pc_nodes :: "(string, causal_node) pydict"
  pc_hypotheses :: "(string, hypothesis) pydict"
  pc_solution_ids :: "string list"
  pc_needs :: "evidence_need list"

definition effective_driver_id :: "problem_case \<Rightarrow> string option" where
  "effective_driver_id c = (if truthy (pc_driver_id c) then pc_driver_id c else pc_user_id c)"

end
