(* ===== verification/Offers.thy ===== *)
theory Offers
  imports Offer_Model
begin

text \<open>
  The one offer open on a case, its answers, and which answers bind: \<open>core/investigation/offers.py\<close>.
  The rows that confirm a resolution are found by the fix windows of \<open>cause_assurance.py\<close>, which are not
  modelled; they enter as the argument \<open>conf\<close>, the ids of \<open>resolution_confirmation_rows(case)\<close>, about which
  nothing is assumed. A raised \<open>ValueError\<close>, or an attribute read
  on \<open>None\<close>, is the left value of the result. The random proposal id
  of a new offer is an argument; log lines and the wording of the confirmation cards are left out.
\<close>

type_synonym confirming = "problem_case \<Rightarrow> string list"

datatype offer_error =
    OfferAlreadyOpen | ClosureReasonMismatch | NotTheOpenOffer | NotTheDriver | NoRevisionOpen
  | WordingDeclined | NoneHasNoAttribute | StatementLength | DescriptionInvalid

definition MAX_ANSWERS :: nat where "MAX_ANSWERS = 64"

definition TERMINAL_KINDS :: "offer_kind list" where "TERMINAL_KINDS = [K_RESOLVE, K_CLOSE]"

definition KIND_BLIND_BASES :: "offer_basis list" where "KIND_BLIND_BASES = [B_BACKSTOP, B_DEFERRED]"

definition SET_ASIDE :: "answer_kind list" where "SET_ASIDE = [WITHDRAWN, DECLINED]"

datatype decline_scope = SCOPE_RESOLVE | SCOPE_DEFERRED | SCOPE_FALSE_ALARM | SCOPE_REVISION

section \<open>Reading the record\<close>

definition open_terminal_offer :: "problem_case \<Rightarrow> offer option" where
  "open_terminal_offer c =
    (case or_open (pc_offers c) of None \<Rightarrow> None
     | Some o1 \<Rightarrow> if of_kind o1 \<in> set TERMINAL_KINDS then Some o1 else None)"

definition open_revision :: "problem_case \<Rightarrow> offer option" where
  "open_revision c =
    (case or_open (pc_offers c) of None \<Rightarrow> None
     | Some o1 \<Rightarrow> if of_kind o1 = K_REVISION then Some o1 else None)"

definition terminal_offer_opened_this_turn :: "problem_case \<Rightarrow> offer option" where
  "terminal_offer_opened_this_turn c =
    (case open_terminal_offer c of None \<Rightarrow> None
     | Some o1 \<Rightarrow> if of_opened_at_turn o1 \<noteq> pc_turn c then None else Some o1)"

definition terminal_offer_answered_this_turn :: "problem_case \<Rightarrow> bool" where
  "terminal_offer_answered_this_turn c \<longleftrightarrow>
    list_ex (\<lambda>a. oa_at_turn a = pc_turn c \<and> oa_kind a \<in> set TERMINAL_KINDS) (or_answers (pc_offers c))"

definition awaiting_request_recheck :: "problem_case \<Rightarrow> bool" where
  "awaiting_request_recheck c \<longleftrightarrow> or_request (pc_offers c) \<noteq> None"

definition last_answer :: "problem_case \<Rightarrow> offer_answer option" where
  "last_answer c = (if or_answers (pc_offers c) = [] then None else Some (last (or_answers (pc_offers c))))"

section \<open>What an answer was given against\<close>

definition solution_ids :: "problem_case \<Rightarrow> string list" where
  "solution_ids c = sort (pc_solution_ids c)"

definition confirmation_ids :: "confirming \<Rightarrow> problem_case \<Rightarrow> string list" where
  "confirmation_ids conf c = sort (conf c)"

definition finding_turn :: "problem_case \<Rightarrow> int option" where
  "finding_turn c =
    (case pc_verification c of None \<Rightarrow> None
     | Some pv \<Rightarrow> map_option inv_turn (pv_invalidation pv))"

definition is_false_alarm :: "offer_kind \<Rightarrow> closure_reason option \<Rightarrow> bool" where
  "is_false_alarm kind reason \<longleftrightarrow> kind = K_CLOSE \<and> reason = Some CLOSED_FALSE_ALARM"

definition no_premise :: offer_premise where
  "no_premise = \<lparr>pr_solution_ids = [], pr_confirmation_ids = [], pr_finding_turn = None, pr_wording_key = None\<rparr>"

definition premise_of ::
    "confirming \<Rightarrow> problem_case \<Rightarrow> offer_kind \<Rightarrow> closure_reason option \<Rightarrow> string option \<Rightarrow> offer_premise" where
  "premise_of conf c kind reason wording_key =
    (if kind = K_REVISION then no_premise\<lparr>pr_wording_key := wording_key\<rparr>
     else if is_false_alarm kind reason
     then no_premise\<lparr>pr_finding_turn := finding_turn c, pr_confirmation_ids := confirmation_ids conf c\<rparr>
     else no_premise\<lparr>pr_solution_ids := solution_ids c, pr_confirmation_ids := confirmation_ids conf c\<rparr>)"

definition sorted_union :: "string list \<Rightarrow> string list \<Rightarrow> string list" where
  "sorted_union xs ys = sort (remdups (xs @ ys))"

definition widened :: "offer_premise \<Rightarrow> offer_premise \<Rightarrow> offer_premise" where
  "widened p now =
    \<lparr>pr_solution_ids = sorted_union (pr_solution_ids p) (pr_solution_ids now),
     pr_confirmation_ids = sorted_union (pr_confirmation_ids p) (pr_confirmation_ids now),
     pr_finding_turn = pr_finding_turn p, pr_wording_key = pr_wording_key p\<rparr>"

section \<open>Declines that bind\<close>

definition scope :: "offer_answer \<Rightarrow> decline_scope option" where
  "scope a =
    (if oa_answer a \<noteq> DECLINED then None
     else if oa_kind a = K_REVISION then Some SCOPE_REVISION
     else if is_false_alarm (oa_kind a) (oa_closure_reason a) then Some SCOPE_FALSE_ALARM
     else if oa_kind a = K_RESOLVE then Some SCOPE_RESOLVE
     else if oa_basis a = B_DEFERRED then Some SCOPE_DEFERRED
     else None)"

definition premise_holds :: "confirming \<Rightarrow> offer_answer \<Rightarrow> problem_case \<Rightarrow> bool" where
  "premise_holds conf a c \<longleftrightarrow>
    (if scope a = Some SCOPE_REVISION then True
     else if scope a = Some SCOPE_FALSE_ALARM
     then finding_turn c \<noteq> None \<and> finding_turn c = pr_finding_turn (oa_premise a)
     else set (solution_ids c) \<subseteq> set (pr_solution_ids (oa_premise a))
        \<and> set (confirmation_ids conf c) \<subseteq> set (pr_confirmation_ids (oa_premise a)))"

definition decline_stands :: "confirming \<Rightarrow> offer_answer \<Rightarrow> problem_case \<Rightarrow> bool" where
  "decline_stands conf a c \<longleftrightarrow> scope a \<noteq> None \<and> oa_lapsed_at_turn a = None \<and> premise_holds conf a c"

definition standing :: "confirming \<Rightarrow> problem_case \<Rightarrow> decline_scope \<Rightarrow> string option \<Rightarrow> offer_answer option" where
  "standing conf c sc wording_key =
    find (\<lambda>a. scope a = Some sc \<and> (wording_key = None \<or> pr_wording_key (oa_premise a) = wording_key)
            \<and> decline_stands conf a c)
      (rev (or_answers (pc_offers c)))"

definition standing_resolve_decline :: "confirming \<Rightarrow> problem_case \<Rightarrow> offer_answer option" where
  "standing_resolve_decline conf c = standing conf c SCOPE_RESOLVE None"

definition standing_deferred_decline :: "confirming \<Rightarrow> problem_case \<Rightarrow> offer_answer option" where
  "standing_deferred_decline conf c = standing conf c SCOPE_DEFERRED None"

definition standing_false_alarm_decline :: "confirming \<Rightarrow> problem_case \<Rightarrow> offer_answer option" where
  "standing_false_alarm_decline conf c = standing conf c SCOPE_FALSE_ALARM None"

definition revision_declined :: "confirming \<Rightarrow> problem_case \<Rightarrow> string \<Rightarrow> bool" where
  "revision_declined conf c wording_key \<longleftrightarrow> standing conf c SCOPE_REVISION (Some wording_key) \<noteq> None"

definition binding_decline ::
    "confirming \<Rightarrow> problem_case \<Rightarrow> offer_kind \<Rightarrow> offer_basis \<Rightarrow> string option \<Rightarrow> bool \<Rightarrow> offer_answer option" where
  "binding_decline conf c kind basis wording_key readiness_pivot =
    (if basis_origin basis = ORIGIN_USER then None
     else if kind = K_REVISION then standing conf c SCOPE_REVISION wording_key
     else case standing_false_alarm_decline conf c of
        Some a \<Rightarrow> Some a
      | None \<Rightarrow>
          if kind = K_RESOLVE then standing_resolve_decline conf c
          else if basis = B_DEFERRED \<or> (basis = B_MODEL \<and> \<not> readiness_pivot)
          then standing_deferred_decline conf c
          else None)"

definition set_aside_this_turn ::
    "confirming \<Rightarrow> problem_case \<Rightarrow> offer_kind \<Rightarrow> closure_reason option \<Rightarrow> offer_answer option" where
  "set_aside_this_turn conf c kind reason =
    (let answers = filter (\<lambda>a. oa_at_turn a = pc_turn c \<and> oa_kind a = kind \<and> oa_answer a \<in> set SET_ASIDE)
                     (rev (or_answers (pc_offers c)))
     in if kind \<notin> set TERMINAL_KINDS \<or> answers = [] then None
        else if is_false_alarm kind reason
        then find (\<lambda>a. pr_finding_turn (oa_premise a) = finding_turn c) answers
        else find (\<lambda>a. set (confirmation_ids conf c) \<subseteq> set (pr_confirmation_ids (oa_premise a))) answers)"

datatype offer_refusal_kind = REFUSED_DECLINED | REFUSED_ANSWERED_THIS_TURN | REFUSED_SET_ASIDE_THIS_TURN

definition offer_refusal ::
    "confirming \<Rightarrow> problem_case \<Rightarrow> offer_kind \<Rightarrow> offer_basis \<Rightarrow> closure_reason option \<Rightarrow> string option
      \<Rightarrow> bool \<Rightarrow> bool \<Rightarrow> offer_refusal_kind option" where
  "offer_refusal conf c kind basis reason wording_key readiness_pivot pivoted_from_close =
    (if binding_decline conf c kind basis wording_key readiness_pivot \<noteq> None then Some REFUSED_DECLINED
     else if kind \<notin> set TERMINAL_KINDS \<or> basis_origin basis = ORIGIN_USER \<or> basis = B_RCA_INFEASIBLE
        \<or> pivoted_from_close then None
     else if basis \<in> set KIND_BLIND_BASES
     then (if terminal_offer_answered_this_turn c then Some REFUSED_ANSWERED_THIS_TURN else None)
     else if set_aside_this_turn conf c kind reason \<noteq> None then Some REFUSED_SET_ASIDE_THIS_TURN
     else None)"

section \<open>Writing the record\<close>

definition require_answerer :: "problem_case \<Rightarrow> string option \<Rightarrow> offer_error + unit" where
  "require_answerer c actor_id =
    (if actor_id \<noteq> None \<and> actor_id \<noteq> effective_driver_id c then Inl NotTheDriver else Inr ())"

fun drop_excess :: "('a \<Rightarrow> bool) \<Rightarrow> nat \<Rightarrow> 'a list \<Rightarrow> 'a list" where
  "drop_excess stays excess [] = []"
| "drop_excess stays excess (a # as) =
    (if excess > 0 \<and> \<not> stays a then drop_excess stays (excess - 1) as else a # drop_excess stays excess as)"

definition capped :: "confirming \<Rightarrow> offer_answer list \<Rightarrow> problem_case \<Rightarrow> offer_answer list" where
  "capped conf answers c =
    (if length answers \<le> MAX_ANSWERS then answers
     else drop_excess (\<lambda>a. decline_stands conf a c) (length answers - MAX_ANSWERS) answers)"

definition open_offer ::
    "confirming \<Rightarrow> problem_case \<Rightarrow> string \<Rightarrow> offer_kind \<Rightarrow> offer_basis \<Rightarrow> string \<Rightarrow> string list \<Rightarrow> closure_reason option
      \<Rightarrow> pending_revision option \<Rightarrow> bool \<Rightarrow> bool \<Rightarrow> offer_error + offer_record option" where
  "open_offer conf c proposal_id kind basis summary evidence_ids reason revision pivoted_from_close readiness_pivot =
    (let rec1 = pc_offers c in
     if or_open rec1 \<noteq> None then Inl OfferAlreadyOpen
     else if (reason = None) = (kind = K_CLOSE) then Inl ClosureReasonMismatch
     else if offer_refusal conf c kind basis reason (map_option rev_wording_key revision) readiness_pivot
              pivoted_from_close \<noteq> None
     then Inr None
     else Inr (Some (rec1\<lparr>or_open := Some
         \<lparr>of_proposal_id = proposal_id, of_kind = kind, of_basis = basis, of_closure_reason = reason,
          of_summary = summary, of_evidence_ids = evidence_ids, of_opened_at_turn = pc_turn c,
          of_pivoted_from_close = pivoted_from_close, of_revision = revision\<rparr>,
         or_request := None\<rparr>)))"

definition answer_offer ::
    "confirming \<Rightarrow> problem_case \<Rightarrow> string \<Rightarrow> answer_kind \<Rightarrow> answer_via \<Rightarrow> string option \<Rightarrow> offer_error + offer_record" where
  "answer_offer conf c proposal_id answer via actor_id =
    (let rec1 = pc_offers c in
     case or_open rec1 of
       None \<Rightarrow> Inl NotTheOpenOffer
     | Some o1 \<Rightarrow>
        if of_proposal_id o1 \<noteq> proposal_id then Inl NotTheOpenOffer
        else (case require_answerer c actor_id of
            Inl e \<Rightarrow> Inl e
          | Inr _ \<Rightarrow>
             (let nobody = (answer = LAPSED \<or> via = VIA_ENGINE);
                  entry = \<lparr>oa_proposal_id = of_proposal_id o1, oa_kind = of_kind o1, oa_basis = of_basis o1,
                    oa_closure_reason = of_closure_reason o1, oa_answer = answer, oa_via = via,
                    oa_answered_by = (if nobody then None else effective_driver_id c),
                    oa_at_turn = pc_turn c,
                    oa_premise = premise_of conf c (of_kind o1) (of_closure_reason o1)
                      (map_option rev_wording_key (of_revision o1)),
                    oa_lapsed_at_turn = None\<rparr>
              in Inr (rec1\<lparr>or_open := None, or_answers := capped conf (or_answers rec1 @ [entry]) c\<rparr>))))"

definition premise_gone :: "problem_case \<Rightarrow> offer \<Rightarrow> bool" where
  "premise_gone c o1 \<longleftrightarrow>
    (if state_is_terminal (pc_state c) then True
     else if is_false_alarm (of_kind o1) (of_closure_reason o1)
     then (case finding_turn c of None \<Rightarrow> True | Some t \<Rightarrow> t > of_opened_at_turn o1)
     else False)"

definition lapsed_entry :: "confirming \<Rightarrow> problem_case \<Rightarrow> offer \<Rightarrow> offer_answer" where
  "lapsed_entry conf c o1 =
    \<lparr>oa_proposal_id = of_proposal_id o1, oa_kind = of_kind o1, oa_basis = of_basis o1,
     oa_closure_reason = of_closure_reason o1, oa_answer = LAPSED, oa_via = VIA_ENGINE,
     oa_answered_by = None, oa_at_turn = pc_turn c,
     oa_premise = premise_of conf c (of_kind o1) (of_closure_reason o1) None, oa_lapsed_at_turn = None\<rparr>"

definition review_answer :: "confirming \<Rightarrow> problem_case \<Rightarrow> offer_answer \<Rightarrow> offer_answer" where
  "review_answer conf c a =
    (if scope a \<in> set [None, Some SCOPE_REVISION] \<or> oa_lapsed_at_turn a \<noteq> None then a
     else if oa_at_turn a = pc_turn c
     then a\<lparr>oa_premise := widened (oa_premise a) (premise_of conf c (oa_kind a) (oa_closure_reason a) None)\<rparr>
     else if \<not> premise_holds conf a c then a\<lparr>oa_lapsed_at_turn := Some (pc_turn c)\<rparr>
     else a)"

definition lapse_offers :: "confirming \<Rightarrow> problem_case \<Rightarrow> offer_record" where
  "lapse_offers conf c =
    (let rec1 = pc_offers c;
         gone = (case or_open rec1 of None \<Rightarrow> None
           | Some o1 \<Rightarrow> if of_kind o1 \<in> set TERMINAL_KINDS \<and> premise_gone c o1 then Some o1 else None);
         answers = (case gone of None \<Rightarrow> or_answers rec1
           | Some o1 \<Rightarrow> or_answers rec1 @ [lapsed_entry conf c o1]);
         open1 = (if gone = None then or_open rec1 else None);
         request = (if pc_state c \<noteq> INVESTIGATING then None else or_request rec1)
     in \<lparr>or_open = open1, or_answers = capped conf (map (review_answer conf c) answers) c, or_request = request\<rparr>)"

definition remember_resolve_request :: "problem_case \<Rightarrow> string list option \<Rightarrow> offer_record" where
  "remember_resolve_request c missing =
    (pc_offers c)\<lparr>or_request := map_option (\<lambda>m. \<lparr>rq_missing = m, rq_at_turn = pc_turn c\<rparr>) missing\<rparr>"

definition restage_revision :: "problem_case \<Rightarrow> staged_cause_work list \<Rightarrow> offer_error + offer_record" where
  "restage_revision c staged =
    (case open_revision c of
       None \<Rightarrow> Inl NoRevisionOpen
     | Some o1 \<Rightarrow>
        (case of_revision o1 of
           None \<Rightarrow> Inl NoneHasNoAttribute
         | Some r \<Rightarrow> Inr ((pc_offers c)\<lparr>or_open := Some (o1\<lparr>of_revision := Some (r\<lparr>rev_staged := staged\<rparr>)\<rparr>)\<rparr>)))"

end
