(* ===== verification/Problem_Status.thy ===== *)
theory Problem_Status
  imports Offers
begin

text \<open>
  The status of the confirmed problem statement and every operation that moves it:
  \<open>core/investigation/problem_status.py\<close>. As in \<open>Offers\<close>, \<open>conf\<close> gives the rows that confirm a resolution;
  \<open>cause_removed\<close> stands for the window reading of \<open>cause_assurance.py\<close> at the end of
  \<open>invalidation_refusal\<close>. Refusals are values of a datatype instead of their wording.
\<close>

definition MAX_STATEMENT_CHARS :: nat where "MAX_STATEMENT_CHARS = 500"

text \<open>
  Case folding on the code points 0 to 255: the sharp s folds to two letters; the micro sign folds to a
  code point outside the range that no other character folds to, so it may stand for itself.
\<close>

definition casefold_ch :: "char \<Rightarrow> string" where
  "casefold_ch ch = (if of_char ch = (223 :: nat) then ''ss'' else [lower_ch ch])"

definition casefold :: "string \<Rightarrow> string" where
  "casefold s = concat (map casefold_ch s)"

section \<open>Reading the status\<close>

definition cause_work_accepted :: "problem_case \<Rightarrow> bool" where
  "cause_work_accepted c \<longleftrightarrow> pc_status c = PROBLEM_VERIFIED"

definition cause_work_staged :: "problem_case \<Rightarrow> bool" where
  "cause_work_staged c \<longleftrightarrow> pc_status c = REVISION_PENDING"

definition problem_on_hold :: "problem_case \<Rightarrow> bool" where
  "problem_on_hold c \<longleftrightarrow> pc_status c \<in> set [REVISION_PENDING, INVALIDATED]"

definition current_statement :: "problem_case \<Rightarrow> string" where
  "current_statement c =
    (let s = (case pc_verification c of None \<Rightarrow> [] | Some pv \<Rightarrow> pv_symptom_statement pv)
     in if s \<noteq> [] then s else pc_description c)"

datatype acted_on = CAUSE_IDENTIFIED | MITIGATION_VERIFIED | MITIGATION_STABLE | FIX_VERIFIED

definition acted_on_bar :: "problem_case \<Rightarrow> acted_on option" where
  "acted_on_bar c =
    (if pc_cause_state c = CS_IDENTIFIED \<and> \<not> pc_contested c then Some CAUSE_IDENTIFIED
     else if (case pc_mitigation c of None \<Rightarrow> False | Some m \<Rightarrow> mit_verified m) then Some MITIGATION_VERIFIED
     else if (case pc_mitigation c of None \<Rightarrow> False | Some m \<Rightarrow> mit_disposition m = Some DECLARED_STABLE)
     then Some MITIGATION_STABLE
     else if pc_solution_verified c then Some FIX_VERIFIED
     else None)"

definition cited :: "problem_case \<Rightarrow> string list \<Rightarrow> evidence_category \<Rightarrow> bool" where
  "cited c ids category \<longleftrightarrow>
    list_ex (\<lambda>r. ev_id (row_evidence r) \<in> set ids \<and> ev_category (row_evidence r) = category) (pc_rows c)"

definition cited_symptom_rows :: "problem_case \<Rightarrow> string list \<Rightarrow> string list" where
  "cited_symptom_rows c ids =
    (let symptom = set (map (\<lambda>r. ev_id (row_evidence r))
                     (filter (\<lambda>r. ev_category (row_evidence r) = SYMPTOM_EVIDENCE) (pc_rows c)))
     in dict_fromkeys (filter (\<lambda>i. i \<in> symptom) ids))"

definition pending_revision :: "problem_case \<Rightarrow> pending_revision option" where
  "pending_revision c = (case open_revision c of None \<Rightarrow> None | Some o1 \<Rightarrow> of_revision o1)"

section \<open>Rows held until the problem is verified\<close>

definition hold_premature_absence :: "problem_row \<Rightarrow> problem_row" where
  "hold_premature_absence row =
    (let recorded = dict_put ''claimed'' ''causal_absence_evidence''
           (case row_fix_verification row of None \<Rightarrow> [] | Some d \<Rightarrow> d)
     in row\<lparr>row_evidence := (row_evidence row)\<lparr>ev_category := SYMPTOM_ABSENCE_EVIDENCE\<rparr>,
            row_fix_verification := Some recorded,
            row_metadata := Some (case row_metadata row of None \<Rightarrow> [] | Some m \<Rightarrow> m)\<rparr>)"

definition restore_premature_absence :: "problem_row \<Rightarrow> problem_row" where
  "restore_premature_absence row =
    (case row_fix_verification row of
       None \<Rightarrow> row
     | Some recorded \<Rightarrow>
        if \<not> (ev_category (row_evidence row) = SYMPTOM_ABSENCE_EVIDENCE
              \<and> dict_get recorded ''claimed'' = Some ''causal_absence_evidence'') then row
        else (let kept = filter (\<lambda>(k, v). k \<noteq> ''claimed'') recorded
              in row\<lparr>row_evidence := (row_evidence row)\<lparr>ev_category := CAUSAL_ABSENCE_EVIDENCE\<rparr>,
                     row_fix_verification := (if kept = [] then None else Some kept)\<rparr>))"

definition restore_the_hold :: "problem_case \<Rightarrow> pending_revision \<Rightarrow> problem_case" where
  "restore_the_hold c revision =
    c\<lparr>pc_rows := map (\<lambda>r. if ev_collected_at_turn (row_evidence r) \<ge> rev_held_since_turn revision
                         then restore_premature_absence r else r) (pc_rows c)\<rparr>"

section \<open>Moving the status\<close>

definition move :: "problem_case \<Rightarrow> problem_status \<Rightarrow> problem_case \<times> bool" where
  "move c to =
    (if pc_status c = to then (c, False)
     else (let c1 = c\<lparr>pc_status := to\<rparr>
           in if to = UNVERIFIED
              then c1\<lparr>pc_verification := map_option (\<lambda>pv. pv\<lparr>pv_verifying_ids := []\<rparr>) (pc_verification c1)\<rparr>
              else c1, True))"

definition verify_problem :: "problem_case \<Rightarrow> problem_case \<times> bool" where
  "verify_problem c = (if pc_status c \<noteq> UNVERIFIED then (c, False) else move c PROBLEM_VERIFIED)"

definition unverify_problem :: "problem_case \<Rightarrow> problem_case \<times> bool" where
  "unverify_problem c = (if pc_status c \<noteq> PROBLEM_VERIFIED then (c, False) else move c UNVERIFIED)"

definition record_verifying_rows :: "problem_case \<Rightarrow> string list \<Rightarrow> problem_case" where
  "record_verifying_rows c ids =
    c\<lparr>pc_verification := map_option (\<lambda>pv. pv\<lparr>pv_verifying_ids := cited_symptom_rows c ids\<rparr>) (pc_verification c)\<rparr>"

text \<open>Assigning \<open>case.description\<close> runs the validators of \<open>Case\<close>: blank or over-long text is refused, text is stripped,
  and a case under investigation or resolved keeps a description.\<close>

definition assign_description :: "problem_case \<Rightarrow> string \<Rightarrow> offer_error + problem_case" where
  "assign_description c text =
    (if length text > 2000 \<or> text \<noteq> [] \<and> strip text = [] then Inl DescriptionInvalid
     else if strip text = [] \<and> pc_state c \<in> set [INVESTIGATING, RESOLVED] then Inl DescriptionInvalid
     else Inr (c\<lparr>pc_description := strip text\<rparr>))"

definition write_statement :: "problem_case \<Rightarrow> string \<Rightarrow> offer_error + problem_case" where
  "write_statement c text =
    (case assign_description c text of
       Inl e \<Rightarrow> Inl e
     | Inr c1 \<Rightarrow>
       (case pc_verification c1 of
          None \<Rightarrow> Inl NoneHasNoAttribute
        | Some pv \<Rightarrow> Inr (c1\<lparr>
         pc_verification := Some (pv\<lparr>pv_symptom_statement := text\<rparr>),
         pc_nodes := update_first (\<lambda>(k, n). node_type n = PROBLEM)
           (\<lambda>(k, n). (k, n\<lparr>node_statement := take MAX_STATEMENT_CHARS text\<rparr>)) (pc_nodes c1)\<rparr>)))"

definition supersede_need :: "string \<Rightarrow> evidence_need \<Rightarrow> evidence_need" where
  "supersede_need reason need =
    (if need_purpose need \<noteq> SYMPTOM_VERIFICATION \<or> need_state need \<notin> set [NEED_PENDING, PARTIALLY_MET] then need
     else revoke_obtainability_if_terminal
       (need\<lparr>need_state := SUPERSEDED, need_superseded_reason := Some reason\<rparr>))"

definition supersede_symptom_needs :: "problem_case \<Rightarrow> string \<Rightarrow> problem_case" where
  "supersede_symptom_needs c reason = c\<lparr>pc_needs := map (supersede_need reason) (pc_needs c)\<rparr>"

definition add_history :: "problem_case \<Rightarrow> statement_record \<Rightarrow> problem_case" where
  "add_history c entry =
    c\<lparr>pc_verification := map_option (\<lambda>pv. pv\<lparr>pv_history := pv_history pv @ [entry]\<rparr>) (pc_verification c)\<rparr>"

definition set_invalidation :: "problem_case \<Rightarrow> problem_invalidation option \<Rightarrow> problem_case" where
  "set_invalidation c i = c\<lparr>pc_verification := map_option (\<lambda>pv. pv\<lparr>pv_invalidation := i\<rparr>) (pc_verification c)\<rparr>"

section \<open>Revisions\<close>

datatype revision_refusal_kind =
    EMPTY_REVISION | REVISION_TOO_LONG | NO_BASIS | NO_CITED_EVIDENCE | ACTED_ON acted_on
  | RESTATES_CURRENT | RESTATES_HYPOTHESIS | RESTATES_ROOT | WORDING_DECLINED
  | PROBLEM_NOT_LIVE problem_status | CAUSE_REMOVED | AWAITS_CONFIRMATION

definition revision_refusal ::
    "confirming \<Rightarrow> problem_case \<Rightarrow> string \<Rightarrow> string list \<Rightarrow> string option \<Rightarrow> string \<Rightarrow> revision_refusal_kind option" where
  "revision_refusal conf c raw ids basis wording_key =
    (let text = strip raw; current = current_statement c in
     if text = [] then Some EMPTY_REVISION
     else if length text > MAX_STATEMENT_CHARS then Some REVISION_TOO_LONG
     else if strip (or_empty basis) = [] then Some NO_BASIS
     else if \<not> cited c ids SYMPTOM_EVIDENCE then Some NO_CITED_EVIDENCE
     else case acted_on_bar c of
       Some bar \<Rightarrow> Some (ACTED_ON bar)
     | None \<Rightarrow>
        if current \<noteq> [] \<and> (casefold text = casefold (strip current) \<or> hypothesis_statements_duplicate text current)
        then Some RESTATES_CURRENT
        else if list_ex (\<lambda>h. \<not> hypothesis_is_terminal (hyp_state h)
              \<and> hypothesis_statements_duplicate text (hyp_statement h)) (dict_values (pc_hypotheses c))
        then Some RESTATES_HYPOTHESIS
        else if list_ex (\<lambda>n. node_type n = ROOT \<and> hypothesis_statements_duplicate text (node_statement n))
              (dict_values (pc_nodes c))
        then Some RESTATES_ROOT
        else if revision_declined conf c wording_key then Some WORDING_DECLINED
        else None)"

definition supersede_open_revision :: "confirming \<Rightarrow> problem_case \<Rightarrow> offer_error + problem_case" where
  "supersede_open_revision conf c =
    (case open_revision c of
       None \<Rightarrow> Inr c
     | Some o1 \<Rightarrow>
        if of_revision o1 = None then Inr c
        else (case answer_offer conf c (of_proposal_id o1) A_SUPERSEDED VIA_ENGINE None of
            Inl e \<Rightarrow> Inl e
          | Inr rec1 \<Rightarrow> Inr (c\<lparr>pc_offers := rec1\<rparr>)))"

definition propose_revision ::
    "confirming \<Rightarrow> problem_case \<Rightarrow> string \<Rightarrow> string \<Rightarrow> string list \<Rightarrow> string \<Rightarrow> string
      \<Rightarrow> offer_error + problem_case \<times> pending_revision" where
  "propose_revision conf c proposal_id text ids basis wording_key =
    (let previous = pending_revision c in
     case supersede_open_revision conf c of
       Inl e \<Rightarrow> Inl e
     | Inr c1 \<Rightarrow>
        (let revision = \<lparr>rev_text = strip text, rev_evidence_ids = ids, rev_basis = strip basis,
               rev_proposed_at_turn = pc_turn c,
               rev_held_since_turn = (case previous of Some p \<Rightarrow> rev_held_since_turn p | None \<Rightarrow> pc_turn c),
               rev_prior_status = (case previous of Some p \<Rightarrow> rev_prior_status p | None \<Rightarrow> pc_status c),
               rev_wording_key = wording_key,
               rev_staged = (case previous of Some p \<Rightarrow> rev_staged p | None \<Rightarrow> [])\<rparr>
         in case open_offer conf c1 proposal_id K_REVISION B_REVISION [] [] None (Some revision) False False of
              Inl e \<Rightarrow> Inl e
            | Inr None \<Rightarrow> Inl WordingDeclined
            | Inr (Some rec1) \<Rightarrow> Inr (fst (move (c1\<lparr>pc_offers := rec1\<rparr>) REVISION_PENDING), revision)))"

definition stage_cause_work ::
    "problem_case \<Rightarrow> (string, string) pydict \<Rightarrow> string list \<Rightarrow> offer_error + problem_case" where
  "stage_cause_work c updates added =
    (case pending_revision c of
       None \<Rightarrow> Inl NoneHasNoAttribute
     | Some r \<Rightarrow>
        (case restage_revision c (rev_staged r @ [\<lparr>sw_turn = pc_turn c, sw_updates = updates,
             sw_evidence_added = added, sw_held_fix = None, sw_held_fix_message = []\<rparr>]) of
           Inl e \<Rightarrow> Inl e
         | Inr rec1 \<Rightarrow> Inr (c\<lparr>pc_offers := rec1\<rparr>)))"

definition hold_fix_on_revision ::
    "problem_case \<Rightarrow> string \<Rightarrow> string \<Rightarrow> string list \<Rightarrow> offer_error + problem_case" where
  "hold_fix_on_revision c identity user_message added =
    (case pending_revision c of
       None \<Rightarrow> Inl NoneHasNoAttribute
     | Some r \<Rightarrow>
        (let staged = (if list_ex (\<lambda>b. sw_turn b = pc_turn c) (rev_staged r) then rev_staged r
               else rev_staged r @ [\<lparr>sw_turn = pc_turn c, sw_updates = [], sw_evidence_added = added,
                 sw_held_fix = None, sw_held_fix_message = []\<rparr>])
         in case restage_revision c (update_first (\<lambda>b. sw_turn b = pc_turn c)
               (\<lambda>b. b\<lparr>sw_held_fix := Some identity, sw_held_fix_message := take 10000 user_message\<rparr>) staged) of
              Inl e \<Rightarrow> Inl e
            | Inr rec1 \<Rightarrow> Inr (c\<lparr>pc_offers := rec1\<rparr>)))"

text \<open>The wording of the reason a need is superseded with, apart from the number of the turn.\<close>

definition reason_revised :: string where "reason_revised = ''problem statement revised at turn''"
definition reason_absent :: string where "reason_absent = ''the reported symptom was found never present at turn''"
definition reason_edited :: string where "reason_edited = ''the user edited the problem statement at turn''"

definition commit_revision ::
    "confirming \<Rightarrow> problem_case \<Rightarrow> answer_via \<Rightarrow> offer_error + problem_case \<times> pending_revision" where
  "commit_revision conf c via =
    (case open_revision c of
       None \<Rightarrow> Inl NoRevisionOpen
     | Some o1 \<Rightarrow>
        (case answer_offer conf c (of_proposal_id o1) ACCEPTED via None of
           Inl e \<Rightarrow> Inl e
         | Inr rec1 \<Rightarrow>
            (case of_revision o1 of
               None \<Rightarrow> Inl NoneHasNoAttribute
             | Some pending \<Rightarrow>
                (case write_statement (c\<lparr>pc_offers := rec1\<rparr>) (rev_text pending) of
                   Inl e \<Rightarrow> Inl e
                 | Inr c1 \<Rightarrow>
                    (let c2 = add_history c1 \<lparr>sr_kind = SR_REVISED, sr_text = rev_text pending,
                           sr_turn = pc_turn c, sr_evidence_ids = rev_evidence_ids pending,
                           sr_rationale = Some (rev_basis pending)\<rparr>;
                         c3 = record_verifying_rows (set_invalidation c2 None) (rev_evidence_ids pending);
                         c4 = fst (move (supersede_symptom_needs c3 reason_revised) PROBLEM_VERIFIED)
                     in Inr (restore_the_hold c4 pending, pending))))))"

definition answer_pending ::
    "confirming \<Rightarrow> problem_case \<Rightarrow> answer_kind \<Rightarrow> answer_via \<Rightarrow> offer_error + problem_case \<times> pending_revision option" where
  "answer_pending conf c answer via =
    (case open_revision c of
       None \<Rightarrow> Inr (c, None)
     | Some o1 \<Rightarrow>
        (case answer_offer conf c (of_proposal_id o1) answer via None of
           Inl e \<Rightarrow> Inl e
         | Inr rec1 \<Rightarrow>
            (case of_revision o1 of
               None \<Rightarrow> Inl NoneHasNoAttribute
             | Some r \<Rightarrow>
                (let c1 = fst (move (c\<lparr>pc_offers := rec1\<rparr>) (rev_prior_status r))
                 in Inr (if rev_prior_status r = PROBLEM_VERIFIED then restore_the_hold c1 r else c1, Some r)))))"

definition decline_revision ::
    "confirming \<Rightarrow> problem_case \<Rightarrow> answer_via \<Rightarrow> offer_error + problem_case \<times> pending_revision option" where
  "decline_revision conf c via = answer_pending conf c DECLINED via"

definition cancel_revision ::
    "confirming \<Rightarrow> problem_case \<Rightarrow> answer_via \<Rightarrow> answer_kind \<Rightarrow> offer_error + problem_case \<times> pending_revision option" where
  "cancel_revision conf c via answer = answer_pending conf c answer via"

section \<open>False alarms and edits\<close>

definition invalidation_refusal ::
    "(problem_case \<Rightarrow> bool) \<Rightarrow> problem_case \<Rightarrow> string list \<Rightarrow> string option \<Rightarrow> revision_refusal_kind option" where
  "invalidation_refusal cause_removed c ids basis =
    (if pc_status c \<notin> set [UNVERIFIED, PROBLEM_VERIFIED] then Some (PROBLEM_NOT_LIVE (pc_status c))
     else if strip (or_empty basis) = [] then Some NO_BASIS
     else if \<not> cited c ids SYMPTOM_ABSENCE_EVIDENCE then Some NO_CITED_EVIDENCE
     else case acted_on_bar c of
       Some bar \<Rightarrow> Some (ACTED_ON bar)
     | None \<Rightarrow> if cause_removed c then Some CAUSE_REMOVED else None)"

definition invalidate_problem :: "problem_case \<Rightarrow> string list \<Rightarrow> string \<Rightarrow> offer_error + problem_case" where
  "invalidate_problem c ids basis =
    (if pc_verification c = None then Inl NoneHasNoAttribute
     else (let c1 = set_invalidation c (Some \<lparr>inv_rationale = strip basis, inv_evidence_ids = ids,
                 inv_turn = pc_turn c, inv_prior_status = pc_status c\<rparr>);
               c2 = add_history c1 \<lparr>sr_kind = SR_INVALIDATED, sr_text = current_statement c1,
                 sr_turn = pc_turn c, sr_evidence_ids = ids, sr_rationale = Some (strip basis)\<rparr>
           in Inr (fst (move (supersede_symptom_needs c2 reason_absent) INVALIDATED))))"

definition clear_invalidation :: "problem_case \<Rightarrow> problem_case" where
  "clear_invalidation c =
    (let prior = (case pc_verification c of None \<Rightarrow> None
                  | Some pv \<Rightarrow> map_option inv_prior_status (pv_invalidation pv))
     in fst (move (set_invalidation c None) (case prior of None \<Rightarrow> UNVERIFIED | Some s \<Rightarrow> s)))"

definition withdraw_invalidation :: "problem_case \<Rightarrow> string option \<Rightarrow> offer_error + problem_case \<times> bool" where
  "withdraw_invalidation c basis =
    (if pc_status c \<noteq> INVALIDATED then Inr (c, False)
     else if pc_verification c = None then Inl NoneHasNoAttribute
     else (let text = strip (or_empty basis);
               c1 = add_history c \<lparr>sr_kind = SR_INVALIDATION_WITHDRAWN, sr_text = current_statement c,
                 sr_turn = pc_turn c, sr_evidence_ids = [], sr_rationale = (if text = [] then None else Some text)\<rparr>
           in Inr (clear_invalidation c1, True)))"

definition false_alarm_close_declined_at :: "confirming \<Rightarrow> problem_case \<Rightarrow> int option" where
  "false_alarm_close_declined_at conf c =
    (if pc_status c \<noteq> INVALIDATED then None
     else map_option oa_at_turn (standing_false_alarm_decline conf c))"

definition edit_statement_refusal :: "problem_case \<Rightarrow> string option \<Rightarrow> revision_refusal_kind option" where
  "edit_statement_refusal c text =
    (if strip (or_empty text) = [] then Some EMPTY_REVISION
     else if length (strip (or_empty text)) > MAX_STATEMENT_CHARS then Some REVISION_TOO_LONG
     else if pc_status c = REVISION_PENDING then Some AWAITS_CONFIRMATION
     else None)"

definition edit_statement :: "problem_case \<Rightarrow> string \<Rightarrow> offer_error + problem_case" where
  "edit_statement c raw =
    (let text = strip raw;
         c0 = (case pc_verification c of
             None \<Rightarrow> c\<lparr>pc_verification := Some \<lparr>pv_symptom_statement = text, pv_history = [],
               pv_invalidation = None, pv_verifying_ids = []\<rparr>\<rparr>
           | Some _ \<Rightarrow> c)
     in if pc_verification c = None \<and> (text = [] \<or> length text > 1000) then Inl StatementLength
        else case write_statement c0 text of
          Inl e \<Rightarrow> Inl e
        | Inr c1 \<Rightarrow>
           (let c2 = add_history c1 \<lparr>sr_kind = SR_EDITED, sr_text = text, sr_turn = pc_turn c,
                  sr_evidence_ids = [], sr_rationale = None\<rparr>;
                c3 = supersede_symptom_needs c2 reason_edited
            in Inr (if pc_status c3 = INVALIDATED then fst (move (set_invalidation c3 None) UNVERIFIED) else c3)))"

definition record_confirmed_statement :: "problem_case \<Rightarrow> offer_error + problem_case" where
  "record_confirmed_statement c =
    (if pc_verification c = None then Inl NoneHasNoAttribute
     else Inr (add_history c \<lparr>sr_kind = SR_CONFIRMED, sr_text = current_statement c, sr_turn = pc_turn c,
       sr_evidence_ids = [], sr_rationale = None\<rparr>))"

definition is_false_alarm_close :: "offer option \<Rightarrow> bool" where
  "is_false_alarm_close o1 \<longleftrightarrow>
    (case o1 of None \<Rightarrow> False | Some x \<Rightarrow> of_kind x = K_CLOSE \<and> of_closure_reason x = Some CLOSED_FALSE_ALARM)"

definition is_engine_false_alarm_close :: "offer option \<Rightarrow> bool" where
  "is_engine_false_alarm_close o1 \<longleftrightarrow>
    (case o1 of None \<Rightarrow> False | Some x \<Rightarrow> is_false_alarm_close o1 \<and> of_basis x = B_FALSE_ALARM)"

end
