(* ===== verification/Offer_Laws.thy ===== *)
theory Offer_Laws
  imports Offers "HOL-Library.Sublist"
begin

text \<open>
  What the offer record promises: the cap never forgets a decline that stands, a declined wording or
  resolution is not offered again, and reviewing the record twice is reviewing it once.
\<close>

section \<open>The cap\<close>

lemma drop_excess_stays: "filter stays (drop_excess stays n xs) = filter stays xs"
  by (induction stays n xs rule: drop_excess.induct) auto

lemma drop_excess_drops:
  "filter (\<lambda>x. \<not> stays x) (drop_excess stays n xs) = drop n (filter (\<lambda>x. \<not> stays x) xs)"
proof (induction stays n xs rule: drop_excess.induct)
  case (2 stays n x xs)
  then show ?case by (cases n) auto
qed simp

lemma drop_excess_subseq: "subseq (drop_excess stays n xs) xs"
  by (induction stays n xs rule: drop_excess.induct) auto

lemma filter_lengths: "length xs = length (filter P xs) + length (filter (\<lambda>x. \<not> P x) xs)"
  by (induction xs) auto

lemma drop_excess_length:
  "length (drop_excess stays n xs) = length (filter stays xs) + (length (filter (\<lambda>x. \<not> stays x) xs) - n)"
  using filter_lengths [of "drop_excess stays n xs" stays] by (simp add: drop_excess_stays drop_excess_drops)

lemma drop_excess_0 [simp]: "drop_excess stays 0 xs = xs"
  by (induction xs) auto

lemma drop_excess_all: "filter (\<lambda>x. \<not> stays x) xs = [] \<Longrightarrow> drop_excess stays n xs = xs"
  by (induction xs) (auto split: if_splits)

lemma capped_eq: "capped conf as c = drop_excess (\<lambda>a. decline_stands conf a c) (length as - MAX_ANSWERS) as"
  by (simp add: capped_def)

lemma capped_subseq: "subseq (capped conf as c) as"
  by (simp add: capped_eq drop_excess_subseq)

lemma capped_subset: "set (capped conf as c) \<subseteq> set as"
  using capped_subseq set_nths_subset by (metis subseq_conv_nths)

lemma capped_mem: "a \<in> set as \<Longrightarrow> decline_stands conf a c \<Longrightarrow> a \<in> set (capped conf as c)"
proof -
  assume "a \<in> set as" "decline_stands conf a c"
  then have "a \<in> set (filter (\<lambda>a. decline_stands conf a c) (capped conf as c))"
    by (simp add: capped_eq drop_excess_stays)
  then show ?thesis by simp
qed

lemma capped_idem: "capped conf (capped conf as c) c = capped conf as c"
proof -
  let ?S = "\<lambda>a. decline_stands conf a c" and ?n = "length as - MAX_ANSWERS"
  let ?d = "drop_excess ?S ?n as"
  have l: "length ?d = length (filter ?S as) + (length (filter (\<lambda>x. \<not> ?S x) as) - ?n)"
    by (rule drop_excess_length)
  show ?thesis
  proof (cases "length (filter (\<lambda>x. \<not> ?S x) as) \<le> ?n")
    case True
    then have "filter (\<lambda>x. \<not> ?S x) ?d = []" by (simp add: drop_excess_drops)
    then show ?thesis by (simp add: capped_eq drop_excess_all)
  next
    case False
    then have "length ?d \<le> MAX_ANSWERS" using l filter_lengths [of as ?S] by linarith
    then show ?thesis by (simp add: capped_eq)
  qed
qed

text \<open>Capping the answers keeps every decline that stands, in order; it drops the oldest of the
  others, just as many as it must; and it leaves at most 64 answers unless more declines stand.\<close>

theorem capped_keeps_standing:
  "filter (\<lambda>a. decline_stands conf a c) (capped conf answers c) = filter (\<lambda>a. decline_stands conf a c) answers
   \<and> filter (\<lambda>a. \<not> decline_stands conf a c) (capped conf answers c)
       = drop (length answers - 64) (filter (\<lambda>a. \<not> decline_stands conf a c) answers)
   \<and> subseq (capped conf answers c) answers
   \<and> length (capped conf answers c) \<le> max 64 (length (filter (\<lambda>a. decline_stands conf a c) answers))"
proof -
  have "length (capped conf answers c) \<le> max 64 (length (filter (\<lambda>a. decline_stands conf a c) answers))"
    using filter_lengths [of answers "\<lambda>a. decline_stands conf a c"]
    by (simp add: capped_eq drop_excess_length MAX_ANSWERS_def)
  then show ?thesis
    by (simp add: capped_subseq) (simp add: capped_eq drop_excess_stays drop_excess_drops MAX_ANSWERS_def)
qed

section \<open>Steps of the record\<close>

text \<open>
  One step of a case as the record sees it: an operation of the record, or anything else that happens
  to the case and leaves the record alone.
\<close>

inductive offer_step :: "confirming \<Rightarrow> problem_case \<Rightarrow> problem_case \<Rightarrow> bool" for conf where
  opened: "open_offer conf c pid kind basis summary ids reason revision pivoted readiness = Inr (Some r)
    \<Longrightarrow> offer_step conf c (c\<lparr>pc_offers := r\<rparr>)"
| answered: "answer_offer conf c pid answer via actor = Inr r \<Longrightarrow> offer_step conf c (c\<lparr>pc_offers := r\<rparr>)"
| lapsed: "offer_step conf c (c\<lparr>pc_offers := lapse_offers conf c\<rparr>)"
| remembered: "offer_step conf c (c\<lparr>pc_offers := remember_resolve_request c missing\<rparr>)"
| restaged: "restage_revision c staged = Inr r \<Longrightarrow> offer_step conf c (c\<lparr>pc_offers := r\<rparr>)"
| elsewhere: "pc_offers c' = pc_offers c \<Longrightarrow> offer_step conf c c'"

text \<open>How the answers may change in a step: entries that stand are kept, up to their review.\<close>

lemma open_offer_Some:
  assumes "open_offer conf c pid kind basis summary ids reason revision pivoted readiness = Inr (Some r)"
  shows "or_open (pc_offers c) = None" "(reason = None) = (kind \<noteq> K_CLOSE)"
    "offer_refusal conf c kind basis reason (map_option rev_wording_key revision) readiness pivoted = None"
    "or_answers r = or_answers (pc_offers c)"
    "\<exists>o1. or_open r = Some o1 \<and> of_kind o1 = kind \<and> of_closure_reason o1 = reason \<and> of_revision o1 = revision
       \<and> of_proposal_id o1 = pid \<and> of_opened_at_turn o1 = pc_turn c"
  using assms by (auto simp: open_offer_def Let_def split: if_splits)

lemma answer_offer_Inr:
  assumes "answer_offer conf c pid answer via actor = Inr r"
  shows "\<exists>o1 entry. or_open (pc_offers c) = Some o1 \<and> of_proposal_id o1 = pid \<and> or_open r = None
     \<and> or_answers r = capped conf (or_answers (pc_offers c) @ [entry]) c \<and> oa_answer entry = answer
     \<and> oa_kind entry = of_kind o1 \<and> oa_closure_reason entry = of_closure_reason o1 \<and> oa_at_turn entry = pc_turn c"
  using assms by (auto simp: answer_offer_def Let_def split: option.splits if_splits sum.splits)

lemma restage_answers: "restage_revision c staged = Inr r \<Longrightarrow> or_answers r = or_answers (pc_offers c)"
  by (auto simp: restage_revision_def split: option.splits)

lemma lapse_answers:
  "\<exists>more. or_answers (lapse_offers conf c)
     = capped conf (map (review_answer conf c) (or_answers (pc_offers c) @ more)) c"
proof (cases "\<exists>o1. or_open (pc_offers c) = Some o1 \<and> of_kind o1 \<in> set TERMINAL_KINDS \<and> premise_gone c o1")
  case True
  then obtain o1 where "or_open (pc_offers c) = Some o1" "of_kind o1 \<in> set TERMINAL_KINDS" "premise_gone c o1" by blast
  then show ?thesis by (intro exI [of _ "[lapsed_entry conf c o1]"]) (simp add: lapse_offers_def Let_def)
next
  case False
  then show ?thesis
    by (intro exI [of _ "[]"]) (auto simp: lapse_offers_def Let_def split: option.split)
qed

text \<open>A standing decline survives every step, as itself or as its review.\<close>

definition successor :: "confirming \<Rightarrow> problem_case \<Rightarrow> offer_answer \<Rightarrow> offer_answer \<Rightarrow> bool" where
  "successor conf c a b \<longleftrightarrow> b = a \<or> b = review_answer conf c a"

lemma standing_survives:
  assumes "offer_step conf c c'" "a \<in> set (or_answers (pc_offers c))" "decline_stands conf a c"
    and "\<And>b. b = review_answer conf c a \<Longrightarrow> decline_stands conf b c"
  shows "\<exists>b \<in> set (or_answers (pc_offers c')). successor conf c a b"
  using assms(1)
proof cases
  case (opened pid kind basis summary ids reason revision pivoted readiness r)
  then show ?thesis using open_offer_Some(4) assms(2) by (auto simp: successor_def)
next
  case (answered pid answer via actor r)
  then obtain entry where "or_answers r = capped conf (or_answers (pc_offers c) @ [entry]) c"
    using answer_offer_Inr by blast
  then show ?thesis using capped_mem assms(2,3) answered(1) by (auto simp: successor_def)
next
  case lapsed
  obtain more where "or_answers (lapse_offers conf c)
      = capped conf (map (review_answer conf c) (or_answers (pc_offers c) @ more)) c"
    using lapse_answers by blast
  moreover have "review_answer conf c a \<in> set (map (review_answer conf c) (or_answers (pc_offers c) @ more))"
    using assms(2) by simp
  ultimately have "review_answer conf c a \<in> set (or_answers (lapse_offers conf c))"
    using capped_mem assms(4) by metis
  then show ?thesis using lapsed by (auto simp: successor_def)
next
  case (remembered missing)
  then show ?thesis using assms(2) by (auto simp: successor_def remember_resolve_request_def)
next
  case (restaged staged r)
  then show ?thesis using restage_answers assms(2) by (auto simp: successor_def)
next
  case elsewhere
  then show ?thesis using assms(2) by (auto simp: successor_def)
qed

lemma find_exists: "x \<in> set xs \<Longrightarrow> P x \<Longrightarrow> find P xs \<noteq> None"
  by (auto simp: find_None_iff)

section \<open>A declined wording\<close>

definition declined_wording :: "string \<Rightarrow> offer_answer \<Rightarrow> bool" where
  "declined_wording w a \<longleftrightarrow> scope a = Some SCOPE_REVISION \<and> oa_lapsed_at_turn a = None
     \<and> pr_wording_key (oa_premise a) = Some w"

lemma declined_wording_stands: "declined_wording w a \<Longrightarrow> decline_stands conf a c"
  by (simp add: declined_wording_def decline_stands_def premise_holds_def)

lemma declined_wording_reviewed: "declined_wording w a \<Longrightarrow> review_answer conf c a = a"
  by (simp add: declined_wording_def review_answer_def)

lemma declined_wording_refuses:
  assumes "a \<in> set (or_answers (pc_offers c))" "declined_wording w a" "basis_origin basis \<noteq> ORIGIN_USER"
  shows "offer_refusal conf c K_REVISION basis reason (Some w) readiness pivoted = Some REFUSED_DECLINED"
proof -
  have "standing conf c SCOPE_REVISION (Some w) \<noteq> None"
    unfolding standing_def
    by (rule find_exists [of a]) (use assms declined_wording_stands in \<open>auto simp: declined_wording_def\<close>)
  then show ?thesis using assms(3) by (auto simp: offer_refusal_def binding_decline_def)
qed

text \<open>C21: Once the user has declined a wording of the problem statement, no sequence of steps of the case
  ever offers that wording again on the engine's or the model's initiative.\<close>

theorem declined_wording_never_reoffered:
  assumes "(offer_step conf)\<^sup>*\<^sup>* c c'"
    and "a \<in> set (or_answers (pc_offers c))" "declined_wording w a"
    and "rev_wording_key revision = w" "basis_origin basis \<noteq> ORIGIN_USER"
  shows "open_offer conf c' pid K_REVISION basis summary ids reason (Some revision) pivoted readiness \<noteq> Inr (Some r)"
proof -
  have "\<exists>a \<in> set (or_answers (pc_offers c')). declined_wording w a"
    using assms(1)
  proof (induction rule: rtranclp_induct)
    case base
    then show ?case using assms(2,3) by blast
  next
    case (step d d')
    then obtain a where a: "a \<in> set (or_answers (pc_offers d))" "declined_wording w a" by blast
    then have "\<exists>b \<in> set (or_answers (pc_offers d')). successor conf d a b"
      by (intro standing_survives [OF step(2) a(1)])
        (simp_all add: declined_wording_stands declined_wording_reviewed)
    then have "a \<in> set (or_answers (pc_offers d'))"
      by (auto simp: successor_def declined_wording_reviewed [OF a(2)])
    with a(2) show ?case by blast
  qed
  then obtain b where "b \<in> set (or_answers (pc_offers c'))" "declined_wording w b" by blast
  from declined_wording_refuses [OF this assms(5), of conf reason readiness pivoted]
  have "offer_refusal conf c' K_REVISION basis reason (map_option rev_wording_key (Some revision)) readiness pivoted \<noteq> None"
    by (simp add: assms(4))
  then show ?thesis by (metis open_offer_Some(3))
qed

section \<open>A declined resolution\<close>

text \<open>Nothing has been recorded that the premise did not cover.\<close>

definition nothing_new :: "confirming \<Rightarrow> offer_premise \<Rightarrow> problem_case \<Rightarrow> bool" where
  "nothing_new conf p c \<longleftrightarrow> set (pc_solution_ids c) \<subseteq> set (pr_solution_ids p)
     \<and> set (conf c) \<subseteq> set (pr_confirmation_ids p)"

definition covers :: "offer_premise \<Rightarrow> offer_premise \<Rightarrow> bool" where
  "covers p q \<longleftrightarrow> set (pr_solution_ids p) \<subseteq> set (pr_solution_ids q)
     \<and> set (pr_confirmation_ids p) \<subseteq> set (pr_confirmation_ids q)"

definition declined_resolution :: "offer_premise \<Rightarrow> offer_answer \<Rightarrow> bool" where
  "declined_resolution p a \<longleftrightarrow> scope a = Some SCOPE_RESOLVE \<and> oa_lapsed_at_turn a = None \<and> covers p (oa_premise a)"

lemma declined_resolution_stands:
  "declined_resolution p a \<Longrightarrow> nothing_new conf p c \<Longrightarrow> decline_stands conf a c"
  by (auto simp: declined_resolution_def nothing_new_def covers_def decline_stands_def premise_holds_def
      solution_ids_def confirmation_ids_def)

lemma scope_premise [simp]: "scope (a\<lparr>oa_premise := p\<rparr>) = scope a" "scope (a\<lparr>oa_lapsed_at_turn := t\<rparr>) = scope a"
  by (simp_all add: scope_def)

lemma set_sorted_union [simp]: "set (sorted_union xs ys) = set xs \<union> set ys"
  by (simp add: sorted_union_def)

lemma declined_resolution_reviewed:
  assumes "declined_resolution p a" "nothing_new conf p c"
  shows "declined_resolution p (review_answer conf c a)"
proof -
  have "premise_holds conf a c" using declined_resolution_stands [OF assms] by (simp add: decline_stands_def)
  then show ?thesis
    using assms(1) by (auto simp: review_answer_def declined_resolution_def widened_def covers_def)
qed

text \<open>C22: Once a resolution was declined, then as long as no solution and no confirming row is recorded
  that the decline did not cover, no sequence of steps offers to resolve the case again on the
  engine's or the model's initiative, however many answers have been recorded since.\<close>

theorem declined_resolution_not_reoffered:
  assumes "(\<lambda>d d'. offer_step conf d d' \<and> nothing_new conf p d')\<^sup>*\<^sup>* c c'" "nothing_new conf p c"
    and "a \<in> set (or_answers (pc_offers c))" "scope a = Some SCOPE_RESOLVE" "oa_lapsed_at_turn a = None"
    and "oa_premise a = p" "basis_origin basis \<noteq> ORIGIN_USER"
  shows "open_offer conf c' pid K_RESOLVE basis summary ids reason revision pivoted readiness \<noteq> Inr (Some r)"
proof -
  have "nothing_new conf p c' \<and> (\<exists>a \<in> set (or_answers (pc_offers c')). declined_resolution p a)"
    using assms(1)
  proof (induction rule: rtranclp_induct)
    case base
    then show ?case using assms by (auto simp: declined_resolution_def covers_def)
  next
    case (step d d')
    then obtain a where a: "a \<in> set (or_answers (pc_offers d))" "declined_resolution p a" and d: "nothing_new conf p d"
      by blast
    have "offer_step conf d d'" using step by simp
    then have "\<exists>b \<in> set (or_answers (pc_offers d')). successor conf d a b"
      by (rule standing_survives [OF _ a(1)])
        (simp_all add: declined_resolution_stands [OF _ d] declined_resolution_reviewed [OF a(2) d] a(2))
    moreover have "declined_resolution p b" if "successor conf d a b" for b
      using that a(2) declined_resolution_reviewed [OF a(2) d] by (auto simp: successor_def)
    ultimately show ?case using step(2) by blast
  qed
  then obtain b where b: "b \<in> set (or_answers (pc_offers c'))" "declined_resolution p b" "nothing_new conf p c'" by blast
  have "standing_resolve_decline conf c' \<noteq> None"
    unfolding standing_resolve_decline_def standing_def
    by (rule find_exists [of b]) (use b declined_resolution_stands in \<open>auto simp: declined_resolution_def\<close>)
  then have "binding_decline conf c' K_RESOLVE basis (map_option rev_wording_key revision) readiness \<noteq> None"
    using assms(7) by (simp add: binding_decline_def split: option.split)
  then have "offer_refusal conf c' K_RESOLVE basis reason (map_option rev_wording_key revision) readiness pivoted \<noteq> None"
    by (simp add: offer_refusal_def)
  then show ?thesis by (metis open_offer_Some(3))
qed

section \<open>Reviewing the record\<close>

lemma sorted_union_sorted: "sort (sorted_union xs ys) = sorted_union xs ys"
  by (simp add: sorted_union_def sorted_sort_id)

lemma sorted_union_absorbs: "sorted_union (sorted_union xs ys) ys = sorted_union xs ys"
  unfolding sorted_union_def
  by (rule sorted_distinct_set_unique) auto

lemma widened_idem: "widened (widened p q) q = widened p q"
  by (simp add: widened_def sorted_union_absorbs)

text \<open>Nothing of the review reads the record itself, when the confirming rows do not.\<close>

lemma premise_of_offers:
  "conf (c\<lparr>pc_offers := r\<rparr>) = conf c \<Longrightarrow> premise_of conf (c\<lparr>pc_offers := r\<rparr>) k cr w = premise_of conf c k cr w"
  by (simp add: premise_of_def finding_turn_def confirmation_ids_def solution_ids_def)

lemma premise_holds_offers:
  "conf (c\<lparr>pc_offers := r\<rparr>) = conf c \<Longrightarrow> premise_holds conf a (c\<lparr>pc_offers := r\<rparr>) = premise_holds conf a c"
  by (simp add: premise_holds_def finding_turn_def confirmation_ids_def solution_ids_def)

lemma decline_stands_offers:
  "conf (c\<lparr>pc_offers := r\<rparr>) = conf c \<Longrightarrow> decline_stands conf a (c\<lparr>pc_offers := r\<rparr>) = decline_stands conf a c"
  by (simp add: decline_stands_def premise_holds_offers)

lemma capped_offers:
  "conf (c\<lparr>pc_offers := r\<rparr>) = conf c \<Longrightarrow> capped conf as (c\<lparr>pc_offers := r\<rparr>) = capped conf as c"
  by (simp add: capped_def decline_stands_offers)

lemma review_answer_offers:
  "conf (c\<lparr>pc_offers := r\<rparr>) = conf c \<Longrightarrow> review_answer conf (c\<lparr>pc_offers := r\<rparr>) a = review_answer conf c a"
  by (simp add: review_answer_def premise_holds_offers premise_of_offers)

lemma review_answer_idem: "review_answer conf c (review_answer conf c a) = review_answer conf c a"
  by (auto simp: review_answer_def widened_idem premise_holds_def)

text \<open>Reviewing the offers of a case twice in a turn is reviewing them once: the second review finds
  no offer to lapse, no premise to widen, no decline to lapse and no answer to evict.\<close>

theorem lapse_offers_idempotent:
  assumes "\<And>r. conf (c\<lparr>pc_offers := r\<rparr>) = conf c"
  shows "lapse_offers conf (c\<lparr>pc_offers := lapse_offers conf c\<rparr>) = lapse_offers conf c"
proof -
  let ?r = "lapse_offers conf c"
  let ?c = "c\<lparr>pc_offers := ?r\<rparr>"
  obtain more where ans: "or_answers ?r = capped conf (map (review_answer conf c) (or_answers (pc_offers c) @ more)) c"
    using lapse_answers by blast
  have still: "a \<in> set (or_answers ?r) \<Longrightarrow> review_answer conf c a = a" for a
    using capped_subset [of conf "map (review_answer conf c) (or_answers (pc_offers c) @ more)" c]
    by (auto simp: ans review_answer_idem)
  have same: "premise_gone ?c o1 = premise_gone c o1" for o1 by (simp add: premise_gone_def finding_turn_def)
  have "\<not> (of_kind o1 \<in> set TERMINAL_KINDS \<and> premise_gone c o1)" if "or_open ?r = Some o1" for o1
    using that by (auto simp: lapse_offers_def Let_def split: option.splits if_splits)
  then have gone: "(case or_open (pc_offers ?c) of None \<Rightarrow> None
       | Some o1 \<Rightarrow> if of_kind o1 \<in> set TERMINAL_KINDS \<and> premise_gone ?c o1 then Some o1 else None) = None"
    by (auto simp: same split: option.split)
  have "map (review_answer conf ?c) (or_answers ?r) = or_answers ?r"
    by (rule map_idI) (simp add: review_answer_offers [OF assms] still)
  moreover have "capped conf (or_answers ?r) ?c = or_answers ?r"
    by (simp add: capped_offers [OF assms] ans capped_idem)
  moreover have "pc_state c \<noteq> INVESTIGATING \<Longrightarrow> or_request ?r = None" by (simp add: lapse_offers_def Let_def)
  ultimately show ?thesis
    unfolding lapse_offers_def [of conf ?c] Let_def gone by simp
qed

section \<open>An example\<close>

text \<open>A case on turn 7 whose user declined to resolve it on turn 5 and declined one wording on turn 6.\<close>

definition ex_answer :: "offer_kind \<Rightarrow> int \<Rightarrow> offer_premise \<Rightarrow> offer_answer" where
  "ex_answer kind turn p = \<lparr>oa_proposal_id = ''p'', oa_kind = kind,
     oa_basis = (if kind = K_REVISION then B_REVISION else B_MODEL), oa_closure_reason = None,
     oa_answer = DECLINED, oa_via = VIA_CLICK, oa_answered_by = Some ''u'', oa_at_turn = turn,
     oa_premise = p, oa_lapsed_at_turn = None\<rparr>"

definition ex_resolution :: offer_answer where
  "ex_resolution = ex_answer K_RESOLVE 5 (no_premise\<lparr>pr_solution_ids := [''s1''], pr_confirmation_ids := [''e9'']\<rparr>)"

definition ex_wording :: offer_answer where
  "ex_wording = ex_answer K_REVISION 6 (no_premise\<lparr>pr_wording_key := Some ''w''\<rparr>)"

definition ex_revision :: pending_revision where
  "ex_revision = \<lparr>rev_text = ''login is slow'', rev_evidence_ids = [''e1''], rev_basis = ''latency'',
     rev_proposed_at_turn = 7, rev_held_since_turn = 7, rev_prior_status = UNVERIFIED,
     rev_wording_key = ''w'', rev_staged = []\<rparr>"

definition ex_problem :: problem_case where
  "ex_problem = \<lparr>pc_offers = \<lparr>or_open = None, or_answers = [ex_resolution, ex_wording], or_request = None\<rparr>,
     pc_turn = 7, pc_state = INVESTIGATING, pc_driver_id = None, pc_user_id = Some ''u'',
     pc_description = ''login fails'',
     pc_verification = Some \<lparr>pv_symptom_statement = ''login fails'', pv_history = [],
       pv_invalidation = None, pv_verifying_ids = []\<rparr>,
     pc_status = UNVERIFIED, pc_cause_state = CS_UNKNOWN, pc_contested = False, pc_mitigation = None,
     pc_solution_verified = False, pc_rows = [], pc_nodes = [], pc_hypotheses = [],
     pc_solution_ids = [''s1''], pc_needs = []\<rparr>"

abbreviation ex_reviewed :: "string list \<Rightarrow> problem_case" where
  "ex_reviewed rows \<equiv> ex_problem\<lparr>pc_offers := lapse_offers (\<lambda>_. rows) ex_problem\<rparr>"

theorem declined_wording_never_reoffered_witness:
  "\<nexists>r. open_offer (\<lambda>_. []) (ex_reviewed []) ''q'' K_REVISION B_REVISION [] [] None
     (Some ex_revision) False False = Inr (Some r)"
proof -
  have 1: "(offer_step (\<lambda>_. []))\<^sup>*\<^sup>* ex_problem (ex_reviewed [])"
    by (rule r_into_rtranclp) (rule offer_step.lapsed)
  have 2: "ex_wording \<in> set (or_answers (pc_offers ex_problem))" by (simp add: ex_problem_def)
  have 3: "declined_wording ''w'' ex_wording"
    by (simp add: declined_wording_def ex_wording_def ex_answer_def scope_def)
  show ?thesis using declined_wording_never_reoffered [OF 1 2 3] by (simp add: ex_revision_def)
qed

theorem declined_resolution_not_reoffered_witness:
  "\<nexists>r. open_offer (\<lambda>_. [''e9'']) (ex_reviewed [''e9'']) ''q'' K_RESOLVE B_BACKSTOP [] [] None None False False = Inr (Some r)"
proof -
  let ?p = "oa_premise ex_resolution"
  have 2: "nothing_new (\<lambda>_. [''e9'']) ?p ex_problem"
    by (simp add: nothing_new_def ex_problem_def ex_resolution_def ex_answer_def)
  then have "nothing_new (\<lambda>_. [''e9'']) ?p (ex_reviewed [''e9''])" by (simp add: nothing_new_def)
  then have 1: "(\<lambda>d d'. offer_step (\<lambda>_. [''e9'']) d d' \<and> nothing_new (\<lambda>_. [''e9'']) ?p d')\<^sup>*\<^sup>*
      ex_problem (ex_reviewed [''e9''])"
    using offer_step.lapsed by blast
  have 3: "ex_resolution \<in> set (or_answers (pc_offers ex_problem))" by (simp add: ex_problem_def)
  have 4: "scope ex_resolution = Some SCOPE_RESOLVE" "oa_lapsed_at_turn ex_resolution = None"
    by (simp_all add: ex_resolution_def ex_answer_def scope_def is_false_alarm_def)
  show ?thesis using declined_resolution_not_reoffered [OF 1 2 3 4 refl] by simp
qed

theorem lapse_offers_idempotent_witness:
  "lapse_offers (\<lambda>_. [''e2'']) (ex_problem\<lparr>pc_offers := lapse_offers (\<lambda>_. [''e2'']) ex_problem\<rparr>)
     = lapse_offers (\<lambda>_. [''e2'']) ex_problem"
  by (rule lapse_offers_idempotent) (rule refl)

end
