(* ===== verification/Problem_Laws.thy ===== *)
theory Problem_Laws
  imports Problem_Status Offer_Laws
begin

text \<open>
  The problem status as a machine. Every operation is described by what it does to the core of the
  case: the status, the open offer, whether a verification exists and the finding of a false alarm.
  On the core rest the invariant, the abstract machine it refines and the way out of a hold.
\<close>

section \<open>The core\<close>

definition invalidation :: "problem_case \<Rightarrow> problem_invalidation option" where
  "invalidation c = (case pc_verification c of None \<Rightarrow> None | Some pv \<Rightarrow> pv_invalidation pv)"

type_synonym core = "problem_status \<times> offer option \<times> bool \<times> problem_invalidation option"

definition core :: "problem_case \<Rightarrow> core" where
  "core c = (pc_status c, or_open (pc_offers c), pc_verification c \<noteq> None, invalidation c)"

text \<open>The revision an open offer carries, and where the problem stands apart from it.\<close>

definition revision_in :: "offer option \<Rightarrow> pending_revision option" where
  "revision_in o1 = (case o1 of None \<Rightarrow> None | Some x \<Rightarrow> if of_kind x = K_REVISION then of_revision x else None)"

definition base_status :: "problem_status \<Rightarrow> offer option \<Rightarrow> problem_status" where
  "base_status s o1 = (case revision_in o1 of None \<Rightarrow> s | Some r \<Rightarrow> rev_prior_status r)"

definition revision_ok :: "pending_revision \<Rightarrow> bool" where
  "revision_ok r \<longleftrightarrow> rev_prior_status r \<noteq> REVISION_PENDING \<and> strip (rev_text r) = rev_text r
     \<and> rev_text r \<noteq> [] \<and> length (rev_text r) \<le> MAX_STATEMENT_CHARS"

definition offer_ok :: "offer \<Rightarrow> bool" where
  "offer_ok o1 \<longleftrightarrow> (of_closure_reason o1 = None) = (of_kind o1 \<noteq> K_CLOSE)
     \<and> (case of_revision o1 of None \<Rightarrow> of_kind o1 \<noteq> K_REVISION | Some r \<Rightarrow> of_kind o1 = K_REVISION \<and> revision_ok r)"

fun core_ok :: "core \<Rightarrow> bool" where
  "core_ok (s, o1, present, i) \<longleftrightarrow>
     (s = REVISION_PENDING \<longleftrightarrow> revision_in o1 \<noteq> None)
     \<and> (case o1 of None \<Rightarrow> True | Some x \<Rightarrow> offer_ok x)
     \<and> (s = REVISION_PENDING \<longrightarrow> present)
     \<and> (base_status s o1 = INVALIDATED \<longleftrightarrow> i \<noteq> None)
     \<and> (case i of None \<Rightarrow> True | Some x \<Rightarrow> inv_prior_status x \<in> {UNVERIFIED, PROBLEM_VERIFIED})"

definition problem_ok :: "problem_case \<Rightarrow> bool" where
  "problem_ok c \<longleftrightarrow> core_ok (core c)"

section \<open>What the operations do to the core\<close>

lemma invalidation_None [simp]: "pc_verification c = None \<Longrightarrow> invalidation c = None"
  by (simp add: invalidation_def)

lemma move_fields [simp]:
  "pc_status (fst (move c s)) = s"
  "pc_offers (fst (move c s)) = pc_offers c"
  "invalidation (fst (move c s)) = invalidation c"
  "pc_verification (fst (move c s)) = None \<longleftrightarrow> pc_verification c = None"
  "pc_state (fst (move c s)) = pc_state c"
  "pc_turn (fst (move c s)) = pc_turn c"
  "pc_needs (fst (move c s)) = pc_needs c"
  "pc_rows (fst (move c s)) = pc_rows c"
  by (auto simp: move_def Let_def invalidation_def split: option.splits)

lemma core_move [simp]: "core (fst (move c s)) = (case core c of (_, rest) \<Rightarrow> (s, rest))"
  by (simp add: core_def)

lemma core_offers [simp]: "core (c\<lparr>pc_offers := r\<rparr>) = (case core c of (s, _, rest) \<Rightarrow> (s, or_open r, rest))"
  by (simp add: core_def invalidation_def)

lemma core_history [simp]: "core (add_history c e) = core c"
  by (simp add: core_def add_history_def invalidation_def split: option.split)

lemma core_needs [simp]: "core (supersede_symptom_needs c reason) = core c"
  by (simp add: core_def supersede_symptom_needs_def invalidation_def)

lemma core_rows [simp]: "core (record_verifying_rows c ids) = core c" "core (restore_the_hold c r) = core c"
  by (simp_all add: core_def record_verifying_rows_def restore_the_hold_def invalidation_def split: option.split)

lemma core_invalidation [simp]:
  "core (set_invalidation c i) = (case core c of (s, o1, present, _) \<Rightarrow> (s, o1, present, if present then i else None))"
  by (simp add: core_def set_invalidation_def invalidation_def split: option.split)

lemma core_write: "write_statement c text = Inr c' \<Longrightarrow> core c' = core c \<and> pc_verification c \<noteq> None"
  by (auto simp: write_statement_def assign_description_def core_def invalidation_def split: sum.splits option.splits if_splits)

lemma core_restage:
  assumes "restage_revision c staged = Inr r"
  shows "\<exists>o1 x. or_open (pc_offers c) = Some o1 \<and> of_kind o1 = K_REVISION \<and> of_revision o1 = Some x
    \<and> or_open r = Some (o1\<lparr>of_revision := Some (x\<lparr>rev_staged := staged\<rparr>)\<rparr>)"
  using assms by (auto simp: restage_revision_def open_revision_def split: option.splits if_splits)

lemma revision_in_simps [simp]:
  "revision_in None = None"
  "revision_in (Some x) = (if of_kind x = K_REVISION then of_revision x else None)"
  by (simp_all add: revision_in_def)

lemma open_revision_in: "pending_revision c = revision_in (or_open (pc_offers c))"
  by (simp add: pending_revision_def open_revision_def revision_in_def split: option.split)

lemma revision_ok_staged [simp]: "revision_ok (x\<lparr>rev_staged := s\<rparr>) = revision_ok x"
  by (simp add: revision_ok_def)

lemma offer_ok_staged:
  "of_revision o1 = Some x \<Longrightarrow> offer_ok (o1\<lparr>of_revision := Some (x\<lparr>rev_staged := s\<rparr>)\<rparr>) = offer_ok o1"
  by (simp add: offer_ok_def)

lemma supersede_cases:
  assumes "supersede_open_revision conf c = Inr c1"
  shows "(pending_revision c = None \<and> c1 = c)
    \<or> (\<exists>r. pending_revision c \<noteq> None \<and> or_open r = None \<and> c1 = c\<lparr>pc_offers := r\<rparr>)"
proof (cases "pending_revision c")
  case None
  then show ?thesis
    using assms by (auto simp: supersede_open_revision_def pending_revision_def split: option.splits if_splits)
next
  case (Some p)
  then obtain o1 where o1: "open_revision c = Some o1" "of_revision o1 = Some p"
    by (auto simp: pending_revision_def split: option.splits)
  then obtain r where r: "answer_offer conf c (of_proposal_id o1) A_SUPERSEDED VIA_ENGINE None = Inr r" "c1 = c\<lparr>pc_offers := r\<rparr>"
    using assms by (auto simp: supersede_open_revision_def split: sum.splits)
  with answer_offer_Inr [OF r(1)] Some show ?thesis by auto
qed

text \<open>The revision a proposal opens.\<close>

lemma propose_revision_Inr:
  assumes "propose_revision conf c pid text ids basis key = Inr (c', r)"
  shows "\<exists>o1. core c' = (case core c of (_, _, rest) \<Rightarrow> (REVISION_PENDING, Some o1, rest))
      \<and> of_kind o1 = K_REVISION \<and> of_closure_reason o1 = None \<and> of_revision o1 = Some r"
    and "or_open (pc_offers c) = None \<or> pending_revision c \<noteq> None"
    and "rev_prior_status r = base_status (pc_status c) (or_open (pc_offers c))"
    and "rev_text r = strip text"
    and "pending_revision c = Some p \<Longrightarrow> rev_held_since_turn r = rev_held_since_turn p \<and> rev_staged r = rev_staged p"
proof -
  obtain c1 where c1: "supersede_open_revision conf c = Inr c1"
    using assms by (auto simp: propose_revision_def Let_def split: sum.splits)
  then obtain rec where op: "open_offer conf c1 pid K_REVISION B_REVISION [] [] None (Some r) False False = Inr (Some rec)"
    and c': "c' = fst (move (c1\<lparr>pc_offers := rec\<rparr>) REVISION_PENDING)"
    and r: "r = \<lparr>rev_text = strip text, rev_evidence_ids = ids, rev_basis = strip basis,
               rev_proposed_at_turn = pc_turn c,
               rev_held_since_turn = (case pending_revision c of Some p \<Rightarrow> rev_held_since_turn p | None \<Rightarrow> pc_turn c),
               rev_prior_status = (case pending_revision c of Some p \<Rightarrow> rev_prior_status p | None \<Rightarrow> pc_status c),
               rev_wording_key = key,
               rev_staged = (case pending_revision c of Some p \<Rightarrow> rev_staged p | None \<Rightarrow> [])\<rparr>"
    using assms by (auto simp: propose_revision_def Let_def split: sum.splits option.splits)
  have c1': "or_open (pc_offers c) = None \<or> pending_revision c \<noteq> None"
    "core (c1\<lparr>pc_offers := rec\<rparr>) = (case core c of (s, _, rest) \<Rightarrow> (s, or_open rec, rest))"
    using supersede_cases [OF c1] open_offer_Some(1) [OF op] by (auto split: prod.split)
  obtain o1 where "or_open rec = Some o1" "of_kind o1 = K_REVISION" "of_closure_reason o1 = None" "of_revision o1 = Some r"
    using open_offer_Some(5) [OF op] by blast
  with c1' c' show "\<exists>o1. core c' = (case core c of (_, _, rest) \<Rightarrow> (REVISION_PENDING, Some o1, rest))
      \<and> of_kind o1 = K_REVISION \<and> of_closure_reason o1 = None \<and> of_revision o1 = Some r"
    by (intro exI [of _ o1]) (simp split: prod.split)
  show "or_open (pc_offers c) = None \<or> pending_revision c \<noteq> None" by (rule c1'(1))
  show "rev_prior_status r = base_status (pc_status c) (or_open (pc_offers c))" "rev_text r = strip text"
    "pending_revision c = Some p \<Longrightarrow> rev_held_since_turn r = rev_held_since_turn p \<and> rev_staged r = rev_staged p"
    by (simp_all add: r base_status_def open_revision_in split: option.split)
qed

lemma commit_revision_Inr:
  assumes "commit_revision conf c via = Inr (c', r)"
  shows "pending_revision c = Some r \<and> core c' = (PROBLEM_VERIFIED, None, True, None)"
proof -
  obtain o1 rec c1 where o1: "open_revision c = Some o1" "of_revision o1 = Some r"
    and rec: "answer_offer conf c (of_proposal_id o1) ACCEPTED via None = Inr rec"
    and c1: "write_statement (c\<lparr>pc_offers := rec\<rparr>) (rev_text r) = Inr c1"
    using assms by (auto simp: commit_revision_def Let_def split: option.splits sum.splits)
  have "or_open rec = None" using answer_offer_Inr [OF rec] by blast
  with core_write [OF c1] have "core c1 = (pc_status c, None, True, invalidation c)"
    by (simp add: core_def invalidation_def)
  with assms o1 rec c1 show ?thesis
    by (auto simp: commit_revision_def Let_def pending_revision_def)
qed

lemma answer_pending_Inr:
  assumes "answer_pending conf c answer via = Inr (c', r)"
  shows "(open_revision c = None \<and> c' = c \<and> r = None)
    \<or> (\<exists>x. pending_revision c = Some x \<and> r = Some x
        \<and> core c' = (case core c of (_, _, rest) \<Rightarrow> (rev_prior_status x, None, rest)))"
proof (cases "open_revision c")
  case None
  then show ?thesis using assms by (simp add: answer_pending_def)
next
  case (Some o1)
  then obtain rec x where rec: "answer_offer conf c (of_proposal_id o1) answer via None = Inr rec"
    and x: "of_revision o1 = Some x" "r = Some x"
    using assms by (auto simp: answer_pending_def Let_def split: option.splits sum.splits)
  have "or_open rec = None" using answer_offer_Inr [OF rec] by blast
  with assms Some rec x show ?thesis
    by (auto simp: answer_pending_def Let_def pending_revision_def split: prod.splits if_splits)
qed

lemma invalidate_problem_Inr:
  assumes "invalidate_problem c ids basis = Inr c'"
  shows "\<exists>i. inv_prior_status i = pc_status c \<and> core c' = (INVALIDATED, or_open (pc_offers c), True, Some i)"
  using assms by (auto simp: invalidate_problem_def Let_def core_def [of c] split: if_splits)

lemma clear_invalidation_eq:
  "clear_invalidation c = fst (move (set_invalidation c None)
     (case invalidation c of None \<Rightarrow> UNVERIFIED | Some i \<Rightarrow> inv_prior_status i))"
  by (simp add: clear_invalidation_def invalidation_def split: option.split)

lemma withdraw_invalidation_Inr:
  assumes "withdraw_invalidation c basis = Inr (c', b)"
  shows "(pc_status c \<noteq> INVALIDATED \<and> c' = c \<and> \<not> b) \<or> (pc_status c = INVALIDATED \<and> b
    \<and> core c' = ((case invalidation c of None \<Rightarrow> UNVERIFIED | Some i \<Rightarrow> inv_prior_status i), or_open (pc_offers c), True, None))"
proof -
  have "invalidation (add_history c e) = invalidation c" for e by (simp add: invalidation_def add_history_def split: option.split)
  then have "core (clear_invalidation (add_history c e))
      = ((case invalidation c of None \<Rightarrow> UNVERIFIED | Some i \<Rightarrow> inv_prior_status i), or_open (pc_offers c), pc_verification c \<noteq> None, None)" for e
    by (simp add: clear_invalidation_eq) (simp add: core_def [of c])
  with assms show ?thesis by (auto simp: withdraw_invalidation_def Let_def split: if_splits)
qed

lemma edit_statement_Inr:
  assumes "edit_statement c text = Inr c'"
  shows "core c' = (if pc_status c = INVALIDATED then (UNVERIFIED, or_open (pc_offers c), True, None)
    else (pc_status c, or_open (pc_offers c), True, invalidation c))"
proof -
  let ?c0 = "case pc_verification c of
     None \<Rightarrow> c\<lparr>pc_verification := Some \<lparr>pv_symptom_statement = strip text, pv_history = [],
        pv_invalidation = None, pv_verifying_ids = []\<rparr>\<rparr>
   | Some _ \<Rightarrow> c"
  obtain c1 where c1: "write_statement ?c0 (strip text) = Inr c1"
    and c': "c' = (let c3 = supersede_symptom_needs (add_history c1 \<lparr>sr_kind = SR_EDITED, sr_text = strip text,
        sr_turn = pc_turn c, sr_evidence_ids = [], sr_rationale = None\<rparr>) reason_edited
       in if pc_status c3 = INVALIDATED then fst (move (set_invalidation c3 None) UNVERIFIED) else c3)"
    using assms by (auto simp: edit_statement_def Let_def split: sum.splits if_splits)
  have "core ?c0 = (pc_status c, or_open (pc_offers c), True, invalidation c)"
    by (auto simp: core_def invalidation_def split: option.split)
  then have k: "core c1 = (pc_status c, or_open (pc_offers c), True, invalidation c)" using core_write [OF c1] by simp
  then have "pc_status (supersede_symptom_needs (add_history c1 e) w) = pc_status c" for e w
    by (simp add: core_def supersede_symptom_needs_def add_history_def)
  then show ?thesis
    unfolding c' Let_def using k by simp
qed

end
