(* ===== verification/Problem_Properties.thy ===== *)
theory Problem_Properties
  imports Problem_Laws Examples
begin

text \<open>
  The machine of the problem statement: its steps as the callers take them, the abstract machine it
  refines, and the properties of a hold.
\<close>

section \<open>The steps\<close>

text \<open>
  A step is one call as \<open>response_application.py\<close>, \<open>engine.py\<close>, \<open>stage_gates.py\<close> and
  \<open>case_service.py\<close> make it, behind the caller's guard: a revision or a finding is recorded only when no
  transition waits for an answer and the refusal has no objection; a statement is edited when the edit is not refused.
  The event names the call. \<open>TRANSITION\<close> is an offer of a transition or the answer to one, and
  \<open>ELSEWHERE\<close> everything else that happens to a case.
\<close>

datatype problem_event = VERIFY | UNVERIFY | PROPOSE | STAGE | COMMIT | RELEASE | INVALIDATE | WITHDRAW | EDIT_TEXT
  | TRANSITION | ELSEWHERE

inductive problem_does ::
    "confirming \<Rightarrow> (problem_case \<Rightarrow> bool) \<Rightarrow> problem_event \<Rightarrow> problem_case \<Rightarrow> problem_case \<Rightarrow> bool"
  for conf cause_removed where
  verify: "problem_does conf cause_removed VERIFY c (fst (verify_problem c))"
| unverify: "problem_does conf cause_removed UNVERIFY c (fst (unverify_problem c))"
| propose: "pc_verification c \<noteq> None \<Longrightarrow> open_terminal_offer c = None
    \<Longrightarrow> revision_refusal conf c text ids basis key = None
    \<Longrightarrow> propose_revision conf c pid text ids (or_empty basis) key = Inr (c', r)
    \<Longrightarrow> problem_does conf cause_removed PROPOSE c c'"
| stage: "stage_cause_work c updates added = Inr c' \<Longrightarrow> problem_does conf cause_removed STAGE c c'"
| hold_fix: "hold_fix_on_revision c identity message added = Inr c' \<Longrightarrow> problem_does conf cause_removed STAGE c c'"
| commit: "commit_revision conf c via = Inr (c', r) \<Longrightarrow> problem_does conf cause_removed COMMIT c c'"
| decline: "decline_revision conf c via = Inr (c', r') \<Longrightarrow> problem_does conf cause_removed RELEASE c c'"
| cancel: "cancel_revision conf c via answer = Inr (c', r') \<Longrightarrow> problem_does conf cause_removed RELEASE c c'"
| invalidate: "open_terminal_offer c = None \<Longrightarrow> invalidation_refusal cause_removed c ids basis = None
    \<Longrightarrow> invalidate_problem c ids (or_empty basis) = Inr c' \<Longrightarrow> problem_does conf cause_removed INVALIDATE c c'"
| withdraw: "withdraw_invalidation c basis = Inr (c', b) \<Longrightarrow> problem_does conf cause_removed WITHDRAW c c'"
| edit: "edit_statement_refusal c (Some text) = None \<Longrightarrow> edit_statement c text = Inr c'
    \<Longrightarrow> problem_does conf cause_removed EDIT_TEXT c c'"
| confirmed: "record_confirmed_statement c = Inr c' \<Longrightarrow> problem_does conf cause_removed ELSEWHERE c c'"
| terminal_offer: "kind \<in> set TERMINAL_KINDS
    \<Longrightarrow> open_offer conf c pid kind offer_basis summary ids reason None pivoted readiness = Inr (Some rec)
    \<Longrightarrow> problem_does conf cause_removed TRANSITION c (c\<lparr>pc_offers := rec\<rparr>)"
| terminal_answer: "open_terminal_offer c \<noteq> None \<Longrightarrow> answer_offer conf c pid answer via actor = Inr rec
    \<Longrightarrow> problem_does conf cause_removed TRANSITION c (c\<lparr>pc_offers := rec\<rparr>)"
| review: "problem_does conf cause_removed ELSEWHERE c (c\<lparr>pc_offers := lapse_offers conf c\<rparr>)"
| remember: "problem_does conf cause_removed ELSEWHERE c (c\<lparr>pc_offers := remember_resolve_request c missing\<rparr>)"
| elsewhere: "core c' = core c \<Longrightarrow> problem_does conf cause_removed ELSEWHERE c c'"

text \<open>Some call, whichever; and a run with the calls it makes.\<close>

definition problem_step ::
    "confirming \<Rightarrow> (problem_case \<Rightarrow> bool) \<Rightarrow> problem_case \<Rightarrow> problem_case \<Rightarrow> bool" where
  "problem_step conf cause_removed c c' \<longleftrightarrow> (\<exists>e. problem_does conf cause_removed e c c')"

lemma problem_stepI: "problem_does conf cause_removed e c c' \<Longrightarrow> problem_step conf cause_removed c c'"
  by (auto simp: problem_step_def)

inductive problem_run ::
    "confirming \<Rightarrow> (problem_case \<Rightarrow> bool) \<Rightarrow> problem_event list \<Rightarrow> problem_case \<Rightarrow> problem_case \<Rightarrow> bool"
  for conf cause_removed where
  idle: "problem_run conf cause_removed [] c c"
| call: "problem_does conf cause_removed e c c1 \<Longrightarrow> problem_run conf cause_removed es c1 c'
    \<Longrightarrow> problem_run conf cause_removed (e # es) c c'"

section \<open>The abstract machine\<close>

text \<open>
  Without offers, texts and histories a problem is live, shown by evidence or not, or a false alarm
  that remembers which it was; and either way a revision may hold it. What each call makes of it is a
  function: \<open>None\<close> is a call that is never made, or refused, in that view.
\<close>

datatype standpoint = LIVE bool | ALARM bool

datatype problem_view = SETTLED standpoint | HELD standpoint

fun view_after :: "problem_event \<Rightarrow> problem_view \<Rightarrow> problem_view option" where
  "view_after VERIFY (SETTLED (LIVE v)) = Some (SETTLED (LIVE True))"
| "view_after UNVERIFY (SETTLED (LIVE v)) = Some (SETTLED (LIVE False))"
| "view_after PROPOSE (SETTLED s) = Some (HELD s)"
| "view_after STAGE (SETTLED s) = None"
| "view_after COMMIT (SETTLED s) = None"
| "view_after COMMIT (HELD s) = Some (SETTLED (LIVE True))"
| "view_after RELEASE (HELD s) = Some (SETTLED s)"
| "view_after INVALIDATE (SETTLED (LIVE v)) = Some (SETTLED (ALARM v))"
| "view_after INVALIDATE (SETTLED (ALARM v)) = None"
| "view_after INVALIDATE (HELD s) = None"
| "view_after WITHDRAW (SETTLED (ALARM v)) = Some (SETTLED (LIVE v))"
| "view_after EDIT_TEXT (SETTLED (ALARM v)) = Some (SETTLED (LIVE False))"
| "view_after EDIT_TEXT (HELD s) = None"
| "view_after TRANSITION (HELD s) = None"
| "view_after e v = Some v"

fun view_run :: "problem_event list \<Rightarrow> problem_view \<Rightarrow> problem_view option" where
  "view_run [] v = Some v"
| "view_run (e # es) v = (case view_after e v of None \<Rightarrow> None | Some v' \<Rightarrow> view_run es v')"

text \<open>A call that leaves every view as it is.\<close>

lemma view_stays [simp]: "view_after ELSEWHERE v = Some v"
  by (cases "(ELSEWHERE, v)" rule: view_after.cases) simp_all

definition standpoint_of :: "problem_status \<Rightarrow> problem_invalidation option \<Rightarrow> standpoint" where
  "standpoint_of s i = (if s = INVALIDATED
     then ALARM (case i of None \<Rightarrow> False | Some x \<Rightarrow> inv_prior_status x = PROBLEM_VERIFIED)
     else LIVE (s = PROBLEM_VERIFIED))"

fun core_view :: "core \<Rightarrow> problem_view" where
  "core_view (s, o1, present, i) =
    (if revision_in o1 = None then SETTLED else HELD) (standpoint_of (base_status s o1) i)"

definition view :: "problem_case \<Rightarrow> problem_view" where
  "view c = core_view (core c)"

section \<open>Each call keeps the invariant and does to the view what its event says\<close>

definition simulates :: "problem_event \<Rightarrow> problem_case \<Rightarrow> problem_case \<Rightarrow> bool" where
  "simulates e c c' \<longleftrightarrow> problem_ok c' \<and> view_after e (view c) = Some (view c')"

lemma simulates_same:
  "problem_ok c \<Longrightarrow> core c' = core c \<Longrightarrow> view_after e (view c) = Some (view c) \<Longrightarrow> simulates e c c'"
  by (simp add: simulates_def problem_ok_def view_def)

lemma base_status_simps [simp]:
  "revision_in o1 = None \<Longrightarrow> base_status s o1 = s"
  "revision_in o1 = Some r \<Longrightarrow> base_status s o1 = rev_prior_status r"
  by (simp_all add: base_status_def)

lemma terminal_not_revision:
  "open_terminal_offer c \<noteq> None \<Longrightarrow> revision_in (or_open (pc_offers c)) = None"
  by (auto simp: open_terminal_offer_def revision_in_def TERMINAL_KINDS_def split: option.splits if_splits)

lemma core_eq: "core c = (pc_status c, or_open (pc_offers c), pc_verification c \<noteq> None, invalidation c)"
  by (rule core_def)

lemma held_view:
  "pending_revision c = Some r \<Longrightarrow> view c = HELD (standpoint_of (rev_prior_status r) (invalidation c))"
  by (simp add: view_def core_eq open_revision_in)

lemma settled_view:
  "pending_revision c = None \<Longrightarrow> view c = SETTLED (standpoint_of (pc_status c) (invalidation c))"
  by (simp add: view_def core_eq open_revision_in)

lemma simulates_verify: "problem_ok c \<Longrightarrow> simulates VERIFY c (fst (verify_problem c))"
  by (cases "pc_status c")
    (auto simp: verify_problem_def simulates_def problem_ok_def view_def core_eq [of c] standpoint_of_def
       split: option.splits)

lemma simulates_unverify: "problem_ok c \<Longrightarrow> simulates UNVERIFY c (fst (unverify_problem c))"
  by (cases "pc_status c")
    (auto simp: unverify_problem_def simulates_def problem_ok_def view_def core_eq [of c] standpoint_of_def
       split: option.splits)

lemma simulates_propose:
  assumes ok: "problem_ok c" and pv: "pc_verification c \<noteq> None"
    and ref: "revision_refusal conf c text ids basis key = None"
    and pr: "propose_revision conf c pid text ids b key = Inr (c', r)"
  shows "simulates PROPOSE c c'"
proof -
  note p = propose_revision_Inr [OF pr]
  have "strip text \<noteq> []" "length (strip text) \<le> MAX_STATEMENT_CHARS"
    using ref by (auto simp: revision_refusal_def Let_def split: if_splits)
  moreover have "base_status (pc_status c) (or_open (pc_offers c)) \<noteq> REVISION_PENDING"
    using ok by (auto simp: problem_ok_def core_eq base_status_def offer_ok_def revision_ok_def revision_in_def
        split: option.splits if_splits)
  ultimately have r: "revision_ok r" using p(3,4) by (simp add: revision_ok_def)
  obtain o1 where o1: "core c' = (case core c of (_, _, rest) \<Rightarrow> (REVISION_PENDING, Some o1, rest))"
    "of_kind o1 = K_REVISION" "of_closure_reason o1 = None" "of_revision o1 = Some r" using p(1) by blast
  then have c': "core c' = (REVISION_PENDING, Some o1, True, invalidation c)" using pv by (simp add: core_eq)
  have "revision_in (Some o1) = Some r" using o1 by simp
  with ok r o1 p(3) have "problem_ok c'"
    by (auto simp: problem_ok_def c' core_eq [of c] offer_ok_def)
  moreover have "view c' = HELD (standpoint_of (base_status (pc_status c) (or_open (pc_offers c))) (invalidation c))"
    using o1(2-4) p(3) by (simp add: view_def c')
  moreover have "view c \<in> {SETTLED s, HELD s}" if "s = standpoint_of (base_status (pc_status c) (or_open (pc_offers c))) (invalidation c)" for s
    using that by (simp add: view_def core_eq)
  ultimately show ?thesis unfolding simulates_def by auto
qed

lemma simulates_settle:
  assumes "problem_ok c" "pending_revision c = Some r"
    and "core c' = (rev_prior_status r, None, pc_verification c \<noteq> None, invalidation c)"
  shows "simulates RELEASE c c'"
proof -
  have "revision_in (or_open (pc_offers c)) = Some r" using assms(2) by (simp add: open_revision_in)
  moreover from this assms(1) have "rev_prior_status r \<noteq> REVISION_PENDING"
    by (auto simp: problem_ok_def core_eq revision_in_def offer_ok_def revision_ok_def split: option.splits if_splits)
  ultimately show ?thesis
    using assms by (auto simp: simulates_def problem_ok_def view_def core_eq [of c])
qed

lemma simulates_commit:
  assumes "problem_ok c" "commit_revision conf c via = Inr (c', r)"
  shows "simulates COMMIT c c'"
proof -
  have c: "pending_revision c = Some r" "core c' = (PROBLEM_VERIFIED, None, True, None)"
    using commit_revision_Inr [OF assms(2)] by simp_all
  then have "view c' = SETTLED (LIVE True)" "\<exists>s. view c = HELD s"
    by (simp_all add: view_def standpoint_of_def core_eq [of c] open_revision_in)
  then show ?thesis using c by (auto simp: simulates_def problem_ok_def)
qed

lemma simulates_answer_pending:
  assumes "problem_ok c" "answer_pending conf c answer via = Inr (c', r)"
  shows "simulates RELEASE c c'"
proof (cases "pending_revision c")
  case None
  then have "core c' = core c" "view_after RELEASE (view c) = Some (view c)"
    using answer_pending_Inr [OF assms(2)] by (auto simp: settled_view)
  then show ?thesis by (rule simulates_same [OF assms(1)])
next
  case (Some p)
  then have "core c' = (rev_prior_status p, None, pc_verification c \<noteq> None, invalidation c)"
    using answer_pending_Inr [OF assms(2)] by (auto simp: core_eq [of c] pending_revision_def)
  then show ?thesis by (rule simulates_settle [OF assms(1) Some])
qed

lemma simulates_invalidate:
  assumes ok: "problem_ok c" and ref: "invalidation_refusal cause_removed c ids basis = None"
    and inv: "invalidate_problem c ids b = Inr c'"
  shows "simulates INVALIDATE c c'"
proof -
  obtain i where i: "inv_prior_status i = pc_status c" "core c' = (INVALIDATED, or_open (pc_offers c), True, Some i)"
    using invalidate_problem_Inr [OF inv] by blast
  have s: "pc_status c \<in> {UNVERIFIED, PROBLEM_VERIFIED}"
    using ref by (auto simp: invalidation_refusal_def split: if_splits)
  then have "revision_in (or_open (pc_offers c)) = None" using ok by (auto simp: problem_ok_def core_eq)
  with ok i s show ?thesis
    by (auto simp: simulates_def problem_ok_def view_def core_eq [of c] standpoint_of_def)
qed

lemma simulates_withdraw:
  assumes "problem_ok c" "withdraw_invalidation c basis = Inr (c', b)"
  shows "simulates WITHDRAW c c'"
proof (cases "pc_status c = INVALIDATED")
  case True
  then obtain i where i: "invalidation c = Some i" "inv_prior_status i \<in> {UNVERIFIED, PROBLEM_VERIFIED}"
    and none: "revision_in (or_open (pc_offers c)) = None"
    using assms(1) by (auto simp: problem_ok_def core_eq split: option.splits)
  then have "core c' = (inv_prior_status i, or_open (pc_offers c), True, None)"
    using withdraw_invalidation_Inr [OF assms(2)] True by simp
  then show ?thesis
    using assms(1) i none True
    by (auto simp: simulates_def problem_ok_def view_def core_eq [of c] standpoint_of_def)
next
  case False
  have "view_after WITHDRAW (view c) = Some (view c)"
    using False by (cases "pending_revision c") (simp_all add: held_view settled_view standpoint_of_def)
  then have "simulates WITHDRAW c c" by (intro simulates_same [OF assms(1)]) simp_all
  then show ?thesis using withdraw_invalidation_Inr [OF assms(2)] False by auto
qed

lemma simulates_edit:
  assumes ok: "problem_ok c" and ref: "edit_statement_refusal c t = None" and ed: "edit_statement c text = Inr c'"
  shows "simulates EDIT_TEXT c c'"
proof -
  have s: "pc_status c \<noteq> REVISION_PENDING" using ref by (auto simp: edit_statement_refusal_def split: if_splits)
  then have none: "revision_in (or_open (pc_offers c)) = None" using ok by (simp add: problem_ok_def core_eq)
  show ?thesis
    using edit_statement_Inr [OF ed] ok s none
    by (cases "pc_status c = INVALIDATED")
      (auto simp: simulates_def problem_ok_def view_def core_eq [of c] standpoint_of_def)
qed

lemma simulates_restage:
  assumes ok: "problem_ok c" and rs: "restage_revision c staged = Inr r"
  shows "simulates STAGE c (c\<lparr>pc_offers := r\<rparr>)"
proof -
  obtain o1 x where o1: "or_open (pc_offers c) = Some o1" "of_kind o1 = K_REVISION" "of_revision o1 = Some x"
    "or_open r = Some (o1\<lparr>of_revision := Some (x\<lparr>rev_staged := staged\<rparr>)\<rparr>)"
    using core_restage [OF rs] by blast
  then show ?thesis
    using ok by (auto simp: simulates_def problem_ok_def view_def core_eq offer_ok_staged invalidation_def)
qed

lemma simulates_offers:
  assumes "problem_ok c" "revision_in (or_open (pc_offers c)) = None" "revision_in (or_open r) = None"
    and "view_after e (view c) = Some (view c)"
    and "case or_open r of None \<Rightarrow> True | Some x \<Rightarrow> offer_ok x"
  shows "simulates e c (c\<lparr>pc_offers := r\<rparr>)"
  using assms by (auto simp: simulates_def problem_ok_def view_def core_eq [of c])

lemma simulates_terminal_offer:
  assumes "problem_ok c" "kind \<in> set TERMINAL_KINDS"
    and "open_offer conf c pid kind basis summary ids reason None pivoted readiness = Inr (Some r)"
  shows "simulates TRANSITION c (c\<lparr>pc_offers := r\<rparr>)"
proof (rule simulates_offers [OF assms(1)])
  note op = open_offer_Some [OF assms(3)]
  show "revision_in (or_open (pc_offers c)) = None" using op(1) by simp
  show "revision_in (or_open r) = None" "case or_open r of None \<Rightarrow> True | Some x \<Rightarrow> offer_ok x"
    using op(2,5) assms(2) by (auto simp: offer_ok_def TERMINAL_KINDS_def)
  show "view_after TRANSITION (view c) = Some (view c)"
    using op(1) by (simp add: settled_view open_revision_in)
qed

lemma lapse_open:
  "or_open (lapse_offers conf c) = or_open (pc_offers c)
   \<or> or_open (lapse_offers conf c) = None \<and> open_terminal_offer c \<noteq> None"
  by (auto simp: lapse_offers_def Let_def open_terminal_offer_def split: option.split)

lemma simulates_lapse:
  assumes "problem_ok c"
  shows "simulates ELSEWHERE c (c\<lparr>pc_offers := lapse_offers conf c\<rparr>)"
  using lapse_open [of conf c]
proof
  assume "or_open (lapse_offers conf c) = or_open (pc_offers c)"
  then show ?thesis using assms by (intro simulates_same) (simp_all add: core_eq [of c])
next
  assume "or_open (lapse_offers conf c) = None \<and> open_terminal_offer c \<noteq> None"
  then show ?thesis using assms terminal_not_revision by (intro simulates_offers) auto
qed

lemma simulates_step:
  assumes "problem_does conf cause_removed e c c'" "problem_ok c"
  shows "simulates e c c'"
  using assms(1)
proof cases
  case verify then show ?thesis using simulates_verify [OF assms(2)] by simp
next
  case unverify then show ?thesis using simulates_unverify [OF assms(2)] by simp
next
  case (propose new_text ids basis key pid r) then show ?thesis using simulates_propose [OF assms(2)] by blast
next
  case (stage updates added)
  then obtain r where "c' = c\<lparr>pc_offers := r\<rparr>" "\<exists>s. restage_revision c s = Inr r"
    by (auto simp: stage_cause_work_def split: option.splits sum.splits)
  then show ?thesis using simulates_restage [OF assms(2)] stage(1) by blast
next
  case (hold_fix identity message added)
  then obtain r where "c' = c\<lparr>pc_offers := r\<rparr>" "\<exists>s. restage_revision c s = Inr r"
    by (auto simp: hold_fix_on_revision_def Let_def split: option.splits sum.splits)
  then show ?thesis using simulates_restage [OF assms(2)] hold_fix(1) by blast
next
  case (commit via r) then show ?thesis using simulates_commit [OF assms(2)] by blast
next
  case (decline via r) then show ?thesis using simulates_answer_pending [OF assms(2)] by (simp add: decline_revision_def)
next
  case (cancel via answer r) then show ?thesis using simulates_answer_pending [OF assms(2)] by (simp add: cancel_revision_def)
next
  case (invalidate ids basis) then show ?thesis using simulates_invalidate [OF assms(2)] by blast
next
  case (withdraw basis b) then show ?thesis using simulates_withdraw [OF assms(2)] by blast
next
  case (edit new_text) then show ?thesis using simulates_edit [OF assms(2)] by blast
next
  case confirmed
  then have "core c' = core c" by (auto simp: record_confirmed_statement_def split: if_splits)
  then show ?thesis unfolding confirmed(1) by (intro simulates_same [OF assms(2)]) simp_all
next
  case (terminal_offer kind pid offer_basis summary ids reason pivoted readiness rec)
  then show ?thesis using simulates_terminal_offer [OF assms(2)] by blast
next
  case (terminal_answer pid answer via actor rec)
  then have "or_open rec = None" using answer_offer_Inr by blast
  moreover have none: "revision_in (or_open (pc_offers c)) = None" using terminal_answer(3) by (rule terminal_not_revision)
  moreover from none have "view_after TRANSITION (view c) = Some (view c)" by (simp add: settled_view open_revision_in)
  ultimately show ?thesis unfolding terminal_answer(1,2) by (intro simulates_offers [OF assms(2)]) simp_all
next
  case review then show ?thesis using simulates_lapse [OF assms(2)] by blast
next
  case (remember missing)
  then show ?thesis using simulates_same [OF assms(2)] by (simp add: core_eq remember_resolve_request_def invalidation_def)
next
  case elsewhere then show ?thesis by (auto intro: simulates_same [OF assms(2)])
qed

lemma step_ok: "problem_step conf cause_removed c c' \<Longrightarrow> problem_ok c \<Longrightarrow> problem_ok c'"
  using simulates_step by (auto simp: problem_step_def simulates_def)

section \<open>Properties\<close>

lemma problem_status_machine:
  assumes "(problem_step conf cause_removed)\<^sup>*\<^sup>* c c'" "problem_ok c"
  shows "problem_ok c'"
  using assms(1)
proof (induction rule: rtranclp_induct)
  case (step d d')
  show ?case by (rule step_ok [OF step(2,3)])
qed (rule assms(2))

text \<open>C19: The operations on the problem statement refine the machine of live problems, false alarms and holds,
  call by call: from a consistent case every run of calls ends in a consistent case, none of its calls is
  one the machine has no move for, and the view it ends in is the one the machine computes from the calls
  made - a hold is released to the standpoint it began with, a commit ends it verified, a withdrawn
  finding gives back the status it found, a restated false alarm starts over unverified, and an offer
  of a transition, a finding or an edit never meets a hold.\<close>

theorem problem_status_refines_view:
  assumes "problem_run conf cause_removed es c c'" "problem_ok c"
  shows "problem_ok c' \<and> view_run es (view c) = Some (view c')"
  using assms
proof induction
  case (call e c c1 es c')
  then show ?case using simulates_step [of conf cause_removed e c c1] by (auto simp: simulates_def)
qed simp

text \<open>A case waits on a revised statement exactly while a revision offer is open, whatever sequence of
  calls led there; and cause work is never accepted while it waits.\<close>

theorem hold_iff_revision_open:
  assumes "(problem_step conf cause_removed)\<^sup>*\<^sup>* c c'" "problem_ok c"
  shows "(cause_work_staged c' \<longleftrightarrow> open_revision c' \<noteq> None)
    \<and> (open_revision c' \<noteq> None \<longrightarrow> pending_revision c' \<noteq> None \<and> \<not> cause_work_accepted c' \<and> open_terminal_offer c' = None)"
proof -
  have "problem_ok c'" by (rule problem_status_machine [OF assms])
  then show ?thesis
    by (auto simp: problem_ok_def core_eq cause_work_staged_def cause_work_accepted_def open_revision_def pending_revision_def
        open_terminal_offer_def offer_ok_def revision_in_def TERMINAL_KINDS_def split: option.splits if_splits)
qed

section \<open>Leaving a hold\<close>

text \<open>What a hold remembers of where it began.\<close>

definition same_hold :: "pending_revision \<Rightarrow> pending_revision \<Rightarrow> bool" where
  "same_hold p q \<longleftrightarrow> rev_prior_status q = rev_prior_status p \<and> rev_held_since_turn q = rev_held_since_turn p"

lemma pending_core: "pending_revision c = revision_in (fst (snd (core c)))"
  by (simp add: open_revision_in core_eq)

lemma pending_status: "problem_ok c \<Longrightarrow> pending_revision c = Some p \<Longrightarrow> pc_status c = REVISION_PENDING"
  by (simp add: problem_ok_def core_eq open_revision_in)

lemma prior_not_pending: "problem_ok c \<Longrightarrow> pending_revision c = Some p \<Longrightarrow> revision_ok p"
  by (auto simp: problem_ok_def core_eq open_revision_in revision_in_def offer_ok_def split: option.splits if_splits)

lemma restage_pending:
  assumes "restage_revision c staged = Inr r" "pending_revision c = Some p"
  shows "\<exists>q. pending_revision (c\<lparr>pc_offers := r\<rparr>) = Some q \<and> same_hold p q"
  using core_restage [OF assms(1)] assms(2) by (auto simp: open_revision_in same_hold_def)

lemma held_step:
  assumes step: "problem_step conf cause_removed c c'" and staged: "cause_work_staged c'"
    and ok: "problem_ok c" and p: "pending_revision c = Some p"
  shows "\<exists>q. pending_revision c' = Some q \<and> same_hold p q"
proof -
  have st: "pc_status c = REVISION_PENDING" by (rule pending_status [OF ok p])
  have rp: "rev_prior_status p \<noteq> REVISION_PENDING" using prior_not_pending [OF ok p] by (simp add: revision_ok_def)
  have notterm: "open_terminal_offer c = None" using terminal_not_revision [of c] p by (cases "open_terminal_offer c") (auto simp: open_revision_in)
  have id: "pending_revision c' = Some p \<Longrightarrow> ?thesis" by (simp add: same_hold_def)
  have ap: False if "answer_pending conf c a v = Inr (c', r)" for a v r
    using answer_pending_Inr [OF that] p rp staged
    by (auto simp: pending_revision_def cause_work_staged_def core_eq split: option.splits)
  from step obtain e where "problem_does conf cause_removed e c c'" by (auto simp: problem_step_def)
  then show ?thesis
  proof cases
    case verify then show ?thesis using st p id by (simp add: verify_problem_def)
  next
    case unverify then show ?thesis using st p id by (simp add: unverify_problem_def)
  next
    case (propose new_text ids basis key pid r)
    then show ?thesis using propose_revision_Inr [OF propose(5)] p
      by (auto simp: pending_core same_hold_def core_eq [of c] split: prod.splits)
  next
    case (stage updates added)
    then obtain r s where "c' = c\<lparr>pc_offers := r\<rparr>" "restage_revision c s = Inr r"
      by (auto simp: stage_cause_work_def split: option.splits sum.splits)
    then show ?thesis using restage_pending p by blast
  next
    case (hold_fix identity message added)
    then obtain r s where "c' = c\<lparr>pc_offers := r\<rparr>" "restage_revision c s = Inr r"
      by (auto simp: hold_fix_on_revision_def Let_def split: option.splits sum.splits)
    then show ?thesis using restage_pending p by blast
  next
    case (commit via r)
    then show ?thesis using commit_revision_Inr staged by (fastforce simp: core_eq cause_work_staged_def)
  next
    case (decline via r) then show ?thesis using ap by (auto simp: decline_revision_def)
  next
    case (cancel via answer r) then show ?thesis using ap by (auto simp: cancel_revision_def)
  next
    case (invalidate ids basis) then show ?thesis using st by (simp add: invalidation_refusal_def)
  next
    case (withdraw basis b) then show ?thesis using st p id by (simp add: withdraw_invalidation_def)
  next
    case (edit new_text) then show ?thesis using st by (simp add: edit_statement_refusal_def split: if_splits)
  next
    case confirmed
    then have "core c' = core c" by (auto simp: record_confirmed_statement_def split: if_splits)
    then show ?thesis using p id by (simp add: pending_core)
  next
    case (terminal_offer kind pid offer_basis summary ids reason pivoted readiness rec)
    then show ?thesis using open_offer_Some(1) p by (fastforce simp: open_revision_in)
  next
    case (terminal_answer pid answer via actor rec) then show ?thesis using notterm by simp
  next
    case review
    then show ?thesis using lapse_open [of conf c] notterm p id by (simp add: open_revision_in)
  next
    case (remember missing)
    then show ?thesis using p id by (simp add: open_revision_in remember_resolve_request_def)
  next
    case elsewhere then show ?thesis using p id by (simp add: pending_core)
  qed
qed

lemma decline_returns:
  assumes "pending_revision c = Some p"
  shows "\<exists>c'. decline_revision conf c via = Inr (c', Some p) \<and> pc_status c' = rev_prior_status p
    \<and> open_revision c' = None"
proof -
  obtain o1 where o1: "open_revision c = Some o1" "of_revision o1 = Some p"
    using assms by (auto simp: pending_revision_def split: option.splits)
  then have open1: "or_open (pc_offers c) = Some o1" by (auto simp: open_revision_def split: option.splits if_splits)
  obtain rec where rec: "answer_offer conf c (of_proposal_id o1) DECLINED via None = Inr rec"
    by (simp add: answer_offer_def open1 require_answerer_def Let_def)
  then have "or_open rec = None" using answer_offer_Inr by blast
  with o1 rec show ?thesis
    by (auto simp: decline_revision_def answer_pending_def Let_def open_revision_def restore_the_hold_def)
qed

text \<open>C20: However long a revised statement waits, whatever is staged on it and however often it is
  re-worded, the user's decline always succeeds and returns the problem to the status it had when
  the hold began; the turn the hold began is remembered throughout.\<close>

theorem hold_is_always_released:
  assumes "(\<lambda>d d'. problem_step conf cause_removed d d' \<and> cause_work_staged d')\<^sup>*\<^sup>* c c'"
    and "problem_ok c" "pending_revision c = Some p"
  shows "\<exists>c'' q. decline_revision conf c' via = Inr (c'', Some q) \<and> rev_held_since_turn q = rev_held_since_turn p
    \<and> pc_status c'' = rev_prior_status p \<and> open_revision c'' = None \<and> \<not> cause_work_staged c''"
proof -
  have "problem_ok c' \<and> (\<exists>q. pending_revision c' = Some q \<and> same_hold p q)"
    using assms(1)
  proof (induction rule: rtranclp_induct)
    case base
    then show ?case using assms(2,3) by (simp add: same_hold_def)
  next
    case (step d d')
    then obtain q where q: "pending_revision d = Some q" "same_hold p q" by blast
    have "problem_ok d'" using step_ok step by blast
    moreover obtain q' where "pending_revision d' = Some q'" "same_hold q q'"
      using held_step [OF _ _ _ q(1)] step by blast
    ultimately show ?case using q(2) by (auto simp: same_hold_def)
  qed
  then obtain q where q: "pending_revision c' = Some q" "same_hold p q" by blast
  have "rev_prior_status p \<noteq> REVISION_PENDING"
    using prior_not_pending [OF assms(2,3)] by (simp add: revision_ok_def)
  with decline_returns [OF q(1)] q(2) show ?thesis
    by (fastforce simp: same_hold_def cause_work_staged_def)
qed

section \<open>Proposing and committing\<close>

lemma standing_superset:
  assumes "standing conf c SCOPE_REVISION (Some key) = None"
    and "\<And>a. a \<in> set (or_answers r) \<Longrightarrow> a \<in> set (or_answers (pc_offers c)) \<or> scope a = None"
  shows "standing conf (c\<lparr>pc_offers := r\<rparr>) SCOPE_REVISION (Some key) = None"
proof -
  have "a \<in> set (or_answers (pc_offers c))" if "a \<in> set (or_answers r)" "scope a = Some SCOPE_REVISION" for a
    using assms(2) [OF that(1)] that(2) by auto
  with assms(1) show ?thesis
    by (simp add: standing_def find_None_iff decline_stands_def premise_holds_def)
qed

text \<open>A revision the refusal has no objection to is always recorded: with no transition waiting for an
  answer, proposing it raises no error, supersedes whatever wording was open and puts the problem
  on hold.\<close>

theorem admitted_revision_is_recorded:
  assumes "problem_ok c" "open_terminal_offer c = None"
    and "revision_refusal conf c text ids basis key = None"
  shows "\<exists>c' r. propose_revision conf c pid text ids (or_empty basis) key = Inr (c', r) \<and> rev_text r = strip text
    \<and> pending_revision c' = Some r \<and> cause_work_staged c'"
proof -
  have undeclined: "standing conf c SCOPE_REVISION (Some key) = None"
    using assms(3) by (auto simp: revision_refusal_def Let_def revision_declined_def split: if_splits option.splits)
  obtain c1 where c1: "supersede_open_revision conf c = Inr c1" "or_open (pc_offers c1) = None"
    "standing conf c1 SCOPE_REVISION (Some key) = None"
  proof (cases "or_open (pc_offers c)")
    case None
    then show ?thesis using that [of c] undeclined by (simp add: supersede_open_revision_def open_revision_def)
  next
    case (Some o1)
    then have k: "of_kind o1 = K_REVISION" "of_revision o1 \<noteq> None"
      using assms(1,2)
      by (cases "of_kind o1"; auto simp: open_terminal_offer_def TERMINAL_KINDS_def problem_ok_def core_eq offer_ok_def
          split: option.splits)+
    obtain rec where rec: "answer_offer conf c (of_proposal_id o1) A_SUPERSEDED VIA_ENGINE None = Inr rec"
      by (simp add: answer_offer_def Some require_answerer_def Let_def)
    then obtain entry where e: "or_open rec = None" "oa_answer entry = A_SUPERSEDED"
      "or_answers rec = capped conf (or_answers (pc_offers c) @ [entry]) c" using answer_offer_Inr by blast
    have "scope entry = None" using e(2) by (simp add: scope_def)
    then have "standing conf (c\<lparr>pc_offers := rec\<rparr>) SCOPE_REVISION (Some key) = None"
      using capped_subset [of conf "or_answers (pc_offers c) @ [entry]" c] e(3)
      by (intro standing_superset [OF undeclined]) auto
    then show ?thesis
      using that [of "c\<lparr>pc_offers := rec\<rparr>"] rec e(1) k Some by (simp add: supersede_open_revision_def open_revision_def)
  qed
  define r where "r = \<lparr>rev_text = strip text, rev_evidence_ids = ids, rev_basis = strip (or_empty basis),
     rev_proposed_at_turn = pc_turn c,
     rev_held_since_turn = (case pending_revision c of Some p \<Rightarrow> rev_held_since_turn p | None \<Rightarrow> pc_turn c),
     rev_prior_status = (case pending_revision c of Some p \<Rightarrow> rev_prior_status p | None \<Rightarrow> pc_status c),
     rev_wording_key = key,
     rev_staged = (case pending_revision c of Some p \<Rightarrow> rev_staged p | None \<Rightarrow> [])\<rparr>"
  have "offer_refusal conf c1 K_REVISION B_REVISION None (Some key) False False = None"
    using c1(3) by (simp add: offer_refusal_def binding_decline_def TERMINAL_KINDS_def)
  then obtain rec where rec: "open_offer conf c1 pid K_REVISION B_REVISION [] [] None (Some r) False False = Inr (Some rec)"
    using c1(2) by (auto simp: open_offer_def Let_def r_def)
  then have pr: "propose_revision conf c pid text ids (or_empty basis) key
      = Inr (fst (move (c1\<lparr>pc_offers := rec\<rparr>) REVISION_PENDING), r)"
    using c1(1) by (simp add: propose_revision_def Let_def r_def)
  with propose_revision_Inr [OF pr] show ?thesis
    by (auto simp: pending_core cause_work_staged_def split: prod.splits)
qed

text \<open>What each part of a commit leaves alone.\<close>

lemma add_history_fields [simp]:
  "pc_status (add_history c e) = pc_status c"
  "pc_offers (add_history c e) = pc_offers c"
  "pc_description (add_history c e) = pc_description c"
  "pc_nodes (add_history c e) = pc_nodes c"
  "pc_rows (add_history c e) = pc_rows c"
  "pc_needs (add_history c e) = pc_needs c"
  by (simp_all add: add_history_def)

lemma set_invalidation_fields [simp]:
  "pc_status (set_invalidation c i) = pc_status c"
  "pc_offers (set_invalidation c i) = pc_offers c"
  "pc_description (set_invalidation c i) = pc_description c"
  "pc_nodes (set_invalidation c i) = pc_nodes c"
  "pc_rows (set_invalidation c i) = pc_rows c"
  "pc_needs (set_invalidation c i) = pc_needs c"
  by (simp_all add: set_invalidation_def)

lemma record_verifying_rows_fields [simp]:
  "pc_status (record_verifying_rows c ids) = pc_status c"
  "pc_offers (record_verifying_rows c ids) = pc_offers c"
  "pc_description (record_verifying_rows c ids) = pc_description c"
  "pc_nodes (record_verifying_rows c ids) = pc_nodes c"
  "pc_rows (record_verifying_rows c ids) = pc_rows c"
  "pc_needs (record_verifying_rows c ids) = pc_needs c"
  by (simp_all add: record_verifying_rows_def)

lemma supersede_needs_fields [simp]:
  "pc_status (supersede_symptom_needs c w) = pc_status c"
  "pc_offers (supersede_symptom_needs c w) = pc_offers c"
  "pc_description (supersede_symptom_needs c w) = pc_description c"
  "pc_nodes (supersede_symptom_needs c w) = pc_nodes c"
  "pc_rows (supersede_symptom_needs c w) = pc_rows c"
  by (simp_all add: supersede_symptom_needs_def)

lemma restore_the_hold_fields [simp]:
  "pc_status (restore_the_hold c r) = pc_status c"
  "pc_offers (restore_the_hold c r) = pc_offers c"
  "pc_description (restore_the_hold c r) = pc_description c"
  "pc_nodes (restore_the_hold c r) = pc_nodes c"
  "pc_needs (restore_the_hold c r) = pc_needs c"
  by (simp_all add: restore_the_hold_def)

lemma written_verification [simp]:
  "pc_verification (add_history c e) = map_option (\<lambda>pv. pv\<lparr>pv_history := pv_history pv @ [e]\<rparr>) (pc_verification c)"
  "pc_verification (set_invalidation c i) = map_option (\<lambda>pv. pv\<lparr>pv_invalidation := i\<rparr>) (pc_verification c)"
  "pc_verification (record_verifying_rows c ids)
     = map_option (\<lambda>pv. pv\<lparr>pv_verifying_ids := cited_symptom_rows c ids\<rparr>) (pc_verification c)"
  "pc_verification (supersede_symptom_needs c w) = pc_verification c"
  "pc_verification (restore_the_hold c r) = pc_verification c"
  by (simp_all add: add_history_def set_invalidation_def record_verifying_rows_def supersede_symptom_needs_def restore_the_hold_def)

lemma cited_symptom_rows_rows: "pc_rows c = pc_rows c' \<Longrightarrow> cited_symptom_rows c ids = cited_symptom_rows c' ids"
  by (simp add: cited_symptom_rows_def)

lemma move_verified [simp]: "pc_verification (fst (move c PROBLEM_VERIFIED)) = pc_verification c"
  "pc_description (fst (move c PROBLEM_VERIFIED)) = pc_description c"
  "pc_nodes (fst (move c PROBLEM_VERIFIED)) = pc_nodes c"
  by (auto simp: move_def)

definition outstanding_symptom_need :: "evidence_need \<Rightarrow> bool" where
  "outstanding_symptom_need n \<longleftrightarrow> need_purpose n = SYMPTOM_VERIFICATION \<and> need_state n \<in> {NEED_PENDING, PARTIALLY_MET}"

lemma supersede_need_settles: "\<not> outstanding_symptom_need (supersede_need w n)"
  by (auto simp: supersede_need_def outstanding_symptom_need_def revoke_obtainability_if_terminal_def)

lemma commit_run:
  assumes "problem_ok c" "pending_revision c = Some r"
  shows "\<exists>c'. commit_revision conf c via = Inr (c', r) \<and> cause_work_accepted c' \<and> open_revision c' = None
    \<and> pc_description c' = rev_text r \<and> current_statement c' = rev_text r \<and> invalidation c' = None
    \<and> map_option pv_verifying_ids (pc_verification c') = Some (cited_symptom_rows c (rev_evidence_ids r))
    \<and> filter outstanding_symptom_need (pc_needs c') = []
    \<and> pc_nodes c' = update_first (\<lambda>(k, n). node_type n = PROBLEM) (\<lambda>(k, n). (k, n\<lparr>node_statement := rev_text r\<rparr>)) (pc_nodes c)
    \<and> pc_rows c' = map (\<lambda>x. if ev_collected_at_turn (row_evidence x) \<ge> rev_held_since_turn r
                          then restore_premature_absence x else x) (pc_rows c)"
proof -
  obtain o1 where o1: "open_revision c = Some o1" "of_revision o1 = Some r"
    using assms(2) by (auto simp: pending_revision_def split: option.splits)
  then have open1: "or_open (pc_offers c) = Some o1" by (auto simp: open_revision_def split: option.splits if_splits)
  have rok: "strip (rev_text r) = rev_text r" "rev_text r \<noteq> []" "length (rev_text r) \<le> 500"
    using prior_not_pending [OF assms] by (simp_all add: revision_ok_def MAX_STATEMENT_CHARS_def)
  have "pc_verification c \<noteq> None"
    using assms(1) pending_status [OF assms] by (simp add: problem_ok_def core_eq)
  then obtain pv where pv: "pc_verification c = Some pv" by blast
  obtain rec where rec: "answer_offer conf c (of_proposal_id o1) ACCEPTED via None = Inr rec"
    by (simp add: answer_offer_def open1 require_answerer_def Let_def)
  then have closed: "or_open rec = None" using answer_offer_Inr by blast
  have w: "write_statement (c\<lparr>pc_offers := rec\<rparr>) (rev_text r) = Inr (c\<lparr>pc_offers := rec, pc_description := rev_text r,
      pc_verification := Some (pv\<lparr>pv_symptom_statement := rev_text r\<rparr>),
      pc_nodes := update_first (\<lambda>(k, n). node_type n = PROBLEM) (\<lambda>(k, n). (k, n\<lparr>node_statement := rev_text r\<rparr>)) (pc_nodes c)\<rparr>)"
    using rok pv by (simp add: write_statement_def assign_description_def MAX_STATEMENT_CHARS_def)
  have needs: "filter outstanding_symptom_need (map (supersede_need w) xs) = []" for w xs
    by (simp add: filter_empty_conv supersede_need_settles)
  let ?w = "c\<lparr>pc_offers := rec, pc_description := rev_text r,
      pc_verification := Some (pv\<lparr>pv_symptom_statement := rev_text r\<rparr>),
      pc_nodes := update_first (\<lambda>(k, n). node_type n = PROBLEM) (\<lambda>(k, n). (k, n\<lparr>node_statement := rev_text r\<rparr>)) (pc_nodes c)\<rparr>"
  let ?h = "add_history ?w \<lparr>sr_kind = SR_REVISED, sr_text = rev_text r, sr_turn = pc_turn c,
      sr_evidence_ids = rev_evidence_ids r, sr_rationale = Some (rev_basis r)\<rparr>"
  let ?v = "supersede_symptom_needs (record_verifying_rows (set_invalidation ?h None) (rev_evidence_ids r)) reason_revised"
  let ?c' = "restore_the_hold (fst (move ?v PROBLEM_VERIFIED)) r"
  have run: "commit_revision conf c via = Inr (?c', r)"
    by (simp add: commit_revision_def o1 rec w Let_def)
  have rows: "cited_symptom_rows (set_invalidation ?h None) ids = cited_symptom_rows c ids" for ids
    by (rule cited_symptom_rows_rows) simp
  have ver: "pc_verification ?c' = Some (pv\<lparr>pv_symptom_statement := rev_text r, pv_history := pv_history pv @
      [\<lparr>sr_kind = SR_REVISED, sr_text = rev_text r, sr_turn = pc_turn c,
      sr_evidence_ids = rev_evidence_ids r, sr_rationale = Some (rev_basis r)\<rparr>], pv_invalidation := None,
      pv_verifying_ids := cited_symptom_rows c (rev_evidence_ids r)\<rparr>)"
    by (simp add: rows)
  have "pc_needs ?c' = map (supersede_need reason_revised) (pc_needs c)"
    by (simp add: supersede_symptom_needs_def)
  then have n: "filter outstanding_symptom_need (pc_needs ?c') = []" using needs by simp
  have "pc_rows ?c' = map (\<lambda>x. if ev_collected_at_turn (row_evidence x) \<ge> rev_held_since_turn r
                          then restore_premature_absence x else x) (pc_rows c)"
    by (simp add: restore_the_hold_def)
  with n run ver rok(2) show ?thesis
    by (intro exI [of _ ?c'])
      (simp add: closed cause_work_accepted_def open_revision_def current_statement_def invalidation_def)
qed

text \<open>C39: The user's confirmation of a revision always succeeds: the revised text becomes the statement of
  the problem, of its record and of its node; the problem is verified by exactly the cited symptom rows; no
  false-alarm finding and no outstanding symptom need is left; and the rows recorded since the hold
  began are restored.\<close>

theorem commit_applies_revision:
  assumes "problem_ok c" "pending_revision c = Some r"
  shows "\<exists>c'. commit_revision conf c via = Inr (c', r) \<and> cause_work_accepted c' \<and> open_revision c' = None
    \<and> current_statement c' = rev_text r \<and> invalidation c' = None
    \<and> map_option pv_verifying_ids (pc_verification c') = Some (cited_symptom_rows c (rev_evidence_ids r))
    \<and> filter outstanding_symptom_need (pc_needs c') = []
    \<and> pc_nodes c' = update_first (\<lambda>(k, n). node_type n = PROBLEM) (\<lambda>(k, n). (k, n\<lparr>node_statement := rev_text r\<rparr>)) (pc_nodes c)
    \<and> pc_rows c' = map (\<lambda>x. if ev_collected_at_turn (row_evidence x) \<ge> rev_held_since_turn r
                          then restore_premature_absence x else x) (pc_rows c)"
  using commit_run [OF assms, of conf via] by blast

text \<open>The code also writes the revised text over the description of a case under investigation, which the
  documentation of the field calls immutable.\<close>

lemma commit_rewrites_description:
  assumes "problem_ok c" "pending_revision c = Some r" "commit_revision conf c via = Inr (c', r')"
  shows "pc_description c' = rev_text r"
  using commit_run [OF assms(1,2), of conf via] assms(3) by auto

text \<open>A row that bears the mark of a held causal-absence claim.\<close>

definition held_mark :: "problem_row \<Rightarrow> bool" where
  "held_mark row \<longleftrightarrow> ev_category (row_evidence row) = SYMPTOM_ABSENCE_EVIDENCE
     \<and> (\<exists>d. row_fix_verification row = Some d \<and> dict_get d ''claimed'' = Some ''causal_absence_evidence'')"

text \<open>C40: Holding a premature observation of the cause's absence loses nothing: of a row whose record makes no
  claim of its own yet, the held row bears the mark, and restoring it gives back its category and its
  record of the fix it re-checked, an empty record coming back as none and the metadata field being a
  dictionary from then on. And a row that does not bear the mark, of whatever category, a symptom's
  absence that was never claimed as the cause's included, is not touched by a restore.\<close>

theorem held_row_is_restored:
  assumes "ev_category (row_evidence row) = CAUSAL_ABSENCE_EVIDENCE"
    and "\<And>d. row_fix_verification row = Some d \<Longrightarrow> dict_get d ''claimed'' = None"
  shows "held_mark (hold_premature_absence row)
    \<and> restore_premature_absence (hold_premature_absence row) =
      row\<lparr>row_fix_verification := (if row_fix_verification row = Some [] then None else row_fix_verification row),
          row_metadata := Some (case row_metadata row of None \<Rightarrow> [] | Some m \<Rightarrow> m)\<rparr>
    \<and> (\<forall>other. \<not> held_mark other \<longrightarrow> restore_premature_absence other = other)"
proof -
  let ?d = "case row_fix_verification row of None \<Rightarrow> [] | Some d \<Rightarrow> d"
  have "dict_get ?d ''claimed'' = None" using assms(2) by (auto split: option.split)
  then have new: "dict_put ''claimed'' v ?d = ?d @ [(''claimed'', v)]" for v
    by (intro dict_put_new) (simp add: dict_get_None_iff)
  have "filter (\<lambda>(k, v). k \<noteq> ''claimed'') ?d = ?d"
    using \<open>dict_get ?d ''claimed'' = None\<close> by (cases "row_fix_verification row") (auto simp: filter_id_conv dict_get_def map_of_eq_None_iff image_iff)
  then have kept: "filter (\<lambda>(k, v). k \<noteq> ''claimed'') (dict_put ''claimed'' ''causal_absence_evidence'' ?d) = ?d"
    by (simp add: new)
  have "restore_premature_absence (hold_premature_absence row) =
      row\<lparr>row_fix_verification := (if row_fix_verification row = Some [] then None else row_fix_verification row),
          row_metadata := Some (case row_metadata row of None \<Rightarrow> [] | Some m \<Rightarrow> m)\<rparr>"
    unfolding restore_premature_absence_def hold_premature_absence_def Let_def
    using kept assms(1) by (cases row; cases "row_evidence row") (auto split: option.splits)
  moreover have "held_mark (hold_premature_absence row)"
    using assms(1) by (simp add: held_mark_def hold_premature_absence_def Let_def)
  moreover have "restore_premature_absence other = other" if "\<not> held_mark other" for other
    using that by (auto simp: restore_premature_absence_def held_mark_def split: option.splits)
  ultimately show ?thesis by blast
qed

text \<open>What the refusal of an edit guards against: an edit made while a revision waits leaves the revision open.\<close>

lemma edit_under_a_hold:
  assumes "problem_ok c" "pending_revision c = Some p" "edit_statement c t = Inr c'"
  shows "pending_revision c' = Some p \<and> cause_work_staged c'"
  using edit_statement_Inr [OF assms(3)] pending_status [OF assms(1,2)] assms(2)
  by (simp add: pending_core cause_work_staged_def core_eq)

section \<open>Examples\<close>

text \<open>The case of the offer examples with a symptom row, and the same case while a revision waits.\<close>

definition ex_symptom_row :: problem_row where
  "ex_symptom_row = \<lparr>row_evidence = ex_row ''e1'' SYMPTOM_EVIDENCE ''p99 is 9 s'', row_fix_verification = None,
     row_metadata = None\<rparr>"

definition ex_live :: problem_case where
  "ex_live = ex_problem\<lparr>pc_rows := [ex_symptom_row]\<rparr>"

definition ex_held :: problem_case where
  "ex_held = ex_live\<lparr>pc_status := REVISION_PENDING, pc_offers := \<lparr>or_open = Some
     \<lparr>of_proposal_id = ''q'', of_kind = K_REVISION, of_basis = B_REVISION, of_closure_reason = None, of_summary = [],
      of_evidence_ids = [], of_opened_at_turn = 7, of_pivoted_from_close = False, of_revision = Some ex_revision\<rparr>,
     or_answers = [], or_request = None\<rparr>\<rparr>"

lemma ex_live_ok: "problem_ok ex_live"
  by (simp add: problem_ok_def core_def ex_live_def ex_problem_def invalidation_def)

lemma ex_revision_text: "strip (rev_text ex_revision) = rev_text ex_revision"
  by code_simp

lemma ex_held_ok: "problem_ok ex_held" "pending_revision ex_held = Some ex_revision"
proof -
  have "revision_ok ex_revision"
    using ex_revision_text by (simp add: revision_ok_def ex_revision_def MAX_STATEMENT_CHARS_def)
  moreover have "rev_prior_status ex_revision = UNVERIFIED" by (simp add: ex_revision_def)
  ultimately show "problem_ok ex_held"
    by (simp add: problem_ok_def core_def ex_held_def ex_live_def ex_problem_def invalidation_def offer_ok_def)
  show "pending_revision ex_held = Some ex_revision"
    by (simp add: pending_revision_def open_revision_def ex_held_def)
qed

text \<open>A problem shown by evidence, held: the decline after a review gives that standpoint back.\<close>

definition ex_held_verified :: problem_case where
  "ex_held_verified = ex_held\<lparr>pc_offers := \<lparr>or_open = Some
     \<lparr>of_proposal_id = ''q'', of_kind = K_REVISION, of_basis = B_REVISION, of_closure_reason = None, of_summary = [],
      of_evidence_ids = [], of_opened_at_turn = 7, of_pivoted_from_close = False,
      of_revision = Some (ex_revision\<lparr>rev_prior_status := PROBLEM_VERIFIED\<rparr>)\<rparr>,
     or_answers = [], or_request = None\<rparr>\<rparr>"

lemma ex_held_verified_ok:
  "problem_ok ex_held_verified" "pending_revision ex_held_verified = Some (ex_revision\<lparr>rev_prior_status := PROBLEM_VERIFIED\<rparr>)"
proof -
  have "revision_ok (ex_revision\<lparr>rev_prior_status := PROBLEM_VERIFIED\<rparr>)"
    using ex_revision_text by (simp add: revision_ok_def ex_revision_def MAX_STATEMENT_CHARS_def)
  then show "problem_ok ex_held_verified"
    by (simp add: problem_ok_def core_def ex_held_verified_def ex_held_def ex_live_def ex_problem_def invalidation_def offer_ok_def)
  show "pending_revision ex_held_verified = Some (ex_revision\<lparr>rev_prior_status := PROBLEM_VERIFIED\<rparr>)"
    by (simp add: pending_revision_def open_revision_def ex_held_verified_def)
qed

theorem problem_status_refines_view_witness:
  "\<exists>c' r. decline_revision (\<lambda>_. []) (ex_held_verified\<lparr>pc_offers := lapse_offers (\<lambda>_. []) ex_held_verified\<rparr>) VIA_CLICK = Inr (c', r)
     \<and> view c' = SETTLED (LIVE True) \<and> problem_ok c'"
proof -
  let ?d = "ex_held_verified\<lparr>pc_offers := lapse_offers (\<lambda>_. []) ex_held_verified\<rparr>"
  have review: "problem_does (\<lambda>_. []) (\<lambda>_. False) ELSEWHERE ex_held_verified ?d" by (rule problem_does.review)
  have "or_open (lapse_offers (\<lambda>_. []) ex_held_verified) = or_open (pc_offers ex_held_verified)"
    using lapse_open [of "\<lambda>_. []" ex_held_verified]
    by (auto simp: open_terminal_offer_def ex_held_verified_def TERMINAL_KINDS_def)
  then have "pending_revision ?d = Some (ex_revision\<lparr>rev_prior_status := PROBLEM_VERIFIED\<rparr>)"
    using ex_held_verified_ok(2) by (simp add: open_revision_in)
  then obtain c' r where c': "decline_revision (\<lambda>_. []) ?d VIA_CLICK = Inr (c', r)"
    using decline_returns [of ?d] by blast
  have "problem_run (\<lambda>_. []) (\<lambda>_. False) [ELSEWHERE, RELEASE] ex_held_verified c'"
    by (intro problem_run.call [OF review] problem_run.call [OF problem_does.decline [OF c']] problem_run.idle)
  from problem_status_refines_view [OF this ex_held_verified_ok(1)] c' show ?thesis
    by (auto simp: held_view [OF ex_held_verified_ok(2)] standpoint_of_def)
qed

theorem hold_iff_revision_open_witness:
  "open_revision (ex_held\<lparr>pc_offers := lapse_offers (\<lambda>_. []) ex_held\<rparr>) \<noteq> None
   \<and> cause_work_staged (ex_held\<lparr>pc_offers := lapse_offers (\<lambda>_. []) ex_held\<rparr>)"
proof -
  have "(problem_step (\<lambda>_. []) (\<lambda>_. False))\<^sup>*\<^sup>* ex_held (ex_held\<lparr>pc_offers := lapse_offers (\<lambda>_. []) ex_held\<rparr>)"
    by (rule r_into_rtranclp) (rule problem_stepI, rule problem_does.review)
  from hold_iff_revision_open [OF this ex_held_ok(1)] show ?thesis
    by (simp add: cause_work_staged_def ex_held_def)
qed

theorem hold_is_always_released_witness:
  "\<exists>c'' q. decline_revision (\<lambda>_. []) (ex_held\<lparr>pc_offers := lapse_offers (\<lambda>_. []) ex_held\<rparr>) VIA_TOKEN = Inr (c'', Some q)
     \<and> rev_held_since_turn q = 7 \<and> pc_status c'' = UNVERIFIED"
proof -
  have "(\<lambda>d d'. problem_step (\<lambda>_. []) (\<lambda>_. False) d d' \<and> cause_work_staged d')\<^sup>*\<^sup>* ex_held
      (ex_held\<lparr>pc_offers := lapse_offers (\<lambda>_. []) ex_held\<rparr>)"
  proof (rule r_into_rtranclp, rule conjI)
    show "cause_work_staged (ex_held\<lparr>pc_offers := lapse_offers (\<lambda>_. []) ex_held\<rparr>)"
      by (simp add: cause_work_staged_def ex_held_def)
  qed (rule problem_stepI, rule problem_does.review)
  from hold_is_always_released [OF this ex_held_ok, of VIA_TOKEN] show ?thesis by (auto simp: ex_revision_def)
qed

lemma ex_admitted: "revision_refusal (\<lambda>_. []) ex_live '' login is slow '' [''e1''] (Some ''latency'') ''k'' = None"
  by code_simp

theorem admitted_revision_is_recorded_witness:
  "\<exists>c' r. propose_revision (\<lambda>_. []) ex_live ''q'' '' login is slow '' [''e1''] ''latency'' ''k'' = Inr (c', r)
     \<and> pending_revision c' = Some r"
proof -
  have "open_terminal_offer ex_live = None" by (simp add: open_terminal_offer_def ex_live_def ex_problem_def)
  from admitted_revision_is_recorded [OF ex_live_ok this ex_admitted, of "''q''"] show ?thesis by auto
qed

theorem commit_applies_revision_witness:
  "\<exists>c'. commit_revision (\<lambda>_. []) ex_held VIA_CLICK = Inr (c', ex_revision) \<and> cause_work_accepted c'
     \<and> current_statement c' = ''login is slow''"
  using commit_applies_revision [OF ex_held_ok, of "\<lambda>_. []" VIA_CLICK] by (auto simp: ex_revision_def)

text \<open>A claim that is held, and an observation of the symptom's absence that never was one.\<close>

definition ex_claim :: problem_row where
  "ex_claim = \<lparr>row_evidence = ex_row ''e3'' CAUSAL_ABSENCE_EVIDENCE ''leak gone'',
      row_fix_verification = Some [(''named'', ''e1'')], row_metadata = None\<rparr>"

definition ex_relief :: problem_row where
  "ex_relief = \<lparr>row_evidence = ex_row ''e4'' SYMPTOM_ABSENCE_EVIDENCE ''p99 is back'',
      row_fix_verification = Some [(''named'', ''e1'')], row_metadata = None\<rparr>"

theorem held_row_is_restored_witness:
  "restore_premature_absence (hold_premature_absence ex_claim) = ex_claim\<lparr>row_metadata := Some []\<rparr>
    \<and> restore_premature_absence ex_relief = ex_relief"
proof -
  have "ev_category (row_evidence ex_claim) = CAUSAL_ABSENCE_EVIDENCE"
    "\<And>d. row_fix_verification ex_claim = Some d \<Longrightarrow> dict_get d ''claimed'' = None"
    by (auto simp: ex_claim_def ex_row_def)
  moreover have "\<not> held_mark ex_relief" by (simp add: held_mark_def ex_relief_def)
  ultimately show ?thesis using held_row_is_restored [of ex_claim] by (simp add: ex_claim_def)
qed

end
