(* ===== verification/Need_Laws.thy ===== *)
theory Need_Laws
  imports Evidence_Needs Examples
begin

text \<open>
  What applying a turn's need updates keeps: every need stays reloadable, none is resurrected, and what a
  need was created for and what fulfilled it is never taken back.
\<close>

section \<open>Reloadable needs\<close>

text \<open>A stored need reloads when constructing it again from its fields gives it back.\<close>

definition need_ok :: "evidence_need \<Rightarrow> bool" where
  "need_ok n \<longleftrightarrow> new_need n = Inr n"

definition text_ok :: "string \<Rightarrow> bool" where
  "text_ok v \<longleftrightarrow> strip v \<noteq> [] \<and> length v \<le> 500"

lemma strip_Nil [simp]: "strip [] = []" by (simp add: strip_def)

lemma text_ok_iff: "text_not_whitespace_only v = Inr w \<longleftrightarrow> text_ok v \<and> w = v"
  by (cases v) (auto simp: text_not_whitespace_only_def text_ok_def)

lemma ids_well_formed_iff: "ids_well_formed v = Inr w \<longleftrightarrow> [] \<notin> set v \<and> w = dict_fromkeys v"
  by (auto simp: ids_well_formed_def)

lemma dict_fromkeys_snoc: "dict_fromkeys (xs @ [x]) = (if x \<in> set xs then dict_fromkeys xs else dict_fromkeys xs @ [x])"
proof -
  let ?d = "fold (\<lambda>x d. dict_put x () d) xs []"
  have keys: "set (dict_keys ?d) = set xs" using dict_fromkeys_fold [of xs "[]"] by (simp add: dict_keys_def)
  have "dict_keys (dict_put x () ?d) = (if x \<in> set (dict_keys ?d) then dict_keys ?d else dict_keys ?d @ [x])"
    by (simp add: dict_keys_put)
  then show ?thesis by (simp add: dict_fromkeys_def keys)
qed

lemma dict_fromkeys_distinct: "distinct xs \<Longrightarrow> dict_fromkeys xs = xs"
proof (induction xs rule: rev_induct)
  case Nil
  show ?case by (simp add: dict_fromkeys_def dict_keys_def)
qed (auto simp: dict_fromkeys_snoc)

lemma dict_fromkeys_fix: "dict_fromkeys xs = xs \<longleftrightarrow> distinct xs"
  by (metis dict_fromkeys_distinct distinct_dict_fromkeys)

lemma dict_fromkeys_Nil_iff [simp]: "dict_fromkeys xs = [] \<longleftrightarrow> xs = []"
  using set_dict_fromkeys [of xs] by (metis set_empty)

lemma text_case:
  "(case text_not_whitespace_only v of Inl e \<Rightarrow> Inl e | Inr _ \<Rightarrow> X) = Inr m \<longleftrightarrow> text_ok v \<and> X = Inr m"
  using text_ok_iff [of v] by (cases "text_not_whitespace_only v") auto

lemma ids_case:
  "(case ids_well_formed v of Inl e \<Rightarrow> Inl e | Inr w \<Rightarrow> X w) = Inr m \<longleftrightarrow> [] \<notin> set v \<and> X (dict_fromkeys v) = Inr m"
  by (simp add: ids_well_formed_def)

definition state_ok :: "evidence_need \<Rightarrow> bool" where
  "state_ok n \<longleftrightarrow> (need_state n = SUPERSEDED \<longrightarrow> \<not> blank_reason (need_superseded_reason n))
     \<and> (need_state n \<noteq> SUPERSEDED \<longrightarrow> need_superseded_reason n = None)
     \<and> (need_state n = FULFILLED \<longrightarrow> need_fulfilling_ids n \<noteq> [])"

definition obtainability_settled :: "evidence_need \<Rightarrow> bool" where
  "obtainability_settled n \<longleftrightarrow>
     (need_purpose n \<noteq> CAUSAL_VERIFICATION \<or> need_state n \<in> {FULFILLED, SUPERSEDED} \<longrightarrow> need_obtainability n = OBT_UNKNOWN)"

lemma consistency_iff:
  "validate_state_consistency n = Inr m \<longleftrightarrow> state_ok n
     \<and> m = (if obtainability_settled n then n else n\<lparr>need_obtainability := OBT_UNKNOWN\<rparr>)"
  by (auto simp: validate_state_consistency_def state_ok_def obtainability_settled_def)

definition fields_ok :: "evidence_need \<Rightarrow> bool" where
  "fields_ok n \<longleftrightarrow> text_ok (need_request_text n) \<and> text_ok (need_rationale n)
     \<and> [] \<notin> set (need_motivating_ids n) \<and> [] \<notin> set (need_fulfilling_ids n)
     \<and> length (or_empty (need_superseded_reason n)) \<le> 500 \<and> 0 \<le> need_created_at_turn n"

lemma new_need_iff:
  "new_need n = Inr m \<longleftrightarrow> fields_ok n \<and> validate_state_consistency
     (n\<lparr>need_motivating_ids := dict_fromkeys (need_motivating_ids n),
        need_fulfilling_ids := dict_fromkeys (need_fulfilling_ids n)\<rparr>) = Inr m"
  unfolding new_need_def text_case ids_case by (auto simp: fields_ok_def)

lemma obtainability_same: "n = n\<lparr>need_obtainability := x\<rparr> \<longleftrightarrow> need_obtainability n = x"
  by (cases n) auto

lemma need_ok_iff:
  "need_ok n \<longleftrightarrow> fields_ok n \<and> distinct (need_motivating_ids n) \<and> distinct (need_fulfilling_ids n)
     \<and> state_ok n \<and> obtainability_settled n"
proof
  assume "need_ok n"
  then have n: "fields_ok n" "validate_state_consistency
     (n\<lparr>need_motivating_ids := dict_fromkeys (need_motivating_ids n),
        need_fulfilling_ids := dict_fromkeys (need_fulfilling_ids n)\<rparr>) = Inr n" (is "validate_state_consistency ?n = _")
    by (simp_all add: need_ok_def new_need_iff)
  then have "n = (if obtainability_settled ?n then ?n else ?n\<lparr>need_obtainability := OBT_UNKNOWN\<rparr>)"
    by (simp only: consistency_iff)
  then have "need_motivating_ids n = dict_fromkeys (need_motivating_ids n)"
    "need_fulfilling_ids n = dict_fromkeys (need_fulfilling_ids n)"
    by (metis (no_types, lifting) evidence_need.ext_inject evidence_need.surjective evidence_need.update_convs(7,8,9))+
  then have d: "distinct (need_motivating_ids n)" "distinct (need_fulfilling_ids n)"
    by (metis distinct_dict_fromkeys)+
  then have "?n = n" by (simp add: dict_fromkeys_distinct)
  with n d show "fields_ok n \<and> distinct (need_motivating_ids n) \<and> distinct (need_fulfilling_ids n)
     \<and> state_ok n \<and> obtainability_settled n"
    by (auto simp: consistency_iff obtainability_settled_def obtainability_same split: if_splits)
next
  assume n: "fields_ok n \<and> distinct (need_motivating_ids n) \<and> distinct (need_fulfilling_ids n)
     \<and> state_ok n \<and> obtainability_settled n"
  then have "n\<lparr>need_motivating_ids := dict_fromkeys (need_motivating_ids n),
        need_fulfilling_ids := dict_fromkeys (need_fulfilling_ids n)\<rparr> = n"
    by (simp add: dict_fromkeys_distinct)
  then show "need_ok n" unfolding need_ok_def new_need_iff using n by (simp add: consistency_iff)
qed

lemma new_need_ok:
  assumes "new_need n = Inr m"
  shows "need_ok m"
  using assms
  by (auto simp: new_need_iff need_ok_iff consistency_iff fields_ok_def state_ok_def obtainability_settled_def split: if_splits)

section \<open>One update\<close>

text \<open>What the schema admits, and what it does not ask for: texts that are not blank.\<close>

definition update_ok :: "need_update \<Rightarrow> bool" where
  "update_ok u \<longleftrightarrow> validate_need_update u = Inr u"

definition texts_not_blank :: "need_update \<Rightarrow> bool" where
  "texts_not_blank u \<longleftrightarrow> (truthy (nu_request_text u) \<longrightarrow> strip (or_empty (nu_request_text u)) \<noteq> [])
     \<and> (truthy (nu_rationale u) \<longrightarrow> strip (or_empty (nu_rationale u)) \<noteq> [])"

lemma update_okD:
  assumes "update_ok u"
  shows "length (or_empty (nu_request_text u)) \<le> 500" "length (or_empty (nu_rationale u)) \<le> 500"
    "length (or_empty (nu_superseded_reason u)) \<le> 500"
    "nu_need_id u = None \<Longrightarrow> truthy (nu_request_text u) \<and> truthy (nu_rationale u) \<and> nu_state u \<in> {None, Some NEED_PENDING}"
    "nu_state u = Some SUPERSEDED \<Longrightarrow> \<not> blank_reason (nu_superseded_reason u)"
    "nu_state u \<noteq> Some SUPERSEDED \<Longrightarrow> nu_superseded_reason u = None"
  using assms by (auto simp: update_ok_def validate_need_update_def split: if_splits)

text \<open>How a need may change: its identity stays, what is recorded on it grows, and the end is the end.\<close>

definition kept :: "evidence_need \<Rightarrow> evidence_need \<Rightarrow> bool" where
  "kept n n' \<longleftrightarrow> need_id n' = need_id n \<and> need_purpose n' = need_purpose n
     \<and> need_created_at_turn n' = need_created_at_turn n \<and> need_surfaced_turns n' = need_surfaced_turns n
     \<and> set (need_fulfilling_ids n) \<subseteq> set (need_fulfilling_ids n') \<and> set (need_motivating_ids n) \<subseteq> set (need_motivating_ids n')
     \<and> (need_state n = SUPERSEDED \<longrightarrow> need_state n' = SUPERSEDED)"

lemma kept_refl [simp]: "kept n n" by (simp add: kept_def)

lemma kept_trans: "kept a b \<Longrightarrow> kept b c \<Longrightarrow> kept a c" by (auto simp: kept_def)

lemma revise_fields [simp]:
  "need_id (revise_need u ms fs n) = need_id n"
  "need_purpose (revise_need u ms fs n) = need_purpose n"
  "need_created_at_turn (revise_need u ms fs n) = need_created_at_turn n"
  "need_surfaced_turns (revise_need u ms fs n) = need_surfaced_turns n"
  "need_fulfilling_ids (revise_need u ms fs n) = dict_fromkeys (need_fulfilling_ids n @ fs)"
  "need_motivating_ids (revise_need u ms fs n) = dict_fromkeys (need_motivating_ids n @ ms)"
  "need_request_text (revise_need u ms fs n) = (if truthy (nu_request_text u) then or_empty (nu_request_text u) else need_request_text n)"
  "need_rationale (revise_need u ms fs n) = (if truthy (nu_rationale u) then or_empty (nu_rationale u) else need_rationale n)"
  by (auto simp: revise_need_def Let_def revoke_obtainability_if_terminal_def split: option.split)

lemma revise_state:
  "need_state (revise_need u ms fs n) = (case admissible_state (nu_state u) (need_fulfilling_ids n @ fs) of
     None \<Rightarrow> need_state n | Some s \<Rightarrow> s)"
  "need_superseded_reason (revise_need u ms fs n) = (case admissible_state (nu_state u) (need_fulfilling_ids n @ fs) of
     None \<Rightarrow> need_superseded_reason n | Some s \<Rightarrow> if s = SUPERSEDED then nu_superseded_reason u else None)"
  by (auto simp: revise_need_def Let_def revoke_obtainability_if_terminal_def admissible_state_def split: option.split)

lemma revise_obtainability: "obtainability_settled n \<Longrightarrow> obtainability_settled (revise_need u ms fs n)"
  by (auto simp: revise_need_def Let_def revoke_obtainability_if_terminal_def obtainability_settled_def split: option.split)

lemma admissible_cases:
  "admissible_state s fs = None \<longleftrightarrow> s = None"
  "admissible_state s fs = Some SUPERSEDED \<longleftrightarrow> s = Some SUPERSEDED"
  "admissible_state s fs = Some FULFILLED \<longleftrightarrow> s = Some FULFILLED \<and> fs \<noteq> []"
  by (auto simp: admissible_state_def)

lemma revise_ok:
  assumes "need_ok n" "update_ok u" "texts_not_blank u" "[] \<notin> set ms" "[] \<notin> set fs"
  shows "need_ok (revise_need u ms fs n)"
proof -
  have n: "fields_ok n" "state_ok n" "obtainability_settled n" using assms(1) by (simp_all add: need_ok_iff)
  note u = update_okD [OF assms(2)]
  have "fields_ok (revise_need u ms fs n)"
    using n(1) u(1-3) assms(3-5)
    by (auto simp: fields_ok_def text_ok_def texts_not_blank_def revise_state split: option.split)
  moreover have "state_ok (revise_need u ms fs n)"
    using n(2) u(5,6) admissible_cases [of "nu_state u" "need_fulfilling_ids n @ fs"]
    by (auto simp: state_ok_def revise_state split: option.split)
  ultimately show ?thesis using revise_obtainability [OF n(3)] by (simp add: need_ok_iff)
qed

lemma revise_kept:
  assumes "need_state n = SUPERSEDED \<longrightarrow> nu_state u \<in> {None, Some SUPERSEDED}"
  shows "kept n (revise_need u ms fs n)"
  using assms by (auto simp: kept_def revise_state admissible_state_def split: option.split)

lemma list_all2_update_first:
  assumes "\<And>x. find P xs = Some x \<Longrightarrow> R x (f x)" "\<And>x. R x x"
  shows "list_all2 R xs (update_first P f xs)"
  using assms(1)
proof (induction xs)
  case (Cons x xs)
  then show ?case by (cases "P x") (auto simp: list.rel_refl assms(2))
qed simp

definition grows :: "evidence_need list \<Rightarrow> evidence_need list \<Rightarrow> bool" where
  "grows ns ns' \<longleftrightarrow> (\<exists>old new. ns' = old @ new \<and> list_all2 kept ns old)"

lemma grows_refl: "grows ns ns"
  unfolding grows_def by (intro exI [of _ ns] exI [of _ "[]"]) (simp add: list.rel_refl)

lemma grows_append: "grows ns (ns @ new)"
  unfolding grows_def by (intro exI [of _ ns] exI [of _ new]) (simp add: list.rel_refl)

lemma grows_all2: "list_all2 kept ns ns' \<Longrightarrow> grows ns ns'"
  unfolding grows_def by (intro exI [of _ ns'] exI [of _ "[]"]) simp

lemma list_all2_kept_trans: "list_all2 kept as bs \<Longrightarrow> list_all2 kept bs cs \<Longrightarrow> list_all2 kept as cs"
  by (rule list_all2_trans) (auto intro: kept_trans)

lemma grows_trans:
  assumes "grows a b" "grows b c"
  shows "grows a c"
proof -
  obtain old new where b: "b = old @ new" "list_all2 kept a old" using assms(1) by (auto simp: grows_def)
  obtain old' new' where c: "c = old' @ new'" "list_all2 kept b old'" using assms(2) by (auto simp: grows_def)
  then obtain o1 o2 where "old' = o1 @ o2" "list_all2 kept old o1" using b(1) by (auto simp: list_all2_append1)
  with b c list_all2_kept_trans show ?thesis unfolding grows_def by (metis append.assoc)
qed

section \<open>The updates of a turn\<close>

lemma update_need_grows: "grows (np_needs p) (np_needs (update_need nid u ms fs p))"
proof -
  have "grows (np_needs p) (update_first (\<lambda>n. need_id n = nid) (revise_need u ms fs) (np_needs p))"
    if n: "find (\<lambda>n. need_id n = nid) (np_needs p) = Some n"
      and ok: "need_state n = SUPERSEDED \<longrightarrow> nu_state u \<in> {None, Some SUPERSEDED}" for n
    by (rule grows_all2, rule list_all2_update_first) (use n ok revise_kept in auto)
  then show ?thesis
    by (auto simp: update_need_def Let_def grows_refl split: option.split)
qed

lemma create_need_grows: "create_need nid turn u ms fs p = Inr p' \<Longrightarrow> grows (np_needs p) (np_needs p')"
  by (auto simp: create_need_def Let_def grows_refl grows_append split: if_splits sum.splits)

lemma apply_update_grows:
  assumes "apply_need_update hyp_slots ev_slots c turn x p = Inr p'"
  shows "grows (np_needs p) (np_needs p')"
proof -
  obtain i u where x: "x = (i, u)" by (cases x)
  show ?thesis
  proof (cases "nu_need_id u")
    case None
    then show ?thesis using assms create_need_grows by (fastforce simp: x apply_need_update_def Let_def)
  next
    case (Some ref)
    then show ?thesis using assms
      by (auto simp: x apply_need_update_def Let_def intro: grows_trans [OF _ update_need_grows] simp: grows_refl)
  qed
qed

definition ids_ok :: "case_data \<Rightarrow> bool" where
  "ids_ok c \<longleftrightarrow> dict_get (case_hypotheses c) [] = None \<and> [] \<notin> set (map ev_id (case_evidence c))"

lemma apply_update_ok:
  assumes "list_all need_ok (np_needs p)" "update_ok u" "texts_not_blank u" "ids_ok c" "0 \<le> turn"
  shows "\<exists>p'. apply_need_update hyp_slots ev_slots c turn (i, u) p = Inr p' \<and> list_all need_ok (np_needs p')"
proof -
  define ms where "ms = valid_motivators (case_hypotheses c) (map (resolve_id_ref hyp_slots) (nu_motivating_ids u))"
  define fs where "fs = filter (\<lambda>e. e \<in> set (map ev_id (case_evidence c))) (map (resolve_id_ref ev_slots) (nu_fulfilling_ids u))"
  have ids: "[] \<notin> set ms" "[] \<notin> set fs"
    using assms(4) by (auto simp: ids_ok_def ms_def fs_def valid_motivators_def split: option.splits)
  note u = update_okD [OF assms(2)]
  show ?thesis
  proof (cases "nu_need_id u")
    case None
    let ?n = "\<lparr>need_id = i, need_purpose = (case nu_purpose u of None \<Rightarrow> SYMPTOM_VERIFICATION | Some x \<Rightarrow> x),
            need_request_text = or_empty (nu_request_text u), need_rationale = or_empty (nu_rationale u),
            need_priority = (case nu_priority u of None \<Rightarrow> PRIORITY_MEDIUM | Some x \<Rightarrow> x),
            need_state = NEED_PENDING,
            need_obtainability = (case nu_obtainability u of None \<Rightarrow> OBT_UNKNOWN | Some x \<Rightarrow> x),
            need_motivating_ids = ms, need_fulfilling_ids = fs,
            need_superseded_reason = None, need_surfaced_turns = [], need_engine_inferred = False,
            need_created_at_turn = turn\<rparr>"
    have st: "nu_state u \<in> {None, Some NEED_PENDING}" "nu_superseded_reason u = None"
      and tx: "truthy (nu_request_text u)" "truthy (nu_rationale u)" using u(4,6) None by auto
    have "\<exists>m. new_need ?n = Inr m"
      using ids u(1,2) tx assms(3,5)
      by (auto simp: new_need_iff consistency_iff fields_ok_def text_ok_def texts_not_blank_def state_ok_def)
    then obtain m where m: "new_need ?n = Inr m" by blast
    have "\<exists>p'. create_need i turn u ms fs q = Inr p' \<and> list_all need_ok (np_needs p')"
      if "np_needs q = np_needs p" for q
      using st m new_need_ok [OF m] assms(1) that
      by (cases "nu_purpose u = Some CAUSAL_VERIFICATION \<and> ms = []")
        (auto simp: create_need_def Let_def admissible_state_def)
    then show ?thesis
      by (simp add: apply_need_update_def Let_def None ms_def fs_def)
  next
    case (Some ref)
    have "list_all need_ok (np_needs (update_need nid u ms fs q))" if "np_needs q = np_needs p" for nid q
    proof -
      have "need_ok m" if "m \<in> set (update_first (\<lambda>n. need_id n = nid) (revise_need u ms fs) (np_needs p))" for m
        using update_first_mem [OF that] assms(1) revise_ok [OF _ assms(2,3) ids] by (auto simp: list_all_iff)
      then show ?thesis using assms(1) that by (auto simp: update_need_def Let_def list_all_iff split: option.split)
    qed
    then show ?thesis
      by (simp add: apply_need_update_def Let_def Some ms_def fs_def)
  qed
qed

section \<open>Properties\<close>

text \<open>C26: Applying a turn's need updates never raises and leaves every need reloadable, provided the updates
  passed their schema and no text they carry is blank: a fulfilled need has evidence, a superseded
  one a reason, and an obtainability is kept only where it still means something.\<close>

theorem need_updates_stay_reloadable:
  assumes "list_all need_ok needs" "list_all (\<lambda>(_, u). update_ok u \<and> texts_not_blank u) updates"
    and "ids_ok c" "0 \<le> turn"
  shows "\<exists>p. apply_evidence_need_updates hyp_slots ev_slots c turn updates needs updated = Inr p
    \<and> list_all need_ok (np_needs p)"
  unfolding apply_evidence_need_updates_def
proof (rule try_fold_total)
  fix x and p :: need_pass
  assume "x \<in> set updates" "list_all need_ok (np_needs p)"
  then show "\<exists>p'. apply_need_update hyp_slots ev_slots c turn x p = Inr p' \<and> list_all need_ok (np_needs p')"
    using assms(2-4) apply_update_ok by (cases x) (auto simp: list_all_iff)
qed (simp add: assms(1))

text \<open>No update of a turn takes anything back: every need keeps its place, id, purpose and the turn it was
  created in, the evidence and hypotheses recorded on it only grow, and a superseded need stays
  superseded; new needs come after the old ones.\<close>

theorem need_updates_take_nothing_back:
  assumes "apply_evidence_need_updates hyp_slots ev_slots c turn updates needs updated = Inr p"
  shows "\<exists>old new. np_needs p = old @ new \<and> list_all2 (\<lambda>n n'. need_id n' = need_id n \<and> need_purpose n' = need_purpose n
     \<and> need_created_at_turn n' = need_created_at_turn n
     \<and> set (need_fulfilling_ids n) \<subseteq> set (need_fulfilling_ids n') \<and> set (need_motivating_ids n) \<subseteq> set (need_motivating_ids n')
     \<and> (need_state n = SUPERSEDED \<longrightarrow> need_state n' = SUPERSEDED)) needs old"
proof -
  have "grows needs (np_needs p)"
  proof (rule try_fold_invariant [where I = "\<lambda>q. grows needs (np_needs q)"])
    show "try_fold (apply_need_update hyp_slots ev_slots c turn) updates
      \<lparr>np_needs = needs, np_created = [], np_updated = updated, np_repairs = []\<rparr> = Inr p"
      using assms by (simp add: apply_evidence_need_updates_def)
  qed (auto simp: grows_refl intro: grows_trans apply_update_grows)
  then obtain old new where "np_needs p = old @ new" "list_all2 kept needs old" by (auto simp: grows_def)
  then show ?thesis by (intro exI [of _ old] exI [of _ new]) (auto simp: kept_def elim!: list_all2_mono)
qed

text \<open>What the proviso is for: a blank rewording passes the schema, is stored, and the need no longer reloads.\<close>

lemma blank_rewording_breaks_the_need:
  assumes "update_ok u" "truthy (nu_request_text u)" "strip (or_empty (nu_request_text u)) = []"
  shows "new_need (revise_need u ms fs n) = Inl TextBlank"
proof -
  have "length (or_empty (nu_request_text u)) \<le> 500" "or_empty (nu_request_text u) \<noteq> []"
    using update_okD(1) [OF assms(1)] assms(2) by (auto simp: truthy_def)
  then have "text_not_whitespace_only (need_request_text (revise_need u ms fs n)) = Inl TextBlank"
    using assms(2,3) by (cases "or_empty (nu_request_text u)") (auto simp: text_not_whitespace_only_def)
  then show ?thesis by (simp add: new_need_def)
qed

text \<open>A fulfilled need is not final: an update may put it back to pending.\<close>

lemma fulfilled_need_reopens:
  assumes "need_state n = FULFILLED" "nu_state u = Some NEED_PENDING"
  shows "need_state (revise_need u ms fs n) = NEED_PENDING"
  using assms by (simp add: revise_state admissible_state_def)

section \<open>Example\<close>

definition ex_need :: evidence_need where
  "ex_need = \<lparr>need_id = ''n1'', need_purpose = SYMPTOM_VERIFICATION, need_request_text = ''pod status'',
     need_rationale = ''shows the crash'', need_priority = PRIORITY_MEDIUM, need_state = SUPERSEDED,
     need_obtainability = OBT_UNKNOWN, need_motivating_ids = [], need_fulfilling_ids = [],
     need_superseded_reason = Some ''edited'', need_surfaced_turns = [2], need_engine_inferred = False,
     need_created_at_turn = 1\<rparr>"

definition ex_need_update :: need_update where
  "ex_need_update = \<lparr>nu_need_id = Some ''[n1]'', nu_purpose = None, nu_request_text = None, nu_rationale = None,
     nu_priority = None, nu_motivating_ids = [], nu_state = Some FULFILLED, nu_fulfilling_ids = [''new_index_0''],
     nu_superseded_reason = None, nu_obtainability = None\<rparr>"

definition ex_need_pass :: "need_error + need_pass" where
  "ex_need_pass = apply_evidence_need_updates [] [''e1''] ex_case 3 [(''x'', ex_need_update)] [ex_need] []"

lemma ex_need_pass_answers:
  "case ex_need_pass of Inl _ \<Rightarrow> False | Inr p \<Rightarrow> np_repairs p = [Resurrection ''n1'']"
  by code_simp

theorem need_updates_stay_reloadable_witness:
  "\<exists>p. ex_need_pass = Inr p \<and> list_all need_ok (np_needs p)"
  unfolding ex_need_pass_def
proof (rule need_updates_stay_reloadable)
  show "list_all need_ok [ex_need]" by (simp add: need_ok_def) code_simp
  have "update_ok ex_need_update" unfolding update_ok_def by code_simp
  then show "list_all (\<lambda>(_, u). update_ok u \<and> texts_not_blank u) [(''x'', ex_need_update)]"
    by (simp add: texts_not_blank_def ex_need_update_def truthy_def)
  show "ids_ok ex_case" by code_simp
qed simp

theorem need_updates_take_nothing_back_witness:
  "\<exists>p n'. ex_need_pass = Inr p \<and> np_needs p = [n'] \<and> need_state n' = SUPERSEDED"
proof -
  obtain p where p: "ex_need_pass = Inr p" using ex_need_pass_answers by (auto split: sum.splits)
  have "length (np_needs p) = 1"
  proof -
    have "case ex_need_pass of Inl _ \<Rightarrow> False | Inr p \<Rightarrow> length (np_needs p) = 1" by code_simp
    then show ?thesis by (simp add: p)
  qed
  with need_updates_take_nothing_back [OF p [unfolded ex_need_pass_def]] p show ?thesis
    by (auto simp: list_all2_Cons1 ex_need_def length_Suc_conv)
qed

end
