(* ===== verification/Hypothesis_Manager.thy ===== *)
theory Hypothesis_Manager
  imports Support_Holds Evidence_Needs
begin

text \<open>
  The hypothesis manager of \<open>core/investigation/hypothesis_manager.py\<close> and the housekeeping the
  engine runs at the end of a turn (\<open>_perform_hypothesis_housekeeping\<close> of
  \<open>milestone_engine/turn_records.py\<close>).

  A method that mutates the hypothesis it is given returns the mutated value. Likelihoods are exact
  rationals: the rounding of floats is not modelled. A fresh hypothesis id is an argument of the
  constructor. Log lines and the metric counter are left out.
\<close>

section \<open>Constants\<close>

definition CAUSE_IDENTIFIED_LIKELIHOOD :: rat where
  "CAUSE_IDENTIFIED_LIKELIHOOD = 6 / 10"

definition NEW_HYPOTHESIS_MAX_PRIOR :: rat where
  "NEW_HYPOTHESIS_MAX_PRIOR = 5 / 10"

definition ANCHORING_SAME_CATEGORY_THRESHOLD :: nat where
  "ANCHORING_SAME_CATEGORY_THRESHOLD = 4"

definition IGNORED_STAGNATION_TURN_THRESHOLD :: int where
  "IGNORED_STAGNATION_TURN_THRESHOLD = 3"

definition STAGNATION_DECAY_FACTOR :: rat where
  "STAGNATION_DECAY_FACTOR = 85 / 100"

definition STAGNATION_DECAY_FLOOR :: rat where
  "STAGNATION_DECAY_FLOOR = 1 / 10"

definition STAGNATION_HORIZON_ITERATIONS :: int where
  "STAGNATION_HORIZON_ITERATIONS = 3"

definition LOW_CONFIDENCE_RETIREMENT_LIKELIHOOD :: rat where
  "LOW_CONFIDENCE_RETIREMENT_LIKELIHOOD = 3 / 10"

definition RETIRED_STALLED :: string where
  "RETIRED_STALLED = ''Anti-anchoring: retired a stalled hypothesis to diversify the differential''"

definition RETIRED_GROUNDING_UNKNOWN :: string where
  "RETIRED_GROUNDING_UNKNOWN = ''Anti-anchoring: retired a stalled hypothesis (grounding undetermined)''"

definition RETIRED_AGED_OUT :: string where
  "RETIRED_AGED_OUT = ''Aged out: left untested without standing causal support until its likelihood fell below the retirement threshold''"

definition RETIRED_NEVER_GROUNDED :: string where
  "RETIRED_NEVER_GROUNDED = ''Anti-anchoring: retired a hypothesis that was never linked to evidence''"

lemmas manager_constants = CAUSE_IDENTIFIED_LIKELIHOOD_def NEW_HYPOTHESIS_MAX_PRIOR_def
  ANCHORING_SAME_CATEGORY_THRESHOLD_def IGNORED_STAGNATION_TURN_THRESHOLD_def STAGNATION_DECAY_FACTOR_def
  STAGNATION_DECAY_FLOOR_def STAGNATION_HORIZON_ITERATIONS_def LOW_CONFIDENCE_RETIREMENT_LIKELIHOOD_def
  CAUSAL_STANCE_CONFIDENCE_MIN_def

section \<open>What the evidence says\<close>

definition link_confidence_or_one :: "'a evidence_link_scheme \<Rightarrow> rat" where
  "link_confidence_or_one l = (case link_confidence l of Some q \<Rightarrow> q | None \<Rightarrow> 1)"

definition confident_causal_support ::
    "'a evidence_link_scheme list \<Rightarrow> (string, evidence_category) pydict \<Rightarrow> bool" where
  "confident_causal_support ls categories \<longleftrightarrow> list_ex (\<lambda>l. link_stance l = SUPPORTS
     \<and> link_confidence_or_one l \<ge> CAUSAL_STANCE_CONFIDENCE_MIN
     \<and> dict_get categories (link_evidence_id l) = Some CAUSAL_EVIDENCE) ls"

definition confident_refutation ::
    "'a evidence_link_scheme list \<Rightarrow> (string, evidence_category) pydict \<Rightarrow> bool" where
  "confident_refutation ls categories \<longleftrightarrow> list_ex (\<lambda>l. link_stance l = REFUTES
     \<and> link_confidence_or_one l \<ge> CAUSAL_STANCE_CONFIDENCE_MIN
     \<and> dict_get categories (link_evidence_id l) \<noteq> None) ls"

definition active_hypotheses :: "case_data \<Rightarrow> hypothesis list" where
  "active_hypotheses c = filter (\<lambda>h. hyp_state h = H_ACTIVE) (dict_values (case_hypotheses c))"

definition count_active_hypotheses :: "case_data \<Rightarrow> nat" where
  "count_active_hypotheses c = length (active_hypotheses c)"

definition stance_count :: "evidence_stance \<Rightarrow> hypothesis \<Rightarrow> nat" where
  "stance_count s h = length (filter (\<lambda>l. link_stance l = s) (hyp_links h))"

definition calculate_evidence_ratio :: "hypothesis \<Rightarrow> rat" where
  "calculate_evidence_ratio h =
    (let supporting = stance_count SUPPORTS h; refuting = stance_count REFUTES h;
         total = supporting + refuting
     in if total > 0 then of_nat supporting / of_nat total else 0)"

section \<open>Creating a hypothesis\<close>

definition category_of_value :: "string \<Rightarrow> hypothesis_category option" where
  "category_of_value s = map_of [(''code'', CODE), (''config'', CONFIG), (''environment'', ENVIRONMENT),
     (''network'', NETWORK), (''data'', DATA), (''database'', DATABASE), (''hardware'', HARDWARE),
     (''security'', SECURITY), (''external'', EXTERNAL), (''human'', HUMAN), (''other'', OTHER)] s"

definition create_hypothesis ::
    "string \<Rightarrow> string \<Rightarrow> string \<Rightarrow> rat \<Rightarrow> int \<Rightarrow> hypothesis_generation_mode \<Rightarrow> validation_error + hypothesis" where
  "create_hypothesis hid statement cat initial_likelihood current_turn mode =
    (let capped = min (max 0 initial_likelihood) NEW_HYPOTHESIS_MAX_PRIOR
     in if statement = [] \<or> 500 < length statement then Inl (FieldConstraint ''statement'')
        else if \<not> statement_not_empty statement then Inl StatementBlank
        else case category_of_value cat of None \<Rightarrow> Inl (FieldConstraint ''category'')
        | Some category \<Rightarrow>
            if current_turn < 0 then Inl (FieldConstraint ''generated_at_turn'')
            else Inr \<lparr>hyp_id = hid, hyp_statement = statement, hyp_category = category,
              hyp_state = H_ACTIVE, hyp_likelihood = capped, hyp_initial_likelihood = capped,
              hyp_root = None, hyp_path = [], hyp_links = [], hyp_generated_at_turn = current_turn,
              hyp_last_updated_turn = current_turn, hyp_last_progress_at_turn = current_turn,
              hyp_iterations_without_progress = 0, hyp_generation_mode = mode,
              hyp_retirement_reason = None, hyp_refutation_reason = None,
              hyp_rationale = ''Initial hypothesis''\<rparr>)"

definition new_hypothesis_link ::
    "string \<Rightarrow> string \<Rightarrow> evidence_stance \<Rightarrow> string \<Rightarrow> rat option \<Rightarrow> validation_error + hypothesis_link" where
  "new_hypothesis_link hid eid stance reasoning confidence =
    (if 1000 < length reasoning then Inl (FieldConstraint ''reasoning'')
     else if \<not> (case confidence of None \<Rightarrow> False | Some q \<Rightarrow> 0 \<le> q \<and> q \<le> 1)
     then Inl (FieldConstraint ''stance_confidence'')
     else Inr \<lparr>link_evidence_id = eid, link_stance = stance, link_confidence = confidence,
       link_reasoning = reasoning, link_hypothesis_id = hid\<rparr>)"

section \<open>Likelihood\<close>

text \<open>The transition the numbers trigger; only an active hypothesis moves.\<close>

definition check_state_transition :: "hypothesis \<Rightarrow> hypothesis" where
  "check_state_transition h =
    (if hyp_state h \<noteq> H_ACTIVE then h
     else if LOW_CONFIDENCE_RETIREMENT_LIKELIHOOD \<le> hyp_likelihood h \<and> hyp_likelihood h \<le> 5 / 10
       \<and> hyp_iterations_without_progress h \<ge> STAGNATION_HORIZON_ITERATIONS
     then h\<lparr>hyp_state := H_INCONCLUSIVE\<rparr>
     else if hyp_likelihood h < LOW_CONFIDENCE_RETIREMENT_LIKELIHOOD \<and> hyp_state h \<noteq> H_RETIRED
     then h\<lparr>hyp_state := H_RETIRED, hyp_rationale := ''Low confidence after testing''\<rparr>
     else h)"

definition update_likelihood_from_evidence :: "int \<Rightarrow> bool \<Rightarrow> hypothesis \<Rightarrow> hypothesis" where
  "update_likelihood_from_evidence turn hold_state h =
    (let old_likelihood = hyp_likelihood h;
         raw = hyp_initial_likelihood h + 15 / 100 * of_nat (stance_count SUPPORTS h)
               - 20 / 100 * of_nat (stance_count REFUTES h);
         new_likelihood = max 0 (min 1 raw);
         h = h\<lparr>hyp_likelihood := new_likelihood, hyp_last_updated_turn := turn\<rparr>;
         h = (if \<bar>new_likelihood - old_likelihood\<bar> \<ge> 5 / 100
              then h\<lparr>hyp_last_progress_at_turn := turn, hyp_iterations_without_progress := 0\<rparr>
              else h\<lparr>hyp_iterations_without_progress := hyp_iterations_without_progress h + 1\<rparr>)
     in if hold_state then h else check_state_transition h)"

text \<open>
  Linking a row: the first link of the same row is replaced in place, a new one is appended. The
  second component tells whether the link is new or materially changed.
\<close>

definition link_evidence ::
    "string \<Rightarrow> evidence_stance \<Rightarrow> int \<Rightarrow> string \<Rightarrow> rat option \<Rightarrow> bool \<Rightarrow> hypothesis
      \<Rightarrow> validation_error + hypothesis \<times> bool" where
  "link_evidence eid stance turn reasoning confidence hold_state h =
    (let existing = find (\<lambda>l. link_evidence_id l = eid) (hyp_links h);
         confidence = (case confidence of Some q \<Rightarrow> Some q
           | None \<Rightarrow> (case existing of Some prior \<Rightarrow> link_confidence prior | None \<Rightarrow> Some 1))
     in case new_hypothesis_link (hyp_id h) eid stance reasoning confidence of
          Inl e \<Rightarrow> Inl e
        | Inr link \<Rightarrow>
            (case existing of
               Some prior \<Rightarrow>
                 let stance_changed = (link_stance prior \<noteq> stance);
                     prior_confidence = (case link_confidence prior of None \<Rightarrow> 0 | Some q \<Rightarrow> q);
                     material = (stance_changed
                       \<or> (prior_confidence \<ge> CAUSAL_STANCE_CONFIDENCE_MIN)
                          \<noteq> (link_confidence_or_one link \<ge> CAUSAL_STANCE_CONFIDENCE_MIN));
                     h = h\<lparr>hyp_links := update_first (\<lambda>l. link_evidence_id l = eid) (\<lambda>_. link) (hyp_links h)\<rparr>
                 in Inr (if stance_changed then update_likelihood_from_evidence turn hold_state h else h, material)
             | None \<Rightarrow>
                 Inr (update_likelihood_from_evidence turn hold_state (h\<lparr>hyp_links := hyp_links h @ [link]\<rparr>), True)))"

definition chain_root_confidently_supported :: "hypothesis \<Rightarrow> case_data option \<Rightarrow> bool" where
  "chain_root_confidently_supported h c =
    (case c of None \<Rightarrow> False
     | Some c \<Rightarrow> if \<not> truthy (hyp_root h) then False
        else case dict_get (case_nodes c) (or_empty (hyp_root h)) of
            None \<Rightarrow> False
          | Some n \<Rightarrow> confident_causal_support (node_links n) (evidence_category_map c))"

definition likelihood_after_update :: "hypothesis \<Rightarrow> rat \<Rightarrow> case_data option \<Rightarrow> rat" where
  "likelihood_after_update h new_likelihood c =
    (let requested = max 0 (min 1 new_likelihood);
         has_supporting_evidence = (list_ex (\<lambda>l. link_stance l = SUPPORTS
             \<and> link_confidence_or_one l \<ge> CAUSAL_STANCE_CONFIDENCE_MIN) (hyp_links h)
           \<or> chain_root_confidently_supported h c);
         ceiling = max (hyp_likelihood h) NEW_HYPOTHESIS_MAX_PRIOR
     in if \<not> has_supporting_evidence \<and> requested > ceiling then ceiling else requested)"

definition update_hypothesis_likelihood :: "rat \<Rightarrow> int \<Rightarrow> case_data option \<Rightarrow> hypothesis \<Rightarrow> hypothesis" where
  "update_hypothesis_likelihood new_likelihood current_turn c h =
    (let old_likelihood = hyp_likelihood h;
         capped = likelihood_after_update h new_likelihood c;
         h = h\<lparr>hyp_likelihood := capped\<rparr>;
         h = (if \<bar>capped - old_likelihood\<bar> \<ge> 5 / 100
              then h\<lparr>hyp_last_updated_turn := current_turn, hyp_last_progress_at_turn := current_turn,
                     hyp_iterations_without_progress := 0\<rparr>
              else h)
     in check_state_transition h)"

section \<open>Stagnation\<close>

definition head_id :: "hypothesis \<Rightarrow> string option" where
  "head_id h = (if truthy (hyp_root h) then hyp_root h
     else case hyp_path h of [] \<Rightarrow> None | x # _ \<Rightarrow> Some x)"

definition causal_support_stands :: "hypothesis \<Rightarrow> case_data \<Rightarrow> bool" where
  "causal_support_stands h c =
    (let categories = evidence_category_map c;
         head = (if truthy (head_id h) then dict_get (case_nodes c) (or_empty (head_id h)) else None);
         head_links = (case head of None \<Rightarrow> [] | Some n \<Rightarrow> node_links n)
     in if \<not> (confident_causal_support (hyp_links h) categories \<or> confident_causal_support head_links categories)
        then False
        else \<not> ((case head of None \<Rightarrow> False | Some n \<Rightarrow> node_state n = REFUTED)
                \<or> confident_refutation (hyp_links h) categories \<or> confident_refutation head_links categories))"

definition advance_stagnation_if_ignored :: "int \<Rightarrow> case_data \<Rightarrow> bool \<Rightarrow> hypothesis \<Rightarrow> hypothesis" where
  "advance_stagnation_if_ignored current_turn c turn_counts h =
    (if hyp_state h \<noteq> H_ACTIVE \<or> \<not> turn_counts then h
     else if hyp_last_updated_turn h \<ge> current_turn then h
     else if current_turn - hyp_last_progress_at_turn h < IGNORED_STAGNATION_TURN_THRESHOLD then h
     else if causal_support_stands h c then h
     else h\<lparr>hyp_iterations_without_progress := hyp_iterations_without_progress h + 1,
            hyp_last_updated_turn := current_turn\<rparr>)"

definition apply_likelihood_decay :: "int \<Rightarrow> hypothesis \<Rightarrow> hypothesis" where
  "apply_likelihood_decay current_turn h =
    (if hyp_state h = H_ACTIVE \<and> hyp_iterations_without_progress h > 0
        \<and> hyp_last_updated_turn h \<ge> current_turn \<and> hyp_last_progress_at_turn h < current_turn
     then h\<lparr>hyp_likelihood := max (min (hyp_likelihood h) STAGNATION_DECAY_FLOOR)
                                   (hyp_likelihood h * STAGNATION_DECAY_FACTOR)\<rparr>
     else h)"

definition retire_if_aged_out :: "case_data \<Rightarrow> int \<Rightarrow> hypothesis \<Rightarrow> hypothesis \<times> bool" where
  "retire_if_aged_out c current_turn h =
    (if hyp_state h \<noteq> H_ACTIVE \<or> hyp_iterations_without_progress h < STAGNATION_HORIZON_ITERATIONS
        \<or> hyp_likelihood h \<ge> LOW_CONFIDENCE_RETIREMENT_LIKELIHOOD \<or> causal_support_stands h c
     then (h, False)
     else (h\<lparr>hyp_state := H_RETIRED, hyp_retirement_reason := Some RETIRED_AGED_OUT,
             hyp_last_updated_turn := current_turn\<rparr>, True))"

section \<open>Refutation\<close>

text \<open>
  The state is written before the links are built, so a reason no link can carry leaves the
  hypothesis refuted and raises: the result is the hypothesis as it stands and the error raised.
\<close>

fun append_refuting :: "string \<Rightarrow> string \<Rightarrow> string set \<Rightarrow> string list \<Rightarrow> hypothesis_link list
    \<Rightarrow> hypothesis_link list \<times> validation_error option" where
  "append_refuting hid reason known [] ls = (ls, None)"
| "append_refuting hid reason known (eid # eids) ls =
    (if eid \<notin> known
     then case new_hypothesis_link hid eid REFUTES reason (Some 1) of
            Inl e \<Rightarrow> (ls, Some e)
          | Inr link \<Rightarrow> append_refuting hid reason known eids (ls @ [link])
     else append_refuting hid reason known eids ls)"

definition refute_hypothesis :: "int \<Rightarrow> string list \<Rightarrow> string \<Rightarrow> hypothesis \<Rightarrow> hypothesis \<times> validation_error option" where
  "refute_hypothesis current_turn refuting_ids reason h =
    (let h = h\<lparr>hyp_refutation_reason := Some (take 200 (if reason = [] then ''refuted by evidence'' else reason)),
               hyp_state := H_REFUTED, hyp_likelihood := 0\<rparr>;
         known = link_evidence_id ` set (hyp_links h);
         (ls, err) = append_refuting (hyp_id h) reason known refuting_ids (hyp_links h);
         h = h\<lparr>hyp_links := ls\<rparr>
     in (case err of Some e \<Rightarrow> (h, Some e) | None \<Rightarrow> (h\<lparr>hyp_last_updated_turn := current_turn\<rparr>, None)))"

section \<open>Anchoring\<close>

datatype anchoring =
    SameCategory nat hypothesis_category
  | StalledGroup nat
  | TopStagnant int rat

definition rank_hypotheses_by_likelihood :: "hypothesis list \<Rightarrow> hypothesis list" where
  "rank_hypotheses_by_likelihood hs = sort_key (\<lambda>h. - hyp_likelihood h) hs"

definition category_counts :: "hypothesis list \<Rightarrow> (hypothesis_category, string list) pydict" where
  "category_counts hs = fold (\<lambda>h d.
     let d = (if hyp_category h \<in> set (dict_keys d) then d else dict_put (hyp_category h) [] d);
         ids = (case dict_get d (hyp_category h) of None \<Rightarrow> [] | Some ids \<Rightarrow> ids)
     in dict_put (hyp_category h) (ids @ [hyp_id h]) d) hs []"

definition detect_anchoring :: "hypothesis list \<Rightarrow> bool \<times> anchoring option \<times> string list" where
  "detect_anchoring hypotheses =
    (let active = filter (\<lambda>h. \<not> hypothesis_is_terminal (hyp_state h)) hypotheses
     in if active = [] then (False, None, [])
        else case find (\<lambda>(_, ids). length ids \<ge> ANCHORING_SAME_CATEGORY_THRESHOLD) (category_counts active) of
          Some (category, ids) \<Rightarrow> (True, Some (SameCategory (length ids) category), ids)
        | None \<Rightarrow>
            let stalled = map hyp_id (filter (\<lambda>h. hyp_iterations_without_progress h \<ge> STAGNATION_HORIZON_ITERATIONS) active)
            in if length stalled \<ge> 2 then (True, Some (StalledGroup (length stalled)), stalled)
               else case rank_hypotheses_by_likelihood active of
                   [] \<Rightarrow> (False, None, [])
                 | first # _ \<Rightarrow>
                     if hyp_iterations_without_progress first \<ge> STAGNATION_HORIZON_ITERATIONS \<and> hyp_likelihood first < 7 / 10
                     then (True, Some (TopStagnant (hyp_iterations_without_progress first) (hyp_likelihood first)), [hyp_id first])
                     else (False, None, []))"

text \<open>Whether a hypothesis was ever grounded: undetermined without the case or when its head is missing.\<close>

definition never_grounded :: "hypothesis \<Rightarrow> case_data option \<Rightarrow> bool option" where
  "never_grounded h c =
    (if hyp_links h \<noteq> [] then Some False
     else case c of None \<Rightarrow> None
     | Some c \<Rightarrow> if \<not> truthy (head_id h) then Some True
        else case dict_get (case_nodes c) (or_empty (head_id h)) of
            None \<Rightarrow> None
          | Some n \<Rightarrow> Some (node_links n = []))"

definition retired_by_anchoring :: "int \<Rightarrow> case_data option \<Rightarrow> hypothesis \<Rightarrow> hypothesis" where
  "retired_by_anchoring current_turn c h =
    h\<lparr>hyp_state := H_RETIRED,
      hyp_retirement_reason := Some (case never_grounded h c of
         Some True \<Rightarrow> RETIRED_NEVER_GROUNDED | Some False \<Rightarrow> RETIRED_STALLED | None \<Rightarrow> RETIRED_GROUNDING_UNKNOWN),
      hyp_last_updated_turn := current_turn\<rparr>"

text \<open>The list is the hypotheses themselves; \<open>by_id\<close> gives the place of each id, the last one for a repeated id.\<close>

definition by_id :: "hypothesis list \<Rightarrow> (string, nat) pydict" where
  "by_id hs = fold (\<lambda>i d. dict_put (hyp_id (hs ! i)) i d) [0..<length hs] []"

definition force_one :: "(string, nat) pydict \<Rightarrow> int \<Rightarrow> case_data option \<Rightarrow> string
    \<Rightarrow> hypothesis list \<times> string list \<Rightarrow> hypothesis list \<times> string list" where
  "force_one places current_turn c hid = (\<lambda>(hs, retired).
    (case dict_get places hid of
       None \<Rightarrow> (hs, retired)
     | Some i \<Rightarrow>
         if hyp_state (hs ! i) = H_ACTIVE \<and> hyp_iterations_without_progress (hs ! i) \<ge> 2
         then (hs[i := retired_by_anchoring current_turn c (hs ! i)], retired @ [hid])
         else (hs, retired)))"

definition force_alternative_generation ::
    "string list \<Rightarrow> int \<Rightarrow> case_data option \<Rightarrow> hypothesis list \<Rightarrow> hypothesis list \<times> string list" where
  "force_alternative_generation targets current_turn c hypotheses =
    fold (force_one (by_id hypotheses) current_turn c) targets (hypotheses, [])"

section \<open>Reading the hypotheses\<close>

definition get_testable_hypotheses :: "nat \<Rightarrow> hypothesis list \<Rightarrow> hypothesis list" where
  "get_testable_hypotheses max_count hypotheses =
    take max_count (rank_hypotheses_by_likelihood
      (filter (\<lambda>h. hyp_state h = H_ACTIVE \<and> hyp_likelihood h > 2 / 10) hypotheses))"

definition get_best_hypothesis :: "hypothesis list \<Rightarrow> hypothesis option" where
  "get_best_hypothesis hypotheses =
    (case filter (\<lambda>h. hyp_state h = H_ACTIVE) hypotheses of
       [] \<Rightarrow> None
     | h # hs \<Rightarrow> Some (fold (\<lambda>x best. if hyp_likelihood x > hyp_likelihood best then x else best) hs h))"

definition get_hypotheses_by_category :: "hypothesis_category \<Rightarrow> hypothesis list \<Rightarrow> hypothesis list" where
  "get_hypotheses_by_category category hypotheses = filter (\<lambda>h. hyp_category h = category) hypotheses"

section \<open>The housekeeping of a turn\<close>

text \<open>
  What housekeeping reads and writes beside the graph: the evidence needs, the count of turns without
  progress, the turn anti-anchoring last acted, and the feedback left for the next turn, as the
  detected anchoring and the number of hypotheses retired (its wording is not rendered).
\<close>

record house =
  hk_case :: case_data
  hk_needs :: "evidence_need list"
  hk_turns_without_progress :: int
  hk_last_anti_anchoring_turn :: int
  hk_feedback :: "(anchoring option \<times> nat) list"

definition EXHAUSTION_MIN_TURNS :: int where
  "EXHAUSTION_MIN_TURNS = 8"

definition EXHAUSTION_STALL_THRESHOLD :: int where
  "EXHAUSTION_STALL_THRESHOLD = 5"

definition ANTI_ANCHORING_COOLDOWN_TURNS :: int where
  "ANTI_ANCHORING_COOLDOWN_TURNS = 2"

definition is_stalled :: "house \<Rightarrow> bool" where
  "is_stalled s \<longleftrightarrow> case_current_turn (hk_case s) \<ge> EXHAUSTION_MIN_TURNS
     \<and> hk_turns_without_progress s \<ge> EXHAUSTION_STALL_THRESHOLD"

definition recently_asked :: "int \<Rightarrow> int \<Rightarrow> evidence_need \<Rightarrow> bool" where
  "recently_asked current_turn within_turns n \<longleftrightarrow>
     is_outstanding n \<and> \<not> need_engine_inferred n \<and> current_turn - need_created_at_turn n < within_turns"

definition awaiting_recent_evidence :: "house \<Rightarrow> int \<Rightarrow> bool" where
  "awaiting_recent_evidence s within_turns =
    list_ex (recently_asked (case_current_turn (hk_case s)) within_turns) (hk_needs s)"

definition hypotheses_awaiting_recent_evidence :: "house \<Rightarrow> int \<Rightarrow> string set" where
  "hypotheses_awaiting_recent_evidence s within_turns =
    set (concat (map need_motivating_ids
      (filter (recently_asked (case_current_turn (hk_case s)) within_turns) (hk_needs s))))"

text \<open>The objects of \<open>active_hypotheses\<close> are those of the case: they are named by their keys.\<close>

definition active_keys :: "(string, hypothesis) pydict \<Rightarrow> string list" where
  "active_keys hs = map fst (filter (\<lambda>(_, h). hyp_state h = H_ACTIVE) hs)"

definition object_at :: "(string, hypothesis) pydict \<Rightarrow> string \<Rightarrow> hypothesis" where
  "object_at hs k = the (dict_get hs k)"

definition update_case_hypotheses ::
    "((string, hypothesis) pydict \<Rightarrow> (string, hypothesis) pydict) \<Rightarrow> case_data \<Rightarrow> case_data" where
  "update_case_hypotheses f c = c\<lparr>case_hypotheses := f (case_hypotheses c)\<rparr>"

definition age_hypothesis :: "bool \<Rightarrow> string set \<Rightarrow> string \<Rightarrow> case_data \<Rightarrow> case_data" where
  "age_hypothesis turn_counts awaited k c =
    (let h = object_at (case_hypotheses c) k;
         h = advance_stagnation_if_ignored (case_current_turn c) c (turn_counts \<and> hyp_id h \<notin> awaited) h;
         h = apply_likelihood_decay (case_current_turn c) h
     in update_case_hypotheses (dict_put k h) c)"

definition protected_root :: "hypothesis \<Rightarrow> (string, causal_node) pydict \<Rightarrow> string set \<Rightarrow> bool" where
  "protected_root h nodes count_held \<longleftrightarrow> is_chain_root_validated h nodes
     \<or> (case hyp_root h of None \<Rightarrow> False | Some r \<Rightarrow> r \<in> count_held)"

definition age_out_one :: "string set \<Rightarrow> string set \<Rightarrow> string \<Rightarrow> case_data \<Rightarrow> case_data" where
  "age_out_one flagged count_held k c =
    (let h = object_at (case_hypotheses c) k
     in if hyp_id h \<notin> flagged \<and> \<not> protected_root h (case_nodes c) count_held
        then update_case_hypotheses (dict_put k (fst (retire_if_aged_out c (case_current_turn c) h))) c
        else c)"

definition act_on_anchoring :: "anchoring option \<Rightarrow> string list \<Rightarrow> string list \<Rightarrow> house \<Rightarrow> house" where
  "act_on_anchoring reason hypothesis_ids keys s =
    (let c = hk_case s;
         count_held = support_count_held_root_ids c;
         targets = filter (\<lambda>hid. case dict_get (case_hypotheses c) hid of None \<Rightarrow> False
           | Some h \<Rightarrow> \<not> protected_root h (case_nodes c) count_held) hypothesis_ids;
         (hs, retired) = force_alternative_generation targets (case_current_turn c) (Some c)
           (map (object_at (case_hypotheses c)) keys);
         c = update_case_hypotheses (fold (\<lambda>(k, h) d. dict_put k h d) (zip keys hs)) c
     in s\<lparr>hk_case := c, hk_last_anti_anchoring_turn := case_current_turn c,
          hk_feedback := hk_feedback s @ [(reason, length retired)]\<rparr>)"

definition perform_hypothesis_housekeeping :: "bool \<Rightarrow> house \<Rightarrow> house" where
  "perform_hypothesis_housekeeping investigation_advanced s =
    (let keys = active_keys (case_hypotheses (hk_case s))
     in if keys = [] then s
        else
          let turn_counts = (investigation_advanced \<or> is_stalled s);
              awaited = hypotheses_awaiting_recent_evidence s ANTI_ANCHORING_COOLDOWN_TURNS;
              awaiting = awaiting_recent_evidence s ANTI_ANCHORING_COOLDOWN_TURNS;
              c = fold (age_hypothesis turn_counts awaited) keys (hk_case s);
              (is_anchored, reason, hypothesis_ids) =
                detect_anchoring (map (object_at (case_hypotheses c)) keys);
              c = (if turn_counts \<and> \<not> awaiting
                   then fold (age_out_one (if is_anchored then set hypothesis_ids else {})
                          (support_count_held_root_ids c)) keys c
                   else c);
              s = s\<lparr>hk_case := c\<rparr>
          in if \<not> is_anchored then s
             else if awaiting then s
             else if case_current_turn c - hk_last_anti_anchoring_turn s < ANTI_ANCHORING_COOLDOWN_TURNS then s
             else act_on_anchoring reason hypothesis_ids keys s)"

end
