(* ===== verification/Hypothesis_Laws.thy ===== *)
theory Hypothesis_Laws
  imports Hypothesis_Manager Examples
begin

text \<open>
  One hypothesis through any sequence of the manager's operations: it stays valid, its likelihood
  follows its links, and belief beyond the prior has to be earned.
\<close>

section \<open>Sequences of operations\<close>

datatype manager_event =
    LinkRow string evidence_stance int string "rat option" bool
  | Claim rat int "case_data option"
  | AgeIgnored int case_data bool
  | Decay int
  | AgeOut case_data int
  | Refute int "string list" string
  | AntiAnchor int "case_data option"
  | Attach string "string list"

definition apply_event :: "manager_event \<Rightarrow> hypothesis \<Rightarrow> validation_error + hypothesis" where
  "apply_event e h = (case e of
     LinkRow eid s t reasoning q hold \<Rightarrow>
       (case link_evidence eid s t reasoning q hold h of Inl err \<Rightarrow> Inl err | Inr (h', _) \<Rightarrow> Inr h')
   | Claim q t c \<Rightarrow> Inr (update_hypothesis_likelihood q t c h)
   | AgeIgnored t c counts \<Rightarrow> Inr (advance_stagnation_if_ignored t c counts h)
   | Decay t \<Rightarrow> Inr (apply_likelihood_decay t h)
   | AgeOut c t \<Rightarrow> Inr (fst (retire_if_aged_out c t h))
   | Refute t ids reason \<Rightarrow> Inr (fst (refute_hypothesis t ids reason h))
   | AntiAnchor t c \<Rightarrow> Inr (if hyp_state h = H_ACTIVE then retired_by_anchoring t c h else h)
   | Attach r path \<Rightarrow> Inr (h\<lparr>hyp_root := Some r, hyp_path := r # path\<rparr>))"

text \<open>\<open>Attach\<close> is the engine's move: it hangs the hypothesis on a chain root.\<close>

fun event_turn :: "manager_event \<Rightarrow> int" where
  "event_turn (LinkRow _ _ t _ _ _) = t"
| "event_turn (Claim _ t _) = t"
| "event_turn (AgeIgnored t _ _) = t"
| "event_turn (Decay t) = t"
| "event_turn (AgeOut _ t) = t"
| "event_turn (Refute t _ _) = t"
| "event_turn (AntiAnchor t _) = t"
| "event_turn (Attach _ _) = 0"

section \<open>Validity\<close>

text \<open>What a stored hypothesis has to satisfy to be read back: the field bounds and the validators.\<close>

definition unit_interval :: "rat \<Rightarrow> bool" where
  "unit_interval q \<longleftrightarrow> 0 \<le> q \<and> q \<le> 1"

definition link_valid :: "string \<Rightarrow> hypothesis_link \<Rightarrow> bool" where
  "link_valid hid l \<longleftrightarrow> link_hypothesis_id l = hid \<and> length (link_reasoning l) \<le> 1000
     \<and> (case link_confidence l of None \<Rightarrow> False | Some q \<Rightarrow> unit_interval q)"

definition hypothesis_valid :: "hypothesis \<Rightarrow> bool" where
  "hypothesis_valid h \<longleftrightarrow> hypothesis_ok h
     \<and> statement_not_empty (hyp_statement h) \<and> length (hyp_statement h) \<le> 500
     \<and> unit_interval (hyp_likelihood h) \<and> unit_interval (hyp_initial_likelihood h)
     \<and> 0 \<le> hyp_generated_at_turn h \<and> 0 \<le> hyp_last_updated_turn h \<and> 0 \<le> hyp_last_progress_at_turn h
     \<and> 0 \<le> hyp_iterations_without_progress h
     \<and> length (or_empty (hyp_retirement_reason h)) \<le> 200 \<and> length (or_empty (hyp_refutation_reason h)) \<le> 200
     \<and> length (hyp_rationale h) \<le> 1000
     \<and> list_all (link_valid (hyp_id h)) (hyp_links h)"

lemma new_hypothesis_link_Inr:
  "new_hypothesis_link hid eid s reasoning q = Inr l \<longleftrightarrow>
     length reasoning \<le> 1000 \<and> (\<exists>p. q = Some p \<and> unit_interval p)
     \<and> l = \<lparr>link_evidence_id = eid, link_stance = s, link_confidence = q, link_reasoning = reasoning,
           link_hypothesis_id = hid\<rparr>"
  by (auto simp: new_hypothesis_link_def unit_interval_def split: option.splits)

lemma new_link_valid: "new_hypothesis_link hid eid s reasoning q = Inr l \<Longrightarrow> link_valid hid l"
  by (auto simp: new_hypothesis_link_Inr link_valid_def)

lemma create_valid:
  assumes "create_hypothesis hid statement cat prior t mode = Inr h"
  shows "hypothesis_valid h" "hyp_state h = H_ACTIVE" "hyp_links h = []" "hyp_likelihood h = hyp_initial_likelihood h"
    "hyp_likelihood h \<le> NEW_HYPOTHESIS_MAX_PRIOR"
  using assms
  by (auto simp: create_hypothesis_def Let_def hypothesis_valid_def hypothesis_ok_def unit_interval_def
      manager_constants split: if_splits option.splits)

text \<open>A change of the state and the counters alone keeps a hypothesis valid.\<close>

definition same_record :: "hypothesis \<Rightarrow> hypothesis \<Rightarrow> bool" where
  "same_record h h' \<longleftrightarrow> hyp_id h' = hyp_id h \<and> hyp_statement h' = hyp_statement h
     \<and> hyp_initial_likelihood h' = hyp_initial_likelihood h
     \<and> hyp_generated_at_turn h' = hyp_generated_at_turn h \<and> hyp_root h' = hyp_root h \<and> hyp_path h' = hyp_path h"

lemma check_state_transition_frame [simp]:
  "hyp_links (check_state_transition h) = hyp_links h"
  "hyp_likelihood (check_state_transition h) = hyp_likelihood h"
  "hyp_initial_likelihood (check_state_transition h) = hyp_initial_likelihood h"
  "hyp_id (check_state_transition h) = hyp_id h"
  by (simp_all add: check_state_transition_def)

lemma check_state_transition_valid: "hypothesis_valid h \<Longrightarrow> hypothesis_valid (check_state_transition h)"
  by (auto simp: check_state_transition_def hypothesis_valid_def hypothesis_ok_def)

lemma update_from_evidence_frame [simp]:
  "hyp_links (update_likelihood_from_evidence t hold h) = hyp_links h"
  "hyp_initial_likelihood (update_likelihood_from_evidence t hold h) = hyp_initial_likelihood h"
  "hyp_id (update_likelihood_from_evidence t hold h) = hyp_id h"
  by (simp_all add: update_likelihood_from_evidence_def Let_def)

lemma update_from_evidence_valid:
  assumes "hypothesis_valid h" "0 \<le> t"
  shows "hypothesis_valid (update_likelihood_from_evidence t hold h)"
proof -
  have "hypothesis_valid (if b then g\<lparr>hyp_last_progress_at_turn := t, hyp_iterations_without_progress := 0\<rparr>
      else g\<lparr>hyp_iterations_without_progress := hyp_iterations_without_progress g + 1\<rparr>)"
    if "g = h\<lparr>hyp_likelihood := max 0 (min 1 q), hyp_last_updated_turn := t\<rparr>" for b q g
    using assms that by (auto simp: hypothesis_valid_def hypothesis_ok_def unit_interval_def)
  then show ?thesis
    by (simp add: update_likelihood_from_evidence_def Let_def check_state_transition_valid)
qed

lemma links_valid:
  "hypothesis_valid h \<Longrightarrow> list_all (link_valid (hyp_id h)) ls \<Longrightarrow> hypothesis_valid (h\<lparr>hyp_links := ls\<rparr>)"
  by (auto simp: hypothesis_valid_def hypothesis_ok_def)

lemma hypothesis_valid_links: "hypothesis_valid h \<Longrightarrow> list_all (link_valid (hyp_id h)) (hyp_links h)"
  by (simp add: hypothesis_valid_def)

text \<open>The two ways a link is taken in.\<close>

lemma link_evidence_cases:
  assumes "link_evidence eid s t reasoning q hold h = Inr (h', m)"
  obtains (new) l where "find (\<lambda>l. link_evidence_id l = eid) (hyp_links h) = None"
      "link_valid (hyp_id h) l" "link_evidence_id l = eid" "link_stance l = s"
      "h' = update_likelihood_from_evidence t hold (h\<lparr>hyp_links := hyp_links h @ [l]\<rparr>)" "m"
    | (old) l prior where "find (\<lambda>l. link_evidence_id l = eid) (hyp_links h) = Some prior"
      "link_valid (hyp_id h) l" "link_evidence_id l = eid" "link_stance l = s"
      "h' = (if link_stance prior \<noteq> s
         then update_likelihood_from_evidence t hold (h\<lparr>hyp_links := update_first (\<lambda>l. link_evidence_id l = eid) (\<lambda>_. l) (hyp_links h)\<rparr>)
         else h\<lparr>hyp_links := update_first (\<lambda>l. link_evidence_id l = eid) (\<lambda>_. l) (hyp_links h)\<rparr>)"
proof -
  let ?e = "find (\<lambda>l. link_evidence_id l = eid) (hyp_links h)"
  let ?q = "case q of Some q \<Rightarrow> Some q | None \<Rightarrow> (case ?e of Some prior \<Rightarrow> link_confidence prior | None \<Rightarrow> Some 1)"
  obtain l where l: "new_hypothesis_link (hyp_id h) eid s reasoning ?q = Inr l"
    using assms by (cases "new_hypothesis_link (hyp_id h) eid s reasoning ?q") (simp_all add: link_evidence_def Let_def)
  have f: "link_valid (hyp_id h) l" "link_evidence_id l = eid" "link_stance l = s"
    using l new_link_valid [OF l] by (auto simp: new_hypothesis_link_Inr)
  show thesis
  proof (cases ?e)
    case None
    have "h' = update_likelihood_from_evidence t hold (h\<lparr>hyp_links := hyp_links h @ [l]\<rparr>)" "m"
      using assms l unfolding link_evidence_def Let_def None option.case by simp_all
    then show ?thesis using new [OF None f] by blast
  next
    case (Some prior)
    have "h' = (if link_stance prior \<noteq> s
         then update_likelihood_from_evidence t hold (h\<lparr>hyp_links := update_first (\<lambda>l. link_evidence_id l = eid) (\<lambda>_. l) (hyp_links h)\<rparr>)
         else h\<lparr>hyp_links := update_first (\<lambda>l. link_evidence_id l = eid) (\<lambda>_. l) (hyp_links h)\<rparr>)"
      using assms l unfolding link_evidence_def Let_def Some option.case by simp
    then show ?thesis using old [OF Some f] by blast
  qed
qed

lemma list_all_update_first: "list_all P xs \<Longrightarrow> P y \<Longrightarrow> list_all P (update_first Q (\<lambda>_. y) xs)"
  by (induction xs) auto

lemma link_evidence_valid:
  assumes "link_evidence eid s t reasoning q hold h = Inr (h', m)" "hypothesis_valid h" "0 \<le> t"
  shows "hypothesis_valid h'"
  using assms(1)
proof (cases rule: link_evidence_cases)
  case (new l)
  then show ?thesis
    using update_from_evidence_valid [OF links_valid [OF assms(2)] assms(3)] hypothesis_valid_links [OF assms(2)] by simp
next
  case (old l prior)
  have "list_all (link_valid (hyp_id h)) (update_first (\<lambda>l. link_evidence_id l = eid) (\<lambda>_. l) (hyp_links h))"
    using hypothesis_valid_links [OF assms(2)] old(2) by (rule list_all_update_first)
  then show ?thesis
    using old(5) update_from_evidence_valid [OF links_valid [OF assms(2)] assms(3)] links_valid [OF assms(2)] by simp
qed

lemma clamp_unit [simp]: "unit_interval (max 0 (min 1 q))"
  by (simp add: unit_interval_def)

lemma likelihood_after_update_unit:
  "unit_interval (hyp_likelihood h) \<Longrightarrow> unit_interval (likelihood_after_update h q c)"
  by (auto simp: likelihood_after_update_def Let_def unit_interval_def manager_constants)

lemma claim_valid:
  assumes "hypothesis_valid h" "0 \<le> t"
  shows "hypothesis_valid (update_hypothesis_likelihood q t c h)"
proof -
  let ?q = "likelihood_after_update h q c"
  have "unit_interval ?q" using assms(1) by (simp add: likelihood_after_update_unit hypothesis_valid_def)
  then have "hypothesis_valid (h\<lparr>hyp_likelihood := ?q\<rparr>)"
    "hypothesis_valid (h\<lparr>hyp_likelihood := ?q, hyp_last_updated_turn := t, hyp_last_progress_at_turn := t,
       hyp_iterations_without_progress := 0\<rparr>)"
    using assms by (simp_all add: hypothesis_valid_def hypothesis_ok_def)
  then show ?thesis by (simp add: update_hypothesis_likelihood_def Let_def check_state_transition_valid)
qed

lemma age_valid: "hypothesis_valid h \<Longrightarrow> 0 \<le> t \<Longrightarrow> hypothesis_valid (advance_stagnation_if_ignored t c b h)"
  by (auto simp: advance_stagnation_if_ignored_def hypothesis_valid_def hypothesis_ok_def)

lemma decay_bounds:
  assumes "0 \<le> q"
  shows "0 \<le> max (min q STAGNATION_DECAY_FLOOR) (q * STAGNATION_DECAY_FACTOR)"
    "max (min q STAGNATION_DECAY_FLOOR) (q * STAGNATION_DECAY_FACTOR) \<le> q"
  using assms by (simp_all add: manager_constants)

lemma decay_valid: "hypothesis_valid h \<Longrightarrow> hypothesis_valid (apply_likelihood_decay t h)"
  using decay_bounds [of "hyp_likelihood h"]
  by (auto simp: apply_likelihood_decay_def hypothesis_valid_def hypothesis_ok_def unit_interval_def simp del: max.bounded_iff)

lemma retired_texts: "length RETIRED_AGED_OUT \<le> 200" "length RETIRED_STALLED \<le> 200"
    "length RETIRED_GROUNDING_UNKNOWN \<le> 200" "length RETIRED_NEVER_GROUNDED \<le> 200"
  by (simp_all add: RETIRED_AGED_OUT_def RETIRED_STALLED_def RETIRED_GROUNDING_UNKNOWN_def RETIRED_NEVER_GROUNDED_def)

lemma active_ok_retire: "hypothesis_ok h \<Longrightarrow> hyp_state h = H_ACTIVE \<Longrightarrow> \<not> truthy (hyp_refutation_reason h)"
  by (simp add: hypothesis_ok_def)

lemma retire_valid:
  "hypothesis_valid h \<Longrightarrow> 0 \<le> t \<Longrightarrow> hypothesis_valid (fst (retire_if_aged_out c t h))"
  "hypothesis_valid h \<Longrightarrow> 0 \<le> t \<Longrightarrow> hyp_state h = H_ACTIVE \<Longrightarrow> hypothesis_valid (retired_by_anchoring t c' h)"
  using retired_texts
  by (auto simp: retire_if_aged_out_def retired_by_anchoring_def hypothesis_valid_def hypothesis_ok_def
      split: option.split bool.split)

lemma append_refuting_valid:
  "list_all (link_valid hid) ls \<Longrightarrow> list_all (link_valid hid) (fst (append_refuting hid reason known ids ls))"
  by (induction ids arbitrary: ls) (auto dest: new_link_valid split: sum.split)

lemma refute_valid:
  assumes "hypothesis_valid h" "0 \<le> t"
  shows "hypothesis_valid (fst (refute_hypothesis t ids reason h))"
proof -
  let ?h = "h\<lparr>hyp_refutation_reason := Some (take 200 (if reason = [] then ''refuted by evidence'' else reason)),
               hyp_state := H_REFUTED, hyp_likelihood := 0\<rparr>"
  obtain ls err where r: "append_refuting (hyp_id ?h) reason (link_evidence_id ` set (hyp_links ?h)) ids (hyp_links ?h) = (ls, err)"
    by fastforce
  have h: "hypothesis_valid ?h" using assms(1) by (auto simp: hypothesis_valid_def hypothesis_ok_def unit_interval_def)
  have "hypothesis_valid (?h\<lparr>hyp_links := ls\<rparr>)"
    using links_valid [OF h] append_refuting_valid [OF hypothesis_valid_links [OF h]] r by (metis fst_conv)
  moreover from this have "hypothesis_valid (?h\<lparr>hyp_links := ls, hyp_last_updated_turn := t\<rparr>)"
    using assms(2) by (simp add: hypothesis_valid_def hypothesis_ok_def)
  ultimately show ?thesis
    using r by (cases err) (simp_all add: refute_hypothesis_def Let_def)
qed

lemma apply_event_valid:
  assumes "apply_event e h = Inr h'" "hypothesis_valid h" "0 \<le> event_turn e"
  shows "hypothesis_valid h'"
proof (cases e)
  case (LinkRow eid s t reasoning q hold)
  then obtain m where "link_evidence eid s t reasoning q hold h = Inr (h', m)"
    using assms(1) by (auto simp: apply_event_def split: sum.splits)
  then show ?thesis using link_evidence_valid assms(2,3) LinkRow by simp
next
  case (Attach r path)
  then show ?thesis using assms(1,2) by (auto simp: apply_event_def hypothesis_valid_def hypothesis_ok_def)
qed (use assms in \<open>auto simp: apply_event_def claim_valid age_valid decay_valid retire_valid refute_valid\<close>)


section \<open>Likelihood as a function of the links\<close>

text \<open>The rows of a hypothesis with their stances, in the order they were first linked.\<close>

definition link_table :: "hypothesis \<Rightarrow> (string, evidence_stance) pydict" where
  "link_table h = map (\<lambda>l. (link_evidence_id l, link_stance l)) (hyp_links h)"

definition last_stances :: "(string \<times> evidence_stance) list \<Rightarrow> (string, evidence_stance) pydict" where
  "last_stances rows = fold (\<lambda>(eid, s) d. dict_put eid s d) rows []"

definition evidential_likelihood :: "rat \<Rightarrow> (string, evidence_stance) pydict \<Rightarrow> rat" where
  "evidential_likelihood prior d = max 0 (min 1 (prior
     + 15 / 100 * of_nat (count_list (dict_values d) SUPPORTS) - 20 / 100 * of_nat (count_list (dict_values d) REFUTES)))"

lemma length_filter_count: "length (filter (\<lambda>l. f l = s) ls) = count_list (map f ls) s"
  by (induction ls) auto

lemma stance_count_table: "stance_count s h = count_list (dict_values (link_table h)) s"
  by (simp add: stance_count_def link_table_def dict_values_def comp_def length_filter_count)

lemma table_append: "link_table (h\<lparr>hyp_links := hyp_links h @ [l]\<rparr>) = link_table h @ [(link_evidence_id l, link_stance l)]"
  by (simp add: link_table_def)

lemma table_update_first:
  assumes "link_evidence_id l = eid" "find (\<lambda>l. link_evidence_id l = eid) ls = Some prior"
  shows "map (\<lambda>l. (link_evidence_id l, link_stance l)) (update_first (\<lambda>l. link_evidence_id l = eid) (\<lambda>_. l) ls)
    = dict_put eid (link_stance l) (map (\<lambda>l. (link_evidence_id l, link_stance l)) ls)"
  using assms by (induction ls) (auto simp: dict_put_def split: if_splits)

lemma link_evidence_table:
  assumes "link_evidence eid s t reasoning q hold h = Inr (h', m)"
  shows "link_table h' = dict_put eid s (link_table h)"
  using assms
proof (cases rule: link_evidence_cases)
  case (new l)
  have "eid \<notin> set (dict_keys (link_table h))"
    using new(1) by (auto simp: find_None_iff link_table_def dict_keys_def)
  with new show ?thesis using table_append [of h l] by (simp add: dict_put_new link_table_def)
next
  case (old l prior)
  show ?thesis using table_update_first [OF old(3,1)] old(4,5) by (simp add: link_table_def)
qed

lemma link_evidence_initial:
  assumes "link_evidence eid s t reasoning q hold h = Inr (h', m)"
  shows "hyp_initial_likelihood h' = hyp_initial_likelihood h"
  using assms by (cases rule: link_evidence_cases) simp_all

lemma update_from_evidence_likelihood:
  "hyp_likelihood (update_likelihood_from_evidence t hold h)
     = evidential_likelihood (hyp_initial_likelihood h) (link_table h)"
  by (simp add: update_likelihood_from_evidence_def Let_def evidential_likelihood_def stance_count_table)

lemma find_table:
  "find (\<lambda>l. link_evidence_id l = eid) ls = Some prior \<Longrightarrow>
     dict_get (map (\<lambda>l. (link_evidence_id l, link_stance l)) ls) eid = Some (link_stance prior)"
  by (induction ls) (auto split: if_splits)

text \<open>Restating a stance leaves the likelihood, so the likelihood always agrees with the links.\<close>

lemma link_evidence_likelihood:
  assumes "link_evidence eid s t reasoning q hold h = Inr (h', m)"
    and "hyp_likelihood h = evidential_likelihood (hyp_initial_likelihood h) (link_table h)"
  shows "hyp_likelihood h' = evidential_likelihood (hyp_initial_likelihood h') (link_table h')"
  using assms(1)
proof (cases rule: link_evidence_cases)
  case (new l)
  then show ?thesis by (simp add: update_from_evidence_likelihood link_table_def)
next
  case (old l prior)
  have g: "dict_get (link_table h) eid = Some (link_stance prior)"
    using find_table [OF old(1)] by (simp add: link_table_def)
  show ?thesis
  proof (cases "link_stance prior = s")
    case True
    with g have "link_table h' = link_table h"
      using link_evidence_table [OF assms(1)] by (simp add: dict_put_same)
    with old True assms(2) show ?thesis by simp
  next
    case False
    with old show ?thesis by (simp add: update_from_evidence_likelihood link_table_def)
  qed
qed

lemma last_stances_snoc: "last_stances (xs @ [(e, s)]) = dict_put e s (last_stances xs)"
  by (simp add: last_stances_def)

fun link_row :: "manager_event \<Rightarrow> (string \<times> evidence_stance) option" where
  "link_row (LinkRow eid s _ _ _ _) = Some (eid, s)"
| "link_row _ = None"

lemma linked_rows:
  assumes "try_fold apply_event evs h = Inr h'" "list_all (\<lambda>e. link_row e \<noteq> None) evs"
    and "link_table h = last_stances rows"
    and "hyp_likelihood h = evidential_likelihood (hyp_initial_likelihood h) (link_table h)"
  shows "link_table h' = last_stances (rows @ List.map_filter link_row evs)
    \<and> hyp_likelihood h' = evidential_likelihood (hyp_initial_likelihood h) (link_table h')"
  using assms
proof (induction evs arbitrary: h rows)
  case Nil
  then show ?case by (simp add: map_filter_simps)
next
  case (Cons e evs)
  from Cons.prems(2) obtain eid s t reasoning q hold where e: "e = LinkRow eid s t reasoning q hold"
    by (cases e) auto
  obtain h1 where ev: "apply_event e h = Inr h1" and rest: "try_fold apply_event evs h1 = Inr h'"
    using Cons.prems(1) by (auto split: sum.splits)
  then obtain m where h1: "link_evidence eid s t reasoning q hold h = Inr (h1, m)"
    by (auto simp: e apply_event_def split: sum.splits)
  have "link_table h1 = last_stances (rows @ [(eid, s)])"
    using link_evidence_table [OF h1] Cons.prems(3) by (simp add: last_stances_snoc)
  with Cons.IH [OF rest] link_evidence_likelihood [OF h1 Cons.prems(4)] Cons.prems(2)
  show ?case by (simp add: e map_filter_simps link_evidence_initial [OF h1])
qed

section \<open>Belief has to be earned\<close>

text \<open>What can lift a hypothesis above its prior: a supporting row, or a confidently supported chain root.\<close>

fun earns :: "hypothesis \<Rightarrow> manager_event \<Rightarrow> bool" where
  "earns h (LinkRow _ s _ _ _ _) = (s = SUPPORTS)"
| "earns h (Claim _ _ c) = chain_root_confidently_supported h c"
| "earns h _ = False"

fun earned :: "manager_event list \<Rightarrow> hypothesis \<Rightarrow> bool" where
  "earned [] h = False"
| "earned (e # evs) h = (earns h e \<or> (case apply_event e h of Inl _ \<Rightarrow> False | Inr h' \<Rightarrow> earned evs h'))"

definition unearned :: "hypothesis \<Rightarrow> bool" where
  "unearned h \<longleftrightarrow> stance_count SUPPORTS h = 0
     \<and> hyp_initial_likelihood h \<le> NEW_HYPOTHESIS_MAX_PRIOR \<and> hyp_likelihood h \<le> NEW_HYPOTHESIS_MAX_PRIOR"

lemma refute_fields:
  "hyp_initial_likelihood (fst (refute_hypothesis t ids reason h)) = hyp_initial_likelihood h"
  "hyp_likelihood (fst (refute_hypothesis t ids reason h)) = 0"
  by (simp_all add: refute_hypothesis_def Let_def split: prod.split option.split)

lemma append_refuting_supports:
  "filter (\<lambda>l. link_stance l = SUPPORTS) (fst (append_refuting hid reason known ids ls))
     = filter (\<lambda>l. link_stance l = SUPPORTS) ls"
  by (induction ids arbitrary: ls) (auto simp: new_hypothesis_link_Inr split: sum.split)

lemma refute_supports: "stance_count SUPPORTS (fst (refute_hypothesis t ids reason h)) = stance_count SUPPORTS h"
proof -
  have "filter (\<lambda>l. link_stance l = SUPPORTS) ls = filter (\<lambda>l. link_stance l = SUPPORTS) (hyp_links h)"
    if "append_refuting hid reason known ids (hyp_links h) = (ls, err)" for hid known ls err
    using append_refuting_supports [of hid reason known ids "hyp_links h"] that by simp
  then show ?thesis
    by (simp add: refute_hypothesis_def stance_count_def Let_def split: prod.split option.split)
qed

lemma claim_fields:
  "hyp_initial_likelihood (update_hypothesis_likelihood q t c h) = hyp_initial_likelihood h"
  "stance_count s (update_hypothesis_likelihood q t c h) = stance_count s h"
  "hyp_likelihood (update_hypothesis_likelihood q t c h) = likelihood_after_update h q c"
  by (simp_all add: update_hypothesis_likelihood_def Let_def stance_count_def check_state_transition_def)

lemma unearned_claim:
  assumes "unearned h" "\<not> chain_root_confidently_supported h c"
  shows "unearned (update_hypothesis_likelihood q t c h)"
proof -
  have "\<not> list_ex (\<lambda>l. link_stance l = SUPPORTS \<and> P l) (hyp_links h)" for P
    using assms(1) by (auto simp: unearned_def stance_count_def filter_empty_conv list_ex_iff)
  then have "likelihood_after_update h q c \<le> max (hyp_likelihood h) NEW_HYPOTHESIS_MAX_PRIOR"
    using assms(2) unfolding likelihood_after_update_def Let_def by (simp only: simp_thms not_less if_bool_eq_conj) auto
  with assms(1) show ?thesis by (auto simp: unearned_def claim_fields)
qed

lemma evidential_unearned:
  assumes "stance_count SUPPORTS h = 0" "hyp_initial_likelihood h \<le> NEW_HYPOTHESIS_MAX_PRIOR"
  shows "hyp_likelihood (update_likelihood_from_evidence t hold h) \<le> NEW_HYPOTHESIS_MAX_PRIOR"
proof -
  have "hyp_initial_likelihood h - 20 / 100 * of_nat n \<le> NEW_HYPOTHESIS_MAX_PRIOR" for n
    using assms(2) by (smt (verit) of_nat_0_le_iff mult_nonneg_nonneg diff_le_eq le_add_same_cancel1 order_trans zero_le_divide_iff zero_le_numeral)
  moreover have "0 \<le> NEW_HYPOTHESIS_MAX_PRIOR" by (simp add: manager_constants)
  ultimately show ?thesis using assms(1)
    by (simp add: update_from_evidence_likelihood evidential_likelihood_def stance_count_table min.coboundedI2)
qed

lemma stance_count_frame [simp]:
  "stance_count s (update_likelihood_from_evidence t hold h) = stance_count s h"
  by (simp add: stance_count_def)

lemma unearned_refresh:
  assumes "stance_count SUPPORTS h = 0" "hyp_initial_likelihood h \<le> NEW_HYPOTHESIS_MAX_PRIOR"
  shows "unearned (update_likelihood_from_evidence t hold h)"
  using assms evidential_unearned [OF assms] by (simp add: unearned_def)

lemma update_first_no_supports:
  "filter P xs = [] \<Longrightarrow> \<not> P y \<Longrightarrow> filter P (update_first Q (\<lambda>_. y) xs) = []"
  by (induction xs) (auto split: if_splits)

lemma unearned_link:
  assumes "link_evidence eid s t reasoning q hold h = Inr (h', m)" "unearned h" "s \<noteq> SUPPORTS"
  shows "unearned h'"
proof -
  have u: "filter (\<lambda>l. link_stance l = SUPPORTS) (hyp_links h) = []"
    "hyp_initial_likelihood h \<le> NEW_HYPOTHESIS_MAX_PRIOR" "hyp_likelihood h \<le> NEW_HYPOTHESIS_MAX_PRIOR"
    using assms(2) by (simp_all add: unearned_def stance_count_def)
  show ?thesis using assms(1)
  proof (cases rule: link_evidence_cases)
    case (new l)
    then show ?thesis using u assms(3) by (auto simp: stance_count_def intro!: unearned_refresh)
  next
    case (old l prior)
    then have "filter (\<lambda>l. link_stance l = SUPPORTS) (update_first (\<lambda>l. link_evidence_id l = eid) (\<lambda>_. l) (hyp_links h)) = []"
      using update_first_no_supports [OF u(1)] assms(3) by simp
    then have n: "stance_count SUPPORTS (h\<lparr>hyp_links := update_first (\<lambda>l. link_evidence_id l = eid) (\<lambda>_. l) (hyp_links h)\<rparr>) = 0"
      by (simp add: stance_count_def)
    then have "unearned (update_likelihood_from_evidence t hold (h\<lparr>hyp_links := update_first (\<lambda>l. link_evidence_id l = eid) (\<lambda>_. l) (hyp_links h)\<rparr>))"
      by (rule unearned_refresh) (simp add: u)
    moreover have "unearned (h\<lparr>hyp_links := update_first (\<lambda>l. link_evidence_id l = eid) (\<lambda>_. l) (hyp_links h)\<rparr>)"
      using n u by (simp add: unearned_def)
    ultimately show ?thesis using old(5) by simp
  qed
qed

lemma decay_le: "0 \<le> hyp_likelihood h \<Longrightarrow> hyp_likelihood (apply_likelihood_decay t h) \<le> hyp_likelihood h"
  using decay_bounds(2) by (simp add: apply_likelihood_decay_def)

lemma small_step_fields:
  "stance_count s (advance_stagnation_if_ignored t c b h) = stance_count s h"
  "hyp_likelihood (advance_stagnation_if_ignored t c b h) = hyp_likelihood h"
  "hyp_initial_likelihood (advance_stagnation_if_ignored t c b h) = hyp_initial_likelihood h"
  "stance_count s (apply_likelihood_decay t h) = stance_count s h"
  "hyp_initial_likelihood (apply_likelihood_decay t h) = hyp_initial_likelihood h"
  "stance_count s (fst (retire_if_aged_out c t h)) = stance_count s h"
  "hyp_likelihood (fst (retire_if_aged_out c t h)) = hyp_likelihood h"
  "hyp_initial_likelihood (fst (retire_if_aged_out c t h)) = hyp_initial_likelihood h"
  "stance_count s (retired_by_anchoring t c' h) = stance_count s h"
  "hyp_likelihood (retired_by_anchoring t c' h) = hyp_likelihood h"
  "hyp_initial_likelihood (retired_by_anchoring t c' h) = hyp_initial_likelihood h"
  by (simp_all add: advance_stagnation_if_ignored_def apply_likelihood_decay_def retire_if_aged_out_def
      retired_by_anchoring_def stance_count_def)

lemma unearned_event:
  assumes "apply_event e h = Inr h'" "unearned h" "\<not> earns h e" "0 \<le> hyp_likelihood h"
  shows "unearned h'"
proof (cases e)
  case (LinkRow eid s t reasoning q hold)
  then obtain m where "link_evidence eid s t reasoning q hold h = Inr (h', m)"
    using assms(1) by (auto simp: apply_event_def split: sum.splits)
  then show ?thesis using unearned_link assms(2,3) LinkRow by simp
next
  case (Claim q t c)
  then show ?thesis using assms unearned_claim by (auto simp: apply_event_def)
next
  case (Refute t ids reason)
  then show ?thesis
    using assms by (auto simp: apply_event_def unearned_def refute_fields refute_supports manager_constants)
next
  case (Decay t)
  then show ?thesis using assms decay_le [OF assms(4), of t]
    by (auto simp: apply_event_def unearned_def small_step_fields)
next
  case (Attach r path)
  then show ?thesis using assms by (auto simp: apply_event_def unearned_def stance_count_def)
qed (use assms in \<open>auto simp: apply_event_def unearned_def small_step_fields\<close>)

lemma unearned_run:
  assumes "try_fold apply_event evs h0 = Inr h" "hypothesis_valid h0" "unearned h0"
    "list_all (\<lambda>e. 0 \<le> event_turn e) evs" "\<not> earned evs h0"
  shows "unearned h"
  using assms
proof (induction evs arbitrary: h0)
  case (Cons e evs)
  obtain h1 where h1: "apply_event e h0 = Inr h1" "try_fold apply_event evs h1 = Inr h"
    using Cons.prems(1) by (auto split: sum.splits)
  have "unearned h1"
    using unearned_event [OF h1(1)] Cons.prems by (auto simp: hypothesis_valid_def unit_interval_def)
  moreover have "hypothesis_valid h1" using apply_event_valid [OF h1(1)] Cons.prems by simp
  ultimately show ?case using Cons.IH [OF h1(2)] Cons.prems(4,5) h1(1) by simp
qed simp

section \<open>Properties\<close>

text \<open>C24: A hypothesis the manager creates stays one the store reads back, through any sequence of linking,
  claims, ageing, decay, retirement and refutation at turns that are not negative: its likelihood
  stays between 0 and 1, its counters stay non-negative, a refutation reason stands exactly on a
  refuted hypothesis, and every link keeps its bounds.\<close>

theorem manager_keeps_hypotheses_valid:
  assumes "create_hypothesis hid statement cat prior t mode = Inr h0"
    and "try_fold apply_event evs h0 = Inr h" "list_all (\<lambda>e. 0 \<le> event_turn e) evs"
  shows "hypothesis_valid h"
proof (rule try_fold_invariant [where I = hypothesis_valid, OF assms(2)])
  show "hypothesis_valid h0" by (rule create_valid(1) [OF assms(1)])
  fix e s s'
  assume "e \<in> set evs" "hypothesis_valid s" "apply_event e s = Inr s'"
  then show "hypothesis_valid s'" using assms(3) apply_event_valid by (auto simp: list_all_iff)
qed

text \<open>However its rows were linked and relinked, in whatever order, the likelihood of a hypothesis is its prior
  plus 0.15 for each row whose last stance supports it and minus 0.20 for each whose last stance
  refutes it, clamped to [0, 1]: a row counts once, and restating it changes nothing.\<close>

theorem likelihood_counts_each_row_once:
  assumes "create_hypothesis hid statement cat prior t mode = Inr h0"
    and "try_fold apply_event evs h0 = Inr h" "list_all (\<lambda>e. link_row e \<noteq> None) evs"
  shows "hyp_likelihood h = evidential_likelihood (min (max 0 prior) NEW_HYPOTHESIS_MAX_PRIOR)
    (last_stances (List.map_filter link_row evs))"
proof -
  note c = create_valid [OF assms(1)]
  have i: "hyp_initial_likelihood h0 = min (max 0 prior) NEW_HYPOTHESIS_MAX_PRIOR"
    using assms(1) by (auto simp: create_hypothesis_def Let_def split: if_splits option.splits)
  have "link_table h0 = last_stances []" using c(3) by (simp add: link_table_def last_stances_def)
  moreover have "hyp_likelihood h0 = evidential_likelihood (hyp_initial_likelihood h0) (link_table h0)"
    using c(1,3,4) by (simp add: evidential_likelihood_def link_table_def dict_values_def hypothesis_valid_def unit_interval_def)
  ultimately have "link_table h = last_stances ([] @ List.map_filter link_row evs)
      \<and> hyp_likelihood h = evidential_likelihood (hyp_initial_likelihood h0) (link_table h)"
    by (rule linked_rows [OF assms(2,3)])
  then show ?thesis using i by simp
qed

text \<open>C25: Belief above the prior cap has to be earned: a hypothesis whose likelihood reaches the level at which
  a cause counts as identified was linked to a supporting row or had a claim made while its chain
  root was confidently supported, at some point of its history. Restating, ageing and refuting never
  lift it there.\<close>

theorem identification_needs_support:
  assumes "create_hypothesis hid statement cat prior t mode = Inr h0"
    and "try_fold apply_event evs h0 = Inr h" "list_all (\<lambda>e. 0 \<le> event_turn e) evs"
    and "hyp_likelihood h \<ge> CAUSE_IDENTIFIED_LIKELIHOOD"
  shows "earned evs h0"
proof (rule ccontr)
  assume "\<not> earned evs h0"
  moreover have "unearned h0" using create_valid [OF assms(1)] by (simp add: unearned_def stance_count_def)
  ultimately have "unearned h"
    using unearned_run [OF assms(2) create_valid(1) [OF assms(1)] _ assms(3)] by blast
  then show False using assms(4) by (simp add: unearned_def manager_constants)
qed

section \<open>Example\<close>

definition ex_created :: "validation_error + hypothesis" where
  "ex_created = create_hypothesis ''h'' ''pool exhausted'' ''config'' (9 / 10) 1 SYSTEMATIC"

definition ex_events :: "manager_event list" where
  "ex_events = [LinkRow ''e1'' SUPPORTS 2 ''seen'' None False, LinkRow ''e2'' REFUTES 3 ''absent'' (Some (7 / 10)) True,
     LinkRow ''e2'' SUPPORTS 4 ''present after all'' None False]"

definition ex_history :: "validation_error + hypothesis" where
  "ex_history = (case ex_created of Inl e \<Rightarrow> Inl e | Inr h0 \<Rightarrow> try_fold apply_event ex_events h0)"

lemma ex_history_likelihood: "case ex_history of Inl _ \<Rightarrow> False | Inr h \<Rightarrow> hyp_likelihood h = 8 / 10"
  by code_simp

lemma sum_case_Inr: "(case x of Inl e \<Rightarrow> Inl e | Inr y \<Rightarrow> f y) = Inr z \<Longrightarrow> \<exists>y. x = Inr y \<and> f y = Inr z"
  by (cases x) simp_all

lemma ex_history_runs:
  obtains h0 h where "ex_created = Inr h0" "try_fold apply_event ex_events h0 = Inr h" "ex_history = Inr h"
proof -
  obtain h where h: "ex_history = Inr h" using ex_history_likelihood by (auto split: sum.splits)
  then show thesis using that sum_case_Inr [OF h [unfolded ex_history_def]] by blast
qed

theorem manager_keeps_hypotheses_valid_witness:
  "\<exists>h. ex_history = Inr h \<and> hypothesis_valid h"
proof -
  obtain h0 h where h: "ex_created = Inr h0" "try_fold apply_event ex_events h0 = Inr h" "ex_history = Inr h"
    by (rule ex_history_runs)
  have "hypothesis_valid h"
    by (rule manager_keeps_hypotheses_valid [OF h(1) [unfolded ex_created_def] h(2)]) (simp add: ex_events_def)
  with h(3) show ?thesis by blast
qed

theorem likelihood_counts_each_row_once_witness:
  "\<exists>h. ex_history = Inr h \<and> hyp_likelihood h = evidential_likelihood (1 / 2) [(''e1'', SUPPORTS), (''e2'', SUPPORTS)]"
proof -
  obtain h0 h where h: "ex_created = Inr h0" "try_fold apply_event ex_events h0 = Inr h" "ex_history = Inr h"
    by (rule ex_history_runs)
  have "hyp_likelihood h = evidential_likelihood (min (max 0 (9 / 10)) NEW_HYPOTHESIS_MAX_PRIOR)
    (last_stances (List.map_filter link_row ex_events))"
    by (rule likelihood_counts_each_row_once [OF h(1) [unfolded ex_created_def] h(2)]) (simp add: ex_events_def)
  then have "hyp_likelihood h = evidential_likelihood (1 / 2) [(''e1'', SUPPORTS), (''e2'', SUPPORTS)]"
    by (simp add: ex_events_def map_filter_simps last_stances_def dict_put_def NEW_HYPOTHESIS_MAX_PRIOR_def)
  with h(3) show ?thesis by blast
qed

theorem identification_needs_support_witness:
  "\<exists>h0. ex_created = Inr h0 \<and> earned ex_events h0"
proof -
  obtain h0 h where h: "ex_created = Inr h0" "try_fold apply_event ex_events h0 = Inr h" "ex_history = Inr h"
    by (rule ex_history_runs)
  have "earned ex_events h0"
    by (rule identification_needs_support [OF h(1) [unfolded ex_created_def] h(2)])
      (use ex_history_likelihood [unfolded h(3) sum.case] in \<open>simp_all add: ex_events_def CAUSE_IDENTIFIED_LIKELIHOOD_def\<close>)
  with h(1) show ?thesis by blast
qed

end
