(* ===== verification/Housekeeping_Laws.thy ===== *)
theory Housekeeping_Laws
  imports Hypothesis_Laws
begin

text \<open>
  The housekeeping of a turn over the whole set of hypotheses: what it may change, and that a
  hypothesis nobody works on does not stay open for ever.
\<close>

section \<open>Loops over the active hypotheses\<close>

definition map_at :: "(hypothesis \<Rightarrow> hypothesis) \<Rightarrow> string \<Rightarrow> (string, hypothesis) pydict \<Rightarrow> (string, hypothesis) pydict" where
  "map_at g k d = dict_put k (g (object_at d k)) d"

lemma map_at_keys [simp]: "k \<in> set (dict_keys d) \<Longrightarrow> dict_keys (map_at g k d) = dict_keys d"
  by (simp add: map_at_def)

lemma map_at_get: "k \<in> set (dict_keys d) \<Longrightarrow>
    dict_get (map_at g k d) k' = (if k' = k then map_option g (dict_get d k) else dict_get d k')"
  using dict_key_get [of k d] by (auto simp: map_at_def object_at_def)

lemma fold_map_at_keys [simp]:
  "set ks \<subseteq> set (dict_keys d) \<Longrightarrow> dict_keys (fold (map_at g) ks d) = dict_keys d"
  by (induction ks arbitrary: d) auto

lemma fold_map_at_get:
  assumes "distinct ks" "set ks \<subseteq> set (dict_keys d)"
  shows "dict_get (fold (map_at g) ks d) k = (if k \<in> set ks then map_option g (dict_get d k) else dict_get d k)"
  using assms by (induction ks arbitrary: d) (auto simp: map_at_get)

lemma update_case_simps [simp]:
  "case_nodes (update_case_hypotheses f c) = case_nodes c"
  "case_edges (update_case_hypotheses f c) = case_edges c"
  "case_evidence (update_case_hypotheses f c) = case_evidence c"
  "case_current_turn (update_case_hypotheses f c) = case_current_turn c"
  "case_hypotheses (update_case_hypotheses f c) = f (case_hypotheses c)"
  "case_symptom_statement (update_case_hypotheses f c) = case_symptom_statement c"
  by (simp_all add: update_case_hypotheses_def)

lemma update_case_twice: "update_case_hypotheses f (update_case_hypotheses g c) = update_case_hypotheses (f \<circ> g) c"
  by (simp add: update_case_hypotheses_def)

lemma category_map_update [simp]: "evidence_category_map (update_case_hypotheses f c) = evidence_category_map c"
  by (rule category_map_cong) simp

lemma support_stands_update [simp]: "causal_support_stands h (update_case_hypotheses f c) = causal_support_stands h c"
  by (simp add: causal_support_stands_def)

text \<open>
  The restatement guard reads the standing hypotheses, so the count-held roots depend on the state,
  statement and root of every hypothesis, and on nothing else of them.
\<close>

definition standing_key :: "hypothesis \<Rightarrow> hypothesis_state \<times> string \<times> string option" where
  "standing_key h = (hyp_state h, hyp_statement h, hyp_root h)"

lemma values_put_key:
  "dict_get d k = Some h \<Longrightarrow> standing_key h' = standing_key h \<Longrightarrow>
     map standing_key (dict_values (dict_put k h' d)) = map standing_key (dict_values d)"
  by (induction d) (auto simp: dict_put_def dict_values_def split: if_splits)

lemma frame_by_keys:
  "map standing_key hs' = map standing_key hs \<Longrightarrow>
     concat (map F (filter (\<lambda>h. hyp_state h \<in> S) hs')) = concat (map F (filter (\<lambda>h. hyp_state h \<in> S) hs))"
  if "\<And>h h'. standing_key h = standing_key h' \<Longrightarrow> F h = F h'"
proof (induction hs arbitrary: hs')
  case (Cons h hs)
  then obtain h' t where e: "hs' = h' # t" "standing_key h' = standing_key h" "map standing_key t = map standing_key hs"
    by (cases hs') auto
  have "F h' = F h" "hyp_state h' = hyp_state h" using that [OF e(2)] e(2) by (simp_all add: standing_key_def)
  with Cons.IH [OF e(3)] show ?case by (simp add: e(1))
qed simp

lemma count_held_cong:
  assumes "map standing_key (dict_values (f (case_hypotheses c))) = map standing_key (dict_values (case_hypotheses c))"
  shows "support_count_held_root_ids (update_case_hypotheses f c) = support_count_held_root_ids c"
proof -
  let ?F = "\<lambda>h. if hyp_statement h \<noteq> [] \<and> content_tokens (hyp_statement h) \<noteq> {}
        then [(hyp_root h, content_tokens (hyp_statement h))] else []"
  have "concat (map ?F (filter (\<lambda>h. hyp_state h \<in> set STANDING_HYP_STATES) (dict_values (f (case_hypotheses c)))))
      = concat (map ?F (filter (\<lambda>h. hyp_state h \<in> set STANDING_HYP_STATES) (dict_values (case_hypotheses c))))"
    by (rule frame_by_keys [OF _ assms]) (simp add: standing_key_def)
  moreover have "problem_anchor_statements (update_case_hypotheses f c) = problem_anchor_statements c"
    by (simp add: problem_anchor_statements_def)
  ultimately have "frame_components (update_case_hypotheses f c) = frame_components c"
    by (simp only: frame_components_def standing_hypotheses_def update_case_simps)
  moreover have "causal_evidence_tokens (update_case_hypotheses f c) = causal_evidence_tokens c"
    by (simp add: causal_evidence_tokens_def)
  moreover have "has_unsettled_root (update_case_hypotheses f c) = has_unsettled_root c"
    by (simp add: has_unsettled_root_def)
  ultimately show ?thesis
    by (simp only: support_count_held_root_ids_def root_support_block_reasons_def restating_root_ids_def
        update_case_simps category_map_update)
qed

text \<open>The ageing of one hypothesis, and the last exit of one that nothing flags or protects.\<close>

definition aged :: "case_data \<Rightarrow> bool \<Rightarrow> string set \<Rightarrow> hypothesis \<Rightarrow> hypothesis" where
  "aged c turn_counts awaited h = apply_likelihood_decay (case_current_turn c)
     (advance_stagnation_if_ignored (case_current_turn c) c (turn_counts \<and> hyp_id h \<notin> awaited) h)"

definition exited :: "case_data \<Rightarrow> string set \<Rightarrow> string set \<Rightarrow> hypothesis \<Rightarrow> hypothesis" where
  "exited c flagged held h = (if hyp_id h \<notin> flagged \<and> \<not> protected_root h (case_nodes c) held
     then fst (retire_if_aged_out c (case_current_turn c) h) else h)"

lemma advance_update [simp]:
  "advance_stagnation_if_ignored t (update_case_hypotheses f c) b h = advance_stagnation_if_ignored t c b h"
  by (simp add: advance_stagnation_if_ignored_def)

lemma age_out_update [simp]: "retire_if_aged_out (update_case_hypotheses f c) t h = retire_if_aged_out c t h"
  by (simp add: retire_if_aged_out_def)

lemma aged_update [simp]: "aged (update_case_hypotheses f c) b w h = aged c b w h"
  by (simp add: aged_def)

lemma exited_update [simp]: "exited (update_case_hypotheses f c) fl held h = exited c fl held h"
  by (simp add: exited_def)

lemma age_fold:
  "fold (age_hypothesis b w) ks (update_case_hypotheses f c)
     = update_case_hypotheses (fold (map_at (aged c b w)) ks \<circ> f) c"
proof (induction ks arbitrary: f)
  case (Cons k ks)
  have "age_hypothesis b w k (update_case_hypotheses f c) = update_case_hypotheses (map_at (aged c b w) k \<circ> f) c"
    by (simp add: age_hypothesis_def Let_def aged_def) (simp add: update_case_hypotheses_def map_at_def aged_def)
  with Cons [of "map_at (aged c b w) k \<circ> f"] show ?case by (simp add: comp_def)
qed (simp add: comp_def)

lemma exit_fold:
  assumes "set ks \<subseteq> set (dict_keys (f (case_hypotheses c)))"
  shows "fold (age_out_one fl held) ks (update_case_hypotheses f c)
     = update_case_hypotheses (fold (map_at (exited c fl held)) ks \<circ> f) c"
  using assms
proof (induction ks arbitrary: f)
  case (Cons k ks)
  let ?d = "f (case_hypotheses c)"
  have same: "dict_put k (object_at ?d k) ?d = ?d"
    using Cons.prems dict_key_get [of k ?d] by (auto simp: object_at_def dict_put_same)
  have "age_out_one fl held k (update_case_hypotheses f c)
      = update_case_hypotheses (map_at (exited c fl held) k \<circ> f) c"
    using same by (simp add: age_out_one_def Let_def) (simp add: update_case_hypotheses_def map_at_def exited_def)
  with Cons.IH [of "map_at (exited c fl held) k \<circ> f"] Cons.prems show ?case by (simp add: comp_def)
qed (simp add: comp_def)


section \<open>Forced alternatives\<close>

lemma by_id_get:
  assumes "inj_on (\<lambda>i. hyp_id (hs ! i)) {..<n}" "n \<le> length hs"
  shows "dict_get (fold (\<lambda>i d. dict_put (hyp_id (hs ! i)) i d) [0..<n] []) x = Some i \<longleftrightarrow> i < n \<and> hyp_id (hs ! i) = x"
  using assms
proof (induction n)
  case (Suc n)
  then have "inj_on (\<lambda>i. hyp_id (hs ! i)) {..<n}" by (auto simp: inj_on_def)
  with Suc have IH: "dict_get (fold (\<lambda>i d. dict_put (hyp_id (hs ! i)) i d) [0..<n] []) x = Some i \<longleftrightarrow> i < n \<and> hyp_id (hs ! i) = x"
    by simp
  have "hyp_id (hs ! j) \<noteq> hyp_id (hs ! n)" if "j < n" for j
    using Suc.prems(1) that by (auto simp: inj_on_def)
  with IH show ?case by (auto simp: less_Suc_eq)
qed simp

text \<open>Forcing retires exactly the targets that are active and have stalled for two turns.\<close>

definition forced :: "int \<Rightarrow> case_data option \<Rightarrow> bool \<Rightarrow> hypothesis \<Rightarrow> hypothesis" where
  "forced t c targeted h = (if targeted \<and> hyp_state h = H_ACTIVE \<and> hyp_iterations_without_progress h \<ge> 2
     then retired_by_anchoring t c h else h)"

lemma retired_by_anchoring_fields [simp]:
  "hyp_state (retired_by_anchoring t c h) = H_RETIRED"
  "hyp_retirement_reason (retired_by_anchoring t c h) \<noteq> None"
  "hyp_id (retired_by_anchoring t c h) = hyp_id h"
  by (simp_all add: retired_by_anchoring_def)

lemma force_fold:
  assumes "i < length hs"
  shows "length (fst (fold (force_one places t c) targets (hs, r))) = length hs"
    "fst (fold (force_one places t c) targets (hs, r)) ! i
       = forced t c (\<exists>hid \<in> set targets. dict_get places hid = Some i) (hs ! i)"
proof -
  have "length (fst (fold (force_one places t c) targets (hs, r))) = length hs
    \<and> fst (fold (force_one places t c) targets (hs, r)) ! i
       = forced t c (\<exists>hid \<in> set targets. dict_get places hid = Some i) (hs ! i)"
    using assms
  proof (induction targets arbitrary: hs r)
    case (Cons x targets)
    obtain hs1 r1 where 1: "force_one places t c x (hs, r) = (hs1, r1)" by fastforce
    then have "length hs1 = length hs" "hs1 ! i = forced t c (dict_get places x = Some i) (hs ! i)"
      using Cons.prems by (auto simp: force_one_def forced_def split: option.splits if_splits) (metis nth_list_update_neq)+
    with Cons.IH [of hs1 r1] Cons.prems show ?case by (auto simp: 1 forced_def)
  qed (simp add: forced_def)
  then show "length (fst (fold (force_one places t c) targets (hs, r))) = length hs"
    "fst (fold (force_one places t c) targets (hs, r)) ! i
       = forced t c (\<exists>hid \<in> set targets. dict_get places hid = Some i) (hs ! i)" by blast+
qed

lemma force_nth:
  assumes "distinct (map hyp_id hs)" "i < length hs"
  shows "fst (force_alternative_generation targets t c hs) ! i = forced t c (hyp_id (hs ! i) \<in> set targets) (hs ! i)"
proof -
  have inj: "inj_on (\<lambda>i. hyp_id (hs ! i)) {..<length hs}"
    using assms(1) by (auto simp: inj_on_def distinct_conv_nth)
  have "(\<exists>hid \<in> set targets. dict_get (by_id hs) hid = Some i) \<longleftrightarrow> hyp_id (hs ! i) \<in> set targets"
    using by_id_get [OF inj order_refl] assms(2) by (auto simp: by_id_def)
  then show ?thesis using force_fold(2) [OF assms(2)] by (simp add: force_alternative_generation_def)
qed

lemma length_force: "length (fst (force_alternative_generation targets t c hs)) = length hs"
proof (cases hs)
  case Nil
  have "fst (fold (force_one places t c) targets ([], r)) = []" for places r
  proof (induction targets arbitrary: r)
    case (Cons x xs)
    then show ?case by (cases "dict_get places x") (simp_all add: force_one_def)
  qed simp
  then show ?thesis by (simp add: force_alternative_generation_def Nil)
next
  case (Cons h t)
  then show ?thesis using force_fold(1) [of 0 hs] by (simp add: force_alternative_generation_def)
qed

lemma write_back_get:
  assumes "length ks = length hs" "distinct ks"
  shows "dict_get (fold (\<lambda>(k, h) d. dict_put k h d) (zip ks hs) d) k
    = (case map_of (zip ks hs) k of None \<Rightarrow> dict_get d k | Some h \<Rightarrow> Some h)"
  using assms
proof (induction ks hs arbitrary: d rule: list_induct2)
  case (Cons x xs y ys)
  have "map_of (zip xs ys) x = None" using Cons.prems Cons.hyps by (simp add: map_of_zip_is_None)
  with Cons.IH [of "dict_put x y d"] Cons.prems show ?case by (cases "k = x") (simp_all split: option.split)
qed simp

text \<open>Dictionaries in which every hypothesis is filed under its own id.\<close>

definition keyed :: "(string, hypothesis) pydict \<Rightarrow> bool" where
  "keyed d \<longleftrightarrow> dict_wf d \<and> list_all (\<lambda>(k, h). hyp_id h = k) d"

lemma keyed_get: "keyed d \<Longrightarrow> dict_get d k = Some h \<Longrightarrow> hyp_id h = k"
  by (auto simp: keyed_def dict_get_mem list_all_iff)

lemma keyed_iff: "keyed d \<longleftrightarrow> dict_wf d \<and> (\<forall>k h. dict_get d k = Some h \<longrightarrow> hyp_id h = k)"
  by (auto simp: keyed_def dict_get_mem list_all_iff)

lemma keyed_map_at:
  assumes "keyed d" "set ks \<subseteq> set (dict_keys d)" "distinct ks" "\<And>h. hyp_id (g h) = hyp_id h"
  shows "keyed (fold (map_at g) ks d)"
  using assms by (auto simp: keyed_iff fold_map_at_get)

text \<open>What acting on an anchoring does to each hypothesis.\<close>

definition unprotected_target :: "case_data \<Rightarrow> string list \<Rightarrow> hypothesis \<Rightarrow> bool" where
  "unprotected_target c ids h \<longleftrightarrow> hyp_id h \<in> set ids
     \<and> \<not> protected_root h (case_nodes c) (support_count_held_root_ids c)"

lemma act_get:
  assumes "keyed (case_hypotheses (hk_case s))" "distinct keys" "set keys \<subseteq> set (dict_keys (case_hypotheses (hk_case s)))"
  shows "dict_get (case_hypotheses (hk_case (act_on_anchoring reason ids keys s))) k
    = map_option (\<lambda>h. if k \<in> set keys
          then forced (case_current_turn (hk_case s)) (Some (hk_case s)) (unprotected_target (hk_case s) ids h) h else h)
        (dict_get (case_hypotheses (hk_case s)) k)"
proof -
  let ?c = "hk_case s" and ?d = "case_hypotheses (hk_case s)"
  let ?ts = "filter (\<lambda>hid. case dict_get ?d hid of None \<Rightarrow> False
           | Some h \<Rightarrow> \<not> protected_root h (case_nodes ?c) (support_count_held_root_ids ?c)) ids"
  let ?o = "map (object_at ?d) keys"
  define hs where "hs = fst (force_alternative_generation ?ts (case_current_turn ?c) (Some ?c) ?o)"
  have d: "dict_get (case_hypotheses (hk_case (act_on_anchoring reason ids keys s))) k
    = dict_get (fold (\<lambda>(k, h) d. dict_put k h d) (zip keys hs) ?d) k"
    by (simp add: act_on_anchoring_def Let_def hs_def split: prod.split)
  have obj: "dict_get ?d x = Some (object_at ?d x)" "hyp_id (object_at ?d x) = x" if "x \<in> set keys" for x
    using assms(1,3) that dict_key_get [of x ?d] keyed_get by (fastforce simp: object_at_def)+
  then have ids: "map hyp_id ?o = keys" by (simp add: map_idI)
  have len: "length hs = length keys" by (simp add: hs_def length_force)
  show ?thesis
  proof (cases "k \<in> set keys")
    case False
    then have "map_of (zip keys hs) k = None" using len by (simp add: map_of_zip_is_None)
    then show ?thesis using False write_back_get [OF len [symmetric] assms(2)]
      by (simp add: d option.map_ident cong: map_option_cong)
  next
    case True
    then obtain i where i: "i < length keys" "keys ! i = k" by (auto simp: in_set_conv_nth)
    then have "map_of (zip keys hs) k = Some (hs ! i)" using len assms(2) map_of_zip_nth [of keys hs i] by simp
    moreover have "hs ! i = forced (case_current_turn ?c) (Some ?c) (hyp_id (?o ! i) \<in> set ?ts) (?o ! i)"
      unfolding hs_def by (rule force_nth) (use ids assms(2) i in simp_all)
    moreover have "?o ! i = object_at ?d k" using i by simp
    moreover have "hyp_id (object_at ?d k) \<in> set ?ts \<longleftrightarrow> unprotected_target ?c ids (object_at ?d k)"
      using obj [OF True] by (auto simp: unprotected_target_def)
    ultimately show ?thesis
      using True obj(1) [OF True] write_back_get [OF len [symmetric] assms(2)] by (simp add: d)
  qed
qed

end
