(* ===== verification/Housekeeping_Properties.thy ===== *)
theory Housekeeping_Properties
  imports Housekeeping_Laws
begin

text \<open>
  What the housekeeping of a turn may do to a hypothesis, and that an ignored hypothesis without
  support is retired within twelve turns.
\<close>

section \<open>One turn seen from one hypothesis\<close>

lemma active_keys_mem:
  "dict_wf d \<Longrightarrow> k \<in> set (active_keys d) \<longleftrightarrow> (\<exists>h. dict_get d k = Some h \<and> hyp_state h = H_ACTIVE)"
  by (force simp: active_keys_def dict_get_mem)

lemma active_keys_dict: "set (active_keys d) \<subseteq> set (dict_keys d)" "dict_wf d \<Longrightarrow> distinct (active_keys d)"
  by (auto simp: active_keys_def dict_keys_def intro: distinct_map_filter)

lemma aged_fields [simp]:
  "hyp_id (aged c b w h) = hyp_id h" "hyp_state (aged c b w h) = hyp_state h"
  "hyp_root (aged c b w h) = hyp_root h" "hyp_path (aged c b w h) = hyp_path h" "hyp_links (aged c b w h) = hyp_links h"
  "hyp_statement (aged c b w h) = hyp_statement h" "standing_key (aged c b w h) = standing_key h"
  by (simp_all add: aged_def advance_stagnation_if_ignored_def apply_likelihood_decay_def standing_key_def)

lemma exited_fields [simp]:
  "hyp_id (exited c fl held h) = hyp_id h" "hyp_root (exited c fl held h) = hyp_root h"
  "hyp_path (exited c fl held h) = hyp_path h" "hyp_links (exited c fl held h) = hyp_links h"
  "hyp_statement (exited c fl held h) = hyp_statement h" "hyp_likelihood (exited c fl held h) = hyp_likelihood h"
  "hyp_iterations_without_progress (exited c fl held h) = hyp_iterations_without_progress h"
  by (simp_all add: exited_def retire_if_aged_out_def)

lemma forced_fields [simp]:
  "hyp_id (forced t c b h) = hyp_id h" "hyp_root (forced t c b h) = hyp_root h" "hyp_path (forced t c b h) = hyp_path h"
  "hyp_links (forced t c b h) = hyp_links h" "hyp_statement (forced t c b h) = hyp_statement h"
  "hyp_likelihood (forced t c b h) = hyp_likelihood h"
  "hyp_iterations_without_progress (forced t c b h) = hyp_iterations_without_progress h"
  by (simp_all add: forced_def retired_by_anchoring_def)

text \<open>The turn as one hypothesis sees it: aged, perhaps given its exit, perhaps forced out.\<close>

definition tended :: "house \<Rightarrow> bool \<Rightarrow> string set \<Rightarrow> bool \<Rightarrow> case_data \<Rightarrow> hypothesis \<Rightarrow> hypothesis" where
  "tended s counts fl act c2 h =
    (let h1 = aged (hk_case s) counts (hypotheses_awaiting_recent_evidence s ANTI_ANCHORING_COOLDOWN_TURNS) h;
         h2 = (if counts \<and> \<not> awaiting_recent_evidence s ANTI_ANCHORING_COOLDOWN_TURNS
               then exited (hk_case s) fl (support_count_held_root_ids (hk_case s)) h1 else h1)
     in forced (case_current_turn (hk_case s)) (Some c2)
          (act \<and> hyp_id h \<in> fl \<and> \<not> protected_root h (case_nodes (hk_case s)) (support_count_held_root_ids c2)) h2)"

lemma map_at_keys_values:
  assumes "keyed d" "set ks \<subseteq> set (dict_keys d)" "distinct ks" "\<And>h. standing_key (g h) = standing_key h"
  shows "map standing_key (dict_values (fold (map_at g) ks d)) = map standing_key (dict_values d)"
  using assms(2)
proof (induction ks arbitrary: d)
  case (Cons k ks)
  obtain h where "dict_get d k = Some h" using Cons.prems dict_key_get [of k d] by auto
  then have "map standing_key (dict_values (map_at g k d)) = map standing_key (dict_values d)"
    by (simp add: map_at_def object_at_def values_put_key assms(4))
  with Cons.IH [of "map_at g k d"] Cons.prems show ?case by simp
qed simp

lemma protected_root_cong: "hyp_root h' = hyp_root h \<Longrightarrow> protected_root h' ns S = protected_root h ns S"
  by (simp add: protected_root_def is_chain_root_validated_def cong: option.case_cong)

lemma act_last: "hk_last_anti_anchoring_turn (act_on_anchoring reason ids keys s) = case_current_turn (hk_case s)"
  "case_nodes (hk_case (act_on_anchoring reason ids keys s)) = case_nodes (hk_case s)"
  "case_evidence (hk_case (act_on_anchoring reason ids keys s)) = case_evidence (hk_case s)"
  "hk_feedback (act_on_anchoring reason ids keys s) \<noteq> hk_feedback s"
  by (auto simp: act_on_anchoring_def Let_def split: prod.split)

text \<open>One turn, with the set of flagged ids, whether anti-anchoring acted and the case it acted on.\<close>

definition turn_view :: "bool \<Rightarrow> house \<Rightarrow> house \<Rightarrow> string set \<Rightarrow> bool \<Rightarrow> case_data \<Rightarrow> bool" where
  "turn_view adv s s' fl act c2 \<longleftrightarrow>
     (act \<longleftrightarrow> fl \<noteq> {} \<and> \<not> awaiting_recent_evidence s ANTI_ANCHORING_COOLDOWN_TURNS
        \<and> case_current_turn (hk_case s) - hk_last_anti_anchoring_turn s \<ge> ANTI_ANCHORING_COOLDOWN_TURNS)
     \<and> hk_last_anti_anchoring_turn s' = (if act then case_current_turn (hk_case s) else hk_last_anti_anchoring_turn s)
     \<and> (hk_feedback s' = hk_feedback s \<longleftrightarrow> \<not> act)
     \<and> case_nodes c2 = case_nodes (hk_case s) \<and> case_evidence c2 = case_evidence (hk_case s)
     \<and> (\<forall>k. dict_get (case_hypotheses (hk_case s')) k = map_option (\<lambda>h. if hyp_state h = H_ACTIVE
          then tended s (adv \<or> is_stalled s) fl act c2 h else h) (dict_get (case_hypotheses (hk_case s)) k))"


lemma detected_ids: "detect_anchoring hs = (b, reason, ids) \<Longrightarrow> b \<longleftrightarrow> ids \<noteq> []"
  by (auto simp: detect_anchoring_def Let_def ANCHORING_SAME_CATEGORY_THRESHOLD_def find_Some_iff
      split: if_splits option.splits list.splits)

lemma aged_case:
  fixes b :: bool and w :: "string set" and k :: string
  assumes "keyed (case_hypotheses c)" "ks = active_keys (case_hypotheses c)"
  defines "A \<equiv> fold (map_at (aged c b w)) ks"
  shows "fold (age_hypothesis b w) ks c = update_case_hypotheses A c"
    "support_count_held_root_ids (update_case_hypotheses A c) = support_count_held_root_ids c"
    "keyed (A (case_hypotheses c))" "dict_keys (A (case_hypotheses c)) = dict_keys (case_hypotheses c)"
    "dict_get (A (case_hypotheses c)) k
      = map_option (\<lambda>h. if hyp_state h = H_ACTIVE then aged c b w h else h) (dict_get (case_hypotheses c) k)"
proof -
  have wf: "dict_wf (case_hypotheses c)" using assms(1) by (simp add: keyed_def)
  have sub: "set ks \<subseteq> set (dict_keys (case_hypotheses c))" "distinct ks"
    using active_keys_dict [of "case_hypotheses c"] wf assms(2) by auto
  show "fold (age_hypothesis b w) ks c = update_case_hypotheses A c"
    using age_fold [of b w ks id c] by (simp add: A_def update_case_hypotheses_def)
  show "support_count_held_root_ids (update_case_hypotheses A c) = support_count_held_root_ids c"
    by (rule count_held_cong) (use map_at_keys_values [OF assms(1) sub] in \<open>simp add: A_def\<close>)
  show "keyed (A (case_hypotheses c))" unfolding A_def by (rule keyed_map_at [OF assms(1) sub]) simp
  show "dict_keys (A (case_hypotheses c)) = dict_keys (case_hypotheses c)" using sub(1) by (simp add: A_def)
  show "dict_get (A (case_hypotheses c)) k
      = map_option (\<lambda>h. if hyp_state h = H_ACTIVE then aged c b w h else h) (dict_get (case_hypotheses c) k)"
    using fold_map_at_get [OF sub(2,1), of "aged c b w" k] active_keys_mem [OF wf, of k]
    by (cases "dict_get (case_hypotheses c) k") (auto simp: A_def assms(2))
qed

lemma exited_case:
  fixes fl held :: "string set" and k :: string
  assumes "keyed d" "distinct ks" "set ks \<subseteq> set (dict_keys d)" "d = f (case_hypotheses c)"
  defines "E \<equiv> fold (map_at (exited c fl held)) ks"
  shows "fold (age_out_one fl held) ks (update_case_hypotheses f c) = update_case_hypotheses (E \<circ> f) c"
    "keyed (E d)" "dict_keys (E d) = dict_keys d"
    "dict_get (E d) k = map_option (\<lambda>h. if k \<in> set ks then exited c fl held h else h) (dict_get d k)"
proof -
  show "fold (age_out_one fl held) ks (update_case_hypotheses f c) = update_case_hypotheses (E \<circ> f) c"
    unfolding E_def by (rule exit_fold) (use assms(3,4) in simp)
  show "keyed (E d)" unfolding E_def by (rule keyed_map_at [OF assms(1,3,2)]) simp
  show "dict_keys (E d) = dict_keys d" using assms(3) by (simp add: E_def)
  show "dict_get (E d) k = map_option (\<lambda>h. if k \<in> set ks then exited c fl held h else h) (dict_get d k)"
    using fold_map_at_get [OF assms(2,3)] by (cases "dict_get d k") (auto simp: E_def)
qed

lemma housekeeping_view:
  assumes keyed: "keyed (case_hypotheses (hk_case s))"
  shows "\<exists>fl act c2. turn_view adv s (perform_hypothesis_housekeeping adv s) fl act c2"
proof (cases "active_keys (case_hypotheses (hk_case s)) = []")
  case True
  have "hyp_state h \<noteq> H_ACTIVE" if "dict_get (case_hypotheses (hk_case s)) k = Some h" for k h
    using True active_keys_mem [of "case_hypotheses (hk_case s)" k] keyed that by (auto simp: keyed_def)
  then have "dict_get (case_hypotheses (hk_case s)) k = map_option (\<lambda>h. if hyp_state h = H_ACTIVE
      then tended s (adv \<or> is_stalled s) {} False (hk_case s) h else h) (dict_get (case_hypotheses (hk_case s)) k)" for k
    by (cases "dict_get (case_hypotheses (hk_case s)) k") auto
  then have "turn_view adv s s {} False (hk_case s)" by (simp add: turn_view_def)
  moreover have "perform_hypothesis_housekeeping adv s = s" using True by (simp add: perform_hypothesis_housekeeping_def)
  ultimately show ?thesis by metis
next
  case False
  let ?c = "hk_case s" and ?b = "adv \<or> is_stalled s"
  let ?ks = "active_keys (case_hypotheses ?c)"
  let ?w = "hypotheses_awaiting_recent_evidence s ANTI_ANCHORING_COOLDOWN_TURNS"
    and ?aw = "awaiting_recent_evidence s ANTI_ANCHORING_COOLDOWN_TURNS"
  define A where "A = fold (map_at (aged ?c ?b ?w)) ?ks"
  obtain anch reason ids where det: "detect_anchoring (map (object_at (A (case_hypotheses ?c))) ?ks) = (anch, reason, ids)"
    by (metis prod_cases3)
  define held where "held = support_count_held_root_ids ?c"
  define E where "E = (if ?b \<and> \<not> ?aw then fold (map_at (exited ?c (set ids) held)) ?ks else id)"
  define c2 where "c2 = update_case_hypotheses (E \<circ> A) ?c"
  define act where "act \<longleftrightarrow> anch \<and> \<not> ?aw \<and> case_current_turn ?c - hk_last_anti_anchoring_turn s \<ge> ANTI_ANCHORING_COOLDOWN_TURNS"
  note aged = aged_case [OF keyed refl, of ?b ?w, folded A_def]
  have sub: "distinct ?ks" "set ?ks \<subseteq> set (dict_keys (A (case_hypotheses ?c)))"
    using active_keys_dict [of "case_hypotheses ?c"] keyed aged(4) by (auto simp: keyed_def)
  note exited = exited_case [OF aged(3) sub, where f = A and c = ?c and fl = "set ids" and held = held, OF refl]
  have anch: "anch \<longleftrightarrow> set ids \<noteq> {}" using detected_ids [OF det] by simp
  have run: "perform_hypothesis_housekeeping adv s
      = (if act then act_on_anchoring reason ids ?ks (s\<lparr>hk_case := c2\<rparr>) else s\<lparr>hk_case := c2\<rparr>)"
  proof -
    have c2': "(if ?b \<and> \<not> ?aw then fold (age_out_one (set ids) held) ?ks (update_case_hypotheses A ?c)
        else update_case_hypotheses A ?c) = c2"
      using exited(1) by (auto simp: c2_def E_def)
    have c2s: "case_current_turn c2 = case_current_turn ?c" by (simp add: c2_def)
    have h: "support_count_held_root_ids (update_case_hypotheses A ?c) = held" using aged(2) by (simp add: held_def)
    have fl: "(if anch then set ids else {}) = set ids" using anch by auto
    have "perform_hypothesis_housekeeping adv s = (if \<not> anch then s\<lparr>hk_case := c2\<rparr> else if ?aw then s\<lparr>hk_case := c2\<rparr>
        else if case_current_turn c2 - hk_last_anti_anchoring_turn (s\<lparr>hk_case := c2\<rparr>) < ANTI_ANCHORING_COOLDOWN_TURNS
        then s\<lparr>hk_case := c2\<rparr> else act_on_anchoring reason ids ?ks (s\<lparr>hk_case := c2\<rparr>))"
      unfolding perform_hypothesis_housekeeping_def Let_def
      by (simp only: False if_False aged(1) update_case_simps det prod.case h fl c2')
    then show ?thesis by (auto simp: act_def c2s)
  qed
  have wf: "dict_wf (case_hypotheses ?c)" using keyed by (simp add: keyed_def)
  have c2d: "case_hypotheses c2 = E (A (case_hypotheses ?c))" by (simp add: c2_def)
  have c2t: "case_current_turn c2 = case_current_turn ?c" by (simp add: c2_def)
  have kc2: "keyed (case_hypotheses c2)" "dict_keys (case_hypotheses c2) = dict_keys (A (case_hypotheses ?c))"
    using aged(3) exited(2,3) by (simp_all add: c2d E_def)
  have get: "dict_get (case_hypotheses c2) k = map_option (\<lambda>h. if hyp_state h = H_ACTIVE
      then (if ?b \<and> \<not> ?aw then exited ?c (set ids) held (aged ?c ?b ?w h) else aged ?c ?b ?w h) else h)
      (dict_get (case_hypotheses ?c) k)" for k
    using exited(4) [of k] aged(5) [of k] active_keys_mem [OF wf, of k]
    by (cases "dict_get (case_hypotheses ?c) k") (auto simp: c2d E_def)
  have view: "dict_get (case_hypotheses (hk_case (perform_hypothesis_housekeeping adv s))) k = map_option (\<lambda>h. if hyp_state h = H_ACTIVE
          then tended s ?b (set ids) act c2 h else h) (dict_get (case_hypotheses ?c) k)" for k
  proof (cases "dict_get (case_hypotheses ?c) k")
    case None
    then show ?thesis using get [of k] act_get [of "s\<lparr>hk_case := c2\<rparr>" ?ks reason ids k] sub kc2 by (simp add: run)
  next
    case (Some h)
    define h2 where "h2 = (if ?b \<and> \<not> ?aw then exited ?c (set ids) held (aged ?c ?b ?w h) else aged ?c ?b ?w h)"
    have "unprotected_target c2 ids h2 \<longleftrightarrow> hyp_id h \<in> set ids
        \<and> \<not> protected_root h (case_nodes ?c) (support_count_held_root_ids c2)"
      using protected_root_cong [of h2 h] by (auto simp: unprotected_target_def c2_def h2_def)
    then have t: "tended s ?b (set ids) act c2 h = forced (case_current_turn ?c) (Some c2) (act \<and> unprotected_target c2 ids h2) h2"
      by (simp only: tended_def Let_def held_def [symmetric] h2_def)
    show ?thesis
    proof (cases "hyp_state h = H_ACTIVE")
      case True
      then have k: "k \<in> set ?ks" using active_keys_mem [OF wf, of k] Some by simp
      have g: "dict_get (case_hypotheses c2) k = Some h2"
        using get [of k] unfolding Some option.map h2_def by (simp only: True if_True refl)
      have "dict_get (case_hypotheses (hk_case (perform_hypothesis_housekeeping adv s))) k
          = Some (forced (case_current_turn ?c) (Some c2) (act \<and> unprotected_target c2 ids h2) h2)"
        using act_get [of "s\<lparr>hk_case := c2\<rparr>" ?ks reason ids k] sub kc2 k
        by (cases act) (simp_all add: run c2t g forced_def [of _ _ False])
      then show ?thesis unfolding Some option.map t by (simp only: True if_True refl)
    next
      case False
      then have "k \<notin> set ?ks" using active_keys_mem [OF wf, of k] Some by simp
      then show ?thesis
        using get [of k] act_get [of "s\<lparr>hk_case := c2\<rparr>" ?ks reason ids k] sub kc2 Some False by (simp add: run)
    qed
  qed
  have "turn_view adv s (perform_hypothesis_housekeeping adv s) (set ids) act c2"
    unfolding turn_view_def using act_last(4) [of reason ids ?ks "s\<lparr>hk_case := c2\<rparr>"]
    by (intro conjI allI view) (auto simp: act_def anch run act_last c2_def)
  then show ?thesis by blast
qed


section \<open>What housekeeping may do to a hypothesis\<close>

lemma support_stands_cong:
  "hyp_links h' = hyp_links h \<Longrightarrow> hyp_root h' = hyp_root h \<Longrightarrow> hyp_path h' = hyp_path h \<Longrightarrow>
     causal_support_stands h' c = causal_support_stands h c"
  by (simp add: causal_support_stands_def head_id_def)

lemma aged_likelihood: "0 \<le> hyp_likelihood h \<Longrightarrow> hyp_likelihood (aged c b w h) \<le> hyp_likelihood h"
  using decay_le [of "advance_stagnation_if_ignored (case_current_turn c) c (b \<and> hyp_id h \<notin> w) h"]
  by (simp add: aged_def small_step_fields)

lemma exited_state:
  "hyp_state (exited c fl held h) \<noteq> hyp_state h \<Longrightarrow>
     hyp_state h = H_ACTIVE \<and> hyp_state (exited c fl held h) = H_RETIRED \<and> hyp_id h \<notin> fl
     \<and> \<not> protected_root h (case_nodes c) held \<and> hyp_iterations_without_progress h \<ge> STAGNATION_HORIZON_ITERATIONS
     \<and> hyp_likelihood h < LOW_CONFIDENCE_RETIREMENT_LIKELIHOOD \<and> \<not> causal_support_stands h c"
  by (auto simp: exited_def retire_if_aged_out_def split: if_splits)

lemma exited_same: "hyp_state (exited c fl held h) = hyp_state h \<Longrightarrow> exited c fl held h = h"
  by (auto simp: exited_def retire_if_aged_out_def split: if_splits)

lemma forced_state:
  "hyp_state (forced t c b h) \<noteq> hyp_state h \<Longrightarrow>
     b \<and> hyp_state (forced t c b h) = H_RETIRED \<and> hyp_iterations_without_progress h \<ge> 2"
  by (auto simp: forced_def split: if_splits)

lemma tended_fields:
  "hyp_links (tended s b fl act c2 h) = hyp_links h" "hyp_root (tended s b fl act c2 h) = hyp_root h"
  "hyp_statement (tended s b fl act c2 h) = hyp_statement h"
  "hyp_likelihood (tended s b fl act c2 h)
     = hyp_likelihood (aged (hk_case s) b (hypotheses_awaiting_recent_evidence s ANTI_ANCHORING_COOLDOWN_TURNS) h)"
  by (simp_all add: tended_def Let_def)

lemma tended_retired:
  assumes "hyp_state (tended s b fl act c2 h) \<noteq> hyp_state h"
  shows "hyp_state (tended s b fl act c2 h) = H_RETIRED"
    and "hyp_iterations_without_progress (tended s b fl act c2 h) \<ge> 2"
    and "\<not> is_chain_root_validated h (case_nodes (hk_case s))"
    and "\<not> act \<Longrightarrow> \<not> protected_root h (case_nodes (hk_case s)) (support_count_held_root_ids (hk_case s))
       \<and> \<not> causal_support_stands h (hk_case s)
       \<and> hyp_iterations_without_progress (tended s b fl act c2 h) \<ge> STAGNATION_HORIZON_ITERATIONS
       \<and> hyp_likelihood (tended s b fl act c2 h) < LOW_CONFIDENCE_RETIREMENT_LIKELIHOOD"
proof -
  let ?c = "hk_case s" and ?aw = "awaiting_recent_evidence s ANTI_ANCHORING_COOLDOWN_TURNS"
  define h1 where "h1 = aged ?c b (hypotheses_awaiting_recent_evidence s ANTI_ANCHORING_COOLDOWN_TURNS) h"
  define h2 where "h2 = (if b \<and> \<not> ?aw then exited ?c fl (support_count_held_root_ids ?c) h1 else h1)"
  define b2 where "b2 \<longleftrightarrow> act \<and> hyp_id h \<in> fl \<and> \<not> protected_root h (case_nodes ?c) (support_count_held_root_ids c2)"
  have t: "tended s b fl act c2 h = forced (case_current_turn ?c) (Some c2) b2 h2"
    by (simp only: tended_def Let_def h1_def h2_def b2_def)
  have h1: "hyp_state h1 = hyp_state h" "protected_root h1 = protected_root h"
    "causal_support_stands h1 ?c = causal_support_stands h ?c"
    using protected_root_cong [of h1 h] support_stands_cong [of h1 h ?c] by (auto simp: h1_def)
  have h2: "hyp_iterations_without_progress h2 = hyp_iterations_without_progress h1" "hyp_likelihood h2 = hyp_likelihood h1"
    by (simp_all add: h2_def)
  have two: "(2::int) \<le> STAGNATION_HORIZON_ITERATIONS" by (simp add: manager_constants)
  consider (out) "hyp_state h2 \<noteq> hyp_state h1" | (force) "hyp_state (forced (case_current_turn ?c) (Some c2) b2 h2) \<noteq> hyp_state h2"
    using assms h1(1) t by metis
  note cases = this
  have out: "hyp_state h2 = H_RETIRED \<and> \<not> protected_root h (case_nodes ?c) (support_count_held_root_ids ?c)
      \<and> STAGNATION_HORIZON_ITERATIONS \<le> hyp_iterations_without_progress h2
      \<and> hyp_likelihood h2 < LOW_CONFIDENCE_RETIREMENT_LIKELIHOOD \<and> \<not> causal_support_stands h ?c"
    if "hyp_state h2 \<noteq> hyp_state h1"
    using exited_state [of ?c fl "support_count_held_root_ids ?c" h1] that h1 by (auto simp: h2_def split: if_splits)
  from cases show "hyp_state (tended s b fl act c2 h) = H_RETIRED"
    using out forced_state [of "case_current_turn ?c" "Some c2" b2 h2] by cases (auto simp: t forced_def)
  from cases show "hyp_iterations_without_progress (tended s b fl act c2 h) \<ge> 2"
    using out forced_state [of "case_current_turn ?c" "Some c2" b2 h2] two by cases (auto simp: t)
  from cases show "\<not> is_chain_root_validated h (case_nodes (hk_case s))"
    using out forced_state [of "case_current_turn ?c" "Some c2" b2 h2] by cases (auto simp: b2_def protected_root_def)
  assume "\<not> act"
  then have "\<not> b2" by (simp add: b2_def)
  with cases have "hyp_state h2 \<noteq> hyp_state h1" by cases (auto simp: forced_def)
  from out [OF this] show "\<not> protected_root h (case_nodes (hk_case s)) (support_count_held_root_ids (hk_case s))
       \<and> \<not> causal_support_stands h (hk_case s)
       \<and> hyp_iterations_without_progress (tended s b fl act c2 h) \<ge> STAGNATION_HORIZON_ITERATIONS
       \<and> hyp_likelihood (tended s b fl act c2 h) < LOW_CONFIDENCE_RETIREMENT_LIKELIHOOD"
    by (simp add: t)
qed

text \<open>Housekeeping never refutes, validates or strengthens a hypothesis: it leaves one that is not active
  as it is, keeps the links, the root and the statement of every other, never raises its likelihood,
  and the only verdict it reaches is to retire one that has stalled for two iterations and whose
  chain root is not validated. When anti-anchoring did not act, a retired one had stalled for three
  iterations below the retirement level with no standing causal support and no count-held root.\<close>

theorem housekeeping_only_retires_the_stalled:
  assumes "keyed (case_hypotheses (hk_case s))" "dict_get (case_hypotheses (hk_case s)) k = Some h" "0 \<le> hyp_likelihood h"
    and s': "s' = perform_hypothesis_housekeeping adv s"
  shows "\<exists>h'. dict_get (case_hypotheses (hk_case s')) k = Some h'
    \<and> (hyp_state h = H_ACTIVE \<or> h' = h)
    \<and> hyp_links h' = hyp_links h \<and> hyp_root h' = hyp_root h \<and> hyp_statement h' = hyp_statement h
    \<and> hyp_likelihood h' \<le> hyp_likelihood h
    \<and> (hyp_state h' = hyp_state h \<or> hyp_state h' = H_RETIRED \<and> hyp_iterations_without_progress h' \<ge> 2
         \<and> \<not> is_chain_root_validated h (case_nodes (hk_case s))
         \<and> (hk_feedback s' \<noteq> hk_feedback s \<or> hyp_iterations_without_progress h' \<ge> STAGNATION_HORIZON_ITERATIONS
              \<and> hyp_likelihood h' < LOW_CONFIDENCE_RETIREMENT_LIKELIHOOD \<and> \<not> causal_support_stands h (hk_case s)
              \<and> \<not> protected_root h (case_nodes (hk_case s)) (support_count_held_root_ids (hk_case s))))"
proof -
  obtain fl act c2 where v: "turn_view adv s s' fl act c2" using housekeeping_view [OF assms(1), of adv] unfolding s' by blast
  let ?h = "if hyp_state h = H_ACTIVE then tended s (adv \<or> is_stalled s) fl act c2 h else h"
  have "dict_get (case_hypotheses (hk_case s')) k = Some ?h" "hk_feedback s' = hk_feedback s \<longleftrightarrow> \<not> act"
    using v assms(2) by (simp_all add: turn_view_def)
  then show ?thesis
    using tended_retired [of s "adv \<or> is_stalled s" fl act c2 h] aged_likelihood [OF assms(3)]
    by (intro exI [of _ ?h]) (auto simp: tended_fields)
qed


section \<open>An ignored hypothesis does not stay open\<close>

text \<open>Its chain root, if it has one, carries no evidence and is not validated.\<close>

definition bare_root :: "hypothesis \<Rightarrow> (string, causal_node) pydict \<Rightarrow> bool" where
  "bare_root h nodes = (case hyp_root h of None \<Rightarrow> True
     | Some r \<Rightarrow> (case dict_get nodes r of None \<Rightarrow> True | Some n \<Rightarrow> node_links n = [] \<and> node_state n \<noteq> VALIDATED))"

definition unattended :: "string \<Rightarrow> bool \<Rightarrow> house \<Rightarrow> bool" where
  "unattended k adv s \<longleftrightarrow> keyed (case_hypotheses (hk_case s)) \<and> nodes_ok (case_nodes (hk_case s))
     \<and> (adv \<or> is_stalled s) \<and> \<not> awaiting_recent_evidence s ANTI_ANCHORING_COOLDOWN_TURNS
     \<and> (case dict_get (case_hypotheses (hk_case s)) k of None \<Rightarrow> False
        | Some h \<Rightarrow> \<not> causal_support_stands h (hk_case s) \<and> bare_root h (case_nodes (hk_case s)))"

text \<open>
  A turn that ignores the hypothesis filed under \<open>k\<close>: housekeeping runs, and until the next turn
  starts anything may change except that hypothesis and the turn anti-anchoring last acted.
\<close>

inductive ignored_turn :: "string \<Rightarrow> house \<Rightarrow> house \<Rightarrow> bool" for k where
  ignored: "unattended k adv s \<Longrightarrow> s1 = perform_hypothesis_housekeeping adv s \<Longrightarrow>
     case_current_turn (hk_case s') = case_current_turn (hk_case s) + 1 \<Longrightarrow>
     dict_get (case_hypotheses (hk_case s')) k = dict_get (case_hypotheses (hk_case s1)) k \<Longrightarrow>
     hk_last_anti_anchoring_turn s' = hk_last_anti_anchoring_turn s1 \<Longrightarrow> ignored_turn k s s'"

lemma bare_not_protected:
  assumes "bare_root h (case_nodes c)" "nodes_ok (case_nodes c)"
  shows "\<not> protected_root h (case_nodes c) (support_count_held_root_ids c)"
proof -
  have "r \<notin> support_count_held_root_ids c" if "hyp_root h = Some r" for r
  proof
    assume "r \<in> support_count_held_root_ids c"
    then obtain q where "dict_get (root_support_block_reasons c) r = Some q" by (auto simp: count_held_iff)
    from block_reasons_sound [OF this] obtain n where
      n: "n \<in> set (dict_values (case_nodes c))" "node_id n = r" "held_reason c n = Some q" by blast
    then have "1 \<le> t_raw_causal_links (node_evidence_tally n (evidence_category_map c))"
      by (auto simp: held_reason_def Let_def split: if_splits)
    then have "node_links n \<noteq> []" by (auto simp: node_evidence_tally_def empty_tally_def)
    with nodes_ok_value [OF assms(2) n(1)] n(2) assms(1) that show False by (simp add: bare_root_def)
  qed
  then show ?thesis
    using assms(1) by (auto simp: protected_root_def is_chain_root_validated_def state_of_def bare_root_def
        split: option.splits)
qed

lemma nobody_awaited:
  "\<not> awaiting_recent_evidence s n \<Longrightarrow> hypotheses_awaiting_recent_evidence s n = {}"
  by (auto simp: awaiting_recent_evidence_def hypotheses_awaiting_recent_evidence_def list_ex_iff)

text \<open>The level a likelihood has decayed to after \<open>j\<close> idle turns.\<close>

definition decayed :: "nat \<Rightarrow> rat" where
  "decayed j = max STAGNATION_DECAY_FLOOR (STAGNATION_DECAY_FACTOR ^ j)"

lemma decayed_Suc:
  assumes "q \<le> decayed j"
  shows "max (min q STAGNATION_DECAY_FLOOR) (q * STAGNATION_DECAY_FACTOR) \<le> decayed (Suc j)"
proof -
  have "q * STAGNATION_DECAY_FACTOR \<le> decayed j * STAGNATION_DECAY_FACTOR"
    using assms by (simp add: mult_right_mono manager_constants)
  also have "\<dots> \<le> decayed (Suc j)"
    by (auto simp: decayed_def max_def STAGNATION_DECAY_FLOOR_def STAGNATION_DECAY_FACTOR_def mult.commute)
  finally show ?thesis by (auto simp: decayed_def)
qed

lemma decayed_below: "decayed 8 < LOW_CONFIDENCE_RETIREMENT_LIKELIHOOD"
  by code_simp

text \<open>What is known of the hypothesis after \<open>i\<close> ignored turns.\<close>

definition idle :: "nat \<Rightarrow> int \<Rightarrow> hypothesis \<Rightarrow> bool" where
  "idle i t0 h \<longleftrightarrow> hyp_state h = H_ACTIVE \<and> hyp_last_progress_at_turn h \<le> t0
     \<and> hyp_last_updated_turn h \<le> t0 + int i \<and> (0 < i \<longrightarrow> hyp_last_updated_turn h < t0 + int i)
     \<and> 0 \<le> hyp_likelihood h \<and> hyp_likelihood h \<le> decayed (i - 3) \<and> int (i - 3) \<le> hyp_iterations_without_progress h"

definition gone :: "hypothesis \<Rightarrow> bool" where
  "gone h \<longleftrightarrow> hyp_state h = H_RETIRED \<and> hyp_retirement_reason h \<noteq> None"

lemma decayed_antimono: "decayed (Suc j) \<le> decayed j"
proof -
  have "STAGNATION_DECAY_FACTOR ^ Suc j \<le> STAGNATION_DECAY_FACTOR ^ j"
    by (rule power_decreasing) (simp_all add: STAGNATION_DECAY_FACTOR_def)
  then show ?thesis unfolding decayed_def by (intro max.mono order_refl)
qed


lemma aged_idle:
  assumes "idle i t0 h" "case_current_turn c = t0 + int i" "\<not> causal_support_stands h c"
  defines "h1 \<equiv> aged c True {} h"
  shows "hyp_last_progress_at_turn h1 \<le> t0" "hyp_last_updated_turn h1 \<le> t0 + int i" "0 \<le> hyp_likelihood h1"
    "hyp_likelihood h1 \<le> decayed (Suc i - 3)" "int (Suc i - 3) \<le> hyp_iterations_without_progress h1"
proof -
  note h = assms(1) [unfolded idle_def]
  have "hyp_last_progress_at_turn h1 \<le> t0 \<and> hyp_last_updated_turn h1 \<le> t0 + int i \<and> 0 \<le> hyp_likelihood h1
      \<and> hyp_likelihood h1 \<le> decayed (Suc i - 3) \<and> int (Suc i - 3) \<le> hyp_iterations_without_progress h1"
  proof (cases "i < 3")
    case True
    then have i: "Suc i - 3 = 0" "i - 3 = 0" by simp_all
    have "hyp_likelihood h1 \<le> hyp_likelihood h" unfolding h1_def by (rule aged_likelihood) (use h in simp)
    moreover have "0 \<le> hyp_likelihood h1"
      using h decay_bounds(1) [of "hyp_likelihood h"]
      by (auto simp: h1_def aged_def apply_likelihood_decay_def small_step_fields simp del: max.bounded_iff)
    ultimately show ?thesis
      using h assms(2) unfolding i
      by (auto simp: h1_def aged_def apply_likelihood_decay_def advance_stagnation_if_ignored_def)
  next
    case False
    then have i: "Suc i - 3 = Suc (i - 3)" "int i \<ge> 3" by simp_all
    have h1: "h1 = h\<lparr>hyp_iterations_without_progress := hyp_iterations_without_progress h + 1,
        hyp_last_updated_turn := t0 + int i,
        hyp_likelihood := max (min (hyp_likelihood h) STAGNATION_DECAY_FLOOR) (hyp_likelihood h * STAGNATION_DECAY_FACTOR)\<rparr>"
      using h assms(2,3) i(2)
      by (auto simp: h1_def aged_def apply_likelihood_decay_def advance_stagnation_if_ignored_def
          IGNORED_STAGNATION_TURN_THRESHOLD_def)
    have "max (min (hyp_likelihood h) STAGNATION_DECAY_FLOOR) (hyp_likelihood h * STAGNATION_DECAY_FACTOR) \<le> decayed (Suc (i - 3))"
      by (rule decayed_Suc) (use h in simp)
    moreover have "0 \<le> max (min (hyp_likelihood h) STAGNATION_DECAY_FLOOR) (hyp_likelihood h * STAGNATION_DECAY_FACTOR)"
      by (rule decay_bounds(1)) (use h in simp)
    ultimately show ?thesis using h unfolding i(1) h1 by simp
  qed
  then show "hyp_last_progress_at_turn h1 \<le> t0" "hyp_last_updated_turn h1 \<le> t0 + int i" "0 \<le> hyp_likelihood h1"
    "hyp_likelihood h1 \<le> decayed (Suc i - 3)" "int (Suc i - 3) \<le> hyp_iterations_without_progress h1" by blast+
qed

lemma exited_cases: "gone (exited c fl held h) \<or> exited c fl held h = h"
  by (simp add: exited_def retire_if_aged_out_def gone_def)

text \<open>One ignored turn: the hypothesis goes, or it idles on; when it goes it is for good.\<close>

lemma ignored_step:
  assumes "ignored_turn k s s'" "dict_get (case_hypotheses (hk_case s)) k = Some h"
  shows "case_current_turn (hk_case s') = case_current_turn (hk_case s) + 1"
    "\<exists>h'. dict_get (case_hypotheses (hk_case s')) k = Some h' \<and> (gone h \<longrightarrow> gone h')
      \<and> (idle i t0 h \<and> case_current_turn (hk_case s) = t0 + int i \<longrightarrow> gone h' \<or> idle (Suc i) t0 h'
           \<and> (10 \<le> i \<longrightarrow> hk_last_anti_anchoring_turn s' = hk_last_anti_anchoring_turn s
                \<and> case_current_turn (hk_case s) - hk_last_anti_anchoring_turn s < 2))"
    "hk_last_anti_anchoring_turn s' \<in> {hk_last_anti_anchoring_turn s, case_current_turn (hk_case s)}"
proof -
  obtain adv where u: "unattended k adv s" and t: "case_current_turn (hk_case s') = case_current_turn (hk_case s) + 1"
    and same: "dict_get (case_hypotheses (hk_case s')) k = dict_get (case_hypotheses (hk_case (perform_hypothesis_housekeeping adv s))) k"
      "hk_last_anti_anchoring_turn s' = hk_last_anti_anchoring_turn (perform_hypothesis_housekeeping adv s)"
    using assms(1) by (auto elim: ignored_turn.cases)
  have n: "keyed (case_hypotheses (hk_case s))" "nodes_ok (case_nodes (hk_case s))" "adv \<or> is_stalled s"
    "\<not> awaiting_recent_evidence s ANTI_ANCHORING_COOLDOWN_TURNS" "\<not> causal_support_stands h (hk_case s)"
    "bare_root h (case_nodes (hk_case s))"
    using u assms(2) by (simp_all add: unattended_def)
  obtain fl act c2 where v: "turn_view adv s (perform_hypothesis_housekeeping adv s) fl act c2"
    using housekeeping_view [OF n(1)] by blast
  have act: "act \<longleftrightarrow> fl \<noteq> {} \<and> case_current_turn (hk_case s) - hk_last_anti_anchoring_turn s \<ge> 2"
    and last: "hk_last_anti_anchoring_turn s' = (if act then case_current_turn (hk_case s) else hk_last_anti_anchoring_turn s)"
    and c2: "case_nodes c2 = case_nodes (hk_case s)"
    and get: "dict_get (case_hypotheses (hk_case s')) k
      = Some (if hyp_state h = H_ACTIVE then tended s True fl act c2 h else h)"
    using v n(3,4) same assms(2) by (simp_all add: turn_view_def ANTI_ANCHORING_COOLDOWN_TURNS_def)
  show "case_current_turn (hk_case s') = case_current_turn (hk_case s) + 1" by (rule t)
  show "hk_last_anti_anchoring_turn s' \<in> {hk_last_anti_anchoring_turn s, case_current_turn (hk_case s)}"
    using last by simp
  have free: "\<not> protected_root h (case_nodes (hk_case s)) (support_count_held_root_ids (hk_case s))"
    "\<not> protected_root h (case_nodes (hk_case s)) (support_count_held_root_ids c2)"
    using bare_not_protected [of h "hk_case s"] bare_not_protected [of h c2] n(2,6) c2 by simp_all
  have idle: "gone (tended s True fl act c2 h) \<or> idle (Suc i) t0 (tended s True fl act c2 h)
      \<and> (10 \<le> i \<longrightarrow> \<not> act \<and> fl \<noteq> {})"
    if h: "idle i t0 h" "case_current_turn (hk_case s) = t0 + int i"
  proof -
    define h1 where "h1 = aged (hk_case s) True {} h"
    note h1 = aged_idle [OF h n(5), folded h1_def]
    have st: "hyp_state h1 = H_ACTIVE" "protected_root h1 = protected_root h" "hyp_id h1 = hyp_id h"
      "causal_support_stands h1 (hk_case s) = causal_support_stands h (hk_case s)"
      using h(1) protected_root_cong [of h1 h] support_stands_cong [of h1 h "hk_case s"]
      by (auto simp: h1_def idle_def)
    define h2 where "h2 = exited (hk_case s) fl (support_count_held_root_ids (hk_case s)) h1"
    have t: "tended s True fl act c2 h = forced (case_current_turn (hk_case s)) (Some c2) (act \<and> hyp_id h \<in> fl) h2"
      using n(4) free(2) by (simp add: tended_def Let_def nobody_awaited h1_def h2_def)
    consider (out) "gone h2" | (on) "h2 = h1"
      using exited_cases unfolding h2_def by blast
    then show ?thesis
    proof cases
      case out
      then show ?thesis by (simp add: t forced_def gone_def)
    next
      case on
      have on_idle: "idle (Suc i) t0 h1" using h1 st(1) by (auto simp: idle_def)
      have late: "hyp_id h \<in> fl \<and> hyp_iterations_without_progress h1 \<ge> 2" if "10 \<le> i"
      proof -
        have i: "decayed (Suc i - 3) \<le> decayed 8" "8 \<le> int (Suc i - 3)"
          using that lift_Suc_antimono_le [of decayed 8 "Suc i - 3", OF decayed_antimono] by simp_all
        then have "hyp_likelihood h1 < LOW_CONFIDENCE_RETIREMENT_LIKELIHOOD" "hyp_iterations_without_progress h1 \<ge> 8"
          using h1(4,5) decayed_below by linarith+
        moreover have "hyp_state h2 = H_ACTIVE" using on st(1) by simp
        ultimately show ?thesis
          using st n(5) free(1) by (auto simp: h2_def exited_def retire_if_aged_out_def STAGNATION_HORIZON_ITERATIONS_def split: if_splits)
      qed
      show ?thesis
      proof (cases "act \<and> hyp_id h \<in> fl \<and> hyp_iterations_without_progress h1 \<ge> 2")
        case True
        then show ?thesis using st(1) unfolding t on by (simp add: forced_def gone_def)
      next
        case False
        then show ?thesis using on_idle late unfolding t on by (auto simp: forced_def)
      qed
    qed
  qed
  have fin: "hk_last_anti_anchoring_turn s' = hk_last_anti_anchoring_turn s
      \<and> case_current_turn (hk_case s) - hk_last_anti_anchoring_turn s < 2"
    if "\<not> act \<and> fl \<noteq> {}" using act last that by (simp add: not_le)
  define h' where "h' = tended s True fl act c2 h"
  show "\<exists>h'. dict_get (case_hypotheses (hk_case s')) k = Some h' \<and> (gone h \<longrightarrow> gone h')
      \<and> (idle i t0 h \<and> case_current_turn (hk_case s) = t0 + int i \<longrightarrow> gone h' \<or> idle (Suc i) t0 h'
           \<and> (10 \<le> i \<longrightarrow> hk_last_anti_anchoring_turn s' = hk_last_anti_anchoring_turn s
                \<and> case_current_turn (hk_case s) - hk_last_anti_anchoring_turn s < 2))"
  proof (cases "hyp_state h = H_ACTIVE")
    case True
    then have "\<not> gone h" "dict_get (case_hypotheses (hk_case s')) k = Some h'" using get by (simp_all add: gone_def h'_def)
    then show ?thesis using idle [folded h'_def] fin by blast
  next
    case False
    then show ?thesis using get by (simp add: idle_def)
  qed
qed

definition waiting :: "string \<Rightarrow> nat \<Rightarrow> int \<Rightarrow> house \<Rightarrow> bool" where
  "waiting k i t0 s \<longleftrightarrow> (\<exists>h. dict_get (case_hypotheses (hk_case s)) k = Some h \<and> (gone h \<or> idle i t0 h
     \<and> case_current_turn (hk_case s) = t0 + int i
     \<and> hk_last_anti_anchoring_turn s \<le> t0 + int i \<and> (0 < i \<longrightarrow> hk_last_anti_anchoring_turn s < t0 + int i)))"

lemma waiting_step:
  assumes "ignored_turn k s s'" "waiting k i t0 s"
  shows "waiting k (Suc i) t0 s'"
proof -
  obtain h where h: "dict_get (case_hypotheses (hk_case s)) k = Some h" "gone h \<or> idle i t0 h
     \<and> case_current_turn (hk_case s) = t0 + int i \<and> hk_last_anti_anchoring_turn s \<le> t0 + int i"
    using assms(2) by (auto simp: waiting_def)
  show ?thesis
    using ignored_step(1) [OF assms(1) h(1)] ignored_step(2) [OF assms(1) h(1), of i t0]
      ignored_step(3) [OF assms(1) h(1)] h(2) by (auto simp: waiting_def)
qed

lemma waiting_run: "(ignored_turn k ^^ n) s s' \<Longrightarrow> waiting k 0 t0 s \<Longrightarrow> waiting k n t0 s'"
  by (induction n arbitrary: s') (auto intro: waiting_step elim!: relpowp_Suc_E)

lemma waiting_ends:
  assumes "ignored_turn k s s1" "ignored_turn k s1 s2" "waiting k 10 t0 s"
  shows "\<exists>h. dict_get (case_hypotheses (hk_case s2)) k = Some h \<and> gone h"
proof -
  obtain h where h: "dict_get (case_hypotheses (hk_case s)) k = Some h" "gone h \<or> idle 10 t0 h
     \<and> case_current_turn (hk_case s) = t0 + 10 \<and> hk_last_anti_anchoring_turn s < t0 + 10"
    using assms(3) by (auto simp: waiting_def)
  obtain h1 where h1: "dict_get (case_hypotheses (hk_case s1)) k = Some h1"
    "gone h1 \<or> idle 11 t0 h1 \<and> case_current_turn (hk_case s1) = t0 + 11 \<and> hk_last_anti_anchoring_turn s1 < t0 + 10"
    using ignored_step(1) [OF assms(1) h(1)] ignored_step(2) [OF assms(1) h(1), of 10 t0] h(2) by auto
  then show ?thesis using ignored_step(2) [OF assms(2) h1(1), of 11 t0] by auto
qed

text \<open>C23: An active hypothesis nobody works on does not stay open: after twelve turns that count, in which its
  chain root carries no evidence and it has no standing causal support, nothing fresh is being asked
  of the user, and nothing but housekeeping touches it, it is retired, with a reason, whatever else
  changes in the case and however the anti-anchoring cooldown falls.\<close>

theorem ignored_hypothesis_is_retired:
  assumes "(ignored_turn k ^^ 12) s s'" "dict_get (case_hypotheses (hk_case s)) k = Some h" "hyp_state h = H_ACTIVE"
    and "hypothesis_valid h" "hyp_last_updated_turn h \<le> case_current_turn (hk_case s)"
    and "hyp_last_progress_at_turn h \<le> case_current_turn (hk_case s)"
    and "hk_last_anti_anchoring_turn s \<le> case_current_turn (hk_case s)"
  shows "\<exists>h'. dict_get (case_hypotheses (hk_case s')) k = Some h' \<and> hyp_state h' = H_RETIRED
    \<and> hyp_retirement_reason h' \<noteq> None"
proof -
  have "idle 0 (case_current_turn (hk_case s)) h"
    using assms(3-6) by (simp add: idle_def hypothesis_valid_def unit_interval_def decayed_def le_max_iff_disj)
  then have "waiting k 0 (case_current_turn (hk_case s)) s" using assms(2,7) by (auto simp: waiting_def)
  moreover have "(ignored_turn k ^^ Suc (Suc 10)) s s'" using assms(1) by (simp add: numeral_eq_Suc)
  then obtain s1 s2 where "(ignored_turn k ^^ 10) s s1" "ignored_turn k s1 s2" "ignored_turn k s2 s'"
    by (blast elim: relpowp_Suc_E)
  ultimately show ?thesis using waiting_ends waiting_run by (fastforce simp: gone_def)
qed

section \<open>Example\<close>

definition ex_idle :: hypothesis where
  "ex_idle = \<lparr>hyp_id = ''h'', hyp_statement = ''cert'', hyp_category = CONFIG,
     hyp_state = H_ACTIVE, hyp_likelihood = 1 / 2, hyp_initial_likelihood = 1 / 2, hyp_root = None,
     hyp_path = [], hyp_links = [], hyp_generated_at_turn = 1,
     hyp_last_updated_turn = 1, hyp_last_progress_at_turn = 1, hyp_iterations_without_progress = 0,
     hyp_generation_mode = SYSTEMATIC, hyp_retirement_reason = None, hyp_refutation_reason = None,
     hyp_rationale = ''first look''\<rparr>"

definition ex_house :: house where
  "ex_house = \<lparr>hk_case = ex_case\<lparr>case_nodes := [], case_edges := [], case_evidence := [],
       case_hypotheses := [(''h'', ex_idle)], case_current_turn := 1\<rparr>,
     hk_needs = [], hk_turns_without_progress = 0, hk_last_anti_anchoring_turn = 0, hk_feedback = []\<rparr>"

definition next_turn :: "house \<Rightarrow> house" where
  "next_turn s = (let s = perform_hypothesis_housekeeping True s
     in s\<lparr>hk_case := (hk_case s)\<lparr>case_current_turn := case_current_turn (hk_case s) + 1\<rparr>\<rparr>)"


lemma housekeeping_turn:
  "case_current_turn (hk_case (perform_hypothesis_housekeeping adv s)) = case_current_turn (hk_case s)"
proof -
  have age: "case_current_turn (fold (age_hypothesis b w) ks c) = case_current_turn c" for b w ks c
    by (induction ks arbitrary: c) (simp_all add: age_hypothesis_def Let_def)
  have exit: "case_current_turn (fold (age_out_one fl held) ks c) = case_current_turn c" for fl held ks c
    by (induction ks arbitrary: c) (simp_all add: age_out_one_def Let_def)
  have act: "case_current_turn (hk_case (act_on_anchoring r ids ks t)) = case_current_turn (hk_case t)" for r ids ks t
    by (simp add: act_on_anchoring_def Let_def split: prod.split)
  show ?thesis
    by (simp add: perform_hypothesis_housekeeping_def Let_def age exit act split: prod.split)
qed

fun quiet_run :: "string \<Rightarrow> unit list \<Rightarrow> house \<Rightarrow> bool" where
  "quiet_run k [] s = True"
| "quiet_run k (_ # us) s = (unattended k True s \<and> quiet_run k us (next_turn s))"

lemma quiet_run_ignored: "quiet_run k us s \<Longrightarrow> (ignored_turn k ^^ length us) s ((next_turn ^^ length us) s)"
proof (induction us arbitrary: s)
  case (Cons u us)
  have step: "case_current_turn (hk_case (next_turn s)) = case_current_turn (hk_case s) + 1"
    using housekeeping_turn [of True s] by (simp add: next_turn_def Let_def)
  have "ignored_turn k s (next_turn s)"
    by (rule ignored_turn.ignored [OF _ refl step]) (use Cons.prems in \<open>simp_all add: next_turn_def Let_def\<close>)
  then have "(ignored_turn k ^^ Suc (length us)) s ((next_turn ^^ length us) (next_turn s))"
    by (rule relpowp_Suc_I2) (rule Cons.IH, use Cons.prems in simp)
  moreover have "(next_turn ^^ Suc (length us)) s = (next_turn ^^ length us) (next_turn s)"
    by (simp only: funpow_Suc_right comp_apply)
  ultimately show ?case by (simp only: length_Cons)
qed simp

lemma ex_quiet: "quiet_run ''h'' (replicate 12 ()) ex_house"
  by code_simp

theorem ignored_hypothesis_is_retired_witness:
  "\<exists>h'. dict_get (case_hypotheses (hk_case ((next_turn ^^ 12) ex_house))) ''h'' = Some h' \<and> hyp_state h' = H_RETIRED
    \<and> hyp_retirement_reason h' \<noteq> None"
proof (rule ignored_hypothesis_is_retired)
  show "(ignored_turn ''h'' ^^ 12) ex_house ((next_turn ^^ 12) ex_house)"
    using quiet_run_ignored [OF ex_quiet] by simp
  show "dict_get (case_hypotheses (hk_case ex_house)) ''h'' = Some ex_idle" by (simp add: ex_house_def)
  show "hypothesis_valid ex_idle" by code_simp
qed (simp_all add: ex_idle_def ex_house_def)

theorem housekeeping_only_retires_the_stalled_witness:
  "\<exists>h'. dict_get (case_hypotheses (hk_case (perform_hypothesis_housekeeping True ex_house))) ''h'' = Some h'
     \<and> hyp_likelihood h' \<le> 1 / 2"
  using housekeeping_only_retires_the_stalled [of ex_house "''h''" ex_idle _ True, OF _ _ _ refl]
  by (auto simp: ex_house_def ex_idle_def keyed_def dict_keys_def)

end
