(* ===== verification/Turn_Sequence.thy ===== *)
theory Turn_Sequence
  imports Prelude
begin

text \<open>
  The sequence of turns: \<open>TurnProgress\<close> of \<open>modules/case/domain/models/turn.py\<close>, the repair of a
  damaged history and the investigation ordinals of \<open>modules/case/domain/models/case.py\<close>, and the same
  derivation on stored primitives (\<open>_turn_fields\<close> of \<open>metadata.py\<close>).

  Turn numbers are unbounded integers as in Python, timestamps are integers. A turn record holds the
  fields the modelled operations read or write; the dash in the placeholder's text is written as a hyphen.
\<close>

section \<open>Turns\<close>

datatype turn_outcome =
    MILESTONE_COMPLETED | DATA_PROVIDED | DATA_REQUESTED | DATA_NOT_PROVIDED | HYPOTHESIS_TESTED
  | CASE_RESOLVED | CONVERSATION | OTHER_OUTCOME | OUT_OF_BAND | SKIPPED

record fix_cause =
  fc_root_ids :: "string list"
  fc_licence_ids :: "string list"
  fc_reference_ids :: "string list"
  fc_in_words :: bool
  fc_held :: bool

record turn_progress =
  tp_number :: int
  tp_cause_at_start :: "fix_cause option"
  tp_timestamp :: int
  tp_milestones_completed :: "string list"
  tp_evidence_added :: "string list"
  tp_hypotheses_generated :: "string list"
  tp_hypotheses_validated :: "string list"
  tp_solutions_proposed :: "string list"
  tp_progress_made :: bool
  tp_outcome :: turn_outcome
  tp_user_summary :: "string option"
  tp_agent_summary :: "string option"

definition advancement_count :: "turn_progress \<Rightarrow> nat" where
  "advancement_count t = length (tp_milestones_completed t) + length (tp_evidence_added t)
     + length (tp_hypotheses_validated t) + length (tp_solutions_proposed t)"

definition is_skipped :: "turn_progress \<Rightarrow> bool" where
  "is_skipped t \<longleftrightarrow> tp_outcome t = SKIPPED"

definition is_out_of_band :: "turn_progress \<Rightarrow> bool" where
  "is_out_of_band t \<longleftrightarrow> tp_outcome t = OUT_OF_BAND"

section \<open>Ordinals\<close>

text \<open>\<open>bisect.bisect_right\<close> of the standard library, as the binary search it is.\<close>

function bisect_between :: "int list \<Rightarrow> int \<Rightarrow> nat \<Rightarrow> nat \<Rightarrow> nat" where
  "bisect_between xs x lo hi =
    (if lo < hi then
       let mid = (lo + hi) div 2
       in if x < xs ! mid then bisect_between xs x lo mid else bisect_between xs x (mid + 1) hi
     else lo)"
  by pat_completeness auto

termination by (relation "measure (\<lambda>(xs, x, lo, hi). hi - lo)") auto

declare bisect_between.simps [simp del]

definition bisect_right :: "int list \<Rightarrow> int \<Rightarrow> nat" where
  "bisect_right xs x = bisect_between xs x 0 (length xs)"

definition distinct_turns :: "int list \<Rightarrow> int list" where
  "distinct_turns turn_numbers = sort (remdups turn_numbers)"

definition investigation_turn_at :: "int \<Rightarrow> int \<Rightarrow> int list \<Rightarrow> int" where
  "investigation_turn_at turn_number current_turn asides =
    (let effective = min turn_number current_turn
     in max 0 (effective - int (bisect_right asides effective)))"

section \<open>Repairing the numbers\<close>

definition MAX_TURN_BACKFILL :: int where
  "MAX_TURN_BACKFILL = 100"

type_synonym slot = "nat option \<times> int"

definition place_turn :: "nat \<times> int \<Rightarrow> slot list \<Rightarrow> slot list" where
  "place_turn = (\<lambda>(source, number) slots.
    (let prev = snd (last slots); gap = number - prev - 1
     in if number \<le> prev \<or> gap > MAX_TURN_BACKFILL then slots @ [(Some source, prev + 1)]
        else slots @ map (\<lambda>missing. (None, missing)) [prev + 1..number - 1] @ [(Some source, number)]))"

definition place_turns :: "int list \<Rightarrow> slot list" where
  "place_turns turn_numbers =
    fold place_turn (zip [1..<length turn_numbers] (tl turn_numbers)) [(Some 0, hd turn_numbers)]"

definition reconcile_turn_numbers :: "int list \<Rightarrow> int \<Rightarrow> slot list \<times> int" where
  "reconcile_turn_numbers turn_numbers current_turn =
    (if turn_numbers = [] then ([], current_turn)
     else let slots = place_turns turn_numbers; lst = snd (last slots)
       in (slots, if lst < last turn_numbers \<or> current_turn < lst then lst else current_turn))"

section \<open>Repairing the history\<close>

record turn_state =
  ts_history :: "turn_progress list"
  ts_current_turn :: int

definition placeholder :: "int \<Rightarrow> int \<Rightarrow> turn_progress" where
  "placeholder number timestamp =
    \<lparr>tp_number = number, tp_cause_at_start = None, tp_timestamp = timestamp, tp_milestones_completed = [],
     tp_evidence_added = [], tp_hypotheses_generated = [], tp_hypotheses_validated = [], tp_solutions_proposed = [],
     tp_progress_made = False, tp_outcome = SKIPPED, tp_user_summary = Some ''(turn not recorded)'',
     tp_agent_summary = Some ''(turn not recorded - recovered after an interrupted turn)''\<rparr>"

definition rebuild_slot :: "turn_progress list \<Rightarrow> slot \<Rightarrow> turn_progress list \<times> nat \<Rightarrow> turn_progress list \<times> nat" where
  "rebuild_slot history = (\<lambda>(source, number) (rebuilt, repairs).
    (case source of
       None \<Rightarrow> (rebuilt @ [placeholder number (tp_timestamp (last rebuilt))], repairs + 1)
     | Some i \<Rightarrow>
         let entry = history ! i
         in if tp_number entry \<noteq> number
            then (rebuilt @ [entry\<lparr>tp_number := number, tp_cause_at_start := None\<rparr>], repairs + 1)
            else (rebuilt @ [entry], repairs)))"

fun consecutive :: "int list \<Rightarrow> bool" where
  "consecutive (a # b # ns) = (a + 1 = b \<and> consecutive (b # ns))"
| "consecutive _ = True"

definition reconcile_turn_sequence :: "turn_state \<Rightarrow> turn_state \<times> nat" where
  "reconcile_turn_sequence s =
    (let history = ts_history s; numbers = map tp_number history
     in if history = [] then (s, 0)
        else if consecutive numbers
        then (if ts_current_turn s < last numbers then s\<lparr>ts_current_turn := last numbers\<rparr> else s, 0)
        else let (slots, current_turn) = reconcile_turn_numbers numbers (ts_current_turn s);
                 (rebuilt, repairs) = fold (rebuild_slot history) slots ([], 0)
          in (s\<lparr>ts_history := rebuilt, ts_current_turn := current_turn\<rparr>, repairs))"

section \<open>What a case reports\<close>

definition out_of_band_turns :: "turn_state \<Rightarrow> int list" where
  "out_of_band_turns s = distinct_turns (map tp_number (filter is_out_of_band (ts_history s)))"

definition case_investigation_turn_at :: "turn_state \<Rightarrow> int \<Rightarrow> int list option \<Rightarrow> int" where
  "case_investigation_turn_at s turn_number asides =
    investigation_turn_at turn_number (ts_current_turn s)
      (case asides of None \<Rightarrow> out_of_band_turns s | Some a \<Rightarrow> a)"

definition investigation_turn_count :: "turn_state \<Rightarrow> int" where
  "investigation_turn_count s = case_investigation_turn_at s (ts_current_turn s) None"

definition effective_current_turn :: "turn_state \<Rightarrow> int" where
  "effective_current_turn s = (if ts_history s \<noteq> [] then tp_number (last (ts_history s)) else ts_current_turn s)"

text \<open>The same two fields from the stored numbers and flags of a case that is not loaded.\<close>

datatype turn_fields_error = HistoryMalformed | FlagsMissing nat nat

definition turn_fields :: "int list option \<Rightarrow> bool list option \<Rightarrow> int \<Rightarrow> turn_fields_error + int \<times> int" where
  "turn_fields turn_numbers flags current_turn =
    (case (turn_numbers, flags) of
       (Some ns, Some fs) \<Rightarrow>
         if length ns \<noteq> length fs then Inl (FlagsMissing (length ns) (length fs))
         else let (slots, clock) = reconcile_turn_numbers ns current_turn;
                  asides = distinct_turns (List.map_filter (\<lambda>(source, number).
                    case source of None \<Rightarrow> None | Some i \<Rightarrow> if fs ! i then Some number else None) slots)
           in Inr (clock, investigation_turn_at clock clock asides)
     | _ \<Rightarrow> Inl HistoryMalformed)"

end
