(* ===== verification/Turn_Laws.thy ===== *)
theory Turn_Laws
  imports Turn_Sequence
begin

text \<open>
  The repair of a turn history: it makes the numbers consecutive, loses no turn, is idempotent and
  bounded; and a case that is not loaded reports the same turn as the loaded one.
\<close>

section \<open>Bisection\<close>

lemma bisect_between_correct:
  assumes "sorted xs" "lo \<le> hi" "hi \<le> length xs" "\<And>i. i < lo \<Longrightarrow> xs ! i \<le> x" "\<And>i. hi \<le> i \<Longrightarrow> i < length xs \<Longrightarrow> x < xs ! i"
  shows "bisect_between xs x lo hi \<le> length xs \<and> (\<forall>i < bisect_between xs x lo hi. xs ! i \<le> x)
    \<and> (\<forall>i. bisect_between xs x lo hi \<le> i \<and> i < length xs \<longrightarrow> x < xs ! i)"
  using assms
proof (induction xs x lo hi rule: bisect_between.induct)
  case (1 xs x lo hi)
  show ?case
  proof (cases "lo < hi")
    case False
    then have "bisect_between xs x lo hi = lo" by (simp add: bisect_between.simps [of xs x lo hi])
    then show ?thesis using 1(3-7) False by simp
  next
    case True
    let ?mid = "(lo + hi) div 2"
    have mid: "lo \<le> ?mid" "?mid < hi" using True by auto
    show ?thesis
    proof (cases "x < xs ! ?mid")
      case less: True
      have gt: "x < xs ! i" if "?mid \<le> i" "i < length xs" for i
        using less sorted_nth_mono [OF 1(3) that] by simp
      have eq: "bisect_between xs x lo hi = bisect_between xs x lo ?mid"
        using True less by (simp add: bisect_between.simps [of xs x lo hi] Let_def)
      show ?thesis unfolding eq
        by (rule 1(1) [OF True refl less 1(3) mid(1) _ 1(6) gt]) (use mid(2) 1(5) in simp_all)
    next
      case ge: False
      have le: "xs ! i \<le> x" if "i < ?mid + 1" for i
        using ge sorted_nth_mono [OF 1(3), of i ?mid] that mid 1(5) by (auto simp: not_less)
      have eq: "bisect_between xs x lo hi = bisect_between xs x (?mid + 1) hi"
        using True ge by (simp add: bisect_between.simps [of xs x lo hi] Let_def)
      show ?thesis unfolding eq
        by (rule 1(2) [OF True refl ge 1(3) _ 1(5) le 1(7)]) (use mid(2) in simp_all)
    qed
  qed
qed

lemma bisect_right_count:
  assumes "sorted xs"
  shows "bisect_right xs x = length (filter (\<lambda>a. a \<le> x) xs)"
proof -
  let ?r = "bisect_right xs x"
  have r: "?r \<le> length xs" "\<forall>i < ?r. xs ! i \<le> x" "\<forall>i. ?r \<le> i \<and> i < length xs \<longrightarrow> x < xs ! i"
    using bisect_between_correct [OF assms, of 0 "length xs" x] by (simp_all add: bisect_right_def)
  have "filter (\<lambda>a. a \<le> x) (take ?r xs) = take ?r xs"
    using r(2) by (auto simp: filter_id_conv in_set_conv_nth)
  moreover have "filter (\<lambda>a. a \<le> x) (drop ?r xs) = []"
    using r(3) by (auto simp: filter_empty_conv in_set_conv_nth not_le)
  moreover have "filter (\<lambda>a. a \<le> x) xs = filter (\<lambda>a. a \<le> x) (take ?r xs) @ filter (\<lambda>a. a \<le> x) (drop ?r xs)"
    by (metis append_take_drop_id filter_append)
  ultimately show ?thesis using r(1) by simp
qed

lemma distinct_turns_props [simp]:
  "sorted (distinct_turns ns)" "distinct (distinct_turns ns)" "set (distinct_turns ns) = set ns"
  by (simp_all add: distinct_turns_def)

lemma distinct_turns_cong: "set ns = set ms \<Longrightarrow> distinct_turns ns = distinct_turns ms"
  by (rule sorted_distinct_set_unique) simp_all

section \<open>Slots\<close>

lemma upt_length_Cons: "[n..<n + length (x # ns)] = n # [Suc n..<Suc n + length ns]"
  by (subst upt_conv_Cons) simp_all

definition slots_ok :: "int \<Rightarrow> nat \<Rightarrow> slot list \<Rightarrow> bool" where
  "slots_ok h n slots \<longleftrightarrow> slots \<noteq> [] \<and> h \<le> snd (last slots) \<and> map snd slots = [h..snd (last slots)]
     \<and> List.map_filter fst slots = [0..<n] \<and> length slots \<le> 1 + 101 * (n - 1)"

lemma map_filter_append: "List.map_filter f (xs @ ys) = List.map_filter f xs @ List.map_filter f ys"
  by (simp add: List.map_filter_def)

lemma map_filter_none: "List.map_filter fst (map (\<lambda>m. (None, m)) ms) = []"
  by (simp add: List.map_filter_def)

lemma place_turn_ok:
  assumes "slots_ok h n slots" "0 < n"
  shows "slots_ok h (Suc n) (place_turn (n, number) slots)"
proof -
  define p where "p = snd (last slots)"
  have s: "slots \<noteq> []" "h \<le> p" "map snd slots = [h..p]" "List.map_filter fst slots = [0..<n]" "length slots \<le> 1 + 101 * (n - 1)"
    using assms(1) by (simp_all add: slots_ok_def p_def)
  show ?thesis
  proof (cases "number \<le> p \<or> number - p - 1 > MAX_TURN_BACKFILL")
    case True
    then have "place_turn (n, number) slots = slots @ [(Some n, p + 1)]" by (simp add: place_turn_def Let_def p_def)
    moreover have "[h..p] @ [p + 1] = [h..p + 1]" using upto_rec2 [of h "p + 1"] s(2) by simp
    ultimately show ?thesis using s assms(2) by (simp add: slots_ok_def map_filter_append map_filter_simps)
  next
    case False
    then have e: "place_turn (n, number) slots
        = slots @ map (\<lambda>missing. (None, missing)) [p + 1..number - 1] @ [(Some n, number)]"
      by (simp add: place_turn_def Let_def p_def)
    have "[h..p] @ [p + 1..number - 1] @ [number] = [h..number]"
      using upto_split2 [of h p number] upto_rec2 [of "p + 1" number] s(2) False by simp
    moreover have "length [p + 1..number - 1] \<le> 100" using False by (simp add: MAX_TURN_BACKFILL_def) linarith
    ultimately show ?thesis
      using s assms(2) False by (simp add: slots_ok_def e map_filter_append map_filter_none map_filter_simps comp_def)
  qed
qed

lemma place_turns_fold:
  assumes "slots_ok h n slots" "0 < n"
  shows "slots_ok h (n + length ns) (fold place_turn (zip [n..<n + length ns] ns) slots)"
  using assms
proof (induction ns arbitrary: n slots)
  case (Cons x ns)
  show ?case using Cons.IH [OF place_turn_ok [OF Cons.prems]] unfolding upt_length_Cons by simp
qed simp

lemma place_turns_ok: "ns \<noteq> [] \<Longrightarrow> slots_ok (hd ns) (length ns) (place_turns ns)"
  using place_turns_fold [of "hd ns" 1 "[(Some 0, hd ns)]" "tl ns"]
  by (cases ns) (simp_all add: place_turns_def slots_ok_def map_filter_simps)

text \<open>A consecutive history keeps its slots.\<close>

lemma consecutive_snoc: "consecutive (ns @ [a]) \<longleftrightarrow> consecutive ns \<and> (ns = [] \<or> last ns + 1 = a)"
  by (induction ns rule: consecutive.induct) auto

lemma consecutive_upto: "consecutive [a..b]"
proof (cases "a \<le> b")
  case True
  then show ?thesis
  proof (induction rule: int_ge_induct)
    case (step i)
    then have "[a..i + 1] = [a..i] @ [i + 1]" "last [a..i] = i" using upto_rec2 [of a "i + 1"] upto_rec2 [of a i] by simp_all
    with step show ?case by (simp add: consecutive_snoc)
  qed simp
qed simp

lemma place_consecutive_fold:
  assumes "consecutive (snd (last slots) # ns)"
  shows "fold place_turn (zip [n..<n + length ns] ns) slots = slots @ zip (map Some [n..<n + length ns]) ns"
  using assms
proof (induction ns arbitrary: n slots)
  case (Cons x ns)
  have "place_turn (n, x) slots = slots @ [(Some n, x)]"
    using Cons.prems by (auto simp: place_turn_def Let_def MAX_TURN_BACKFILL_def)
  with Cons.IH [of "slots @ [(Some n, x)]" "Suc n"] Cons.prems show ?case unfolding upt_length_Cons by simp
qed simp

lemma place_consecutive:
  assumes "consecutive ns"
  shows "ns \<noteq> [] \<Longrightarrow> place_turns ns = zip (map Some [0..<length ns]) ns"
proof (cases ns)
  case (Cons x xs)
  have "[0..<length ns] = 0 # [1..<1 + length xs]" using upt_length_Cons [of 0 x xs] by (simp add: Cons)
  then show ?thesis using place_consecutive_fold [of "[(Some 0, x)]" xs 1] assms by (simp add: place_turns_def Cons)
qed simp


section \<open>Rebuilding\<close>

text \<open>A turn without the two fields a renumbering may change.\<close>

definition turn_core :: "turn_progress \<Rightarrow> turn_progress" where
  "turn_core t = t\<lparr>tp_number := 0, tp_cause_at_start := None\<rparr>"

definition recorded :: "turn_progress list \<Rightarrow> turn_progress list" where
  "recorded ts = map turn_core (filter (\<lambda>t. \<not> is_skipped t) ts)"

abbreviation rebuilt :: "turn_progress list \<Rightarrow> slot list \<Rightarrow> turn_progress list" where
  "rebuilt H slots \<equiv> fst (fold (rebuild_slot H) slots ([], 0))"

lemma rebuild_snoc:
  "rebuilt H (slots @ [(None, n)]) = rebuilt H slots @ [placeholder n (tp_timestamp (last (rebuilt H slots)))]"
  "rebuilt H (slots @ [(Some i, n)]) = rebuilt H slots
     @ [if tp_number (H ! i) \<noteq> n then (H ! i)\<lparr>tp_number := n, tp_cause_at_start := None\<rparr> else H ! i]"
  by (simp_all add: rebuild_slot_def Let_def split: prod.split)

lemma placeholder_fields [simp]:
  "tp_number (placeholder n t) = n" "is_skipped (placeholder n t)" "\<not> is_out_of_band (placeholder n t)"
  "tp_cause_at_start (placeholder n t) = None"
  by (simp_all add: placeholder_def is_skipped_def is_out_of_band_def)

lemma renumbered_fields [simp]:
  "is_skipped (t\<lparr>tp_number := n, tp_cause_at_start := c\<rparr>) = is_skipped t"
  "is_out_of_band (t\<lparr>tp_number := n, tp_cause_at_start := c\<rparr>) = is_out_of_band t"
  "turn_core (t\<lparr>tp_number := n, tp_cause_at_start := c\<rparr>) = turn_core t"
  by (simp_all add: is_skipped_def is_out_of_band_def turn_core_def)

lemma rebuilt_numbers: "map tp_number (rebuilt H slots) = map snd slots"
proof (induction slots rule: rev_induct)
  case (snoc x slots)
  then show ?case by (cases x; cases "fst x") (auto simp: rebuild_snoc simp del: fold_append)
qed simp

lemma rebuilt_recorded:
  "List.map_filter fst slots = [0..<m] \<Longrightarrow> m \<le> length H \<Longrightarrow> recorded (rebuilt H slots) = recorded (take m H)"
proof (induction slots arbitrary: m rule: rev_induct)
  case Nil
  then show ?case by (cases m) (simp_all add: map_filter_simps recorded_def)
next
  case (snoc x slots)
  show ?case
  proof (cases x)
    case (Pair src n)
    show ?thesis
    proof (cases src)
      case None
      with snoc Pair show ?thesis
        by (simp add: rebuild_snoc map_filter_append map_filter_simps recorded_def del: fold_append)
    next
      case (Some i)
      with snoc.prems(1) Pair have e: "List.map_filter fst slots @ [i] = [0..<m]"
        by (simp add: map_filter_append map_filter_simps)
      then have m: "0 < m" by (cases m) simp_all
      with e have i: "i = m - 1" "List.map_filter fst slots = [0..<m - 1]"
        by (cases m; simp)+
      have "take m H = take (m - 1) H @ [H ! i]" using m snoc.prems(2) i(1) take_Suc_conv_app_nth [of "m - 1" H] by simp
      with snoc.IH [OF i(2)] snoc.prems(2) show ?thesis
        by (auto simp: Pair Some rebuild_snoc recorded_def simp del: fold_append)
    qed
  qed
qed

lemma map_filter_cong: "(\<And>x. x \<in> set xs \<Longrightarrow> f x = g x) \<Longrightarrow> List.map_filter f xs = List.map_filter g xs"
  by (induction xs) (auto simp: map_filter_simps split: option.split)

lemma rebuilt_asides:
  "map tp_number (filter is_out_of_band (rebuilt H slots)) = List.map_filter (\<lambda>(source, number).
     case source of None \<Rightarrow> None | Some i \<Rightarrow> if is_out_of_band (H ! i) then Some number else None) slots"
proof (induction slots rule: rev_induct)
  case (snoc x slots)
  then show ?case
    by (cases x; cases "fst x")
      (auto simp: rebuild_snoc map_filter_append map_filter_simps simp del: fold_append)
qed (simp add: map_filter_simps)

lemma rebuilt_same:
  "n \<le> length H \<Longrightarrow> rebuilt H (map (\<lambda>i. (Some i, tp_number (H ! i))) [0..<n]) = take n H"
proof (induction n)
  case (Suc n)
  have "map (\<lambda>i. (Some i, tp_number (H ! i))) [0..<Suc n]
      = map (\<lambda>i. (Some i, tp_number (H ! i))) [0..<n] @ [(Some n, tp_number (H ! n))]" by simp
  with Suc show ?case by (simp only: rebuild_snoc) (simp add: take_Suc_conv_app_nth del: fold_append)
qed simp

lemma zip_slots: "zip (map Some [0..<length H]) (map tp_number H) = map (\<lambda>i. (Some i, tp_number (H ! i))) [0..<length H]"
  by (rule nth_equalityI) simp_all

text \<open>Both paths of the repair, as one: rebuild over the slots of the numbers.\<close>

lemma reconcile_unified:
  assumes "reconcile_turn_sequence s = (s', r)" "ts_history s \<noteq> []"
  defines "ns \<equiv> map tp_number (ts_history s)"
  shows "ts_history s' = rebuilt (ts_history s) (place_turns ns)"
    "ts_current_turn s' = snd (reconcile_turn_numbers ns (ts_current_turn s))"
    "consecutive ns \<Longrightarrow> ts_history s' = ts_history s \<and> r = 0"
proof -
  have ns: "ns \<noteq> []" using assms(2) by (simp add: ns_def)
  have same: "rebuilt (ts_history s) (place_turns ns) = ts_history s" "map snd (place_turns ns) = ns" if "consecutive ns"
  proof -
    have p: "place_turns ns = zip (map Some [0..<length (ts_history s)]) ns"
      using place_consecutive [OF that ns] by (simp add: ns_def)
    show "map snd (place_turns ns) = ns" unfolding p by (simp add: ns_def)
    show "rebuilt (ts_history s) (place_turns ns) = ts_history s"
      using rebuilt_same [OF order_refl, of "ts_history s"] unfolding p unfolding ns_def zip_slots by simp
  qed
  have last: "snd (last (place_turns ns)) = last ns" if "consecutive ns"
    using same(2) [OF that] ns by (metis last_map list.map_disc_iff)
  have slots: "fst (reconcile_turn_numbers ns (ts_current_turn s)) = place_turns ns"
    using ns by (simp add: reconcile_turn_numbers_def Let_def)
  have step: "reconcile_turn_sequence s = (if consecutive ns
      then (if ts_current_turn s < last ns then s\<lparr>ts_current_turn := last ns\<rparr> else s, 0)
      else (s\<lparr>ts_history := rebuilt (ts_history s) (place_turns ns),
              ts_current_turn := snd (reconcile_turn_numbers ns (ts_current_turn s))\<rparr>,
            snd (fold (rebuild_slot (ts_history s)) (place_turns ns) ([], 0))))"
    using assms(2) by (simp add: reconcile_turn_sequence_def Let_def case_prod_beta slots [unfolded ns_def] ns_def)
  show "consecutive ns \<Longrightarrow> ts_history s' = ts_history s \<and> r = 0"
    using assms(1) by (auto simp: step split: if_splits)
  show "ts_history s' = rebuilt (ts_history s) (place_turns ns)"
  proof (cases "consecutive ns")
    case True
    then show ?thesis using assms(1) same(1) [OF True] unfolding step by (auto split: if_splits)
  next
    case False
    then show ?thesis using assms(1) unfolding step by auto
  qed
  show "ts_current_turn s' = snd (reconcile_turn_numbers ns (ts_current_turn s))"
  proof (cases "consecutive ns")
    case True
    have "snd (reconcile_turn_numbers ns (ts_current_turn s)) = (if ts_current_turn s < last ns then last ns else ts_current_turn s)"
      using ns last [OF True] by (simp add: reconcile_turn_numbers_def Let_def)
    then show ?thesis using assms(1) True unfolding step by (auto split: if_splits)
  next
    case False
    then show ?thesis using assms(1) unfolding step by auto
  qed
qed

lemma reconcile_empty: "ts_history s = [] \<Longrightarrow> reconcile_turn_sequence s = (s, 0)"
  by (simp add: reconcile_turn_sequence_def)


lemma healed:
  assumes "reconcile_turn_sequence s = (s', r)" "ts_history s \<noteq> []"
  shows "consecutive (map tp_number (ts_history s'))"
    and "ts_history s' \<noteq> [] \<and> tp_number (hd (ts_history s')) = tp_number (hd (ts_history s))
      \<and> tp_number (last (ts_history s')) \<le> ts_current_turn s'
      \<and> recorded (ts_history s') = recorded (ts_history s)
      \<and> (consecutive (map tp_number (ts_history s)) \<longrightarrow> ts_history s' = ts_history s \<and> r = 0)"
proof -
  let ?ns = "map tp_number (ts_history s)"
  have ns: "?ns \<noteq> []" using assms(2) by simp
  note u = reconcile_unified [OF assms]
  note ok = place_turns_ok [OF ns, unfolded slots_ok_def]
  have nums: "map tp_number (ts_history s') = [hd ?ns..snd (last (place_turns ?ns))]"
    using ok u(1) by (simp add: rebuilt_numbers)
  then show "consecutive (map tp_number (ts_history s'))" by (simp add: consecutive_upto)
  have le: "hd ?ns \<le> snd (last (place_turns ?ns))" using ok by simp
  have ne: "ts_history s' \<noteq> []" using nums le by (metis list.map_disc_iff upto_empty not_less upto_Nil)
  have "tp_number (hd (ts_history s')) = hd ?ns"
    using nums le ne by (metis hd_map list.sel(1) upto_rec1)
  then have h: "tp_number (hd (ts_history s')) = tp_number (hd (ts_history s))" using assms(2) by (simp add: hd_map)
  have l: "tp_number (last (ts_history s')) = snd (last (place_turns ?ns))"
    using nums le ne upto_rec2 [of "hd ?ns" "snd (last (place_turns ?ns))"] by (metis last_map last_snoc)
  have "snd (last (place_turns ?ns)) \<le> ts_current_turn s'"
    using u(2) ns by (simp add: reconcile_turn_numbers_def Let_def split: if_splits)
  moreover have "recorded (ts_history s') = recorded (ts_history s)"
    using ok u(1) rebuilt_recorded [of "place_turns ?ns" "length (ts_history s)" "ts_history s"] by simp
  ultimately show "ts_history s' \<noteq> [] \<and> tp_number (hd (ts_history s')) = tp_number (hd (ts_history s))
      \<and> tp_number (last (ts_history s')) \<le> ts_current_turn s'
      \<and> recorded (ts_history s') = recorded (ts_history s)
      \<and> (consecutive (map tp_number (ts_history s)) \<longrightarrow> ts_history s' = ts_history s \<and> r = 0)"
    using u(3) ne h l by simp
qed

section \<open>Properties\<close>

text \<open>C28: The repair of a turn history heals it and loses nothing: afterwards the numbers are consecutive from
  the same first number, the clock is not behind the last of them, and leaving out the placeholders
  of skipped turns the history is the recorded turns in their order, with nothing but their numbers
  and the cause recorded with a number changed. A history that was consecutive is left alone.\<close>

theorem reconcile_heals_the_history:
  assumes "reconcile_turn_sequence s = (s', r)" "ts_history s \<noteq> []"
  shows "consecutive (map tp_number (ts_history s')) \<and> tp_number (hd (ts_history s')) = tp_number (hd (ts_history s))
      \<and> tp_number (last (ts_history s')) \<le> ts_current_turn s'
      \<and> recorded (ts_history s') = recorded (ts_history s)
      \<and> (consecutive (map tp_number (ts_history s)) \<longrightarrow> ts_history s' = ts_history s \<and> r = 0)"
  using healed [OF assms] by simp

text \<open>C29: The repair is idempotent and bounded: repairing a repaired history changes nothing and counts no
  repair, and the repaired history is at most a hundred and one times as long as the stored one,
  however far apart its numbers were.\<close>

theorem reconcile_idempotent_and_bounded:
  assumes "reconcile_turn_sequence s = (s', r)"
  shows "reconcile_turn_sequence s' = (s', 0) \<and> length (ts_history s') \<le> 101 * length (ts_history s)"
proof (cases "ts_history s = []")
  case True
  then show ?thesis using assms by (simp add: reconcile_empty)
next
  case False
  note heal = healed [OF assms False]
  let ?ns = "map tp_number (ts_history s)"
  have "length (ts_history s') = length (place_turns ?ns)"
    using reconcile_unified(1) [OF assms False] rebuilt_numbers [of "ts_history s" "place_turns ?ns"]
    by (metis length_map)
  moreover have "length (place_turns ?ns) \<le> 1 + 101 * (length ?ns - 1)"
    using place_turns_ok [of ?ns] False by (simp add: slots_ok_def)
  moreover have "0 < length (ts_history s)" using False by simp
  ultimately have "length (ts_history s') \<le> 101 * length (ts_history s)"
    unfolding length_map by linarith
  moreover have "reconcile_turn_sequence s' = (s', 0)"
    using heal by (simp add: reconcile_turn_sequence_def Let_def last_map)
  ultimately show ?thesis by simp
qed

text \<open>C27: A case that is not loaded reports what the loaded one does: the clock and the investigation turn
  derived from the stored turn numbers and flags are those of the case after its history was
  repaired, however damaged the stored history is.\<close>

theorem stored_and_loaded_turns_agree:
  assumes "reconcile_turn_sequence s = (s', r)"
  shows "turn_fields (Some (map tp_number (ts_history s))) (Some (map is_out_of_band (ts_history s))) (ts_current_turn s)
    = Inr (ts_current_turn s', investigation_turn_count s')"
proof (cases "ts_history s = []")
  case True
  then show ?thesis
    using assms by (simp add: reconcile_empty turn_fields_def reconcile_turn_numbers_def investigation_turn_count_def
        case_investigation_turn_at_def out_of_band_turns_def map_filter_simps)
next
  case False
  let ?ns = "map tp_number (ts_history s)"
  note u = reconcile_unified [OF assms False]
  have slots: "reconcile_turn_numbers ?ns (ts_current_turn s) = (place_turns ?ns, ts_current_turn s')"
    unfolding u(2) using False by (simp add: reconcile_turn_numbers_def Let_def)
  have src: "i < length (ts_history s)" if "(Some i, n) \<in> set (place_turns ?ns)" for i n
  proof -
    have "i \<in> set (List.map_filter fst (place_turns ?ns))" using that by (force simp: List.map_filter_def)
    then show ?thesis using place_turns_ok [of ?ns] False by (simp add: slots_ok_def)
  qed
  have "List.map_filter (\<lambda>(source, number). case source of None \<Rightarrow> None
        | Some i \<Rightarrow> if map is_out_of_band (ts_history s) ! i then Some number else None) (place_turns ?ns)
      = List.map_filter (\<lambda>(source, number). case source of None \<Rightarrow> None
        | Some i \<Rightarrow> if is_out_of_band (ts_history s ! i) then Some number else None) (place_turns ?ns)"
    by (rule map_filter_cong) (auto split: option.split simp: nth_map [OF src])
  also have "\<dots> = map tp_number (filter is_out_of_band (ts_history s'))"
    using u(1) rebuilt_asides [of "ts_history s" "place_turns ?ns"] by simp
  finally show ?thesis
    by (simp add: turn_fields_def slots investigation_turn_count_def case_investigation_turn_at_def out_of_band_turns_def)
qed

text \<open>The investigation ordinal printed beside a message never exceeds the count of the case, advances by one
  at a turn that is part of the investigation, and keeps its value at an aside.\<close>

theorem ordinal_skips_asides:
  assumes "list_all (\<lambda>t. is_out_of_band t \<longrightarrow> 1 \<le> tp_number t) (ts_history s)" "0 \<le> n" "n < ts_current_turn s"
  shows "case_investigation_turn_at s (n + 1) None = case_investigation_turn_at s n None
      + (if n + 1 \<in> set (out_of_band_turns s) then 0 else 1)
    \<and> case_investigation_turn_at s m None \<le> investigation_turn_count s"
proof -
  let ?as = "out_of_band_turns s" and ?ct = "ts_current_turn s"
  have as: "sorted ?as" "distinct ?as" "\<forall>a \<in> set ?as. 1 \<le> a"
    using assms(1) by (auto simp: out_of_band_turns_def list_all_iff)
  define f where "f k = length (filter (\<lambda>a. a \<le> k) ?as)" for k :: int
  have at: "case_investigation_turn_at s k None = max 0 (min k ?ct - int (f (min k ?ct)))" for k
    by (simp add: case_investigation_turn_at_def investigation_turn_at_def Let_def bisect_right_count [OF as(1)] f_def)
  have card: "f k = card (set ?as \<inter> {..k})" for k
    using as(2) by (simp add: f_def distinct_card [symmetric] Int_def Collect_conj_eq [symmetric] cong: conj_cong)
  have step: "f (k + 1) = f k + (if k + 1 \<in> set ?as then 1 else 0)" for k
  proof -
    have "set ?as \<inter> {..k + 1} = (if k + 1 \<in> set ?as then insert (k + 1) (set ?as \<inter> {..k}) else set ?as \<inter> {..k})"
      using zle_add1_eq_le [of _ k] by (auto simp: le_less)
    then show ?thesis by (simp add: card)
  qed
  have le: "int (f k) \<le> k" if "0 \<le> k" for k
  proof -
    have "card (set ?as \<inter> {..k}) \<le> card {1..k}" using as(3) by (intro card_mono) auto
    then show ?thesis using that by (simp add: card)
  qed
  have mono: "k - int (f k) \<le> k + int j - int (f (k + int j))" for k j
  proof (induction j)
    case (Suc j)
    then show ?case using step [of "k + int j"] by (simp add: algebra_simps split: if_splits)
  qed simp
  have "max 0 (min m ?ct - int (f (min m ?ct))) \<le> max 0 (?ct - int (f ?ct))"
    using mono [of "min m ?ct" "nat (?ct - min m ?ct)"] by auto
  moreover have "case_investigation_turn_at s (n + 1) None = case_investigation_turn_at s n None
      + (if n + 1 \<in> set ?as then 0 else 1)"
    using le [OF assms(2)] step [of n] assms(3) by (auto simp: at)
  ultimately show ?thesis by (simp add: investigation_turn_count_def at)
qed


section \<open>Example\<close>

definition ex_turn :: "int \<Rightarrow> turn_outcome \<Rightarrow> turn_progress" where
  "ex_turn n out = \<lparr>tp_number = n, tp_cause_at_start = None, tp_timestamp = n, tp_milestones_completed = [],
     tp_evidence_added = [], tp_hypotheses_generated = [], tp_hypotheses_validated = [], tp_solutions_proposed = [],
     tp_progress_made = True, tp_outcome = out, tp_user_summary = None, tp_agent_summary = None\<rparr>"

text \<open>A gap, a duplicate and a jump beyond the cap.\<close>

definition ex_turns :: turn_state where
  "ex_turns = \<lparr>ts_history = [ex_turn 1 CONVERSATION, ex_turn 3 OUT_OF_BAND, ex_turn 3 DATA_PROVIDED, ex_turn 500 OUT_OF_BAND],
     ts_current_turn = 500\<rparr>"

lemma ex_turns_repaired:
  "map tp_number (ts_history (fst (reconcile_turn_sequence ex_turns))) = [1, 2, 3, 4, 5]"
  "ts_current_turn (fst (reconcile_turn_sequence ex_turns)) = 5" "snd (reconcile_turn_sequence ex_turns) = 3"
  "investigation_turn_count (fst (reconcile_turn_sequence ex_turns)) = 3"
  by code_simp+

theorem reconcile_heals_the_history_witness:
  "recorded (ts_history (fst (reconcile_turn_sequence ex_turns))) = recorded (ts_history ex_turns)"
  using reconcile_heals_the_history [of ex_turns "fst (reconcile_turn_sequence ex_turns)" "snd (reconcile_turn_sequence ex_turns)"]
  by (simp add: ex_turns_def)

theorem reconcile_idempotent_and_bounded_witness:
  "reconcile_turn_sequence (fst (reconcile_turn_sequence ex_turns)) = (fst (reconcile_turn_sequence ex_turns), 0)"
  by (rule conjunct1 [OF reconcile_idempotent_and_bounded [of ex_turns _ "snd (reconcile_turn_sequence ex_turns)"]]) simp

theorem stored_and_loaded_turns_agree_witness:
  "turn_fields (Some [1, 3, 3, 500]) (Some [False, True, False, True]) 500 = Inr (5, 3)"
proof -
  have "turn_fields (Some (map tp_number (ts_history ex_turns))) (Some (map is_out_of_band (ts_history ex_turns))) (ts_current_turn ex_turns)
    = Inr (ts_current_turn (fst (reconcile_turn_sequence ex_turns)), investigation_turn_count (fst (reconcile_turn_sequence ex_turns)))"
    by (rule stored_and_loaded_turns_agree [of ex_turns _ "snd (reconcile_turn_sequence ex_turns)"]) simp
  moreover have "map tp_number (ts_history ex_turns) = [1, 3, 3, 500]" "ts_current_turn ex_turns = 500"
    "map is_out_of_band (ts_history ex_turns) = [False, True, False, True]" by code_simp+
  ultimately show ?thesis by (simp only: ex_turns_repaired)
qed

theorem ordinal_skips_asides_witness:
  "case_investigation_turn_at ex_turns (2 + 1) None = case_investigation_turn_at ex_turns 2 None
     + (if 2 + 1 \<in> set (out_of_band_turns ex_turns) then 0 else 1)"
proof -
  have 1: "list_all (\<lambda>t. is_out_of_band t \<longrightarrow> 1 \<le> tp_number t) (ts_history ex_turns)" by code_simp
  have 2: "(2::int) < ts_current_turn ex_turns" by code_simp
  show ?thesis using ordinal_skips_asides [OF 1 _ 2] by simp
qed

end
