(* ===== verification/Fix_Windows.thy ===== *)
theory Fix_Windows
  imports Clusters Support_Holds
begin

text \<open>
  What the record says of a fix: the fix windows of \<open>core/investigation/cause_assurance.py\<close>. An
  observation is bound to the subject it re-observes (the problem, or a cause of the pool) and dated
  by its data; a window reads, after one executed fix and until the next, whether the cause was seen
  removed, whether the problem was seen gone, and whether it was seen to persist.

  The memo table of \<open>SubjectIndex\<close> and the warning about an undated file are left out. The graph
  hooks are the functions \<open>causal_graph/__init__.py\<close> registers. A file's turn and the row an
  observation re-observes are read from \<open>case_uploads\<close> and \<open>case_rechecks\<close>.
\<close>

section \<open>The fixes on record\<close>

definition ENGINE_EVIDENCE_AUTHOR :: string where
  "ENGINE_EVIDENCE_AUTHOR = ''engine''"

definition FIX_INTERCEPTION :: string where
  "FIX_INTERCEPTION = ''interception''"

definition FIX_REMEDIATION :: string where
  "FIX_REMEDIATION = ''remediation''"

definition dated_fixes :: "case_data \<Rightarrow> proposed_action list" where
  "dated_fixes c = filter (\<lambda>a. act_state a = ACTION_ACCEPTED \<and> act_type a = SOLUTION
     \<and> act_accepted_in_turn a \<noteq> None) (case_actions c)"

definition fix_turn_of :: "proposed_action \<Rightarrow> int" where
  "fix_turn_of a = (case act_accepted_in_turn a of None \<Rightarrow> 0 | Some t \<Rightarrow> t)"

definition dated_fix_turns :: "case_data \<Rightarrow> int list" where
  "dated_fix_turns c = sorted_list_of_set (set (map fix_turn_of (dated_fixes c)))"

definition fix_application_turn :: "case_data \<Rightarrow> int option" where
  "fix_application_turn c = (let turns = dated_fix_turns c in if turns = [] then None else Some (last turns))"

definition is_remediation :: "proposed_action \<Rightarrow> bool" where
  "is_remediation a \<longleftrightarrow> act_fix_kind a \<noteq> Some FIX_INTERCEPTION"

definition remediations_at :: "case_data \<Rightarrow> int option \<Rightarrow> proposed_action list" where
  "remediations_at c turn = filter (\<lambda>a. act_accepted_in_turn a = turn \<and> is_remediation a) (dated_fixes c)"

text \<open>Per turn with a remediation: whether all of them were kinded, and then the nodes they act on.\<close>

definition window_fixes :: "case_data \<Rightarrow> (int, bool \<times> string list) pydict" where
  "window_fixes c =
    (let turns = fold (\<lambda>a d.
           if is_remediation a
           then (case (case dict_get d (fix_turn_of a) of None \<Rightarrow> (True, []) | Some e \<Rightarrow> e) of
                 (kinded, targets) \<Rightarrow>
                   dict_put (fix_turn_of a) (kinded \<and> act_fix_kind a \<noteq> None, targets @ act_target_ids a) d)
           else d) (dated_fixes c) []
     in map (\<lambda>(turn, kinded, targets).
          (turn, kinded, if kinded then sorted_list_of_set (set targets) else [])) turns)"

section \<open>The roots a re-check can be about\<close>

definition engine_absence_row_ids :: "case_data \<Rightarrow> string set" where
  "engine_absence_row_ids c = set (map ev_id (filter (\<lambda>e. ev_category e = CAUSAL_ABSENCE_EVIDENCE
     \<and> ev_collected_by e = ENGINE_EVIDENCE_AUTHOR) (case_evidence c)))"

definition latest_disconfirmation_turn :: "case_data \<Rightarrow> int" where
  "latest_disconfirmation_turn c =
    (let engine_ids = engine_absence_row_ids c in
     if engine_ids = {} then -1
     else fold max (map ev_collected_at_turn (filter (\<lambda>e. ev_id e \<in> engine_ids) (case_evidence c))) (-1))"

definition pool_legs :: "case_data \<Rightarrow> string set \<times> string set \<times> string set" where
  "pool_legs c =
    (let nodes = case_nodes c;
         engine_ids = engine_absence_row_ids c;
         recorded = set (prog_identified_cause_root_ids (case_prog c));
         identified = set (map fst (filter (\<lambda>(nid, n). is_identified_root n) nodes));
         fallen = set (map fst (filter (\<lambda>(nid, n). node_type n = ROOT
           \<and> (nid \<in> recorded
              \<or> list_ex (\<lambda>l. link_stance l = REFUTES \<and> link_evidence_id l \<in> engine_ids) (node_links n))) nodes));
         held = (if identified = {} \<and> nodes \<noteq> []
           then Set.filter (\<lambda>nid. case dict_get nodes nid of None \<Rightarrow> False | Some n \<Rightarrow> root_terminal n = Some True)
                  (support_count_held_root_ids c)
           else {})
     in (identified, held, fallen))"

text \<open>The newest remediation turn's entry: \<open>fixes[max(fixes)]\<close>, \<open>(False, ())\<close> with none.\<close>

definition newest_fix :: "(int, bool \<times> string list) pydict \<Rightarrow> bool \<times> string list" where
  "newest_fix fixes =
    (if fixes = [] then (False, [])
     else case dict_get fixes (fold max (dict_keys fixes) (hd (dict_keys fixes))) of
         None \<Rightarrow> (False, []) | Some e \<Rightarrow> e)"

text \<open>The roots that confirm, the roots a window observes, and the rootless hypotheses that confirm.\<close>

definition cause_pool :: "case_data \<Rightarrow> string set \<times> string set \<times> string set" where
  "cause_pool c =
    (case pool_legs c of (identified, held, fallen) \<Rightarrow>
      if identified \<noteq> {} then (identified, identified \<union> fallen, {})
      else if held \<noteq> {} then (held, held \<union> fallen, {})
      else
       (let hyps = dict_values (case_hypotheses c);
            other_standing = list_ex (\<lambda>h. hyp_state h \<in> set STANDING_HYP_STATES \<and> truthy (hyp_root h)
              \<and> or_empty (hyp_root h) \<notin> fallen) hyps;
            rootless = set (map hyp_id (filter (\<lambda>h. hyp_state h = H_VALIDATED \<and> \<not> truthy (hyp_root h)) hyps));
            (kinded, targets) = newest_fix (window_fixes c);
            named = fallen \<inter> set targets
        in if fallen \<noteq> {} \<and> \<not> other_standing \<and> \<not> kinded then (fallen, fallen, {})
           else if fallen \<noteq> {} \<and> \<not> other_standing \<and> named \<noteq> {} then (named, fallen, {})
           else ({}, fallen, rootless)))"

definition one_cause :: "case_data \<Rightarrow> string set \<Rightarrow> bool" where
  "one_cause c root_ids =
    (if card root_ids \<le> 1 then True
     else case sole_cluster_origin c root_ids of Some (Some _) \<Rightarrow> True | _ \<Rightarrow> False)"

section \<open>The subject of an observation\<close>

record subject_index =
  sx_rows :: "(string, evidence) pydict"
  sx_verifying :: "string list"
  sx_pool_roots :: "string set"
  sx_window_roots :: "string set"
  sx_pool_hypotheses :: "string set"
  sx_node_supports :: "(string, string set) pydict"
  sx_hypothesis_supports :: "(string, string set) pydict"
  sx_citations :: "(string, string list) pydict"
  sx_upload_turns :: "(string, int) pydict"

definition meta_list :: "meta_value option \<Rightarrow> string list" where
  "meta_list v = (case v of Some (MList l) \<Rightarrow> l | _ \<Rightarrow> [])"

definition set_at :: "('k, 'a set) pydict \<Rightarrow> 'k \<Rightarrow> 'a set" where
  "set_at d k = (case dict_get d k of None \<Rightarrow> {} | Some s \<Rightarrow> s)"

text \<open>\<open>setdefault(row, set()).add(owner)\<close> over the SUPPORTS links of an owner.\<close>

definition index_supports ::
    "string \<Rightarrow> 'a evidence_link_scheme list \<Rightarrow> (string, string set) pydict \<Rightarrow> (string, string set) pydict" where
  "index_supports owner ls d =
    fold (\<lambda>l d. if link_stance l = SUPPORTS
       then dict_put (link_evidence_id l) (insert owner (set_at d (link_evidence_id l))) d else d) ls d"

definition subject_index :: "case_data \<Rightarrow> subject_index" where
  "subject_index c =
    (case cause_pool c of (pool_roots, window_roots, pool_hypotheses) \<Rightarrow>
     \<lparr>sx_rows = fold (\<lambda>e d. if ev_id e \<noteq> [] \<and> ev_collected_by e \<noteq> ENGINE_EVIDENCE_AUTHOR
         then dict_put (ev_id e) e d else d) (case_evidence c) [],
      sx_verifying = dict_fromkeys (case_verifying_ids c),
      sx_pool_roots = pool_roots, sx_window_roots = window_roots, sx_pool_hypotheses = pool_hypotheses,
      sx_node_supports = fold (\<lambda>(nid, n). index_supports nid (node_links n)) (case_nodes c) [],
      sx_hypothesis_supports = fold (\<lambda>h. index_supports (hyp_id h) (hyp_links h)) (dict_values (case_hypotheses c)) [],
      sx_citations = map (\<lambda>(nid, n). (nid, meta_list (dict_get (node_metadata n) ''root_terminal_evidence_ids'')))
        (case_nodes c),
      sx_upload_turns = case_uploads c\<rparr>)"

definition observed :: "subject_index \<Rightarrow> evidence \<Rightarrow> int" where
  "observed sx row =
    (if \<not> truthy (ev_source_file_id row) then ev_collected_at_turn row
     else case dict_get (sx_upload_turns sx) (or_empty (ev_source_file_id row)) of
         None \<Rightarrow> ev_collected_at_turn row
       | Some turn \<Rightarrow> turn)"

definition observed_turn :: "case_data \<Rightarrow> evidence \<Rightarrow> int" where
  "observed_turn c row = observed (subject_index c) row"

definition ABSENCE_CATEGORIES :: "evidence_category list" where
  "ABSENCE_CATEGORIES = [CAUSAL_ABSENCE_EVIDENCE, SYMPTOM_ABSENCE_EVIDENCE]"

definition PROBLEM_OBSERVATIONS :: "evidence_category list" where
  "PROBLEM_OBSERVATIONS = [SYMPTOM_ABSENCE_EVIDENCE, SYMPTOM_EVIDENCE]"

definition citing_roots :: "subject_index \<Rightarrow> string \<Rightarrow> string set" where
  "citing_roots sx eid = Set.filter (\<lambda>n. case dict_get (sx_citations sx) n of
     None \<Rightarrow> False | Some ids \<Rightarrow> eid \<in> set ids) (sx_pool_roots sx)"

definition is_root_id :: "case_data \<Rightarrow> string \<Rightarrow> bool" where
  "is_root_id c n = (case dict_get (case_nodes c) n of None \<Rightarrow> False | Some nd \<Rightarrow> node_type nd = ROOT)"

definition cause_targets ::
    "case_data \<Rightarrow> subject_index \<Rightarrow> string \<Rightarrow> bool \<Rightarrow> string set option \<Rightarrow> bool option \<Rightarrow> string set" where
  "cause_targets c sx eid windows roots cited =
    (let cited = (case cited of None \<Rightarrow> roots = None \<and> \<not> windows | Some b \<Rightarrow> b) in
     case dict_get (sx_rows sx) eid of
       None \<Rightarrow> {}
     | Some target \<Rightarrow>
        if ev_category target \<in> set ABSENCE_CATEGORIES then {}
        else
         (let linked = set_at (sx_node_supports sx) eid;
              hypotheses = (if roots = None then sx_pool_hypotheses sx else {});
              rts = (case roots of Some r \<Rightarrow> r
                | None \<Rightarrow> if windows then sx_window_roots sx else sx_pool_roots sx)
          in if rts \<noteq> {} \<and> cited
             then (let citing = citing_roots sx eid in
               if citing \<inter> rts \<noteq> {} \<or> (citing \<noteq> {} \<and> one_cause c (citing \<union> rts)) then citing else {})
             else if rts \<noteq> {}
             then (if linked \<inter> rts \<noteq> {} \<and> (\<forall>n \<in> linked. is_root_id c n) \<and> one_cause c linked then linked else {})
             else if hypotheses \<noteq> {}
             then (let hits = set_at (sx_hypothesis_supports sx) eid \<inter> hypotheses in
               if card hits = 1 \<and> linked = {} then hits else {})
             else {}))"

datatype subject = SUBJECT_PROBLEM | SUBJECT_CAUSE | SUBJECT_UNBOUND

definition subject_of ::
    "case_data \<Rightarrow> subject_index \<Rightarrow> evidence \<Rightarrow> bool \<Rightarrow> string set option \<Rightarrow> bool option \<Rightarrow> subject" where
  "subject_of c sx row windows roots cited =
    (case dict_get (case_rechecks c) (ev_id row) of
       None \<Rightarrow> SUBJECT_UNBOUND
     | Some target_id \<Rightarrow>
        if dict_get (sx_rows sx) target_id = None \<or> ev_collected_by row = ENGINE_EVIDENCE_AUTHOR
        then SUBJECT_UNBOUND
        else if ev_category row \<in> set PROBLEM_OBSERVATIONS
        then (if target_id \<in> set (sx_verifying sx) then SUBJECT_PROBLEM else SUBJECT_UNBOUND)
        else if ev_category row = CAUSAL_ABSENCE_EVIDENCE \<and> cause_targets c sx target_id windows roots cited \<noteq> {}
        then SUBJECT_CAUSE
        else SUBJECT_UNBOUND)"

definition rechecked :: "case_data \<Rightarrow> evidence \<Rightarrow> string" where
  "rechecked c row = or_empty (dict_get (case_rechecks c) (ev_id row))"

definition addresses :: "case_data \<Rightarrow> subject_index \<Rightarrow> evidence \<Rightarrow> string set \<Rightarrow> bool \<Rightarrow> bool" where
  "addresses c sx row root_ids windows =
    (let target = cause_targets c sx (rechecked c row) windows None None
     in target \<noteq> {} \<and> (target \<inter> root_ids \<noteq> {} \<or> one_cause c (target \<union> root_ids)))"

definition bindable_rows :: "case_data \<Rightarrow> subject_index \<Rightarrow> evidence list \<times> evidence list" where
  "bindable_rows c sx =
    (List.map_filter (dict_get (sx_rows sx)) (sx_verifying sx),
     sort_key ev_collected_at_turn (map snd (filter (\<lambda>(eid, row).
        eid \<notin> set (sx_verifying sx) \<and> cause_targets c sx eid False None None \<noteq> {}) (sx_rows sx))))"

definition observation_subject :: "case_data \<Rightarrow> evidence \<Rightarrow> subject" where
  "observation_subject c row = subject_of c (subject_index c) row False None None"

section \<open>Windows\<close>

datatype fix_state = FIX_UNKNOWN | FIX_SUCCEEDED | FIX_FAILED

record fix_window =
  fw_fix_turn :: "int option"
  fw_end_turn :: "int option"
  fw_cause_rows :: "evidence list"
  fw_state :: fix_state
  fw_failure_turn :: "int option"
  fw_observed :: bool
  fw_relief_turn :: "int option"
  fw_disconfirmation :: "(int \<times> int) option"
  fw_confirmed_cause_rows :: "evidence list"
  fw_targets :: "string list"
  fw_kind :: "string option"
  fw_off_cause :: bool

text \<open>\<open>FixWindow.holds\<close>: a window is the half-open interval from its fix to its end.\<close>

definition span_holds :: "int option \<Rightarrow> int option \<Rightarrow> int \<Rightarrow> bool" where
  "span_holds fix_turn end_turn turn \<longleftrightarrow>
     (case fix_turn of None \<Rightarrow> True | Some t \<Rightarrow> turn \<ge> t) \<and> (case end_turn of None \<Rightarrow> True | Some t \<Rightarrow> turn < t)"

definition window_holds :: "fix_window \<Rightarrow> int \<Rightarrow> bool" where
  "window_holds w turn = span_holds (fw_fix_turn w) (fw_end_turn w) turn"

definition disconfirms_cause :: "fix_window \<Rightarrow> bool" where
  "disconfirms_cause w \<longleftrightarrow> fw_disconfirmation w \<noteq> None"

subsection \<open>Reading the turns of a window\<close>

text \<open>\<open>max((g for g in gone_turns if g <= p), default=-1)\<close>.\<close>

definition last_gone :: "int list \<Rightarrow> int \<Rightarrow> int" where
  "last_gone gone p = (case filter (\<lambda>g. g \<le> p) gone of [] \<Rightarrow> -1 | g # gs \<Rightarrow> fold max gs g)"

fun first_disconfirmation :: "int list \<Rightarrow> int list \<Rightarrow> int list \<Rightarrow> (int \<times> int) option" where
  "first_disconfirmation cause_turns gone [] = None"
| "first_disconfirmation cause_turns gone (p # after_fix) =
    (case find (\<lambda>t. last_gone gone p < t \<and> t \<le> p) cause_turns of
       Some r \<Rightarrow> Some (r, p)
     | None \<Rightarrow> first_disconfirmation cause_turns gone after_fix)"

fun scan_turns :: "int list \<Rightarrow> int option \<Rightarrow> int list \<Rightarrow> fix_state \<times> int option \<times> int option" where
  "scan_turns gone relief [] = (FIX_UNKNOWN, None, relief)"
| "scan_turns gone relief (turn # turns) =
    (if turn \<in> set gone then scan_turns gone (if relief = None then Some turn else relief) turns
     else (FIX_FAILED, Some turn, relief))"

definition sorted_turns :: "int list \<Rightarrow> int list" where
  "sorted_turns ts = sorted_list_of_set (set ts)"

definition min_turn :: "int list \<Rightarrow> int option" where
  "min_turn ts = (case ts of [] \<Rightarrow> None | t # ts \<Rightarrow> Some (fold min ts t))"

subsection \<open>A root that was deepened into another\<close>

definition deepened_into :: "(string, causal_node) pydict \<Rightarrow> string set \<Rightarrow> string set \<Rightarrow> string set" where
  "deepened_into nodes out frontier = set (map fst (filter (\<lambda>(nid, n). nid \<notin> out
     \<and> (case dict_get (node_metadata n) ''deepened_to'' of Some (MStr s) \<Rightarrow> s \<in> frontier | _ \<Rightarrow> False)) nodes))"

lemma deepened_into_new: "deepened_into nodes out frontier \<subseteq> set (map fst nodes) - out"
  by (auto simp: deepened_into_def)

function deepen_walk :: "(string, causal_node) pydict \<Rightarrow> string set \<Rightarrow> string set \<Rightarrow> string set" where
  "deepen_walk nodes out frontier =
    (if frontier = {} then out
     else let next_frontier = deepened_into nodes out frontier
          in deepen_walk nodes (out \<union> next_frontier) next_frontier)"
  by pat_completeness auto
termination
proof (relation "measures [\<lambda>(nodes, out, frontier). card (set (map fst nodes) - out),
      \<lambda>(nodes, out, frontier). of_bool (frontier \<noteq> {})]", simp)
  fix nodes :: "(string, causal_node) pydict" and out frontier nxt
  assume f: "frontier \<noteq> {}" and n: "nxt = deepened_into nodes out frontier"
  let ?K = "set (map fst nodes)"
  have new: "nxt \<subseteq> ?K - out" using deepened_into_new n by simp
  have "card (?K - (out \<union> nxt)) < card (?K - out)" if ne: "nxt \<noteq> {}"
  proof (rule psubset_card_mono)
    obtain x where "x \<in> nxt" using ne by blast
    with new show "?K - (out \<union> nxt) \<subset> ?K - out" by blast
  qed simp
  then show "((nodes, out \<union> nxt, nxt), nodes, out, frontier)
      \<in> measures [\<lambda>(nodes, out, frontier). card (set (map fst nodes) - out),
          \<lambda>(nodes, out, frontier). of_bool (frontier \<noteq> {})]"
    using f by (cases "nxt = {}") simp_all
qed

declare deepen_walk.simps [simp del]

definition with_deepened_from :: "case_data \<Rightarrow> string set \<Rightarrow> string set" where
  "with_deepened_from c roots = deepen_walk (case_nodes c) roots roots"

subsection \<open>The rows of a window\<close>

text \<open>The rows bound to a subject of the window pool, with their subject.\<close>

definition bound_rows :: "case_data \<Rightarrow> subject_index \<Rightarrow> (evidence \<times> subject) list" where
  "bound_rows c sx = filter (\<lambda>(e, s). s \<noteq> SUBJECT_UNBOUND)
     (map (\<lambda>e. (e, subject_of c sx e True None None)) (dict_values (sx_rows sx)))"

definition absence_rows :: "subject_index \<Rightarrow> evidence list" where
  "absence_rows sx = filter (\<lambda>e. ev_category e = CAUSAL_ABSENCE_EVIDENCE) (dict_values (sx_rows sx))"

definition bound_to :: "case_data \<Rightarrow> subject_index \<Rightarrow> (int \<Rightarrow> bool) \<Rightarrow> string set \<Rightarrow> bool \<Rightarrow> evidence list" where
  "bound_to c sx holds roots cited = filter (\<lambda>e. roots \<noteq> {} \<and> holds (observed sx e)
     \<and> subject_of c sx e False (Some roots) (Some cited) = SUBJECT_CAUSE) (absence_rows sx)"

definition cited_by :: "case_data \<Rightarrow> subject_index \<Rightarrow> (int \<Rightarrow> bool) \<Rightarrow> string set \<Rightarrow> evidence list" where
  "cited_by c sx holds roots =
    (let cited = \<Union> ((\<lambda>n. case dict_get (sx_citations sx) n of None \<Rightarrow> {} | Some ids \<Rightarrow> set ids) ` roots)
     in filter (\<lambda>e. (case dict_get (case_rechecks c) (ev_id e) of None \<Rightarrow> False | Some t \<Rightarrow> t \<in> cited)
          \<and> holds (observed sx e)) (absence_rows sx))"

definition merged :: "subject_index \<Rightarrow> evidence list \<Rightarrow> evidence list" where
  "merged sx rows = filter (\<lambda>e. ev_id e \<in> set (map ev_id rows)) (absence_rows sx)"

definition root_disconfirmation_turn :: "case_data \<Rightarrow> causal_node \<Rightarrow> int" where
  "root_disconfirmation_turn c root_nd =
    (let refutes = (\<lambda>ls. map link_evidence_id (filter (\<lambda>l. link_stance l = REFUTES) ls));
         refuted = set (refutes (map plain_link (node_links root_nd)))
           \<union> set (concat (map (\<lambda>h. refutes (map plain_link (hyp_links h)))
               (filter (\<lambda>h. hyp_root h = Some (node_id root_nd)) (dict_values (case_hypotheses c)))))
     in if refuted = {} then -1
        else fold max (map ev_collected_at_turn (filter (\<lambda>e. ev_category e = CAUSAL_ABSENCE_EVIDENCE
               \<and> ev_id e \<in> refuted) (case_evidence c))) (-1))"

text \<open>The roots that fell and are not the cause now, each with the turn it fell at.\<close>

definition fell_roots :: "case_data \<Rightarrow> (string, int) pydict" where
  "fell_roots c =
    (case pool_legs c of (identified, held, fallen) \<Rightarrow>
      map (\<lambda>(nid, n). (nid, root_disconfirmation_turn c n))
        (filter (\<lambda>(nid, n). nid \<in> fallen - identified - held) (case_nodes c)))"

text \<open>The cause rows of a window and those that can confirm its fix.\<close>

definition window_rows ::
    "case_data \<Rightarrow> subject_index \<Rightarrow> (int, bool \<times> string list) pydict \<Rightarrow> (string, int) pydict
      \<Rightarrow> int option \<Rightarrow> int option \<Rightarrow> evidence list \<times> evidence list" where
  "window_rows c sx fixes fell fix_turn end_turn =
    (let holds = span_holds fix_turn end_turn;
         (kinded, targets) = (case fix_turn of None \<Rightarrow> (False, [])
            | Some t \<Rightarrow> (case dict_get fixes t of None \<Rightarrow> (False, []) | Some e \<Rightarrow> e));
         own = (if kinded then set (dict_keys (case_nodes c)) \<inter> set targets
                else set (map fst (filter (\<lambda>(n, turn). turn \<ge> (case fix_turn of None \<Rightarrow> 0 | Some t \<Rightarrow> t)) fell)));
         observed_rows = (if kinded then bound_to c sx holds (set (dict_keys fell) \<union> own) False
            else map fst (filter (\<lambda>(e, s). s = SUBJECT_CAUSE \<and> holds (observed sx e)) (bound_rows c sx)));
         confirmed = (if kinded then bound_to c sx holds (sx_pool_roots sx \<inter> set targets) True
            else filter (\<lambda>e. holds (observed sx e) \<and> subject_of c sx e False None None = SUBJECT_CAUSE)
                   (absence_rows sx))
     in (merged sx (observed_rows @ confirmed @ cited_by c sx holds own), confirmed))"

definition gone_turns :: "case_data \<Rightarrow> subject_index \<Rightarrow> (int \<Rightarrow> bool) \<Rightarrow> int list" where
  "gone_turns c sx holds = filter holds (map (\<lambda>(e, s). observed sx e)
     (filter (\<lambda>(e, s). ev_category e = SYMPTOM_ABSENCE_EVIDENCE) (bound_rows c sx)))"

text \<open>Persistence: after the fix's own turn, up to and including the next fix's.\<close>

definition after_fix_turns :: "case_data \<Rightarrow> subject_index \<Rightarrow> int option \<Rightarrow> int option \<Rightarrow> int list" where
  "after_fix_turns c sx fix_turn end_turn =
    (case fix_turn of None \<Rightarrow> []
     | Some t \<Rightarrow> filter (\<lambda>turn. turn > t \<and> (case end_turn of None \<Rightarrow> True | Some e \<Rightarrow> turn \<le> e))
         (map (\<lambda>(e, s). observed sx e) (filter (\<lambda>(e, s). ev_category e = SYMPTOM_EVIDENCE) (bound_rows c sx))))"

subsection \<open>The verdict on a fix\<close>

record fix_verdict =
  fv_state :: fix_state
  fv_failure :: "int option"
  fv_relief :: "int option"
  fv_disconfirmation :: "(int \<times> int) option"

definition read_verdict :: "int list \<Rightarrow> int list \<Rightarrow> int list \<Rightarrow> bool \<Rightarrow> fix_verdict" where
  "read_verdict gone after_fix cause_turns confirmed =
    (let persist = (case min_turn cause_turns of None \<Rightarrow> []
           | Some removal \<Rightarrow> filter (\<lambda>turn. turn \<ge> removal) after_fix);
         (state, failure, relief) = scan_turns gone None (sorted_turns (gone @ persist))
     in \<lparr>fv_state = (if state \<noteq> FIX_FAILED \<and> relief \<noteq> None \<and> confirmed then FIX_SUCCEEDED else state),
         fv_failure = failure, fv_relief = relief,
         fv_disconfirmation = first_disconfirmation (sorted_turns cause_turns) gone (sorted_turns after_fix)\<rparr>)"

subsection \<open>The relapse of a fix done outside the case\<close>

definition first_posited_turn ::
    "case_data \<Rightarrow> subject_index \<Rightarrow> evidence \<Rightarrow> string set option \<Rightarrow> int option" where
  "first_posited_turn c sx row roots =
    (let named = rechecked c row;
         strict = cause_targets c sx named False roots None;
         targets = (if strict \<noteq> {} then strict else cause_targets c sx named False None None)
     in min_turn (List.map_filter (\<lambda>target. case dict_get (case_nodes c) target of
            Some n \<Rightarrow> Some (root_first_attached_turn n)
          | None \<Rightarrow> map_option hyp_generated_at_turn (dict_get (case_hypotheses c) target))
          (sorted_list_of_set targets)))"

definition window_zero_relapse ::
    "case_data \<Rightarrow> subject_index \<Rightarrow> int list \<Rightarrow> evidence list \<Rightarrow> int option \<Rightarrow> string set option
      \<Rightarrow> (int \<times> int) option" where
  "window_zero_relapse c sx gone cause_rows end_turn roots =
    (case min_turn (List.map_filter (\<lambda>row. case first_posited_turn c sx row roots of
            None \<Rightarrow> None
          | Some floor_turn \<Rightarrow> if observed sx row \<ge> floor_turn then Some (observed sx row) else None) cause_rows) of
       None \<Rightarrow> None
     | Some removal \<Rightarrow>
        (case min_turn (filter (\<lambda>g. g \<ge> removal) gone) of
           None \<Rightarrow> None
         | Some relief \<Rightarrow>
            (case min_turn (filter (\<lambda>turn. turn > relief \<and> turn \<notin> set gone
                   \<and> (case end_turn of None \<Rightarrow> True | Some e \<Rightarrow> turn \<le> e))
                 (map (\<lambda>(e, s). observed sx e) (filter (\<lambda>(e, s). ev_category e = SYMPTOM_EVIDENCE) (bound_rows c sx)))) of
               None \<Rightarrow> None
             | Some failure \<Rightarrow> Some (relief, failure))))"

subsection \<open>The windows of a case\<close>

definition read_window ::
    "case_data \<Rightarrow> subject_index \<Rightarrow> (int, bool \<times> string list) pydict \<Rightarrow> (string, int) pydict
      \<Rightarrow> int option \<Rightarrow> int option \<Rightarrow> fix_window" where
  "read_window c sx fixes fell fix_turn end_turn =
    (let holds = span_holds fix_turn end_turn;
         (kinded, targets) = (case fix_turn of None \<Rightarrow> (False, [])
            | Some t \<Rightarrow> (case dict_get fixes t of None \<Rightarrow> (False, []) | Some e \<Rightarrow> e));
         (cause_rows, confirmed) = window_rows c sx fixes fell fix_turn end_turn;
         gone = gone_turns c sx holds;
         after_fix = after_fix_turns c sx fix_turn end_turn;
         v = read_verdict gone after_fix (map (observed sx) cause_rows) (confirmed \<noteq> []);
         zero = with_deepened_from c (sx_pool_roots sx);
         relapse = (if fix_turn = None
           then window_zero_relapse c sx gone (merged sx (bound_to c sx holds zero False @ confirmed)) end_turn
                  (if zero = {} then None else Some zero)
           else None);
         state = (if relapse \<noteq> None then FIX_FAILED else fv_state v)
     in \<lparr>fw_fix_turn = fix_turn, fw_end_turn = end_turn, fw_cause_rows = cause_rows,
         fw_state = state,
         fw_failure_turn = (case relapse of Some (_, failure) \<Rightarrow> Some failure | None \<Rightarrow> fv_failure v),
         fw_observed = (cause_rows \<noteq> [] \<or> after_fix \<noteq> [] \<or> state = FIX_FAILED),
         fw_relief_turn = (case relapse of Some (relief, _) \<Rightarrow> Some relief | None \<Rightarrow> fv_relief v),
         fw_disconfirmation = fv_disconfirmation v,
         fw_confirmed_cause_rows = confirmed,
         fw_targets = targets,
         fw_kind = (if kinded then Some FIX_REMEDIATION else None),
         fw_off_cause = (kinded \<and> sx_pool_roots sx \<inter> set targets = {})\<rparr>)"

text \<open>An unkinded window ends at the first attempt by which it has failed, else at the next remediation.\<close>

fun first_failed_window :: "(int option \<Rightarrow> fix_window) \<Rightarrow> int list \<Rightarrow> int option \<Rightarrow> fix_window" where
  "first_failed_window read [] following = read following"
| "first_failed_window read (t # ts) following =
    (let window = read (Some t)
     in if fw_state window = FIX_FAILED then window else first_failed_window read ts following)"

fun later_windows ::
    "(int option \<Rightarrow> int option \<Rightarrow> fix_window) \<Rightarrow> (int, bool \<times> string list) pydict \<Rightarrow> int list \<Rightarrow> int list
      \<Rightarrow> fix_window list" where
  "later_windows read fixes attempts [] = []"
| "later_windows read fixes attempts (fix_turn # turns) =
    (let following = (case turns of [] \<Rightarrow> None | t # _ \<Rightarrow> Some t);
         kinded = (case dict_get fixes fix_turn of None \<Rightarrow> False | Some e \<Rightarrow> fst e);
         intercepted = filter (\<lambda>t. t > fix_turn \<and> (case following of None \<Rightarrow> True | Some f \<Rightarrow> t < f)) attempts
     in (if kinded then read (Some fix_turn) following
         else first_failed_window (read (Some fix_turn)) intercepted following)
        # later_windows read fixes attempts turns)"

definition fix_windows :: "case_data \<Rightarrow> fix_window list" where
  "fix_windows c =
    (let fixes = window_fixes c;
         attempts = dated_fix_turns c;
         sx = subject_index c;
         read = read_window c sx fixes (fell_roots c)
     in read None (case attempts of [] \<Rightarrow> None | t # _ \<Rightarrow> Some t)
        # later_windows read fixes attempts (sorted_turns (dict_keys fixes)))"

section \<open>What the windows license\<close>

definition latest_fix_window :: "case_data \<Rightarrow> fix_window" where
  "latest_fix_window c = last (fix_windows c)"

definition latest_decided_fix_window :: "case_data \<Rightarrow> fix_window option" where
  "latest_decided_fix_window c = find (\<lambda>w. fw_state w \<noteq> FIX_UNKNOWN) (rev (fix_windows c))"

definition confirming_window :: "case_data \<Rightarrow> fix_window option" where
  "confirming_window c =
    (case find fw_observed (rev (fix_windows c)) of
       None \<Rightarrow> None
     | Some w \<Rightarrow> if fw_state w = FIX_FAILED \<or> fw_off_cause w then None else Some w)"

definition off_cause_attempt :: "case_data \<Rightarrow> int option" where
  "off_cause_attempt c =
    (case cause_pool c of (confirmation, _, hypotheses) \<Rightarrow>
      if confirmation = {} \<and> hypotheses = {} then None
      else
       (let latest = latest_fix_window c;
            live = (fw_fix_turn latest \<noteq> None \<and> fw_state latest \<noteq> FIX_FAILED);
            attempts = dated_fix_turns c
        in if live \<and> \<not> fw_off_cause latest then None
           else if attempts \<noteq> [] \<and> last attempts > (case fw_fix_turn latest of None \<Rightarrow> -1
                     | Some t \<Rightarrow> if t = 0 then -1 else t)
           then Some (last attempts)
           else if live then fw_fix_turn latest else None))"

definition attempt_window :: "case_data \<Rightarrow> proposed_action \<Rightarrow> fix_window option" where
  "attempt_window c a =
    (if act_accepted_in_turn a = None \<or> \<not> is_remediation a then None
     else find (\<lambda>w. fw_fix_turn w = act_accepted_in_turn a) (fix_windows c))"

end
