(* ===== verification/Conclusion.thy ===== *)
theory Conclusion
  imports Fix_Windows
begin

text \<open>
  The conclusion about the cause: \<open>core/investigation/causal_graph/rcc.py\<close>. The engine mirrors an
  identified, uncontested root into the conclusion, links a conclusion the model wrote to the
  hypothesis it names, and takes back what no longer holds.

  The feature flag that lets the chain outrank the model's conclusion is the argument \<open>outranks\<close>;
  metrics and log lines are left out. The outer option of \<open>mece_contested_root_ids\<close> is always \<open>Some\<close>
  (\<open>contested_iff_unconfirmed_distinct_causes\<close>).
\<close>

definition ENGINE_RCC_AUTHOR :: string where
  "ENGINE_RCC_AUTHOR = ''engine:chain_validation''"

definition MECHANISTIC_RCC_LIKELIHOOD :: rat where
  "MECHANISTIC_RCC_LIKELIHOOD = 8 / 10"

definition CONFIRMED_RCC_LIKELIHOOD_FLOOR :: rat where
  "CONFIRMED_RCC_LIKELIHOOD_FLOOR = 9 / 10"

section \<open>What the evidence says of a cause\<close>

definition recorded_by_others :: "case_data \<Rightarrow> string set" where
  "recorded_by_others c = set (map ev_id (filter (\<lambda>e. ev_collected_by e \<noteq> ENGINE_EVIDENCE_AUTHOR) (case_evidence c)))"

definition cause_evidence_tally :: "case_data \<Rightarrow> hypothesis \<Rightarrow> nat \<times> nat" where
  "cause_evidence_tally c h =
    (let links = filter (\<lambda>l. link_evidence_id l \<in> recorded_by_others c) (chain_evidence_links c h);
         refuting = filter (\<lambda>l. link_stance l = REFUTES \<and> stance_declared_confident l) links;
         supporting = filter (\<lambda>l. link_stance l = SUPPORTS) links
     in (card (set (map link_evidence_id refuting)), card (set (map link_evidence_id supporting))))"

definition cause_refuted_by_evidence :: "case_data \<Rightarrow> hypothesis \<Rightarrow> bool" where
  "cause_refuted_by_evidence c h = (case cause_evidence_tally c h of (refuting, supporting) \<Rightarrow> refuting > supporting)"

definition hypothesis_disconfirmed :: "case_data \<Rightarrow> hypothesis \<Rightarrow> bool" where
  "hypothesis_disconfirmed c h \<longleftrightarrow> hyp_state h = H_REFUTED \<or> cause_refuted_by_evidence c h"

text \<open>\<open>max\<close> by (standing, initial likelihood): the first of the greatest.\<close>

definition outranks_cause :: "hypothesis \<Rightarrow> hypothesis \<Rightarrow> bool" where
  "outranks_cause x best \<longleftrightarrow>
    (let sx = hyp_state x \<in> set STANDING_HYP_STATES; sb = hyp_state best \<in> set STANDING_HYP_STATES
     in (sx \<and> \<not> sb) \<or> (sx = sb \<and> hyp_initial_likelihood x > hyp_initial_likelihood best))"

definition linked_hypothesis_id :: "case_data \<Rightarrow> string option" where
  "linked_hypothesis_id c = (case case_conclusion c of None \<Rightarrow> None | Some rcc \<Rightarrow> rcc_validated_hypothesis_id rcc)"

definition representative_cause_hypothesis :: "case_data \<Rightarrow> hypothesis option" where
  "representative_cause_hypothesis c =
    (if truthy (linked_hypothesis_id c)
     then dict_get (case_hypotheses c) (or_empty (linked_hypothesis_id c))
     else case filter (\<lambda>h. truthy (hyp_root h)
              \<and> or_empty (hyp_root h) \<in> set (prog_identified_cause_root_ids (case_prog c)))
            (dict_values (case_hypotheses c)) of
        [] \<Rightarrow> None
      | h # hs \<Rightarrow> Some (fold (\<lambda>x best. if outranks_cause x best then x else best) hs h))"

section \<open>Retraction of a disconfirmed conclusion\<close>

definition retract_disconfirmed_rcc :: "case_data \<Rightarrow> case_data \<times> bool" where
  "retract_disconfirmed_rcc c =
    (if \<not> truthy (linked_hypothesis_id c) then (c, False)
     else case dict_get (case_hypotheses c) (or_empty (linked_hypothesis_id c)) of
         None \<Rightarrow> (c, False)
       | Some h \<Rightarrow> if hypothesis_disconfirmed c h then (c\<lparr>case_conclusion := None\<rparr>, True) else (c, False))"

section \<open>Linking the model's conclusion to a cause\<close>

definition set_conclusion_link :: "case_data \<Rightarrow> root_cause_conclusion \<Rightarrow> string option \<Rightarrow> case_data" where
  "set_conclusion_link c rcc hid = c\<lparr>case_conclusion := Some (rcc\<lparr>rcc_validated_hypothesis_id := hid\<rparr>)\<rparr>"

definition link_llm_rcc_to_cause :: "case_data \<Rightarrow> case_data \<times> bool" where
  "link_llm_rcc_to_cause c =
    (case case_conclusion c of
       None \<Rightarrow> (c, False)
     | Some rcc \<Rightarrow>
        if rcc_determined_by rcc = ENGINE_RCC_AUTHOR then (c, False)
        else if truthy (rcc_validated_hypothesis_id rcc)
             \<and> dict_get (case_hypotheses c) (or_empty (rcc_validated_hypothesis_id rcc)) \<noteq> None then (c, False)
        else
         (let c1 = (if truthy (rcc_validated_hypothesis_id rcc) then set_conclusion_link c rcc None else c);
              statement = rcc_root_cause rcc;
              standing = standing_hypotheses c;
              named_matches = (if truthy (rcc_names_root_node_id rcc)
                then filter (\<lambda>h. hyp_root h = rcc_names_root_node_id rcc) standing else []);
              scored = filter (\<lambda>(s, h). s \<ge> RESTATEMENT_AMBIGUOUS)
                (map (\<lambda>h. (restatement_score statement (hyp_statement h), h)) standing)
          in if statement = [] then (c1, False)
             else case (case named_matches of
                 [h] \<Rightarrow> if substantive_overlap statement (hyp_statement h) then Some h else None
               | _ \<Rightarrow> None) of
               Some h \<Rightarrow> (set_conclusion_link c rcc (Some (hyp_id h)), True)
             | None \<Rightarrow>
                 (case scored of
                    [(s, h)] \<Rightarrow> if s \<ge> RESTATEMENT_STRONG \<and> substantive_overlap statement (hyp_statement h)
                       then (set_conclusion_link c rcc (Some (hyp_id h)), True) else (c1, False)
                  | _ \<Rightarrow> (c1, False))))"

section \<open>The engine's own conclusion\<close>

definition new_conclusion :: "root_cause_conclusion \<Rightarrow> validation_error + root_cause_conclusion" where
  "new_conclusion rcc =
    (if rcc_root_cause rcc = [] \<or> 1000 < length (rcc_root_cause rcc) then Inl (FieldConstraint ''root_cause'')
     else if rcc_likelihood rcc < 0 \<or> 1 < rcc_likelihood rcc then Inl (FieldConstraint ''likelihood'')
     else if 2000 < length (rcc_mechanism rcc) then Inl (FieldConstraint ''mechanism'')
     else if rcc_confidence_level rcc \<noteq> confidence_from_score (rcc_likelihood rcc) then Inl (FieldConstraint ''confidence_level'')
     else Inr rcc)"

definition hypothesis_confirmed :: "case_data \<Rightarrow> hypothesis \<Rightarrow> bool" where
  "hypothesis_confirmed c h = (case dict_get (case_nodes c) (or_empty (hyp_root h)) of
     None \<Rightarrow> False | Some n \<Rightarrow> root_counterfactually_confirmed n (evidence_category_map c))"

definition validated_hypotheses :: "case_data \<Rightarrow> hypothesis list" where
  "validated_hypotheses c = filter (\<lambda>h. is_chain_root_identified h (case_nodes c)) (standing_hypotheses c)"

definition confirmed_hypotheses :: "case_data \<Rightarrow> hypothesis list" where
  "confirmed_hypotheses c = filter (hypothesis_confirmed c) (validated_hypotheses c)"

definition llm_authored :: "case_data \<Rightarrow> bool" where
  "llm_authored c = (case case_conclusion c of None \<Rightarrow> False | Some rcc \<Rightarrow> rcc_determined_by rcc \<noteq> ENGINE_RCC_AUTHOR)"

text \<open>The hypothesis the engine's conclusion already mirrors, if it wrote one.\<close>

definition prior_mirror :: "case_data \<Rightarrow> hypothesis option" where
  "prior_mirror c = (if case_conclusion c = None \<or> llm_authored c then None
     else dict_get (case_hypotheses c) (or_empty (linked_hypothesis_id c)))"

definition faithful_mirror :: "case_data \<Rightarrow> bool" where
  "faithful_mirror c =
    (case (case_conclusion c, prior_mirror c) of
       (Some rcc, Some prior) \<Rightarrow>
         prior \<in> set (validated_hypotheses c)
         \<and> rcc_confidence_level rcc = confidence_from_score
             (if prior \<in> set (confirmed_hypotheses c) then CONFIRMED_RCC_LIKELIHOOD_FLOOR else MECHANISTIC_RCC_LIKELIHOOD)
         \<and> (prior \<in> set (confirmed_hypotheses c) \<or> confirmed_hypotheses c = [])
         \<and> rcc_contributing_factors rcc = conjuncts_for_chain c (Some prior) None
     | _ \<Rightarrow> False)"

text \<open>Which hypothesis is mirrored: a confirmed one first, the one already mirrored before the others.\<close>

definition mirrored_hypothesis :: "case_data \<Rightarrow> hypothesis option" where
  "mirrored_hypothesis c =
    (case confirmed_hypotheses c of
       h # _ \<Rightarrow> (case prior_mirror c of
           Some p \<Rightarrow> if p \<in> set (confirmed_hypotheses c) then Some p else Some h
         | None \<Rightarrow> Some h)
     | [] \<Rightarrow>
         (case prior_mirror c of
            Some p \<Rightarrow> if p \<in> set (validated_hypotheses c) then Some p
               else (case validated_hypotheses c of [] \<Rightarrow> None | h # _ \<Rightarrow> Some h)
          | None \<Rightarrow> (case validated_hypotheses c of [] \<Rightarrow> None | h # _ \<Rightarrow> Some h)))"

definition synthesize_rcc_from_validated_root :: "bool \<Rightarrow> case_data \<Rightarrow> validation_error + case_data \<times> bool" where
  "synthesize_rcc_from_validated_root outranks c =
    (if llm_authored c \<and> \<not> outranks then Inr (c, False)
     else if mece_contested_root_ids c \<noteq> Some {} then Inr (c, False)
     else if faithful_mirror c then Inr (c, False)
     else case mirrored_hypothesis c of
         None \<Rightarrow> Inr (c, False)
       | Some h \<Rightarrow>
          (case dict_get (case_nodes c) (or_empty (hyp_root h)) of
             None \<Rightarrow> Inr (c, False)
           | Some root_nd \<Rightarrow>
              (let likelihood = (if h \<in> set (confirmed_hypotheses c)
                     then max (prog_root_cause_likelihood (case_prog c)) CONFIRMED_RCC_LIKELIHOOD_FLOOR
                     else MECHANISTIC_RCC_LIKELIHOOD)
               in case new_conclusion \<lparr>rcc_root_cause = take 1000 (node_statement root_nd),
                     rcc_confidence_level = confidence_from_score likelihood, rcc_likelihood = likelihood,
                     rcc_mechanism = mechanism_for_chain c h,
                     rcc_evidence_basis = map link_evidence_id (filter (\<lambda>l. link_stance l = SUPPORTS) (node_links root_nd)),
                     rcc_validated_hypothesis_id = Some (hyp_id h), rcc_names_root_node_id = None,
                     rcc_contributing_factors = conjuncts_for_chain c (Some h) None,
                     rcc_determined_by = ENGINE_RCC_AUTHOR\<rparr> of
                   Inl e \<Rightarrow> Inl e
                 | Inr rcc \<Rightarrow> Inr (c\<lparr>case_conclusion := Some rcc\<rparr>, True))))"

text \<open>The contested roots are computed when the caller passes none.\<close>

definition retract_stale_engine_rcc :: "case_data \<Rightarrow> string set option \<Rightarrow> case_data \<times> bool" where
  "retract_stale_engine_rcc c contested_ids =
    (case case_conclusion c of
       None \<Rightarrow> (c, False)
     | Some rcc \<Rightarrow>
        if rcc_determined_by rcc \<noteq> ENGINE_RCC_AUTHOR then (c, False)
        else
         (let contested = (case contested_ids of Some s \<Rightarrow> s
                | None \<Rightarrow> (case mece_contested_root_ids c of None \<Rightarrow> {} | Some s \<Rightarrow> s));
              stands = (case dict_get (case_hypotheses c) (or_empty (rcc_validated_hypothesis_id rcc)) of
                 None \<Rightarrow> False
               | Some p \<Rightarrow> hyp_state p \<in> set STANDING_HYP_STATES \<and> is_chain_root_identified p (case_nodes c)
                   \<and> or_empty (hyp_root p) \<notin> contested)
          in if stands then (c, False) else (c\<lparr>case_conclusion := None\<rparr>, True)))"

section \<open>Lemmas\<close>

text \<open>The derivations do not read the conclusion itself.\<close>

lemma conclusion_frame [simp]:
  "validated_hypotheses (c\<lparr>case_conclusion := r\<rparr>) = validated_hypotheses c"
  "confirmed_hypotheses (c\<lparr>case_conclusion := r\<rparr>) = confirmed_hypotheses c"
  "conjuncts_for_chain (c\<lparr>case_conclusion := r\<rparr>) h n = conjuncts_for_chain c h n"
  "mece_contested_root_ids (c\<lparr>case_conclusion := r\<rparr>) = mece_contested_root_ids c"
proof -
  have cats: "evidence_category_map (c\<lparr>case_conclusion := r\<rparr>) = evidence_category_map c"
    by (simp add: evidence_category_map_def)
  have standing: "standing_hypotheses (c\<lparr>case_conclusion := r\<rparr>) = standing_hypotheses c"
    by (simp add: standing_hypotheses_def)
  show "validated_hypotheses (c\<lparr>case_conclusion := r\<rparr>) = validated_hypotheses c"
    by (simp add: validated_hypotheses_def standing)
  moreover have "hypothesis_confirmed (c\<lparr>case_conclusion := r\<rparr>) = hypothesis_confirmed c"
    by (simp add: hypothesis_confirmed_def cats fun_eq_iff split: option.split)
  ultimately show "confirmed_hypotheses (c\<lparr>case_conclusion := r\<rparr>) = confirmed_hypotheses c"
    by (simp add: confirmed_hypotheses_def)
  have "validated_and_conjuncts (c\<lparr>case_conclusion := r\<rparr>) ids = validated_and_conjuncts c ids" for ids
    by (simp add: validated_and_conjuncts_def)
  then show "conjuncts_for_chain (c\<lparr>case_conclusion := r\<rparr>) h n = conjuncts_for_chain c h n"
    by (simp add: conjuncts_for_chain_def Let_def)
  have rel: "cluster_relations (c\<lparr>case_conclusion := r\<rparr>) ids = cluster_relations c ids" for ids
    by (simp add: cluster_relations_def edge_adjacency_def)
  have edges: "case_edges (c\<lparr>case_conclusion := r\<rparr>) = case_edges c" "case_nodes (c\<lparr>case_conclusion := r\<rparr>) = case_nodes c"
    by simp_all
  have same: "same_cause (c\<lparr>case_conclusion := r\<rparr>) = same_cause c"
    by (simp add: same_cause_def fun_eq_iff)
  have clusters: "distinct_cause_clusters (c\<lparr>case_conclusion := r\<rparr>) ids = distinct_cause_clusters c ids" for ids
    unfolding distinct_cause_clusters_def distinct_cause_partition_def rel same edges ..
  show "mece_contested_root_ids (c\<lparr>case_conclusion := r\<rparr>) = mece_contested_root_ids c"
    unfolding mece_contested_root_ids_def standing_validated_roots_def standing cats edges clusters ..
qed

lemma confirmed_validated: "set (confirmed_hypotheses c) \<subseteq> set (validated_hypotheses c)"
  by (auto simp: confirmed_hypotheses_def)

lemma mirrored_validated:
  assumes "mirrored_hypothesis c = Some h"
  shows "h \<in> set (validated_hypotheses c) \<and> (h \<in> set (confirmed_hypotheses c) \<or> confirmed_hypotheses c = [])"
proof (cases "confirmed_hypotheses c")
  case Nil
  then show ?thesis using assms
    by (auto simp: mirrored_hypothesis_def split: option.splits list.splits if_splits)
next
  case (Cons x xs)
  then have "h \<in> set (confirmed_hypotheses c)" using assms
    by (auto simp: mirrored_hypothesis_def split: option.splits if_splits)
  then show ?thesis using confirmed_validated by blast
qed

lemma synthesize_cases:
  assumes "synthesize_rcc_from_validated_root outranks c = Inr (c', True)"
  obtains h n rcc where "mece_contested_root_ids c = Some {}" "mirrored_hypothesis c = Some h"
    "dict_get (case_nodes c) (or_empty (hyp_root h)) = Some n" "c' = c\<lparr>case_conclusion := Some rcc\<rparr>"
    "rcc_root_cause rcc = take 1000 (node_statement n)" "rcc_validated_hypothesis_id rcc = Some (hyp_id h)"
    "rcc_determined_by rcc = ENGINE_RCC_AUTHOR" "rcc_contributing_factors rcc = conjuncts_for_chain c (Some h) None"
    "rcc_confidence_level rcc = confidence_from_score (if h \<in> set (confirmed_hypotheses c)
       then CONFIRMED_RCC_LIKELIHOOD_FLOOR else MECHANISTIC_RCC_LIKELIHOOD)"
proof -
  have level: "confidence_from_score (max q CONFIRMED_RCC_LIKELIHOOD_FLOOR) = confidence_from_score CONFIRMED_RCC_LIKELIHOOD_FLOOR" for q
    by (simp add: confidence_from_score_def CONFIRMED_RCC_LIKELIHOOD_FLOOR_def max_def)
  have gates: "\<not> (llm_authored c \<and> \<not> outranks)" "mece_contested_root_ids c = Some {}" "\<not> faithful_mirror c"
    using assms by (auto simp: synthesize_rcc_from_validated_root_def split: if_splits)
  then have gate: "\<not> mece_contested_root_ids c \<noteq> Some {}" by simp
  obtain h where h: "mirrored_hypothesis c = Some h"
    using assms gates by (cases "mirrored_hypothesis c") (simp_all add: synthesize_rcc_from_validated_root_def)
  obtain n where n: "dict_get (case_nodes c) (or_empty (hyp_root h)) = Some n"
    using assms gates h by (cases "dict_get (case_nodes c) (or_empty (hyp_root h))") (simp_all add: synthesize_rcc_from_validated_root_def)
  define likelihood where "likelihood = (if h \<in> set (confirmed_hypotheses c)
     then max (prog_root_cause_likelihood (case_prog c)) CONFIRMED_RCC_LIKELIHOOD_FLOOR else MECHANISTIC_RCC_LIKELIHOOD)"
  define rcc where "rcc = \<lparr>rcc_root_cause = take 1000 (node_statement n),
     rcc_confidence_level = confidence_from_score likelihood, rcc_likelihood = likelihood,
     rcc_mechanism = mechanism_for_chain c h,
     rcc_evidence_basis = map link_evidence_id (filter (\<lambda>l. link_stance l = SUPPORTS) (node_links n)),
     rcc_validated_hypothesis_id = Some (hyp_id h), rcc_names_root_node_id = None,
     rcc_contributing_factors = conjuncts_for_chain c (Some h) None,
     rcc_determined_by = ENGINE_RCC_AUTHOR\<rparr>"
  have syn: "synthesize_rcc_from_validated_root outranks c =
      (case new_conclusion rcc of Inl e \<Rightarrow> Inl e | Inr rcc \<Rightarrow> Inr (c\<lparr>case_conclusion := Some rcc\<rparr>, True))"
    unfolding synthesize_rcc_from_validated_root_def if_not_P [OF gates(1)] if_not_P [OF gate] if_not_P [OF gates(3)]
      h n option.case Let_def rcc_def likelihood_def ..
  have "new_conclusion rcc = Inr rcc"
    using assms unfolding syn by (simp add: new_conclusion_def split: if_splits)
  then have "c' = c\<lparr>case_conclusion := Some rcc\<rparr>" using assms unfolding syn by simp
  then show ?thesis
    by (rule that [OF gates(2) h n]) (simp_all add: rcc_def likelihood_def level)
qed

text \<open>C11: What the engine concludes holds and stays: a conclusion it writes names a standing hypothesis of
  the case whose root is identified, at a time when no cause is contested, and states that root; and
  with nothing else changed neither writing again nor the retraction of stale conclusions does
  anything, so the two never undo each other.\<close>

theorem engine_conclusion_is_faithful_and_stable:
  assumes keyed: "hypotheses_ok (case_hypotheses c)"
    and named: "\<forall>h \<in> set (dict_values (case_hypotheses c)). hyp_id h \<noteq> []"
    and "synthesize_rcc_from_validated_root outranks c = Inr (c', True)"
  shows "(\<exists>h n rcc. h \<in> set (standing_hypotheses c) \<and> dict_get (case_nodes c) (or_empty (hyp_root h)) = Some n
      \<and> is_identified_root n \<and> mece_contested_root_ids c = Some {} \<and> case_conclusion c' = Some rcc
      \<and> rcc_validated_hypothesis_id rcc = Some (hyp_id h) \<and> rcc_root_cause rcc = take 1000 (node_statement n))
    \<and> synthesize_rcc_from_validated_root outranks c' = Inr (c', False)
    \<and> retract_stale_engine_rcc c' None = (c', False)"
proof -
  obtain h n rcc where s: "mece_contested_root_ids c = Some {}" "mirrored_hypothesis c = Some h"
    "dict_get (case_nodes c) (or_empty (hyp_root h)) = Some n" "c' = c\<lparr>case_conclusion := Some rcc\<rparr>"
    "rcc_root_cause rcc = take 1000 (node_statement n)" "rcc_validated_hypothesis_id rcc = Some (hyp_id h)"
    "rcc_determined_by rcc = ENGINE_RCC_AUTHOR" "rcc_contributing_factors rcc = conjuncts_for_chain c (Some h) None"
    "rcc_confidence_level rcc = confidence_from_score (if h \<in> set (confirmed_hypotheses c)
       then CONFIRMED_RCC_LIKELIHOOD_FLOOR else MECHANISTIC_RCC_LIKELIHOOD)"
    by (rule synthesize_cases [OF assms(3)])
  note m = mirrored_validated [OF s(2)]
  have st: "h \<in> set (standing_hypotheses c)" and root: "is_chain_root_identified h (case_nodes c)"
    using m by (auto simp: validated_hypotheses_def)
  have h: "h \<in> set (dict_values (case_hypotheses c))" "hyp_state h \<in> set STANDING_HYP_STATES"
    using st by (auto simp: standing_hypotheses_def)
  have get: "dict_get (case_hypotheses c) (hyp_id h) = Some h"
    using h(1) keyed unfolding hypotheses_ok_def by (auto simp: dict_values_get)
  have id: "hyp_id h \<noteq> []" using named h(1) by blast
  have prior: "prior_mirror c' = Some h"
    using s(4,6,7) get id by (simp add: prior_mirror_def llm_authored_def linked_hypothesis_id_def)
  have faithful: "faithful_mirror c'"
    using m s(8,9) unfolding faithful_mirror_def s(4) prior [unfolded s(4)] conclusion_frame by simp
  have "synthesize_rcc_from_validated_root outranks c' = Inr (c', False)"
    using faithful s(1,4,7) by (simp add: synthesize_rcc_from_validated_root_def llm_authored_def)
  moreover have "retract_stale_engine_rcc c' None = (c', False)"
    using s(1,4,6,7) get h(2) root by (simp add: retract_stale_engine_rcc_def)
  moreover have "is_identified_root n" using root s(3) by (simp add: is_chain_root_identified_def)
  ultimately show ?thesis using st s by auto
qed

section \<open>Witness\<close>

definition ex_hypothesis :: "string \<Rightarrow> string \<Rightarrow> string option \<Rightarrow> hypothesis" where
  "ex_hypothesis i s r = \<lparr>hyp_id = i, hyp_statement = s, hyp_category = CODE, hyp_state = H_ACTIVE,
     hyp_likelihood = 1 / 2, hyp_initial_likelihood = 1 / 2, hyp_root = r, hyp_path = (case r of None \<Rightarrow> [] | Some n \<Rightarrow> [n, ''D'']),
     hyp_links = [], hyp_generated_at_turn = 1, hyp_last_updated_turn = 1, hyp_last_progress_at_turn = 1,
     hyp_iterations_without_progress = 0, hyp_generation_mode = OPPORTUNISTIC, hyp_retirement_reason = None,
     hyp_refutation_reason = None, hyp_rationale = ''Initial hypothesis''\<rparr>"

definition ex_identified :: case_data where
  "ex_identified = ex_case\<lparr>
     case_nodes := [(''D'', ex_node ''D'' PROBLEM ''checkout fails'' []),
       (''R1'', (ex_node ''R1'' ROOT ''session leak'' [ex_link ''e1'' SUPPORTS, ex_link ''e2'' SUPPORTS])
        \<lparr>node_state := VALIDATED, node_method := EMPIRICAL, node_actionable := True,
         node_metadata := [(''root_terminal'', MBool True), (''root_terminal_evidence_ids'', MList [''e1''])]\<rparr>)],
     case_edges := [ex_edge ''R1'' ''D'' None],
     case_hypotheses := [(''h1'', ex_hypothesis ''h1'' ''sessions leak'' (Some ''R1''))]\<rparr>"

theorem engine_conclusion_is_faithful_and_stable_witness:
  "\<exists>c'. synthesize_rcc_from_validated_root False ex_identified = Inr (c', True)
    \<and> synthesize_rcc_from_validated_root False c' = Inr (c', False) \<and> retract_stale_engine_rcc c' None = (c', False)"
proof -
  have "case synthesize_rcc_from_validated_root False ex_identified of Inl _ \<Rightarrow> False | Inr (_, b) \<Rightarrow> b" by code_simp
  then obtain c' where c': "synthesize_rcc_from_validated_root False ex_identified = Inr (c', True)"
    by (auto split: sum.splits)
  have "hypotheses_ok (case_hypotheses ex_identified)"
    by (simp add: hypotheses_ok_def ex_identified_def ex_hypothesis_def hypothesis_ok_def dict_keys_def dict_get_Cons)
  moreover have "\<forall>h \<in> set (dict_values (case_hypotheses ex_identified)). hyp_id h \<noteq> []"
    by (simp add: ex_identified_def ex_hypothesis_def dict_values_def)
  ultimately show ?thesis using engine_conclusion_is_faithful_and_stable [OF _ _ c'] c' by blast
qed

end
