(* ===== verification/Resolution_Gate.thy ===== *)
theory Resolution_Gate
  imports Fix_Windows Evidence_Needs
begin

text \<open>
  The bar a resolution has to meet, read off the fix windows: \<open>cause_elimination_rows\<close>,
  \<open>symptom_elimination_rows\<close> and \<open>resolution_confirmation_rows\<close> of
  \<open>core/investigation/cause_assurance.py\<close>, with the readings of mitigations beside them. The reason a
  re-check confirms nothing is a value instead of its wording.
\<close>

section \<open>What rules a re-check out\<close>

definition refuting_ids :: "'a evidence_link_scheme list \<Rightarrow> string list" where
  "refuting_ids ls = map link_evidence_id (filter (\<lambda>l. link_stance l = REFUTES) ls)"

definition disconfirmation_row_ids :: "case_data \<Rightarrow> string set" where
  "disconfirmation_row_ids c =
    (let engine_ids = engine_absence_row_ids c;
         marked = filter (\<lambda>(nid, n). list_ex (\<lambda>i. i \<in> engine_ids) (refuting_ids (node_links n))) (case_nodes c)
     in if engine_ids = {} \<or> marked = [] then {}
        else set (concat (map (\<lambda>(nid, n). refuting_ids (node_links n)) marked))
          \<union> set (concat (map (\<lambda>h. refuting_ids (hyp_links h))
              (filter (\<lambda>h. case hyp_root h of None \<Rightarrow> False | Some r \<Rightarrow> r \<in> set (map fst marked))
                (dict_values (case_hypotheses c))))))"

definition standing_roots :: "case_data \<Rightarrow> (string, causal_node) pydict" where
  "standing_roots c = fold (\<lambda>h d.
     if hyp_state h \<in> set STANDING_HYP_STATES
     then (case (case hyp_root h of None \<Rightarrow> None | Some r \<Rightarrow> dict_get (case_nodes c) r) of
         None \<Rightarrow> d | Some n \<Rightarrow> dict_put (hyp_id h) n d)
     else d) (dict_values (case_hypotheses c)) []"

definition cause_posited_turn :: "case_data \<Rightarrow> int" where
  "cause_posited_turn c =
    (let standing = dict_values (standing_roots c);
         identified = filter is_identified_root standing;
         named = (case case_conclusion c of None \<Rightarrow> []
           | Some rcc \<Rightarrow>
              filter (\<lambda>n. n \<in> set standing)
               ((case dict_get (standing_roots c) (or_empty (rcc_validated_hypothesis_id rcc)) of None \<Rightarrow> [] | Some n \<Rightarrow> [n])
                @ (case dict_get (case_nodes c) (or_empty (rcc_names_root_node_id rcc)) of None \<Rightarrow> [] | Some n \<Rightarrow> [n])));
         pool = (if identified \<noteq> [] then identified else if named \<noteq> [] then named else standing)
     in case map root_attached_turn pool of [] \<Rightarrow> 0 | t # ts \<Rightarrow> fold max ts t)"

datatype recheck_refusal =
    HeldOpen | FailedFixDisconfirmation | BeforePositing int | BeforeDisconfirmation int
  | NoConfirmingWindow | OutsideWindow | Uncited | OtherCause "int option"

text \<open>Why a row, bound to the cause of the confirmation pool or not, confirms nothing.\<close>

definition recheck_refusal_of :: "case_data \<Rightarrow> evidence \<Rightarrow> bool \<Rightarrow> recheck_refusal option" where
  "recheck_refusal_of c e bound =
    (let turn = observed (subject_index c) e in
     if prog_held_open (case_prog c) then Some HeldOpen
     else if ev_id e \<in> disconfirmation_row_ids c then Some FailedFixDisconfirmation
     else if turn < cause_posited_turn c then Some (BeforePositing (cause_posited_turn c))
     else if turn < latest_disconfirmation_turn c then Some (BeforeDisconfirmation (latest_disconfirmation_turn c))
     else (case confirming_window c of
         None \<Rightarrow> Some NoConfirmingWindow
       | Some w \<Rightarrow>
           if \<not> window_holds w turn then Some OutsideWindow
           else if \<not> bound \<and> (fw_kind w = None \<or> ev_id e \<in> set (map ev_id (fw_cause_rows w))) then Some Uncited
           else if fw_kind w \<noteq> None \<and> e \<notin> set (fw_confirmed_cause_rows w) then Some (OtherCause (fw_fix_turn w))
           else None))"

definition cause_recheck_status :: "case_data \<Rightarrow> (evidence \<times> recheck_refusal option) list" where
  "cause_recheck_status c =
    (let window_bound = set (map ev_id (concat (map fw_cause_rows (fix_windows c))))
     in List.map_filter (\<lambda>e.
          let bound = (subject_of c (subject_index c) e False None None = SUBJECT_CAUSE) in
          if \<not> bound \<and> (ev_category e \<noteq> CAUSAL_ABSENCE_EVIDENCE \<or> ev_id e \<notin> window_bound) then None
          else Some (e, recheck_refusal_of c e bound)) (case_evidence c))"

section \<open>The two legs of a resolution\<close>

definition cause_elimination_rows :: "case_data \<Rightarrow> evidence list" where
  "cause_elimination_rows c = map fst (filter (\<lambda>(e, why). why = None) (cause_recheck_status c))"

definition problem_leg_anchor :: "case_data \<Rightarrow> evidence list \<Rightarrow> int option" where
  "problem_leg_anchor c cause_rows =
    (case min_turn (map (observed (subject_index c)) cause_rows) of
       None \<Rightarrow> None
     | Some anchor \<Rightarrow>
        (let anchor = (case confirming_window c of
             None \<Rightarrow> anchor
           | Some w \<Rightarrow> (case fw_fix_turn w of None \<Rightarrow> anchor | Some t \<Rightarrow> min anchor t))
         in Some (max anchor (latest_disconfirmation_turn c))))"

definition symptom_elimination_rows :: "case_data \<Rightarrow> evidence list \<Rightarrow> evidence list" where
  "symptom_elimination_rows c cause_rows =
    (case problem_leg_anchor c cause_rows of
       None \<Rightarrow> []
     | Some anchor \<Rightarrow> filter (\<lambda>e. ev_category e = SYMPTOM_ABSENCE_EVIDENCE
          \<and> subject_of c (subject_index c) e False None None = SUBJECT_PROBLEM
          \<and> observed (subject_index c) e \<ge> anchor) (case_evidence c))"

definition resolution_confirmation_rows :: "case_data \<Rightarrow> evidence list" where
  "resolution_confirmation_rows c =
    (let cause_rows = cause_elimination_rows c;
         symptom_rows = symptom_elimination_rows c cause_rows
     in if symptom_rows = [] then [] else cause_rows @ symptom_rows)"

definition has_resolution_confirmation :: "case_data \<Rightarrow> bool" where
  "has_resolution_confirmation c \<longleftrightarrow> resolution_confirmation_rows c \<noteq> []"

text \<open>The symptom check still owed although the rows on record would confirm.\<close>

definition asked_turn :: "int \<Rightarrow> evidence_need \<Rightarrow> int option" where
  "asked_turn anchor n = min_turn (filter (\<lambda>t. t \<ge> anchor) (need_created_at_turn n # need_surfaced_turns n))"

definition latest_answer :: "case_data \<Rightarrow> subject_index \<Rightarrow> int" where
  "latest_answer c sx = (case map (observed sx) (filter (\<lambda>e. subject_of c sx e False None None = SUBJECT_PROBLEM)
       (dict_values (sx_rows sx))) of [] \<Rightarrow> -1 | t # ts \<Rightarrow> fold max ts t)"

definition pending_symptom_check :: "case_data \<Rightarrow> evidence_need list \<Rightarrow> evidence_need option" where
  "pending_symptom_check c needs =
    (let candidates = filter (\<lambda>n. need_purpose n = SYMPTOM_VERIFICATION
           \<and> (is_outstanding n \<or> need_state n = FULFILLED)) needs;
         sx = subject_index c;
         cause_rows = cause_elimination_rows c
     in if candidates = [] then None
        else case problem_leg_anchor c cause_rows of
          None \<Rightarrow> None
        | Some anchor \<Rightarrow>
            if symptom_elimination_rows c cause_rows = [] then None
            else
             (let dated = fold (\<lambda>e d. if ev_id e = [] then d else dict_put (ev_id e) (observed sx e) d) (case_evidence c) [];
                  dated_at = (\<lambda>i. case dict_get dated i of None \<Rightarrow> -1 | Some t \<Rightarrow> t);
                  held = List.map_filter (\<lambda>n. case asked_turn anchor n of
                     None \<Rightarrow> None
                   | Some asked \<Rightarrow>
                       if latest_answer c sx > asked then None
                       else if need_state n = FULFILLED \<and> list_ex (\<lambda>i. dated_at i \<ge> asked) (need_fulfilling_ids n) then None
                       else Some (asked, n)) candidates
              in case sort_key fst held of [] \<Rightarrow> None | (_, n) # _ \<Rightarrow> Some n))"

section \<open>Rows a confirmation reads\<close>

definition confirming_polarity_rows :: "case_data \<Rightarrow> evidence list" where
  "confirming_polarity_rows c =
    (if prog_held_open (case_prog c) then []
     else
      (let sx = subject_index c;
           rows = absence_rows sx
       in case find (\<lambda>w. list_ex (\<lambda>e. window_holds w (observed sx e)) rows) (rev (fix_windows c)) of
            None \<Rightarrow> []
          | Some latest \<Rightarrow>
              if fw_state latest = FIX_FAILED \<or> fw_off_cause latest then []
              else
               (let floor_turn = max (latest_disconfirmation_turn c) (cause_posited_turn c)
                in filter (\<lambda>e. window_holds latest (observed sx e) \<and> ev_id e \<notin> disconfirmation_row_ids c
                     \<and> observed sx e \<ge> floor_turn) rows)))"

definition confirmation_stamp_rows :: "case_data \<Rightarrow> evidence list" where
  "confirmation_stamp_rows c =
    (let stamped = set (concat (map (\<lambda>n. if node_type n = ROOT
           then map link_evidence_id (filter (\<lambda>l. link_stance l = SUPPORTS) (node_links n)) else [])
         (dict_values (case_nodes c))))
     in filter (\<lambda>e. ev_id e \<in> stamped \<and> ev_category e = CAUSAL_ABSENCE_EVIDENCE
          \<and> ev_collected_by e \<noteq> ENGINE_EVIDENCE_AUTHOR) (case_evidence c))"

definition conclusion_node :: "case_data \<Rightarrow> string option \<Rightarrow> string option \<Rightarrow> string option" where
  "conclusion_node c hypothesis_id named =
    (let roots = fold (\<lambda>h d. case hyp_root h of
            None \<Rightarrow> d
          | Some r \<Rightarrow> if hyp_state h \<in> set STANDING_HYP_STATES \<and> dict_get (case_nodes c) r \<noteq> None
              then dict_put (hyp_id h) r d else d) (dict_values (case_hypotheses c)) []
     in case (case hypothesis_id of None \<Rightarrow> None | Some i \<Rightarrow> dict_get roots i) of
          Some r \<Rightarrow> Some r
        | None \<Rightarrow> (case named of None \<Rightarrow> None | Some n \<Rightarrow> if n \<in> set (dict_values roots) then Some n else None))"

definition licensed_roots :: "case_data \<Rightarrow> string set" where
  "licensed_roots c = set (concat (map (\<lambda>h. case hyp_root h of
       None \<Rightarrow> []
     | Some r \<Rightarrow> if hyp_state h \<in> set STANDING_HYP_STATES \<and> is_root_id c r then [r] else [])
     (dict_values (case_hypotheses c))))"

section \<open>Mitigations\<close>

text \<open>The latest turns, after an attempt, at which the problem was seen gone and seen present.\<close>

definition interception_relief :: "case_data \<Rightarrow> int \<Rightarrow> bool \<Rightarrow> int option \<times> int option" where
  "interception_relief c turn until_next_fix =
    (let sx = subject_index c;
         end_turn = (if until_next_fix then find (\<lambda>t. t > turn) (dated_fix_turns c) else None);
         seen = List.map_filter (\<lambda>e.
           let t = observed sx e in
           if subject_of c sx e False None None \<noteq> SUBJECT_PROBLEM \<or> t < turn then None
           else if ev_category e = SYMPTOM_EVIDENCE
           then (if t = turn \<or> (case end_turn of None \<Rightarrow> False | Some en \<Rightarrow> t > en) then None
                 else Some (ev_category e, t))
           else if (case end_turn of None \<Rightarrow> False | Some en \<Rightarrow> t \<ge> en) then None
           else Some (ev_category e, t)) (dict_values (sx_rows sx));
         latest = (\<lambda>cat. case map snd (filter (\<lambda>(k, t). k = cat) seen) of [] \<Rightarrow> None | t # ts \<Rightarrow> Some (fold max ts t))
     in (latest SYMPTOM_ABSENCE_EVIDENCE, latest SYMPTOM_EVIDENCE))"

definition mitigation_attempt_turn :: "case_data \<Rightarrow> int option" where
  "mitigation_attempt_turn c =
    (case find (\<lambda>a. act_state a = ACTION_ACCEPTED \<and> act_type a = MITIGATION) (case_actions c) of
       None \<Rightarrow> None | Some a \<Rightarrow> act_accepted_in_turn a)"

definition mitigation_relief :: "case_data \<Rightarrow> int option \<times> int option" where
  "mitigation_relief c = (case mitigation_attempt_turn c of
     None \<Rightarrow> (None, None) | Some turn \<Rightarrow> interception_relief c turn False)"

definition mitigation_holds :: "int option \<Rightarrow> int option \<Rightarrow> bool" where
  "mitigation_holds relief present \<longleftrightarrow>
     (case present of None \<Rightarrow> True | Some p \<Rightarrow> (case relief of None \<Rightarrow> False | Some r \<Rightarrow> p < r))"

end
