(* ===== verification/Disconfirmation.thy ===== *)
theory Disconfirmation
  imports Conclusion Resolution_Gate Hypothesis_Manager
begin

text \<open>
  Disconfirmation of the identified cause, \<open>core/investigation/causal_graph/disconfirmation.py\<close>: what
  refutes a hypothesis on record, which fix failed it, and the demotion that refutes the hypothesis,
  attaches the engine's refutation to its root and takes the conclusion back.

  The id \<open>uuid4\<close> draws for the engine's row is an argument. Metrics and timestamps are left out; the em
  dash of the texts is written as a hyphen.
\<close>

section \<open>Numbers in texts\<close>

function show_nat :: "nat \<Rightarrow> string" where
  "show_nat n = (if n < 10 then [char_of (48 + n)] else show_nat (n div 10) @ [char_of (48 + n mod 10)])"
  by pat_completeness auto
termination by (relation "measure id") auto

declare show_nat.simps [simp del]

definition show_int :: "int \<Rightarrow> string" where
  "show_int i = (if i < 0 then ''-'' @ show_nat (nat (- i)) else show_nat (nat i))"

definition show_turn :: "int option \<Rightarrow> string" where
  "show_turn t = (case t of None \<Rightarrow> ''None'' | Some i \<Rightarrow> show_int i)"

section \<open>Grounds on record\<close>

definition DISCONFIRMATION_REASON :: string where
  "DISCONFIRMATION_REASON = ''counterfactual disconfirmation: the cause was addressed or confirmed correct yet the problem persisted''"

definition node_has_counterfactual_refute ::
    "causal_node \<Rightarrow> (string, evidence_category) pydict \<Rightarrow> bool" where
  "node_has_counterfactual_refute n cats = list_ex (\<lambda>l. link_stance l = REFUTES
     \<and> dict_get cats (link_evidence_id l) = Some CAUSAL_ABSENCE_EVIDENCE
     \<and> counterfactual_link_decisive l) (node_links n)"

definition node_has_engine_counterfactual_refute :: "causal_node \<Rightarrow> case_data \<Rightarrow> bool" where
  "node_has_engine_counterfactual_refute n c = list_ex (\<lambda>l. link_stance l = REFUTES
     \<and> link_evidence_id l \<in> engine_absence_row_ids c) (node_links n)"

definition any_chain_root_inconclusive :: "case_data \<Rightarrow> bool" where
  "any_chain_root_inconclusive c = list_ex (\<lambda>h. truthy (hyp_root h)
     \<and> state_of (or_empty (hyp_root h)) (case_nodes c) = Some INCONCLUSIVE) (standing_hypotheses c)"

definition registration_turn :: "case_data \<Rightarrow> int \<Rightarrow> int" where
  "registration_turn c fix_turn =
    (case map (\<lambda>a. case act_registered_in_turn a of None \<Rightarrow> fix_turn | Some t \<Rightarrow> if t = 0 then fix_turn else t)
       (filter (\<lambda>a. act_state a = ACTION_ACCEPTED \<and> act_accepted_in_turn a = Some fix_turn) (case_actions c)) of
       [] \<Rightarrow> fix_turn | t # ts \<Rightarrow> fold max ts t)"

text \<open>The failed fix of a hypothesis's root; a disconfirming window always has a fix turn.\<close>

definition failed_fix_of :: "case_data \<Rightarrow> hypothesis \<Rightarrow> fix_window option" where
  "failed_fix_of c h =
    (case (if truthy (hyp_root h) then dict_get (case_nodes c) (or_empty (hyp_root h)) else None) of
       None \<Rightarrow> None
     | Some root_nd \<Rightarrow>
        if hypothesis_is_terminal (hyp_state h) \<or> node_state root_nd \<noteq> VALIDATED then None
        else (case latest_decided_fix_window c of
            None \<Rightarrow> None
          | Some w \<Rightarrow>
             (let sx = subject_index c;
                  fix_turn = (case fw_fix_turn w of None \<Rightarrow> 0 | Some t \<Rightarrow> t)
              in if \<not> disconfirms_cause w then None
                 else if hyp_generated_at_turn h > registration_turn c fix_turn then None
                 else if list_ex (\<lambda>row. addresses c sx row {node_id root_nd} True
                     \<or> (row \<in> set (fw_confirmed_cause_rows w) \<and> addresses c sx row {node_id root_nd} False))
                   (fw_cause_rows w)
                 then Some w else None)))"

definition refuting_evidence_on_record :: "case_data \<Rightarrow> hypothesis \<Rightarrow> string list" where
  "refuting_evidence_on_record c h = dict_fromkeys (map link_evidence_id
     (filter (\<lambda>l. link_stance l = REFUTES \<and> link_evidence_id l \<in> set (map ev_id (case_evidence c))
        \<and> stance_declared_confident l) (chain_evidence_links c h)))"

section \<open>The trigger\<close>

datatype m6_kind = M6_EVIDENCE | M6_COUNTERFACTUAL | M6_RECORD fix_window

record m6_trigger =
  m6_hyp :: hypothesis
  m6_reason :: string
  m6_kind :: m6_kind

definition disconfirmed_cause_trigger :: "case_data \<Rightarrow> bool \<Rightarrow> m6_trigger option" where
  "disconfirmed_cause_trigger c node_side =
    (if prog_cause_state (case_prog c) \<noteq> CS_IDENTIFIED then None
     else case representative_cause_hypothesis c of
         None \<Rightarrow> None
       | Some h \<Rightarrow>
          (let root_nd = (if truthy (hyp_root h) then dict_get (case_nodes c) (or_empty (hyp_root h)) else None);
               reason = take 200 (if truthy (hyp_refutation_reason h) then or_empty (hyp_refutation_reason h)
                  else DISCONFIRMATION_REASON);
               trigger = (\<lambda>kind. Some \<lparr>m6_hyp = h, m6_reason = reason, m6_kind = kind\<rparr>)
           in if hypothesis_disconfirmed c h then trigger M6_EVIDENCE
              else case root_nd of
                  None \<Rightarrow> None
                | Some n \<Rightarrow>
                    if \<not> node_side then None
                    else if node_has_counterfactual_refute n (evidence_category_map c) then trigger M6_COUNTERFACTUAL
                    else (case failed_fix_of c h of None \<Rightarrow> None | Some w \<Rightarrow> trigger (M6_RECORD w))))"

section \<open>The basis of a failed-fix claim\<close>

definition has_undatable_solution_acceptance :: "case_data \<Rightarrow> bool" where
  "has_undatable_solution_acceptance c = list_ex (\<lambda>a. act_state a = ACTION_ACCEPTED \<and> act_type a = SOLUTION
     \<and> act_accepted_in_turn a = None) (case_actions c)"

datatype fix_refusal =
    UNDATABLE_ACCEPTANCE | RELAPSE | INTERCEPTION | NO_FIX_APPLIED | RESOLUTION_CONFIRMED
  | NO_CAUSE_REMOVAL | NO_PERSISTENCE

definition fix_failure_refusal :: "case_data \<Rightarrow> fix_window option \<Rightarrow> fix_refusal option" where
  "fix_failure_refusal c decided =
    (let latest = latest_fix_window c in
     case (case decided of Some w \<Rightarrow> if fw_state w = FIX_FAILED then Some w else None | None \<Rightarrow> None) of
       Some w \<Rightarrow>
         if disconfirms_cause w then None
         else if fw_fix_turn w = None \<and> has_undatable_solution_acceptance c then Some UNDATABLE_ACCEPTANCE
         else Some RELAPSE
     | None \<Rightarrow>
         if fw_fix_turn latest = None \<and> fix_application_turn c \<noteq> None \<and> \<not> has_undatable_solution_acceptance c
         then Some INTERCEPTION
         else if fw_fix_turn latest = None
         then Some (if has_undatable_solution_acceptance c then UNDATABLE_ACCEPTANCE else NO_FIX_APPLIED)
         else if fw_state latest = FIX_SUCCEEDED then Some RESOLUTION_CONFIRMED
         else if fw_cause_rows latest = [] then Some NO_CAUSE_REMOVAL
         else Some NO_PERSISTENCE)"

definition failed_fix_provenance :: "fix_window \<Rightarrow> string" where
  "failed_fix_provenance w =
    (case fw_disconfirmation w of
       None \<Rightarrow> []
     | Some (cause_turn, persistence_turn) \<Rightarrow>
        ''a fix recorded as EXECUTED at turn '' @ show_turn (fw_fix_turn w) @ '' did not hold - the cause was observed removed at turn ''
        @ show_int cause_turn @ '', and symptom evidence at turn '' @ show_int persistence_turn
        @ '' observes the problem still present after that, with the problem not observed gone in between'')"

definition m6_disconfirmation_basis :: "case_data \<Rightarrow> (int option \<times> string) option" where
  "m6_disconfirmation_basis c =
    (let window = latest_decided_fix_window c in
     case (fix_failure_refusal c window, window) of
       (None, Some w) \<Rightarrow> Some (fw_fix_turn w, failed_fix_provenance w)
     | _ \<Rightarrow> None)"

definition evidence_disconfirmation_provenance :: "case_data \<Rightarrow> hypothesis \<Rightarrow> string" where
  "evidence_disconfirmation_provenance c h =
    (case cause_evidence_tally c h of (refuting, supporting) \<Rightarrow>
      take 400 (''the identified cause no longer stands - ''
        @ (if hyp_state h = H_REFUTED
           then ''the hypothesis was refuted ('' @ (if truthy (hyp_refutation_reason h) then or_empty (hyp_refutation_reason h)
                  else ''no reason recorded'') @ '')''
           else ''the evidence on it and its chain net-refutes it ('' @ show_nat refuting
                @ '' confident refuting vs '' @ show_nat supporting @ '' supporting)'')))"

section \<open>The demotion\<close>

definition engine_row :: "string \<Rightarrow> string \<Rightarrow> int \<Rightarrow> evidence" where
  "engine_row new_id provenance turn =
    \<lparr>ev_id = new_id, ev_category = CAUSAL_ABSENCE_EVIDENCE,
     ev_summary = take 500 (''Engine inference (M6), not an observation: '' @ provenance @ ''.''),
     ev_extract = None, ev_source_type = ENGINE_INFERENCE, ev_source_file_id = None,
     ev_collected_by = ENGINE_EVIDENCE_AUTHOR, ev_collected_at_turn = turn\<rparr>"

definition attach_engine_refutation ::
    "string \<Rightarrow> string \<Rightarrow> string \<Rightarrow> string \<Rightarrow> case_data \<Rightarrow> validation_error + case_data" where
  "attach_engine_refutation new_id nid reason provenance c =
    (case dict_get (case_nodes c) nid of
       None \<Rightarrow> Inr c
     | Some n \<Rightarrow>
        if node_has_engine_counterfactual_refute n c then Inr c
        else case new_link new_id REFUTES reason (Some 1) (case_current_turn c) of
            Inl e \<Rightarrow> Inl e
          | Inr l \<Rightarrow>
             Inr (c\<lparr>case_evidence := case_evidence c @ [engine_row new_id provenance (case_current_turn c)],
                case_nodes := dict_put nid (n\<lparr>node_links := node_links n @ [l]\<rparr>) (case_nodes c)\<rparr>))"

text \<open>What each kind of disconfirmation records; \<open>None\<close> refuses the demotion.\<close>

definition m6_provenance :: "case_data \<Rightarrow> m6_trigger \<Rightarrow> string option" where
  "m6_provenance c t =
    (case m6_kind t of
       M6_EVIDENCE \<Rightarrow> Some (evidence_disconfirmation_provenance c (m6_hyp t))
     | M6_RECORD w \<Rightarrow> Some (failed_fix_provenance w)
     | M6_COUNTERFACTUAL \<Rightarrow> map_option snd (m6_disconfirmation_basis c))"

definition demote_disconfirmed_cause_via_evidence :: "string \<Rightarrow> case_data \<Rightarrow> validation_error + case_data \<times> bool" where
  "demote_disconfirmed_cause_via_evidence new_id c =
    (case disconfirmed_cause_trigger c True of
       None \<Rightarrow> Inr (c, False)
     | Some t \<Rightarrow>
        (case m6_provenance c t of
           None \<Rightarrow> Inr (c, False)
         | Some provenance \<Rightarrow>
            (let h = m6_hyp t;
                 c1 = (if hyp_state h = H_REFUTED then c
                   else c\<lparr>case_hypotheses := dict_put (hyp_id h)
                          (fst (refute_hypothesis (case_current_turn c) [] (m6_reason t) h)) (case_hypotheses c)\<rparr>)
             in case (if truthy (hyp_root h) then attach_engine_refutation new_id (or_empty (hyp_root h)) (m6_reason t) provenance c1
                      else Inr c1) of
                 Inl e \<Rightarrow> Inl e
               | Inr c2 \<Rightarrow> Inr (c2\<lparr>case_conclusion := None,
                    case_prog := (case_prog c2)\<lparr>prog_root_cause_likelihood := 0\<rparr>\<rparr>, True))))"

end
