(* ===== verification/Fix_Window_Laws.thy ===== *)
theory Fix_Window_Laws
  imports Resolution_Gate
begin

text \<open>
  What a fix window may say of a fix, and what a resolution needs: the verdict against a declarative
  reading of the turns, the order of the windows, and the observations behind a disconfirmation and a
  confirmation.
\<close>

section \<open>Turns\<close>

lemma fold_max_upper: "x \<in> set (t # ts) \<Longrightarrow> x \<le> fold max ts (t :: int)"
  by (simp add: Max.set_eq_fold [symmetric])

lemma fold_min_le: "x \<in> set (t # ts) \<Longrightarrow> fold min ts (t :: int) \<le> x"
  by (simp add: Min.set_eq_fold [symmetric])

lemma fold_min_mem: "fold min ts (t :: int) \<in> set (t # ts)"
  using Min_in [of "set (t # ts)"] by (simp only: Min.set_eq_fold [symmetric]) simp

lemma min_turn_None [simp]: "min_turn ts = None \<longleftrightarrow> ts = []"
  by (cases ts) (simp_all add: min_turn_def)

lemma min_turn_SomeD: "min_turn ts = Some m \<Longrightarrow> m \<in> set ts \<and> (\<forall>t \<in> set ts. m \<le> t)"
  using fold_min_mem fold_min_le by (cases ts) (auto simp: min_turn_def)

lemma set_sorted_turns [simp]: "set (sorted_turns ts) = set ts"
  by (simp add: sorted_turns_def)

lemma sorted_turns_sorted: "sorted (sorted_turns ts)"
  by (simp add: sorted_turns_def)

lemma last_gone_ge: "g \<in> set gone \<Longrightarrow> g \<le> p \<Longrightarrow> g \<le> last_gone gone p"
proof -
  assume "g \<in> set gone" "g \<le> p"
  then have "g \<in> set (filter (\<lambda>g. g \<le> p) gone)" by simp
  then show ?thesis
    using fold_max_upper unfolding last_gone_def by (cases "filter (\<lambda>g. g \<le> p) gone") auto
qed

lemma find_sorted: "find P ts = Some t \<Longrightarrow> t \<in> set ts \<and> P t \<and> (sorted ts \<longrightarrow> (\<forall>u \<in> set ts. P u \<longrightarrow> t \<le> u))"
  by (induction ts) (auto split: if_splits)

section \<open>The verdict\<close>

text \<open>The declarative reading: the cause was seen removed by then, and the problem is seen and not seen gone.\<close>

definition persists :: "int list \<Rightarrow> int list \<Rightarrow> int list \<Rightarrow> int \<Rightarrow> bool" where
  "persists gone after_fix cause_turns t \<longleftrightarrow>
     t \<in> set after_fix \<and> t \<notin> set gone \<and> (\<exists>r \<in> set cause_turns. r \<le> t)"

lemma scan_state: "fst (scan_turns gone relief ts) = (if set ts \<subseteq> set gone then FIX_UNKNOWN else FIX_FAILED)"
  by (induction ts arbitrary: relief) simp_all

lemma scan_failure: "fst (snd (scan_turns gone relief ts)) = find (\<lambda>t. t \<notin> set gone) ts"
  by (induction ts arbitrary: relief) simp_all

lemma scan_relief: "snd (snd (scan_turns gone relief ts)) =
    (if relief \<noteq> None then relief else case takeWhile (\<lambda>t. t \<in> set gone) ts of [] \<Rightarrow> None | t # _ \<Rightarrow> Some t)"
  by (induction ts arbitrary: relief) simp_all

lemma disconfirmation_sound:
  "first_disconfirmation cause_turns gone after_fix = Some (r, p) \<Longrightarrow>
     r \<in> set cause_turns \<and> p \<in> set after_fix \<and> r \<le> p \<and> (\<forall>g \<in> set gone. \<not> (r \<le> g \<and> g \<le> p))"
proof (induction after_fix)
  case (Cons q qs)
  show ?case
  proof (cases "find (\<lambda>t. last_gone gone q < t \<and> t \<le> q) cause_turns")
    case None
    with Cons show ?thesis by simp
  next
    case (Some t)
    with Cons.prems have "r = t" "p = q" by simp_all
    with find_sorted [OF Some] last_gone_ge [of _ gone q] show ?thesis by force
  qed
qed simp

lemma removal_filter:
  "set (case min_turn cause_turns of None \<Rightarrow> [] | Some removal \<Rightarrow> filter (\<lambda>turn. turn \<ge> removal) after_fix)
    = {t \<in> set after_fix. \<exists>r \<in> set cause_turns. r \<le> t}"
proof (cases "min_turn cause_turns")
  case (Some m)
  with min_turn_SomeD [OF Some] show ?thesis by (auto intro: order_trans)
next
  case None
  then have "cause_turns = []" by simp
  then show ?thesis by (simp add: min_turn_def)
qed

lemma verdict_fields:
  fixes gone after_fix cause_turns confirmed
  defines "ts \<equiv> sorted_turns (gone @ (case min_turn cause_turns of None \<Rightarrow> []
      | Some removal \<Rightarrow> filter (\<lambda>turn. turn \<ge> removal) after_fix))"
  shows "set ts = set gone \<union> {t \<in> set after_fix. \<exists>r \<in> set cause_turns. r \<le> t}" and "sorted ts"
    and "fv_state (read_verdict gone after_fix cause_turns confirmed) =
      (if \<not> set ts \<subseteq> set gone then FIX_FAILED else if ts \<noteq> [] \<and> confirmed then FIX_SUCCEEDED else FIX_UNKNOWN)"
    and "fv_failure (read_verdict gone after_fix cause_turns confirmed) = find (\<lambda>t. t \<notin> set gone) ts"
    and "fv_relief (read_verdict gone after_fix cause_turns confirmed) =
      (case takeWhile (\<lambda>t. t \<in> set gone) ts of [] \<Rightarrow> None | t # _ \<Rightarrow> Some t)"
    and "fv_disconfirmation (read_verdict gone after_fix cause_turns confirmed) =
      first_disconfirmation (sorted_turns cause_turns) gone (sorted_turns after_fix)"
proof -
  show "set ts = set gone \<union> {t \<in> set after_fix. \<exists>r \<in> set cause_turns. r \<le> t}" "sorted ts"
    by (simp_all add: ts_def removal_filter sorted_turns_sorted)
  obtain st fl rl where s: "scan_turns gone None ts = (st, fl, rl)" by (cases "scan_turns gone None ts")
  have p: "read_verdict gone after_fix cause_turns confirmed = \<lparr>
      fv_state = (if st \<noteq> FIX_FAILED \<and> rl \<noteq> None \<and> confirmed then FIX_SUCCEEDED else st),
      fv_failure = fl, fv_relief = rl,
      fv_disconfirmation = first_disconfirmation (sorted_turns cause_turns) gone (sorted_turns after_fix)\<rparr>"
    unfolding read_verdict_def Let_def ts_def [symmetric] s by simp
  have st: "st = (if set ts \<subseteq> set gone then FIX_UNKNOWN else FIX_FAILED)" using scan_state [of gone None ts] s by simp
  show "fv_failure (read_verdict gone after_fix cause_turns confirmed) = find (\<lambda>t. t \<notin> set gone) ts"
    using scan_failure [of gone None ts] s p by simp
  have rl: "rl = (case takeWhile (\<lambda>t. t \<in> set gone) ts of [] \<Rightarrow> None | t # _ \<Rightarrow> Some t)"
    using scan_relief [of gone None ts] s by simp
  then show "fv_relief (read_verdict gone after_fix cause_turns confirmed) =
      (case takeWhile (\<lambda>t. t \<in> set gone) ts of [] \<Rightarrow> None | t # _ \<Rightarrow> Some t)" using p by simp
  show "fv_disconfirmation (read_verdict gone after_fix cause_turns confirmed) =
      first_disconfirmation (sorted_turns cause_turns) gone (sorted_turns after_fix)" using p by simp
  have "set ts \<subseteq> set gone \<Longrightarrow> rl \<noteq> None \<longleftrightarrow> ts \<noteq> []" using rl by (cases ts) auto
  then show "fv_state (read_verdict gone after_fix cause_turns confirmed) =
      (if \<not> set ts \<subseteq> set gone then FIX_FAILED else if ts \<noteq> [] \<and> confirmed then FIX_SUCCEEDED else FIX_UNKNOWN)"
    using p st by auto
qed

lemma failed_iff_persists:
  "fv_state (read_verdict gone after_fix cause_turns confirmed) = FIX_FAILED
    \<longleftrightarrow> (\<exists>t. persists gone after_fix cause_turns t)"
  unfolding verdict_fields(3) verdict_fields(1) persists_def by auto

lemma disconfirmed_failed:
  "fv_disconfirmation (read_verdict gone after_fix cause_turns confirmed) \<noteq> None \<Longrightarrow>
     fv_state (read_verdict gone after_fix cause_turns confirmed) = FIX_FAILED"
proof -
  assume "fv_disconfirmation (read_verdict gone after_fix cause_turns confirmed) \<noteq> None"
  then obtain r p where "first_disconfirmation (sorted_turns cause_turns) gone (sorted_turns after_fix) = Some (r, p)"
    unfolding verdict_fields(6) by auto
  from disconfirmation_sound [OF this] have "persists gone after_fix cause_turns p" by (auto simp: persists_def)
  then show ?thesis unfolding failed_iff_persists by blast
qed

lemma failure_is_first:
  "fv_failure (read_verdict gone after_fix cause_turns confirmed) = Some t
    \<longleftrightarrow> persists gone after_fix cause_turns t \<and> (\<forall>u. persists gone after_fix cause_turns u \<longrightarrow> t \<le> u)"
    (is "?f = Some t \<longleftrightarrow> ?R t")
proof -
  have p: "persists gone after_fix cause_turns u \<longleftrightarrow> u \<in> set (sorted_turns (gone @ (case min_turn cause_turns of None \<Rightarrow> []
      | Some removal \<Rightarrow> filter (\<lambda>turn. turn \<ge> removal) after_fix))) \<and> u \<notin> set gone" for u
    unfolding verdict_fields(1) persists_def by auto
  have s: "?R u" if "?f = Some u" for u
    using find_sorted [OF that [unfolded verdict_fields(4)]] verdict_fields(2) p by blast
  moreover have "?f = Some t" if "?R t"
  proof (cases ?f)
    case None
    then have "\<not> persists gone after_fix cause_turns t"
      unfolding verdict_fields(4) find_None_iff p by blast
    with that show ?thesis by blast
  next
    case (Some u)
    with s [OF Some] that show ?thesis by (auto intro: antisym)
  qed
  ultimately show ?thesis by blast
qed

text \<open>C6: The verdict on a fix is what its turns say: it failed exactly when the problem was seen, after the
  fix and once the cause had been seen removed, in a turn in which it was not also seen gone, and the
  failure turn is the first such turn; it succeeded exactly when there is no such turn, the problem
  was seen gone, and a row of the confirmable cause is among the re-checks; and a disconfirmation of
  the cause is only ever recorded on a failed fix.\<close>

theorem verdict_reads_the_turns:
  fixes gone after_fix cause_turns confirmed
  defines "v \<equiv> read_verdict gone after_fix cause_turns confirmed"
    and "P \<equiv> persists gone after_fix cause_turns"
  shows "(fv_state v = FIX_FAILED \<longleftrightarrow> (\<exists>t. P t))
    \<and> (fv_failure v = Some t \<longleftrightarrow> P t \<and> (\<forall>u. P u \<longrightarrow> t \<le> u))
    \<and> (fv_state v = FIX_SUCCEEDED \<longleftrightarrow> (\<nexists>t. P t) \<and> gone \<noteq> [] \<and> confirmed)
    \<and> (fv_disconfirmation v \<noteq> None \<longrightarrow> fv_state v = FIX_FAILED)"
proof -
  have failed: "fv_state v = FIX_FAILED \<longleftrightarrow> (\<exists>t. P t)" unfolding v_def P_def by (rule failed_iff_persists)
  have succeeded: "fv_state v = FIX_SUCCEEDED \<longleftrightarrow> (\<nexists>t. P t) \<and> gone \<noteq> [] \<and> confirmed"
  proof (cases "\<exists>t. P t")
    case True
    with failed show ?thesis by auto
  next
    case False
    let ?ts = "sorted_turns (gone @ (case min_turn cause_turns of None \<Rightarrow> []
      | Some removal \<Rightarrow> filter (\<lambda>turn. turn \<ge> removal) after_fix))"
    have "set ?ts = set gone" using False unfolding verdict_fields(1) P_def persists_def by blast
    then have "?ts \<noteq> [] \<longleftrightarrow> gone \<noteq> []" by (metis set_empty)
    with \<open>set ?ts = set gone\<close> False show ?thesis unfolding v_def verdict_fields(3) by simp
  qed
  show ?thesis using failed failure_is_first [of gone after_fix cause_turns confirmed t] succeeded
      disconfirmed_failed [of gone after_fix cause_turns confirmed]
    unfolding v_def P_def by blast
qed

text \<open>C8: A fix that was seen failing stays failed: whatever is observed in later turns, relief,
  persistence or re-checks of the cause, the verdict stays failed at the same turn.\<close>

theorem failed_is_final:
  assumes "fv_failure (read_verdict gone after_fix cause_turns confirmed) = Some t"
    and "\<forall>u \<in> set (gone' @ after' @ cause'). t < u"
  shows "fv_failure (read_verdict (gone @ gone') (after_fix @ after') (cause_turns @ cause') confirmed') = Some t
    \<and> fv_state (read_verdict (gone @ gone') (after_fix @ after') (cause_turns @ cause') confirmed') = FIX_FAILED"
proof -
  have P: "persists gone after_fix cause_turns t" "\<And>u. persists gone after_fix cause_turns u \<Longrightarrow> t \<le> u"
    using assms(1) failure_is_first by blast+
  have "persists (gone @ gone') (after_fix @ after') (cause_turns @ cause') t"
    using P(1) assms(2) by (auto simp: persists_def)
  moreover have "t \<le> u" if pu: "persists (gone @ gone') (after_fix @ after') (cause_turns @ cause') u" for u
  proof (rule ccontr)
    assume "\<not> t \<le> u"
    then have u: "u < t" by simp
    obtain r where r: "u \<in> set (after_fix @ after')" "u \<notin> set gone" "r \<in> set (cause_turns @ cause')" "r \<le> u"
      using pu by (auto simp: persists_def)
    have new: "x \<in> set (gone' @ after' @ cause') \<Longrightarrow> t < x" for x using assms(2) by blast
    have "u \<in> set after_fix" using r(1) new [of u] u by auto
    moreover have "r \<in> set cause_turns" using r(3,4) new [of r] u by auto
    ultimately have "persists gone after_fix cause_turns u" using r(2,4) by (auto simp: persists_def)
    from P(2) [OF this] u show False by simp
  qed
  ultimately show ?thesis using failure_is_first failed_iff_persists by blast
qed

section \<open>The rows of a case and of a window\<close>

definition observations :: "case_data \<Rightarrow> evidence list" where
  "observations c = dict_values (sx_rows (subject_index c))"

lemma values_put: "v \<in> set (dict_values (dict_put k x d)) \<Longrightarrow> v = x \<or> v \<in> set (dict_values d)"
  by (induction d) (auto simp: dict_put_def dict_values_def split: if_splits)

lemma rows_fold:
  "v \<in> set (dict_values (fold (\<lambda>e d. if P e then dict_put (ev_id e) e d else d) es d)) \<Longrightarrow>
     v \<in> set (dict_values d) \<or> (v \<in> set es \<and> P v)"
proof (induction es arbitrary: d)
  case (Cons e es)
  from Cons.IH [OF Cons.prems [simplified fold_Cons o_apply]] values_put [of v "ev_id e" e d]
  show ?case by (auto split: if_splits)
qed simp

lemma observations_recorded:
  "e \<in> set (observations c) \<Longrightarrow> e \<in> set (case_evidence c) \<and> ev_collected_by e \<noteq> ENGINE_EVIDENCE_AUTHOR"
  using rows_fold [of e "\<lambda>e. ev_id e \<noteq> [] \<and> ev_collected_by e \<noteq> ENGINE_EVIDENCE_AUTHOR" "case_evidence c" "[]"]
  by (auto simp: observations_def subject_index_def dict_values_def split: prod.splits)

definition keyed_rows :: "(string, evidence) pydict \<Rightarrow> bool" where
  "keyed_rows d \<longleftrightarrow> dict_wf d \<and> (\<forall>k v. dict_get d k = Some v \<longrightarrow> ev_id v = k)"

lemma keyed_rows_put: "keyed_rows d \<Longrightarrow> keyed_rows (dict_put (ev_id e) e d)"
  by (simp add: keyed_rows_def)

lemma rows_fold_keyed:
  "keyed_rows d \<Longrightarrow> keyed_rows (fold (\<lambda>e d. if P e then dict_put (ev_id e) e d else d) es d)"
proof (induction es arbitrary: d)
  case (Cons e es)
  have "keyed_rows (if P e then dict_put (ev_id e) e d else d)" using Cons.prems keyed_rows_put by simp
  from Cons.IH [OF this] show ?case by simp
qed simp

lemma observation_id:
  assumes "e \<in> set (observations c)" shows "dict_get (sx_rows (subject_index c)) (ev_id e) = Some e"
proof -
  have rows: "sx_rows (subject_index c) = fold (\<lambda>e d. if ev_id e \<noteq> [] \<and> ev_collected_by e \<noteq> ENGINE_EVIDENCE_AUTHOR
      then dict_put (ev_id e) e d else d) (case_evidence c) []"
    by (simp add: subject_index_def split: prod.split)
  have "keyed_rows (sx_rows (subject_index c))"
    unfolding rows by (rule rows_fold_keyed) (simp add: keyed_rows_def dict_keys_def)
  with assms show ?thesis unfolding keyed_rows_def observations_def
    using dict_values_get by fastforce
qed

lemma merged_rows:
  "e \<in> set (merged (subject_index c) rows) \<Longrightarrow> set rows \<subseteq> set (observations c) \<Longrightarrow> e \<in> set rows"
proof -
  assume e: "e \<in> set (merged (subject_index c) rows)" and r: "set rows \<subseteq> set (observations c)"
  then obtain x where x: "x \<in> set rows" "ev_id x = ev_id e" by (auto simp: merged_def)
  have "e \<in> set (observations c)" using e by (auto simp: merged_def absence_rows_def observations_def)
  with observation_id [of e c] observation_id [of x c] x r show ?thesis by auto
qed

lemma verifying_ids: "set (sx_verifying (subject_index c)) = set (case_verifying_ids c)"
  by (simp add: subject_index_def split: prod.split)

lemma subject_problem:
  "subject_of c sx e windows roots cited = SUBJECT_PROBLEM \<Longrightarrow>
     ev_category e \<in> {SYMPTOM_ABSENCE_EVIDENCE, SYMPTOM_EVIDENCE} \<and> rechecked c e \<in> set (sx_verifying sx)
     \<and> ev_collected_by e \<noteq> ENGINE_EVIDENCE_AUTHOR"
  by (auto simp: subject_of_def rechecked_def PROBLEM_OBSERVATIONS_def split: option.splits if_splits)

lemma subject_cause:
  "subject_of c sx e windows roots cited = SUBJECT_CAUSE \<Longrightarrow>
     ev_category e = CAUSAL_ABSENCE_EVIDENCE \<and> ev_collected_by e \<noteq> ENGINE_EVIDENCE_AUTHOR"
  by (auto simp: subject_of_def split: option.splits if_splits)

lemma bound_symptom:
  "(e, s) \<in> set (bound_rows c sx) \<Longrightarrow> ev_category e \<in> {SYMPTOM_ABSENCE_EVIDENCE, SYMPTOM_EVIDENCE} \<Longrightarrow> s = SUBJECT_PROBLEM"
  by (auto simp: bound_rows_def subject_of_def split: option.splits if_splits)

text \<open>The problem was seen, gone or present, at a turn: by a row re-checking one that verified it.\<close>

definition sighting :: "case_data \<Rightarrow> evidence_category \<Rightarrow> int \<Rightarrow> bool" where
  "sighting c cat t \<longleftrightarrow> (\<exists>e \<in> set (observations c). ev_category e = cat \<and> observed_turn c e = t
     \<and> subject_of c (subject_index c) e True None None = SUBJECT_PROBLEM)"

lemma bound_sighting:
  "t \<in> set (map (\<lambda>(e, s). observed (subject_index c) e) (filter (\<lambda>(e, s). ev_category e = cat) (bound_rows c (subject_index c))))
    \<longleftrightarrow> sighting c cat t" if "cat \<in> {SYMPTOM_ABSENCE_EVIDENCE, SYMPTOM_EVIDENCE}"
proof
  assume "sighting c cat t"
  then show "t \<in> set (map (\<lambda>(e, s). observed (subject_index c) e) (filter (\<lambda>(e, s). ev_category e = cat) (bound_rows c (subject_index c))))"
    by (force simp: sighting_def observations_def bound_rows_def observed_turn_def)
next
  assume "t \<in> set (map (\<lambda>(e, s). observed (subject_index c) e) (filter (\<lambda>(e, s). ev_category e = cat) (bound_rows c (subject_index c))))"
  then obtain e s where e: "(e, s) \<in> set (bound_rows c (subject_index c))" "ev_category e = cat" "t = observed (subject_index c) e"
    by auto
  with bound_symptom [OF e(1)] that show "sighting c cat t"
    by (auto simp: sighting_def observations_def bound_rows_def observed_turn_def)
qed

lemma gone_sighting: "t \<in> set (gone_turns c (subject_index c) holds) \<longleftrightarrow> holds t \<and> sighting c SYMPTOM_ABSENCE_EVIDENCE t"
  using bound_sighting [of SYMPTOM_ABSENCE_EVIDENCE t c] unfolding gone_turns_def by auto

lemma after_sighting:
  "t \<in> set (after_fix_turns c (subject_index c) fix_turn end_turn) \<longleftrightarrow>
     (\<exists>f. fix_turn = Some f \<and> f < t) \<and> (\<forall>e. end_turn = Some e \<longrightarrow> t \<le> e) \<and> sighting c SYMPTOM_EVIDENCE t"
  using bound_sighting [of SYMPTOM_EVIDENCE t c] unfolding after_fix_turns_def
  by (auto split: option.splits)

lemma cause_row_props:
  assumes "e \<in> set (fst (window_rows c (subject_index c) fixes fell fix_turn end_turn))"
  shows "e \<in> set (observations c)" "ev_category e = CAUSAL_ABSENCE_EVIDENCE"
  using assms by (auto simp: window_rows_def Let_def merged_def absence_rows_def observations_def split: prod.splits)

lemma window_row_sources:
  fixes c FX fell ft et
  defines "rows \<equiv> window_rows c (subject_index c) FX fell ft et"
  assumes "e \<in> set (fst rows)"
  shows "span_holds ft et (observed (subject_index c) e)"
proof -
  let ?sx = "subject_index c" and ?h = "span_holds ft et"
  define ok where "ok = (\<lambda>ls. \<forall>x \<in> set ls. x \<in> set (observations c) \<and> ?h (observed ?sx x))"
  have app: "ok xs \<Longrightarrow> ok ys \<Longrightarrow> ok (xs @ ys)" for xs ys by (auto simp: ok_def)
  have bound: "ok (bound_to c ?sx ?h roots cited)" for roots cited
    by (simp add: ok_def bound_to_def absence_rows_def observations_def)
  have cited: "ok (cited_by c ?sx ?h roots)" for roots
    by (simp add: ok_def cited_by_def absence_rows_def observations_def)
  have free: "ok (map fst (filter (\<lambda>(x, s). s = SUBJECT_CAUSE \<and> ?h (observed ?sx x)) (bound_rows c ?sx)))"
    by (auto simp: ok_def bound_rows_def observations_def)
  have conf: "ok (filter (\<lambda>x. ?h (observed ?sx x) \<and> P x) (absence_rows ?sx))" for P
    by (simp add: ok_def absence_rows_def observations_def)
  obtain kinded targets where k: "(case ft of None \<Rightarrow> (False, [])
      | Some t \<Rightarrow> (case dict_get FX t of None \<Rightarrow> (False, []) | Some e \<Rightarrow> e)) = (kinded, targets)" by (meson surj_pair)
  obtain ls where ls: "fst rows = merged ?sx ls" "ok ls"
    by (rule that, unfold rows_def window_rows_def Let_def k prod.case fst_conv, rule refl)
      (intro app cited, simp_all add: bound free conf)
  then show ?thesis using merged_rows [of e c ls] assms(2) by (auto simp: ok_def)
qed

lemma confirmed_row_props:
  assumes "e \<in> set (snd (window_rows c (subject_index c) fixes fell fix_turn end_turn))"
  shows "e \<in> set (fst (window_rows c (subject_index c) fixes fell fix_turn end_turn))"
  using assms by (auto simp: window_rows_def Let_def merged_def absence_rows_def bound_to_def split: prod.splits)

section \<open>The windows\<close>

lemma read_window_fields:
  fixes c FX fell ft et
  defines "rows \<equiv> window_rows c (subject_index c) FX fell ft et"
    and "gone \<equiv> gone_turns c (subject_index c) (span_holds ft et)"
    and "aft \<equiv> after_fix_turns c (subject_index c) ft et"
    and "w \<equiv> read_window c (subject_index c) FX fell ft et"
  defines "v \<equiv> read_verdict gone aft (map (observed (subject_index c)) (fst rows)) (snd rows \<noteq> [])"
  shows "fw_fix_turn w = ft" "fw_end_turn w = et" "fw_cause_rows w = fst rows" "fw_confirmed_cause_rows w = snd rows"
    and "fw_disconfirmation w = fv_disconfirmation v"
    and "fw_observed w \<longleftrightarrow> fst rows \<noteq> [] \<or> aft \<noteq> [] \<or> fw_state w = FIX_FAILED"
    and "ft = Some t \<Longrightarrow> fw_state w = fv_state v"
    and "ft = None \<Longrightarrow> fw_kind w = None"
  unfolding w_def v_def rows_def gone_def aft_def read_window_def Let_def
  by (simp_all split: prod.split)

lemma first_failed_end:
  "(\<And>e. fw_fix_turn (read e) = Some t \<and> fw_end_turn (read e) = e) \<Longrightarrow>
     (\<exists>e. first_failed_window read ts following = read e \<and> e \<in> insert following (Some ` set ts))"
proof (induction ts)
  case (Cons x ts)
  then show ?case by (cases "fw_state (read (Some x)) = FIX_FAILED") (auto simp: Let_def)
qed simp

text \<open>Every window of a case is read over some span, and ends before the next one begins.\<close>

definition ends_before :: "fix_window \<Rightarrow> fix_window \<Rightarrow> bool" where
  "ends_before w w' \<longleftrightarrow> (\<exists>e t. fw_end_turn w = Some e \<and> fw_fix_turn w' = Some t \<and> e \<le> t)"

lemma later_windows_spans:
  assumes "\<And>a b. fw_fix_turn (read a b) = a \<and> fw_end_turn (read a b) = b"
    and "sorted turns" "distinct turns"
  shows "sorted_wrt ends_before (later_windows read fixes attempts turns)
    \<and> (\<forall>w \<in> set (later_windows read fixes attempts turns). \<exists>t e. w = read (Some t) e \<and> t \<in> set turns)"
  using assms(2,3)
proof (induction turns)
  case (Cons t turns)
  define following where "following = (case turns of [] \<Rightarrow> None | t # _ \<Rightarrow> Some t)"
  define w where "w = hd (later_windows read fixes attempts (t # turns))"
  have lw: "later_windows read fixes attempts (t # turns) = w # later_windows read fixes attempts turns"
    by (simp add: w_def Let_def)
  have "\<exists>e. w = read (Some t) e \<and> (following \<noteq> None \<longrightarrow> (\<exists>e'. e = Some e' \<and> e' \<le> the following))"
  proof (cases "case dict_get fixes t of None \<Rightarrow> False | Some e \<Rightarrow> fst e")
    case True
    then show ?thesis by (auto simp: w_def Let_def following_def split: list.splits)
  next
    case False
    then have "w = first_failed_window (read (Some t)) (filter (\<lambda>x. t < x \<and> (case following of None \<Rightarrow> True | Some f \<Rightarrow> x < f)) attempts) following"
      unfolding w_def following_def by (simp add: Let_def)
    with first_failed_end [of "read (Some t)" t "filter (\<lambda>x. t < x \<and> (case following of None \<Rightarrow> True | Some f \<Rightarrow> x < f)) attempts" following]
    obtain e where e: "w = read (Some t) e"
        "e \<in> insert following (Some ` set (filter (\<lambda>x. t < x \<and> (case following of None \<Rightarrow> True | Some f \<Rightarrow> x < f)) attempts))"
      using assms(1) by auto
    then show ?thesis by (auto split: option.splits intro!: exI [of _ e])
  qed
  then obtain e where e: "w = read (Some t) e" "following \<noteq> None \<longrightarrow> (\<exists>e'. e = Some e' \<and> e' \<le> the following)" by blast
  have IH: "sorted_wrt ends_before (later_windows read fixes attempts turns)"
      "\<forall>w \<in> set (later_windows read fixes attempts turns). \<exists>t e. w = read (Some t) e \<and> t \<in> set turns"
    using Cons by auto
  have "ends_before w w'" if w'mem: "w' \<in> set (later_windows read fixes attempts turns)" for w'
  proof -
    obtain t' e' where w': "w' = read (Some t') e'" "t' \<in> set turns" using IH(2) w'mem by blast
    then obtain f fs where f: "turns = f # fs" by (cases turns) auto
    then have "f \<le> t'" using Cons.prems w'(2) by auto
    with e f w'(1) show ?thesis
      unfolding ends_before_def following_def using assms(1) [of "Some t" e] assms(1) [of "Some t'" e'] by auto
  qed
  moreover have "\<exists>t' e. w' = read (Some t') e \<and> t' \<in> set (t # turns)"
    if m: "w' \<in> set (w # later_windows read fixes attempts turns)" for w'
    using m e(1) IH(2) by fastforce
  ultimately show ?case unfolding lw using IH(1) by auto
qed simp

lemma window_fixes_turns: "set (dict_keys (window_fixes c)) \<subseteq> set (dated_fix_turns c)"
proof -
  define step where "step = (\<lambda>a d. if is_remediation a
       then (case (case dict_get d (fix_turn_of a) of None \<Rightarrow> (True, []) | Some e \<Rightarrow> e) of
             (kinded, targets) \<Rightarrow>
               dict_put (fix_turn_of a) (kinded \<and> act_fix_kind a \<noteq> None, targets @ act_target_ids a) d)
       else (d :: (int, bool \<times> string list) pydict))"
  have keys: "set (dict_keys (step a d)) \<subseteq> insert (fix_turn_of a) (set (dict_keys d))" for a d
    by (auto simp: step_def set_dict_keys_put split: prod.split)
  have fold: "set (dict_keys (fold step as d)) \<subseteq> set (dict_keys d) \<union> fix_turn_of ` set as" for as d
  proof (induction as arbitrary: d)
    case (Cons a as)
    from Cons.IH [of "step a d"] keys [of a d] show ?case by auto
  qed simp
  have "dict_keys (window_fixes c) = dict_keys (fold step (dated_fixes c) [])"
    unfolding window_fixes_def step_def [symmetric] Let_def by (simp add: dict_keys_def case_prod_beta comp_def)
  with fold [of "dated_fixes c" "[]"] show ?thesis by (simp add: dated_fix_turns_def dict_keys_def)
qed

lemma dated_turns_sorted: "sorted (dated_fix_turns c)"
  by (simp add: dated_fix_turns_def)

lemma fix_windows_spans:
  "sorted_wrt ends_before (fix_windows c)
    \<and> (\<forall>w \<in> set (fix_windows c). \<exists>ft et. w = read_window c (subject_index c) (window_fixes c) (fell_roots c) ft et)"
proof -
  define read where "read = read_window c (subject_index c) (window_fixes c) (fell_roots c)"
  define first where "first = (case dated_fix_turns c of [] \<Rightarrow> None | t # _ \<Rightarrow> Some t)"
  define lw where "lw = later_windows read (window_fixes c) (dated_fix_turns c) (sorted_turns (dict_keys (window_fixes c)))"
  have ws: "fix_windows c = read None first # lw"
    unfolding fix_windows_def lw_def first_def read_def Let_def ..
  have r: "fw_fix_turn (read a b) = a \<and> fw_end_turn (read a b) = b" for a b
    unfolding read_def using read_window_fields(1,2) by blast
  have L: "sorted_wrt ends_before lw"
      "\<forall>w \<in> set lw. \<exists>t e. w = read (Some t) e \<and> t \<in> set (sorted_turns (dict_keys (window_fixes c)))"
    unfolding lw_def using later_windows_spans [of read "sorted_turns (dict_keys (window_fixes c))"] r
    by (simp_all add: sorted_turns_def)
  have "ends_before (read None first) w" if wmem: "w \<in> set lw" for w
  proof -
    obtain t e where t: "w = read (Some t) e" "t \<in> set (dict_keys (window_fixes c))" using L(2) wmem by auto
    then have "t \<in> set (dated_fix_turns c)" using window_fixes_turns by blast
    then obtain f fs where f: "dated_fix_turns c = f # fs" "f \<le> t"
      using dated_turns_sorted [of c] by (cases "dated_fix_turns c") auto
    then show ?thesis unfolding ends_before_def first_def t(1) using r by auto
  qed
  moreover have "\<exists>ft et. w = read ft et" if m: "w \<in> set (read None first # lw)" for w
    using m L(2) by fastforce
  ultimately show ?thesis unfolding ws read_def [symmetric] using L(1) by simp
qed

text \<open>What a window reads: its verdict, once a fix is dated, comes from the turns and rows of its own
  span, and the turns it names lie there too, those of a relapse before the first fix included.\<close>

lemma read_window_verdict:
  fixes c FX fell t et
  defines "sx \<equiv> subject_index c" and "w \<equiv> read_window c (subject_index c) FX fell (Some t) et"
  shows "fw_state w = fv_state (read_verdict (gone_turns c sx (window_holds w))
        (after_fix_turns c sx (fw_fix_turn w) (fw_end_turn w)) (map (observed sx) (fw_cause_rows w))
        (fw_confirmed_cause_rows w \<noteq> []))"
    and "fw_failure_turn w = fv_failure (read_verdict (gone_turns c sx (window_holds w))
        (after_fix_turns c sx (fw_fix_turn w) (fw_end_turn w)) (map (observed sx) (fw_cause_rows w))
        (fw_confirmed_cause_rows w \<noteq> []))"
    and "fw_relief_turn w = fv_relief (read_verdict (gone_turns c sx (window_holds w))
        (after_fix_turns c sx (fw_fix_turn w) (fw_end_turn w)) (map (observed sx) (fw_cause_rows w))
        (fw_confirmed_cause_rows w \<noteq> []))"
    and "fw_disconfirmation w = fv_disconfirmation (read_verdict (gone_turns c sx (window_holds w))
        (after_fix_turns c sx (fw_fix_turn w) (fw_end_turn w)) (map (observed sx) (fw_cause_rows w))
        (fw_confirmed_cause_rows w \<noteq> []))"
proof -
  have h: "window_holds w = span_holds (Some t) et"
    unfolding window_holds_def w_def read_window_fields(1,2) ..
  show "fw_state w = fv_state (read_verdict (gone_turns c sx (window_holds w))
        (after_fix_turns c sx (fw_fix_turn w) (fw_end_turn w)) (map (observed sx) (fw_cause_rows w))
        (fw_confirmed_cause_rows w \<noteq> []))"
    "fw_failure_turn w = fv_failure (read_verdict (gone_turns c sx (window_holds w))
        (after_fix_turns c sx (fw_fix_turn w) (fw_end_turn w)) (map (observed sx) (fw_cause_rows w))
        (fw_confirmed_cause_rows w \<noteq> []))"
    "fw_relief_turn w = fv_relief (read_verdict (gone_turns c sx (window_holds w))
        (after_fix_turns c sx (fw_fix_turn w) (fw_end_turn w)) (map (observed sx) (fw_cause_rows w))
        (fw_confirmed_cause_rows w \<noteq> []))"
    "fw_disconfirmation w = fv_disconfirmation (read_verdict (gone_turns c sx (window_holds w))
        (after_fix_turns c sx (fw_fix_turn w) (fw_end_turn w)) (map (observed sx) (fw_cause_rows w))
        (fw_confirmed_cause_rows w \<noteq> []))"
    unfolding h unfolding w_def sx_def read_window_def Let_def by (simp_all split: prod.split)
qed

lemma relapse_turns:
  assumes "window_zero_relapse c sx gone rows et roots = Some (rl, p)"
  shows "rl \<in> set gone \<and> (\<forall>e. et = Some e \<longrightarrow> p \<le> e)"
  using assms by (auto simp: window_zero_relapse_def dest!: min_turn_SomeD split: option.splits)

lemma verdict_turns:
  shows "fv_failure (read_verdict gone aft cause_turns confirmed) = Some p \<Longrightarrow> p \<in> set aft"
    and "fv_relief (read_verdict gone aft cause_turns confirmed) = Some r \<Longrightarrow> r \<in> set gone"
proof -
  let ?ts = "sorted_turns (gone @ (case min_turn cause_turns of None \<Rightarrow> []
      | Some removal \<Rightarrow> filter (\<lambda>turn. turn \<ge> removal) aft))"
  assume "fv_failure (read_verdict gone aft cause_turns confirmed) = Some p"
  then have "p \<notin> set gone" "p \<in> set ?ts" unfolding verdict_fields(4) using find_SomeD by fast+
  then show "p \<in> set aft" unfolding verdict_fields(1) by auto
next
  let ?ts = "sorted_turns (gone @ (case min_turn cause_turns of None \<Rightarrow> []
      | Some removal \<Rightarrow> filter (\<lambda>turn. turn \<ge> removal) aft))"
  assume "fv_relief (read_verdict gone aft cause_turns confirmed) = Some r"
  then have "r \<in> set (takeWhile (\<lambda>t. t \<in> set gone) ?ts)"
    unfolding verdict_fields(5) by (cases "takeWhile (\<lambda>t. t \<in> set gone) ?ts") simp_all
  from set_takeWhileD [OF this] show "r \<in> set gone" by simp
qed

lemma window_turns:
  assumes "w \<in> set (fix_windows c)"
  shows "fw_failure_turn w = Some p \<Longrightarrow> (\<forall>f. fw_fix_turn w = Some f \<longrightarrow> f < p) \<and> (\<forall>e. fw_end_turn w = Some e \<longrightarrow> p \<le> e)"
    and "fw_relief_turn w = Some r \<Longrightarrow> window_holds w r"
    and "x \<in> set (fw_cause_rows w) \<Longrightarrow> window_holds w (observed (subject_index c) x)"
    and "set (fw_confirmed_cause_rows w) \<subseteq> set (fw_cause_rows w)"
proof -
  let ?sx = "subject_index c"
  obtain FX fell ft et where w: "w = read_window c ?sx FX fell ft et" using fix_windows_spans assms by blast
  let ?rows = "window_rows c ?sx FX fell ft et" and ?gone = "gone_turns c ?sx (span_holds ft et)"
  let ?aft = "after_fix_turns c ?sx ft et"
  let ?v = "read_verdict ?gone ?aft (map (observed ?sx) (fst ?rows)) (snd ?rows \<noteq> [])"
  have fw: "fw_fix_turn w = ft" "fw_end_turn w = et" unfolding w by (rule read_window_fields)+
  have h: "window_holds w = span_holds ft et" unfolding fw [symmetric] by (rule ext) (simp add: window_holds_def)
  obtain rlp where rlp: "rlp = None \<or> ft = None \<and> (\<exists>rows roots. rlp = window_zero_relapse c ?sx ?gone rows et roots)"
      "fw_failure_turn w = (case rlp of Some (_, failure) \<Rightarrow> Some failure | None \<Rightarrow> fv_failure ?v)"
      "fw_relief_turn w = (case rlp of Some (relief, _) \<Rightarrow> Some relief | None \<Rightarrow> fv_relief ?v)"
  proof (rule that)
    let ?rlp = "if ft = None then window_zero_relapse c ?sx ?gone (merged ?sx (bound_to c ?sx (span_holds ft et)
        (with_deepened_from c (sx_pool_roots ?sx)) False @ snd ?rows)) et
        (if with_deepened_from c (sx_pool_roots ?sx) = {} then None else Some (with_deepened_from c (sx_pool_roots ?sx))) else None"
    show "?rlp = None \<or> ft = None \<and> (\<exists>rows roots. ?rlp = window_zero_relapse c ?sx ?gone rows et roots)"
      by (cases ft) (simp_all, blast)
    show "fw_failure_turn w = (case ?rlp of Some (_, failure) \<Rightarrow> Some failure | None \<Rightarrow> fv_failure ?v)"
      "fw_relief_turn w = (case ?rlp of Some (relief, _) \<Rightarrow> Some relief | None \<Rightarrow> fv_relief ?v)"
      unfolding w read_window_def Let_def case_prod_beta by simp_all
  qed
  have gone: "g \<in> set ?gone \<Longrightarrow> span_holds ft et g" for g by (simp add: gone_sighting)
  show "(\<forall>f. fw_fix_turn w = Some f \<longrightarrow> f < p) \<and> (\<forall>e. fw_end_turn w = Some e \<longrightarrow> p \<le> e)" if p: "fw_failure_turn w = Some p"
  proof (cases rlp)
    case None
    with p rlp(2) have "p \<in> set ?aft" by (auto dest: verdict_turns(1))
    then show ?thesis unfolding after_sighting fw by auto
  next
    case (Some q)
    with rlp(1) obtain rows roots where z: "ft = None" "window_zero_relapse c ?sx ?gone rows et roots = Some q"
      by (metis option.distinct(1))
    obtain rl where "q = (rl, p)" using p rlp(2) Some by (cases q) simp
    with relapse_turns z show ?thesis unfolding fw by blast
  qed
  show "window_holds w r" if r: "fw_relief_turn w = Some r"
  proof -
    have "r \<in> set ?gone"
    proof (cases rlp)
      case None
      with r rlp(3) show ?thesis by (auto dest: verdict_turns(2))
    next
      case (Some q)
      with rlp(1) obtain rows roots where z: "window_zero_relapse c ?sx ?gone rows et roots = Some q"
        by (metis option.distinct(1))
      obtain p' where "q = (r, p')" using r rlp(3) Some by (cases q) simp
      with relapse_turns z show ?thesis by blast
    qed
    with gone show ?thesis unfolding h by blast
  qed
  have rows: "fw_cause_rows w = fst ?rows" "fw_confirmed_cause_rows w = snd ?rows"
    unfolding w by (rule read_window_fields)+
  show "window_holds w (observed ?sx x)" if "x \<in> set (fw_cause_rows w)"
    using that window_row_sources unfolding rows h by blast
  show "set (fw_confirmed_cause_rows w) \<subseteq> set (fw_cause_rows w)"
    unfolding rows using confirmed_row_props by blast
qed

lemma later_window_is_dated:
  assumes "i < j" "j < length (fix_windows c)"
  shows "\<exists>e t. fw_end_turn (fix_windows c ! i) = Some e \<and> fw_fix_turn (fix_windows c ! j) = Some t \<and> e \<le> t"
  using fix_windows_spans [of c] assms unfolding sorted_wrt_iff_nth_less ends_before_def by blast

text \<open>C7: The windows of a case come in order, each ending no later than the next one's fix, and no
  observation counts for two of them. No turn lies in two windows; the turns at which two windows
  read the problem as gone are disjoint, and so are those at which they read it as still there -
  after a window's fix and up to and including its end, so that a sighting at the very turn of the
  next fix counts for the earlier window alone - and so are the rows they take as re-checks of the
  cause. The verdict on a window with a fix, its turns and its disconfirmation are read from exactly
  these turns and rows; and no two windows fail at one turn or are relieved at one.\<close>

theorem windows_are_disjoint:
  fixes c i j
  defines "w1 \<equiv> fix_windows c ! i" and "w2 \<equiv> fix_windows c ! j" and "sx \<equiv> subject_index c"
  defines "v2 \<equiv> read_verdict (gone_turns c sx (window_holds w2)) (after_fix_turns c sx (fw_fix_turn w2) (fw_end_turn w2))
      (map (observed sx) (fw_cause_rows w2)) (fw_confirmed_cause_rows w2 \<noteq> [])"
  assumes "i < j" "j < length (fix_windows c)"
  shows "(\<exists>e f. fw_end_turn w1 = Some e \<and> fw_fix_turn w2 = Some f \<and> e \<le> f)
     \<and> \<not> (window_holds w1 t \<and> window_holds w2 t)
     \<and> set (gone_turns c sx (window_holds w1)) \<inter> set (gone_turns c sx (window_holds w2)) = {}
     \<and> set (after_fix_turns c sx (fw_fix_turn w1) (fw_end_turn w1))
         \<inter> set (after_fix_turns c sx (fw_fix_turn w2) (fw_end_turn w2)) = {}
     \<and> set (fw_cause_rows w1) \<inter> set (fw_cause_rows w2) = {}
     \<and> set (fw_confirmed_cause_rows w1) \<inter> set (fw_confirmed_cause_rows w2) = {}
     \<and> fw_state w2 = fv_state v2 \<and> fw_failure_turn w2 = fv_failure v2
     \<and> fw_relief_turn w2 = fv_relief v2 \<and> fw_disconfirmation w2 = fv_disconfirmation v2
     \<and> \<not> (fw_failure_turn w1 = Some t \<and> fw_failure_turn w2 = Some t)
     \<and> \<not> (fw_relief_turn w1 = Some t \<and> fw_relief_turn w2 = Some t)"
proof -
  obtain e f where ef: "fw_end_turn w1 = Some e" "fw_fix_turn w2 = Some f" "e \<le> f"
    using later_window_is_dated [OF assms(5,6)] unfolding w1_def w2_def by blast
  have mem: "w1 \<in> set (fix_windows c)" "w2 \<in> set (fix_windows c)"
    using assms(5,6) by (simp_all add: w1_def w2_def)
  have apart: "\<not> (window_holds w1 u \<and> window_holds w2 u)" for u
    using ef by (auto simp: window_holds_def span_holds_def split: option.splits)
  obtain FX fell et where w2: "w2 = read_window c sx FX fell (Some f) et"
    using fix_windows_spans [of c] mem(2) ef(2) read_window_fields(1) unfolding sx_def by metis
  have "fw_state w2 = fv_state v2 \<and> fw_failure_turn w2 = fv_failure v2
     \<and> fw_relief_turn w2 = fv_relief v2 \<and> fw_disconfirmation w2 = fv_disconfirmation v2"
    unfolding v2_def w2 sx_def by (intro conjI read_window_verdict)
  moreover have "set (gone_turns c sx (window_holds w1)) \<inter> set (gone_turns c sx (window_holds w2)) = {}"
    using apart unfolding sx_def by (auto simp: gone_sighting)
  moreover have "set (after_fix_turns c sx (fw_fix_turn w1) (fw_end_turn w1))
      \<inter> set (after_fix_turns c sx (fw_fix_turn w2) (fw_end_turn w2)) = {}"
    using ef unfolding sx_def by (auto simp: after_sighting)
  moreover have rows: "set (fw_cause_rows w1) \<inter> set (fw_cause_rows w2) = {}"
    using apart window_turns(3) [OF mem(1)] window_turns(3) [OF mem(2)] by blast
  moreover have "set (fw_confirmed_cause_rows w1) \<inter> set (fw_confirmed_cause_rows w2) = {}"
    using rows window_turns(4) [OF mem(1)] window_turns(4) [OF mem(2)] by blast
  moreover have "\<not> (fw_failure_turn w1 = Some t \<and> fw_failure_turn w2 = Some t)"
    using window_turns(1) [OF mem(1), of t] window_turns(1) [OF mem(2), of t] ef by auto
  moreover have "\<not> (fw_relief_turn w1 = Some t \<and> fw_relief_turn w2 = Some t)"
    using apart window_turns(2) [OF mem(1), of t] window_turns(2) [OF mem(2), of t] by blast
  ultimately show ?thesis using ef apart by blast
qed

text \<open>C9: The engine disconfirms a cause by a fix only on what was observed: after a dated fix, in its
  window, a row that is not the engine's own shows the cause removed; at that turn or later, in a turn
  after the fix, a row re-checking one that verified the problem shows it present; in no turn of the
  window from the removal to the persistence was the problem seen gone; and the window is failed.\<close>

theorem disconfirmation_is_witnessed:
  assumes "w \<in> set (fix_windows c)" and "fw_disconfirmation w = Some (r, p)"
  shows "\<exists>f. fw_fix_turn w = Some f \<and> f \<le> r \<and> r \<le> p \<and> f < p \<and> fw_state w = FIX_FAILED
    \<and> (\<exists>e \<in> set (case_evidence c). ev_category e = CAUSAL_ABSENCE_EVIDENCE
          \<and> ev_collected_by e \<noteq> ENGINE_EVIDENCE_AUTHOR \<and> observed_turn c e = r)
    \<and> (\<exists>e \<in> set (case_evidence c). ev_category e = SYMPTOM_EVIDENCE \<and> ev_collected_by e \<noteq> ENGINE_EVIDENCE_AUTHOR
          \<and> rechecked c e \<in> set (case_verifying_ids c) \<and> observed_turn c e = p)
    \<and> (\<nexists>g. r \<le> g \<and> g \<le> p \<and> window_holds w g \<and> sighting c SYMPTOM_ABSENCE_EVIDENCE g)"
proof -
  let ?sx = "subject_index c"
  obtain ft et where w: "w = read_window c ?sx (window_fixes c) (fell_roots c) ft et"
    using fix_windows_spans assms(1) by blast
  let ?rows = "window_rows c ?sx (window_fixes c) (fell_roots c) ft et"
  let ?gone = "gone_turns c ?sx (span_holds ft et)" and ?aft = "after_fix_turns c ?sx ft et"
  let ?v = "read_verdict ?gone ?aft (map (observed ?sx) (fst ?rows)) (snd ?rows \<noteq> [])"
  have fw: "fw_fix_turn w = ft" "fw_end_turn w = et" unfolding w by (rule read_window_fields)+
  have d: "fv_disconfirmation ?v = Some (r, p)" using assms(2) unfolding w by (simp only: read_window_fields(5))
  have D: "r \<in> set (map (observed ?sx) (fst ?rows))" "p \<in> set ?aft" "r \<le> p" "\<forall>g \<in> set ?gone. \<not> (r \<le> g \<and> g \<le> p)"
    using disconfirmation_sound [OF d [unfolded verdict_fields(6)]] by simp_all
  obtain f where f: "ft = Some f" "f < p" and sp: "sighting c SYMPTOM_EVIDENCE p"
    using D(2) unfolding after_sighting by blast
  have "fw_state w = FIX_FAILED"
    using disconfirmed_failed [of ?gone ?aft "map (observed ?sx) (fst ?rows)" "snd ?rows \<noteq> []"] d
      read_window_fields(7) [OF f(1)] unfolding w by simp
  moreover obtain e where e: "e \<in> set (fst ?rows)" "observed ?sx e = r" using D(1) by auto
  note ce = cause_row_props [OF e(1)] observations_recorded [OF cause_row_props(1) [OF e(1)]]
  moreover have "f \<le> r"
  proof -
    have "span_holds ft et (observed ?sx e)"
      by (rule window_row_sources [OF e(1)])
    then show ?thesis using f(1) e(2) by (simp add: span_holds_def)
  qed
  moreover obtain s where s: "s \<in> set (observations c)" "ev_category s = SYMPTOM_EVIDENCE" "observed_turn c s = p"
      "subject_of c ?sx s True None None = SUBJECT_PROBLEM"
    using sp by (auto simp: sighting_def)
  moreover have "\<nexists>g. r \<le> g \<and> g \<le> p \<and> window_holds w g \<and> sighting c SYMPTOM_ABSENCE_EVIDENCE g"
  proof (rule notI, elim exE conjE)
    fix g assume "r \<le> g" "g \<le> p" "window_holds w g" "sighting c SYMPTOM_ABSENCE_EVIDENCE g"
    moreover from this have "g \<in> set ?gone" unfolding gone_sighting window_holds_def fw by blast
    ultimately show False using D(4) by blast
  qed
  moreover have "rechecked c s \<in> set (case_verifying_ids c)" using subject_problem [OF s(4)] verifying_ids [of c] by simp
  moreover have "observed_turn c e = r" using e(2) by (simp add: observed_turn_def)
  ultimately show ?thesis
    using f(2) D(3) fw(1) f(1) observations_recorded [OF s(1)] by blast
qed

section \<open>The bar of a resolution\<close>

lemma set_map_filter: "y \<in> set (List.map_filter f xs) \<longleftrightarrow> (\<exists>x \<in> set xs. f x = Some y)"
  by (induction xs) (auto simp: map_filter_simps split: option.splits)

text \<open>What a row of the cause leg has been checked for.\<close>

lemma elimination_row:
  assumes "e \<in> set (cause_elimination_rows c)"
  shows "\<exists>w. confirming_window c = Some w \<and> window_holds w (observed (subject_index c) e)
    \<and> e \<in> set (case_evidence c) \<and> \<not> prog_held_open (case_prog c)
    \<and> ev_id e \<notin> disconfirmation_row_ids c \<and> cause_posited_turn c \<le> observed (subject_index c) e
    \<and> latest_disconfirmation_turn c \<le> observed (subject_index c) e
    \<and> (subject_of c (subject_index c) e False None None = SUBJECT_CAUSE
       \<or> (e \<in> set (fw_confirmed_cause_rows w) \<and> ev_id e \<notin> set (map ev_id (fw_cause_rows w))))"
proof -
  let ?bound = "subject_of c (subject_index c) e False None None = SUBJECT_CAUSE"
  have "(e, None) \<in> set (cause_recheck_status c)" using assms by (auto simp: cause_elimination_rows_def)
  then have e: "e \<in> set (case_evidence c)" and none: "recheck_refusal_of c e ?bound = None"
    unfolding cause_recheck_status_def Let_def set_map_filter by (auto split: if_splits)
  obtain w where w: "confirming_window c = Some w"
    using none by (cases "confirming_window c") (simp_all add: recheck_refusal_of_def Let_def split: if_splits)
  show ?thesis
    by (rule exI [of _ w]) (use none e in \<open>simp add: recheck_refusal_of_def Let_def w split: if_splits\<close>, auto)
qed

lemma confirming_windowD:
  assumes "confirming_window c = Some w"
  shows "\<exists>i < length (fix_windows c). fix_windows c ! i = w
    \<and> (\<forall>j. i \<le> j \<and> j < length (fix_windows c) \<longrightarrow> fw_state (fix_windows c ! j) \<noteq> FIX_FAILED)"
proof -
  let ?ws = "fix_windows c" and ?n = "length (fix_windows c)"
  obtain k where k: "k < ?n" "rev ?ws ! k = w" "\<forall>i < k. \<not> fw_observed (rev ?ws ! i)"
      "fw_state w \<noteq> FIX_FAILED"
    using assms by (auto simp: confirming_window_def find_Some_iff split: option.splits if_splits)
  have "fw_state (?ws ! j) \<noteq> FIX_FAILED" if j: "?n - 1 - k < j" "j < ?n" for j
  proof -
    have "?n - 1 - j < k" and "rev ?ws ! (?n - 1 - j) = ?ws ! j" using j k(1) by (simp_all add: rev_nth)
    then have "\<not> fw_observed (?ws ! j)" using k(3) by metis
    moreover have "?ws ! j \<in> set ?ws" using j by simp
    then obtain ft et where "?ws ! j = read_window c (subject_index c) (window_fixes c) (fell_roots c) ft et"
      using fix_windows_spans [of c] by blast
    ultimately show ?thesis using read_window_fields(6) [of c "window_fixes c" "fell_roots c" ft et] by auto
  qed
  moreover have "?ws ! (?n - 1 - k) = w" using k(1,2) by (simp add: rev_nth)
  ultimately show ?thesis
    using k(1,4) by (intro exI [of _ "?n - 1 - k"]) (auto simp: le_less)
qed

text \<open>C10: A resolution is confirmed only by what was observed of the latest fix: some window holds a row,
  not the engine's own, that shows the cause removed, no earlier than the cause was posited and than
  the last failed fix was recorded; neither that window nor any later one is failed; the identification
  is not held open; and a row re-checking one that verified the problem shows it gone, at or after the
  fix of that window (for work done outside the case, at or after the cause row).\<close>

theorem resolution_needs_an_unfailed_fix:
  assumes "has_resolution_confirmation c"
  shows "\<exists>i < length (fix_windows c). \<exists>e \<in> set (case_evidence c). \<exists>s \<in> set (case_evidence c).
    ev_category e = CAUSAL_ABSENCE_EVIDENCE \<and> ev_collected_by e \<noteq> ENGINE_EVIDENCE_AUTHOR
    \<and> window_holds (fix_windows c ! i) (observed_turn c e)
    \<and> cause_posited_turn c \<le> observed_turn c e \<and> latest_disconfirmation_turn c \<le> observed_turn c e
    \<and> (\<forall>j. i \<le> j \<and> j < length (fix_windows c) \<longrightarrow> fw_state (fix_windows c ! j) \<noteq> FIX_FAILED)
    \<and> \<not> prog_held_open (case_prog c)
    \<and> ev_category s = SYMPTOM_ABSENCE_EVIDENCE \<and> ev_collected_by s \<noteq> ENGINE_EVIDENCE_AUTHOR
    \<and> rechecked c s \<in> set (case_verifying_ids c)
    \<and> (case fw_fix_turn (fix_windows c ! i) of None \<Rightarrow> observed_turn c e | Some t \<Rightarrow> t) \<le> observed_turn c s"
proof -
  let ?sx = "subject_index c" and ?rows = "cause_elimination_rows c"
  obtain s where s: "s \<in> set (symptom_elimination_rows c ?rows)"
    using assms unfolding has_resolution_confirmation_def resolution_confirmation_rows_def Let_def
    by (metis hd_in_set)
  then have "problem_leg_anchor c ?rows \<noteq> None"
    by (cases "problem_leg_anchor c ?rows") (simp_all add: symptom_elimination_rows_def)
  then obtain anchor where a: "problem_leg_anchor c ?rows = Some anchor" by blast
  have S: "s \<in> set (case_evidence c)" "ev_category s = SYMPTOM_ABSENCE_EVIDENCE"
      "subject_of c ?sx s False None None = SUBJECT_PROBLEM" "anchor \<le> observed ?sx s"
    using s a by (auto simp: symptom_elimination_rows_def)
  have "min_turn (map (observed ?sx) ?rows) \<noteq> None"
    using a by (cases "min_turn (map (observed ?sx) ?rows)") (simp_all add: problem_leg_anchor_def del: min_turn_None)
  then obtain m where m: "min_turn (map (observed ?sx) ?rows) = Some m" by blast
  obtain e where e: "e \<in> set ?rows" "observed ?sx e = m" using min_turn_SomeD [OF m] by auto
  obtain w where w: "confirming_window c = Some w" "window_holds w (observed ?sx e)" "e \<in> set (case_evidence c)"
      "\<not> prog_held_open (case_prog c)" "cause_posited_turn c \<le> observed ?sx e"
      "latest_disconfirmation_turn c \<le> observed ?sx e"
      "subject_of c ?sx e False None None = SUBJECT_CAUSE
       \<or> (e \<in> set (fw_confirmed_cause_rows w) \<and> ev_id e \<notin> set (map ev_id (fw_cause_rows w)))"
    using elimination_row [OF e(1)] by blast
  obtain i where i: "i < length (fix_windows c)" "fix_windows c ! i = w"
      "\<forall>j. i \<le> j \<and> j < length (fix_windows c) \<longrightarrow> fw_state (fix_windows c ! j) \<noteq> FIX_FAILED"
    using confirming_windowD [OF w(1)] by blast
  have "w \<in> set (fix_windows c)" using i nth_mem by blast
  then obtain ft et where r: "w = read_window c ?sx (window_fixes c) (fell_roots c) ft et"
    using fix_windows_spans [of c] by blast
  have "fw_confirmed_cause_rows w = snd (window_rows c ?sx (window_fixes c) (fell_roots c) ft et)"
    "fw_cause_rows w = fst (window_rows c ?sx (window_fixes c) (fell_roots c) ft et)"
    unfolding r by (rule read_window_fields)+
  then have "e \<in> set (fw_confirmed_cause_rows w) \<Longrightarrow> ev_id e \<in> set (map ev_id (fw_cause_rows w))"
    using confirmed_row_props [of e c "window_fixes c" "fell_roots c" ft et] by simp
  with w(7) have "subject_of c ?sx e False None None = SUBJECT_CAUSE" by blast
  note E = subject_cause [OF this]
  have "(case fw_fix_turn w of None \<Rightarrow> m | Some t \<Rightarrow> min m t) \<le> anchor"
    using a unfolding problem_leg_anchor_def m w(1) by (auto simp: Let_def split: option.splits)
  moreover have "fw_fix_turn w = Some t \<Longrightarrow> t \<le> m" for t
    using w(2) e(2) by (simp add: window_holds_def span_holds_def)
  ultimately have "(case fw_fix_turn w of None \<Rightarrow> observed ?sx e | Some t \<Rightarrow> t) \<le> observed ?sx s"
    using S(4) e(2) by (fastforce split: option.splits)
  then show ?thesis
    using i E w S subject_problem [OF S(3)] verifying_ids [of c] unfolding observed_turn_def i(2) [symmetric] by blast
qed

section \<open>Witnesses\<close>

text \<open>A validated root with a cited row, fixed at turn 4; the cause is seen removed at turn 5, and the problem
  is seen again (or gone) at turn 6.\<close>

definition ex_after_fix :: "evidence_category \<Rightarrow> case_data" where
  "ex_after_fix cat = ex_case\<lparr>
     case_nodes := [(''R1'', (ex_node ''R1'' ROOT ''session leak'' [ex_link ''e1'' SUPPORTS])
        \<lparr>node_state := VALIDATED, node_method := EMPIRICAL, node_actionable := True,
         node_metadata := [(''root_terminal'', MBool True), (''root_terminal_evidence_ids'', MList [''e1''])]\<rparr>)],
     case_edges := [],
     case_evidence := [ex_row ''s0'' SYMPTOM_EVIDENCE ''checkout fails'', ex_row ''e1'' CAUSAL_EVIDENCE ''pool at limit'',
        (ex_row ''a1'' CAUSAL_ABSENCE_EVIDENCE ''pool idle'')\<lparr>ev_collected_at_turn := 5\<rparr>,
        (ex_row ''s1'' cat ''checkout again'')\<lparr>ev_collected_at_turn := 6\<rparr>],
     case_actions := [\<lparr>act_type = SOLUTION, act_state = ACTION_ACCEPTED, act_accepted_in_turn = Some 4,
        act_registered_in_turn = None, act_fix_kind = Some ''remediation'', act_target_ids = [''R1''],
        act_licence_ids = None\<rparr>],
     case_rechecks := [(''a1'', ''e1''), (''s1'', ''s0'')],
     case_verifying_ids := [''s0'']\<rparr>"

lemma ex_windows:
  "map fw_fix_turn (fix_windows (ex_after_fix cat)) = [None, Some 4]" if "cat \<in> {SYMPTOM_EVIDENCE, SYMPTOM_ABSENCE_EVIDENCE}"
  using that by (elim insertE emptyE; simp only:) code_simp+

lemma ex_disconfirmed: "map fw_disconfirmation (fix_windows (ex_after_fix SYMPTOM_EVIDENCE)) = [None, Some (5, 6)]"
  by code_simp

lemma ex_confirmed: "has_resolution_confirmation (ex_after_fix SYMPTOM_ABSENCE_EVIDENCE)"
  by code_simp

theorem verdict_reads_the_turns_witness:
  "fv_state (read_verdict [] [6] [5] True) = FIX_FAILED \<and> persists [] [6] [5] 6"
proof -
  have "persists [] [6] [5] 6" by (simp add: persists_def)
  with verdict_reads_the_turns [of "[]" "[6]" "[5]" True 6] show ?thesis by blast
qed

theorem failed_is_final_witness:
  "fv_failure (read_verdict ([] @ [7, 9]) ([6] @ [8]) ([5] @ [9]) False) = Some 6
    \<and> fv_state (read_verdict ([] @ [7, 9]) ([6] @ [8]) ([5] @ [9]) False) = FIX_FAILED"
  by (rule failed_is_final [of "[]" "[6]" "[5]" True]) code_simp+

theorem windows_are_disjoint_witness:
  "fw_fix_turn (fix_windows (ex_after_fix SYMPTOM_EVIDENCE) ! 1) = Some 4
    \<and> set (after_fix_turns (ex_after_fix SYMPTOM_EVIDENCE) (subject_index (ex_after_fix SYMPTOM_EVIDENCE))
          (fw_fix_turn (fix_windows (ex_after_fix SYMPTOM_EVIDENCE) ! 0)) (fw_end_turn (fix_windows (ex_after_fix SYMPTOM_EVIDENCE) ! 0)))
       \<inter> set (after_fix_turns (ex_after_fix SYMPTOM_EVIDENCE) (subject_index (ex_after_fix SYMPTOM_EVIDENCE))
          (fw_fix_turn (fix_windows (ex_after_fix SYMPTOM_EVIDENCE) ! 1)) (fw_end_turn (fix_windows (ex_after_fix SYMPTOM_EVIDENCE) ! 1)))
       = {}"
proof -
  let ?c = "ex_after_fix SYMPTOM_EVIDENCE"
  have turns: "map fw_fix_turn (fix_windows ?c) = [None, Some 4]" by (simp add: ex_windows)
  then have len: "length (fix_windows ?c) = 2" by (metis length_map length_Cons list.size(3) numeral_2_eq_2)
  have "map fw_fix_turn (fix_windows ?c) ! 1 = Some 4" using turns by simp
  then have "fw_fix_turn (fix_windows ?c ! 1) = Some 4" using len by (simp add: nth_map)
  with windows_are_disjoint [of 0 1 ?c] len show ?thesis by simp
qed

theorem disconfirmation_is_witnessed_witness:
  "\<exists>w \<in> set (fix_windows (ex_after_fix SYMPTOM_EVIDENCE)). fw_fix_turn w = Some 4 \<and> fw_state w = FIX_FAILED
    \<and> (\<nexists>g. 5 \<le> g \<and> g \<le> 6 \<and> window_holds w g \<and> sighting (ex_after_fix SYMPTOM_EVIDENCE) SYMPTOM_ABSENCE_EVIDENCE g)"
proof -
  let ?c = "ex_after_fix SYMPTOM_EVIDENCE"
  have len: "length (fix_windows ?c) = 2" using arg_cong [OF ex_disconfirmed, of length] by simp
  have d: "fw_disconfirmation (fix_windows ?c ! 1) = Some (5, 6)"
    using arg_cong [OF ex_disconfirmed, of "\<lambda>xs. xs ! 1"] len by (simp add: nth_map)
  have "map fw_fix_turn (fix_windows ?c) ! 1 = Some 4" by (simp add: ex_windows)
  then have f: "fw_fix_turn (fix_windows ?c ! 1) = Some 4" using len by (simp add: nth_map)
  have w: "fix_windows ?c ! 1 \<in> set (fix_windows ?c)" using len by simp
  from disconfirmation_is_witnessed [OF w d] f w show ?thesis by blast
qed

theorem resolution_needs_an_unfailed_fix_witness:
  "\<exists>e \<in> set (case_evidence (ex_after_fix SYMPTOM_ABSENCE_EVIDENCE)). ev_category e = CAUSAL_ABSENCE_EVIDENCE
    \<and> ev_collected_by e \<noteq> ENGINE_EVIDENCE_AUTHOR
    \<and> cause_posited_turn (ex_after_fix SYMPTOM_ABSENCE_EVIDENCE) \<le> observed_turn (ex_after_fix SYMPTOM_ABSENCE_EVIDENCE) e"
  using resolution_needs_an_unfailed_fix [OF ex_confirmed] by blast

end
