(* ===== verification/Disconfirmation_Laws.thy ===== *)
theory Disconfirmation_Laws
  imports Disconfirmation Fix_Window_Laws Derivation
begin

text \<open>
  What a demotion of the identified cause rests on, and what it leaves behind once the graph is derived
  again.
\<close>

section \<open>The grounds\<close>

lemma latest_decidedD:
  "latest_decided_fix_window c = Some w \<Longrightarrow> w \<in> set (fix_windows c) \<and> fw_state w \<noteq> FIX_UNKNOWN"
  unfolding latest_decided_fix_window_def by (auto dest: find_SomeD)

lemma failed_fix_ofD:
  assumes "failed_fix_of c h = Some w"
  shows "latest_decided_fix_window c = Some w \<and> disconfirms_cause w"
proof (cases "latest_decided_fix_window c")
  case None
  with assms show ?thesis by (auto simp: failed_fix_of_def split: option.splits if_splits)
next
  case (Some v)
  with assms have "v = w \<and> disconfirms_cause w"
    by (auto simp: failed_fix_of_def Let_def split: option.splits if_splits)
  with Some show ?thesis by simp
qed

lemma m6_basisD:
  assumes "m6_disconfirmation_basis c = Some b"
  shows "\<exists>w. latest_decided_fix_window c = Some w \<and> disconfirms_cause w"
proof -
  obtain w where w: "latest_decided_fix_window c = Some w" "fix_failure_refusal c (Some w) = None"
    using assms by (cases "latest_decided_fix_window c")
      (auto simp: m6_disconfirmation_basis_def Let_def split: option.splits)
  then have "disconfirms_cause w"
    by (auto simp: fix_failure_refusal_def Let_def split: if_splits)
  with w(1) show ?thesis by blast
qed

lemma triggerD:
  assumes "disconfirmed_cause_trigger c node_side = Some t"
  shows "representative_cause_hypothesis c = Some (m6_hyp t) \<and> prog_cause_state (case_prog c) = CS_IDENTIFIED
    \<and> (case m6_kind t of M6_EVIDENCE \<Rightarrow> hypothesis_disconfirmed c (m6_hyp t)
        | M6_COUNTERFACTUAL \<Rightarrow> True | M6_RECORD w \<Rightarrow> failed_fix_of c (m6_hyp t) = Some w)
    \<and> length (m6_reason t) \<le> 200"
proof -
  have cs: "prog_cause_state (case_prog c) = CS_IDENTIFIED"
    using assms by (auto simp: disconfirmed_cause_trigger_def split: if_splits)
  then obtain h where h: "representative_cause_hypothesis c = Some h"
    using assms by (cases "representative_cause_hypothesis c") (simp_all add: disconfirmed_cause_trigger_def)
  show ?thesis using assms cs h
    by (auto simp: disconfirmed_cause_trigger_def Let_def split: if_splits option.splits)
qed

lemma tally_sets:
  "cause_evidence_tally c h =
    (card (link_evidence_id ` {l \<in> set (chain_evidence_links c h). link_evidence_id l \<in> recorded_by_others c
        \<and> link_stance l = REFUTES \<and> stance_declared_confident l}),
     card (link_evidence_id ` {l \<in> set (chain_evidence_links c h). link_evidence_id l \<in> recorded_by_others c
        \<and> link_stance l = SUPPORTS}))"
  unfolding cause_evidence_tally_def Let_def
  by (intro arg_cong2 [of _ _ _ _ Pair] arg_cong [of _ _ card]) auto

lemma demotion_cases:
  assumes "demote_disconfirmed_cause_via_evidence new_id c = Inr (c', True)"
  obtains t provenance c1 c2 where "disconfirmed_cause_trigger c True = Some t" "m6_provenance c t = Some provenance"
    "c1 = (if hyp_state (m6_hyp t) = H_REFUTED then c
       else c\<lparr>case_hypotheses := dict_put (hyp_id (m6_hyp t))
          (fst (refute_hypothesis (case_current_turn c) [] (m6_reason t) (m6_hyp t))) (case_hypotheses c)\<rparr>)"
    "(if truthy (hyp_root (m6_hyp t)) then attach_engine_refutation new_id (or_empty (hyp_root (m6_hyp t))) (m6_reason t) provenance c1
      else Inr c1) = Inr c2"
    "c' = c2\<lparr>case_conclusion := None, case_prog := (case_prog c2)\<lparr>prog_root_cause_likelihood := 0\<rparr>\<rparr>"
proof -
  obtain t where t: "disconfirmed_cause_trigger c True = Some t"
    using assms by (cases "disconfirmed_cause_trigger c True") (simp_all add: demote_disconfirmed_cause_via_evidence_def)
  obtain provenance where p: "m6_provenance c t = Some provenance"
    using assms t by (cases "m6_provenance c t") (simp_all add: demote_disconfirmed_cause_via_evidence_def)
  define c1 where "c1 = (if hyp_state (m6_hyp t) = H_REFUTED then c
       else c\<lparr>case_hypotheses := dict_put (hyp_id (m6_hyp t))
          (fst (refute_hypothesis (case_current_turn c) [] (m6_reason t) (m6_hyp t))) (case_hypotheses c)\<rparr>)"
  define r where "r = (if truthy (hyp_root (m6_hyp t))
      then attach_engine_refutation new_id (or_empty (hyp_root (m6_hyp t))) (m6_reason t) provenance c1 else Inr c1)"
  have "demote_disconfirmed_cause_via_evidence new_id c = (case r of Inl e \<Rightarrow> Inl e
      | Inr c2 \<Rightarrow> Inr (c2\<lparr>case_conclusion := None, case_prog := (case_prog c2)\<lparr>prog_root_cause_likelihood := 0\<rparr>\<rparr>, True))"
    unfolding demote_disconfirmed_cause_via_evidence_def t p option.case Let_def c1_def r_def ..
  with assms obtain c2 where "r = Inr c2"
      "c' = c2\<lparr>case_conclusion := None, case_prog := (case_prog c2)\<lparr>prog_root_cause_likelihood := 0\<rparr>\<rparr>"
    by (cases r) simp_all
  with that [OF t p c1_def] show ?thesis unfolding r_def by blast
qed

text \<open>C12: The engine demotes the identified cause only on observed grounds: the hypothesis of that cause
  was already refuted, or on the rows of the case that are not the engine's own more distinct rows
  refute it and its chain than support it, or the latest fix whose outcome is decided failed and
  disconfirmed the cause.\<close>

theorem demotion_needs_observed_grounds:
  assumes "demote_disconfirmed_cause_via_evidence new_id c = Inr (c', True)"
  shows "prog_cause_state (case_prog c) = CS_IDENTIFIED \<and> (\<exists>h. representative_cause_hypothesis c = Some h
    \<and> (hyp_state h = H_REFUTED
       \<or> card (link_evidence_id ` {l \<in> set (chain_evidence_links c h). link_evidence_id l \<in> recorded_by_others c
               \<and> link_stance l = REFUTES \<and> stance_declared_confident l})
         > card (link_evidence_id ` {l \<in> set (chain_evidence_links c h). link_evidence_id l \<in> recorded_by_others c
               \<and> link_stance l = SUPPORTS})
       \<or> (\<exists>w. latest_decided_fix_window c = Some w \<and> w \<in> set (fix_windows c) \<and> fw_state w \<noteq> FIX_UNKNOWN
            \<and> disconfirms_cause w)))"
proof -
  obtain t provenance where t: "disconfirmed_cause_trigger c True = Some t" "m6_provenance c t = Some provenance"
    using assms by (rule demotion_cases)
  note T = triggerD [OF t(1)]
  show ?thesis
  proof (cases "m6_kind t")
    case M6_EVIDENCE
    then have "hypothesis_disconfirmed c (m6_hyp t)" using T by simp
    then show ?thesis using T
      by (auto simp: hypothesis_disconfirmed_def cause_refuted_by_evidence_def tally_sets)
  next
    case M6_COUNTERFACTUAL
    then obtain b where "m6_disconfirmation_basis c = Some b" using t(2) by (auto simp: m6_provenance_def)
    with m6_basisD latest_decidedD T show ?thesis by blast
  next
    case (M6_RECORD w)
    then have "failed_fix_of c (m6_hyp t) = Some w" using T by simp
    from failed_fix_ofD [OF this] latest_decidedD T show ?thesis by blast
  qed
qed

section \<open>What it leaves\<close>

lemma refuted_state: "hyp_state (fst (refute_hypothesis turn ids reason h)) = H_REFUTED"
  by (simp add: refute_hypothesis_def Let_def split: prod.split option.split)

lemma attached_refutation:
  assumes "attach_engine_refutation new_id r reason provenance c = Inr c'" "dict_get (case_nodes c) r = Some n"
    and "\<not> node_has_engine_counterfactual_refute n c"
  shows "\<exists>l. link_evidence_id l = new_id \<and> link_stance l = REFUTES \<and> stance_declared_confident l
    \<and> case_nodes c' = dict_put r (n\<lparr>node_links := node_links n @ [l]\<rparr>) (case_nodes c)
    \<and> case_hypotheses c' = case_hypotheses c
    \<and> dict_get (evidence_category_map c') new_id = Some CAUSAL_ABSENCE_EVIDENCE"
proof -
  obtain l where l: "new_link new_id REFUTES reason (Some 1) (case_current_turn c) = Inr l"
    "c' = c\<lparr>case_evidence := case_evidence c @ [engine_row new_id provenance (case_current_turn c)],
       case_nodes := dict_put r (n\<lparr>node_links := node_links n @ [l]\<rparr>) (case_nodes c)\<rparr>"
    using assms by (auto simp: attach_engine_refutation_def split: sum.splits)
  have "link_evidence_id l = new_id \<and> link_stance l = REFUTES \<and> stance_declared_confident l"
    using l(1) by (auto simp: new_link_Inr stance_declared_confident_def CAUSAL_STANCE_CONFIDENCE_MIN_def)
  moreover have "dict_get (evidence_category_map c') new_id = Some CAUSAL_ABSENCE_EVIDENCE"
    by (simp add: l(2) evidence_category_map_def engine_row_def)
  ultimately show ?thesis using l(2) by (intro exI [of _ l]) simp
qed

text \<open>C13: A demotion lasts: on a case whose graph is well formed, after the engine demotes a cause whose
  root it had not refuted before, deriving the node states leaves that root refuted with belief zero,
  whatever evidence supports it; the hypothesis is refuted and no conclusion is left.\<close>

theorem demoted_cause_stays_refuted:
  assumes "demote_disconfirmed_cause_via_evidence new_id c = Inr (c', True)"
    and "nodes_ok (case_nodes c)" "hypotheses_ok (case_hypotheses c)"
    and "representative_cause_hypothesis c = Some h" "dict_get (case_hypotheses c) (hyp_id h) = Some h"
    and "hyp_root h = Some r" "r \<noteq> []" "dict_get (case_nodes c) r = Some n" "node_type n = ROOT"
    and "\<not> node_has_engine_counterfactual_refute n c"
  shows "(\<exists>n'. dict_get (case_nodes (fst (derive_node_states c'))) r = Some n' \<and> node_state n' = REFUTED \<and> node_belief n' = 0)
    \<and> (\<exists>h'. dict_get (case_hypotheses c') (hyp_id h) = Some h' \<and> hyp_state h' = H_REFUTED)
    \<and> case_conclusion c' = None"
proof -
  obtain t provenance c1 c2 where t: "disconfirmed_cause_trigger c True = Some t"
    and c1: "c1 = (if hyp_state (m6_hyp t) = H_REFUTED then c
       else c\<lparr>case_hypotheses := dict_put (hyp_id (m6_hyp t))
          (fst (refute_hypothesis (case_current_turn c) [] (m6_reason t) (m6_hyp t))) (case_hypotheses c)\<rparr>)"
    and c2: "(if truthy (hyp_root (m6_hyp t)) then attach_engine_refutation new_id (or_empty (hyp_root (m6_hyp t))) (m6_reason t) provenance c1
      else Inr c1) = Inr c2"
    and c': "c' = c2\<lparr>case_conclusion := None, case_prog := (case_prog c2)\<lparr>prog_root_cause_likelihood := 0\<rparr>\<rparr>"
    using assms(1) by (rule demotion_cases)
  have h: "m6_hyp t = h" using triggerD [OF t] assms(4) by simp
  have at: "attach_engine_refutation new_id r (m6_reason t) provenance c1 = Inr c2"
    using c2 assms(6,7) by (simp add: h)
  have nodes1: "case_nodes c1 = case_nodes c" "case_evidence c1 = case_evidence c" by (simp_all add: c1)
  then have "\<not> node_has_engine_counterfactual_refute n c1"
    using assms(10) by (simp add: node_has_engine_counterfactual_refute_def engine_absence_row_ids_def)
  then obtain l where l: "link_evidence_id l = new_id" "link_stance l = REFUTES" "stance_declared_confident l"
      "case_nodes c2 = dict_put r (n\<lparr>node_links := node_links n @ [l]\<rparr>) (case_nodes c)"
      "case_hypotheses c2 = case_hypotheses c1"
      "dict_get (evidence_category_map c2) new_id = Some CAUSAL_ABSENCE_EVIDENCE"
    using attached_refutation [OF at] assms(8) nodes1 by auto
  have cats: "evidence_category_map c' = evidence_category_map c2" by (simp add: c' evidence_category_map_def)
  have "\<exists>n'. dict_get (case_nodes (fst (derive_node_states c'))) r = Some n' \<and> node_state n' = REFUTED \<and> node_belief n' = 0"
  proof (rule decisive_refute_refutes)
    show "nodes_ok (case_nodes c')"
      using nodes_ok_put [OF assms(2), of "n\<lparr>node_links := node_links n @ [l]\<rparr>" r] nodes_okD [OF assms(2,8)]
      by (simp add: c' l(4) node_ok_def)
    show "dict_get (case_nodes c') r = Some (n\<lparr>node_links := node_links n @ [l]\<rparr>)" by (simp add: c' l(4))
    show "node_type (n\<lparr>node_links := node_links n @ [l]\<rparr>) \<noteq> PROBLEM" using assms(9) by simp
    show "1 \<le> count_links (decisive_refute (evidence_category_map c')) (node_links (n\<lparr>node_links := node_links n @ [l]\<rparr>))"
      unfolding count_links_pos using l(1-3,6) by (auto simp: cats decisive_refute_def)
  qed
  moreover have "\<exists>h'. dict_get (case_hypotheses c') (hyp_id h) = Some h' \<and> hyp_state h' = H_REFUTED"
    using assms(5) refuted_state [of "case_current_turn c" "[]" "m6_reason t" h] by (simp add: c' l(5) c1 h)
  ultimately show ?thesis by (simp add: c')
qed

section \<open>Witnesses\<close>

text \<open>The case whose fix did not hold, its root the recorded cause of a hypothesis.\<close>

definition ex_failed_fix :: case_data where
  "ex_failed_fix = (ex_after_fix SYMPTOM_EVIDENCE)
     \<lparr>case_hypotheses := [(''h1'', (ex_hypothesis ''h1'' ''sessions leak'' (Some ''R1''))\<lparr>hyp_path := [''R1'']\<rparr>)],
      case_prog := \<lparr>prog_cause_state = CS_IDENTIFIED, prog_identified_cause_root_ids = [''R1''],
        prog_root_cause_likelihood = 9 / 10, prog_held_open = False\<rparr>\<rparr>"

lemma ex_demoted:
  obtains c' where "demote_disconfirmed_cause_via_evidence ''ev_m6'' ex_failed_fix = Inr (c', True)"
proof -
  have "case demote_disconfirmed_cause_via_evidence ''ev_m6'' ex_failed_fix of Inl _ \<Rightarrow> False | Inr (_, b) \<Rightarrow> b" by code_simp
  then show ?thesis using that by (auto split: sum.splits)
qed

theorem demotion_needs_observed_grounds_witness:
  "\<exists>h. representative_cause_hypothesis ex_failed_fix = Some h
    \<and> (\<exists>w. latest_decided_fix_window ex_failed_fix = Some w \<and> disconfirms_cause w)"
proof -
  obtain c' where c': "demote_disconfirmed_cause_via_evidence ''ev_m6'' ex_failed_fix = Inr (c', True)" by (rule ex_demoted)
  have "case representative_cause_hypothesis ex_failed_fix of None \<Rightarrow> False
      | Some h \<Rightarrow> hyp_state h \<noteq> H_REFUTED \<and> fst (cause_evidence_tally ex_failed_fix h) = 0" by code_simp
  then obtain h where h: "representative_cause_hypothesis ex_failed_fix = Some h" "hyp_state h \<noteq> H_REFUTED"
      "fst (cause_evidence_tally ex_failed_fix h) = 0" by (auto split: option.splits)
  have few: "\<not> fst (cause_evidence_tally ex_failed_fix h) > snd (cause_evidence_tally ex_failed_fix h)" using h(3) by linarith
  obtain h' where h': "representative_cause_hypothesis ex_failed_fix = Some h'"
    "hyp_state h' = H_REFUTED
     \<or> fst (cause_evidence_tally ex_failed_fix h') > snd (cause_evidence_tally ex_failed_fix h')
     \<or> (\<exists>w. latest_decided_fix_window ex_failed_fix = Some w \<and> disconfirms_cause w)"
    using demotion_needs_observed_grounds [OF c'] unfolding tally_sets fst_conv snd_conv by blast
  have "h' = h" using h(1) h'(1) by simp
  with h'(2) h(1,2) few show ?thesis by blast
qed

theorem demoted_cause_stays_refuted_witness:
  "\<exists>c' n'. demote_disconfirmed_cause_via_evidence ''ev_m6'' ex_failed_fix = Inr (c', True)
    \<and> dict_get (case_nodes (fst (derive_node_states c'))) ''R1'' = Some n' \<and> node_state n' = REFUTED"
proof -
  obtain c' where c': "demote_disconfirmed_cause_via_evidence ''ev_m6'' ex_failed_fix = Inr (c', True)" by (rule ex_demoted)
  let ?h = "(ex_hypothesis ''h1'' ''sessions leak'' (Some ''R1''))\<lparr>hyp_path := [''R1'']\<rparr>"
  let ?n = "(ex_node ''R1'' ROOT ''session leak'' [ex_link ''e1'' SUPPORTS])
        \<lparr>node_state := VALIDATED, node_method := EMPIRICAL, node_actionable := True,
         node_metadata := [(''root_terminal'', MBool True), (''root_terminal_evidence_ids'', MList [''e1''])]\<rparr>"
  have "nodes_ok (case_nodes ex_failed_fix)" by code_simp
  moreover have "hypotheses_ok (case_hypotheses ex_failed_fix)"
    by (simp add: hypotheses_ok_def ex_failed_fix_def ex_hypothesis_def hypothesis_ok_def dict_keys_def dict_get_Cons)
  moreover have "representative_cause_hypothesis ex_failed_fix = Some ?h"
    by (simp add: representative_cause_hypothesis_def linked_hypothesis_id_def ex_failed_fix_def ex_after_fix_def ex_case_def
        ex_hypothesis_def dict_values_def)
  moreover have "dict_get (case_hypotheses ex_failed_fix) (hyp_id ?h) = Some ?h"
    by (simp add: ex_failed_fix_def ex_hypothesis_def)
  moreover have "hyp_root ?h = Some ''R1''" by (simp add: ex_hypothesis_def)
  moreover have "dict_get (case_nodes ex_failed_fix) ''R1'' = Some ?n"
    by (simp add: ex_failed_fix_def ex_after_fix_def)
  moreover have "node_type ?n = ROOT" by (simp add: ex_node_def)
  moreover have "\<not> node_has_engine_counterfactual_refute ?n ex_failed_fix" by code_simp
  ultimately show ?thesis using demoted_cause_stays_refuted [OF c', where r = "''R1''"] c' by blast
qed

end
