(* ===== verification/Hypothesis_Updates.thy ===== *)
theory Hypothesis_Updates
  imports Disconfirmation Confidence_Repair
begin

text \<open>
  What a turn does to the hypotheses of a case: \<open>milestone_engine/hypothesis_updates.py\<close> (the user's
  action on a hypothesis, the model's updates, the evidence links, the refutations and likelihoods
  queued for after the chain pass) and \<open>record_root_verdict\<close> of \<open>chain_emission.py\<close>.

  The keys of the turn's \<open>metadata\<close> dictionary that these functions read and write are the record
  \<open>turn_meta\<close>. A notice for the next prompt is a value of \<open>notice\<close> instead of its wording. A
  constructor that raises leaves the state as it stands then. Log lines and metrics are left out.
\<close>

section \<open>The metadata of a turn\<close>

text \<open>Why a row a terminal verdict cites does not qualify.\<close>

datatype basis_refusal = NotOnRecord | NotCausal evidence_category | ByTheEngine | BeforePosited int

datatype notice =
    TerminalIntent string hypothesis_state
  | RefuteIntentRefused string
  | BeliefRecorded string
  | TerminalUpdate string hypothesis_state
  | ReasonMissing string
  | NotRefuted string bool bool
  | LikelihoodNotApplied string hypothesis_state
  | LikelihoodCapped string rat
  | LinkToTerminal string hypothesis_state
  | RootOwned string string string
  | VerdictRows string "(string \<times> basis_refusal) list"
  | VerdictRefused string "(string \<times> basis_refusal) list"
  | AmbiguousChains "(string \<times> string list) list"

type_synonym root_verdicts = "(string, bool \<times> string list) pydict"

record turn_meta =
  tm_emit_order :: "string list"
  tm_generated :: "string list"
  tm_evidence_slots :: "string list"
  tm_updated :: "string list"
  tm_pending_refutations :: "(string \<times> string) list"
  tm_deferred :: "(string \<times> rat) list"
  tm_root_refs :: "(string, string) pydict"
  tm_root_verdicts :: root_verdicts
  tm_pending_verdicts :: root_verdicts
  tm_links_applied :: nat
  tm_action_applied :: bool
  tm_sinks :: repair_sinks
  tm_notices :: "notice list"
  tm_replay_turn :: "int option"
  tm_created_nodes :: "string option list"
  tm_survivors :: "string set"
  tm_refused :: nat
  tm_rcc_authored :: bool

definition add_notice :: "notice \<Rightarrow> turn_meta \<Rightarrow> turn_meta" where
  "add_notice x m = m\<lparr>tm_notices := tm_notices m @ [x]\<rparr>"

definition hyp_slots :: "turn_meta \<Rightarrow> string list" where
  "hyp_slots m = (if tm_emit_order m \<noteq> [] then tm_emit_order m else tm_generated m)"

text \<open>The object \<open>case.hypotheses[key]\<close>, written back under its key.\<close>

definition put_hypothesis :: "string \<Rightarrow> hypothesis \<Rightarrow> case_data \<Rightarrow> case_data" where
  "put_hypothesis key h c = c\<lparr>case_hypotheses := dict_put key h (case_hypotheses c)\<rparr>"

type_synonym turn_state = "case_data \<times> turn_meta"

section \<open>Grounds\<close>

definition refutation_grounds :: "case_data \<Rightarrow> hypothesis \<Rightarrow> string list \<times> bool" where
  "refutation_grounds c h =
    (let ids = refuting_evidence_on_record c h
     in if ids \<noteq> [] then (ids, False) else ([], failed_fix_of c h \<noteq> None))"

definition has_hedged_refutes :: "hypothesis \<Rightarrow> bool" where
  "has_hedged_refutes h = list_ex (\<lambda>l. link_stance l = REFUTES \<and> \<not> stance_declared_confident l) (hyp_links h)"

section \<open>The user's action\<close>

definition apply_hypothesis_action_intent ::
    "string option \<Rightarrow> string option \<Rightarrow> string \<Rightarrow> turn_state \<Rightarrow> turn_state \<times> validation_error option" where
  "apply_hypothesis_action_intent hypothesis_id action user_message = (\<lambda>(c, m).
    let key = or_empty hypothesis_id; act = or_empty action; turn = case_current_turn c in
    if key = [] \<or> act = [] \<or> case_hypotheses c = [] then ((c, m), None)
    else case dict_get (case_hypotheses c) key of
        None \<Rightarrow> ((c, m), None)
      | Some h \<Rightarrow>
          if hypothesis_is_terminal (hyp_state h)
          then ((c, add_notice (TerminalIntent key (hyp_state h)) m), None)
          else if act = ''refute'' \<and> refutation_grounds c h = ([], False)
          then ((c, add_notice (RefuteIntentRefused key) m), None)
          else if act = ''refute''
          then (case refute_hypothesis turn (fst (refutation_grounds c h))
                      (if user_message = [] then ''User refuted'' else user_message) h of
                (h', Some e) \<Rightarrow> ((put_hypothesis key h' c, m), Some e)
              | (h', None) \<Rightarrow> ((put_hypothesis key h' c, m\<lparr>tm_action_applied := True\<rparr>), None))
          else if act = ''validate''
          then ((put_hypothesis key (h\<lparr>hyp_likelihood := 1, hyp_last_updated_turn := turn,
                    hyp_last_progress_at_turn := turn, hyp_iterations_without_progress := 0\<rparr>) c,
                 (add_notice (BeliefRecorded key) m)\<lparr>tm_action_applied := True\<rparr>), None)
          else if act = ''retire''
          then ((put_hypothesis key (h\<lparr>hyp_state := H_RETIRED,
                    hyp_retirement_reason := Some (take 200 (if user_message = [] then ''User retired'' else user_message)),
                    hyp_last_updated_turn := turn\<rparr>) c,
                 m\<lparr>tm_action_applied := True\<rparr>), None)
          else ((c, m\<lparr>tm_action_applied := True\<rparr>), None))"

section \<open>The model's updates\<close>

record hyp_update =
  hu_id :: string
  hu_likelihood :: "rat option"
  hu_state :: "hypothesis_state option"
  hu_refutation_reason :: "string option"
  hu_root_ref :: "string option"
  hu_root_is_terminal :: "bool option"
  hu_basis_ids :: "string list"

definition record_root_verdict :: "string \<Rightarrow> bool option \<Rightarrow> string list \<Rightarrow> turn_meta \<Rightarrow> turn_meta" where
  "record_root_verdict hyp_key verdict basis m =
    (case verdict of
       None \<Rightarrow> m
     | Some v \<Rightarrow> m\<lparr>tm_root_verdicts := dict_put hyp_key (v, map (resolve_id_ref (tm_evidence_slots m)) basis)
                   (tm_root_verdicts m)\<rparr>)"

text \<open>The last entry for each hypothesis, at the place of its first.\<close>

definition resolved_updates :: "turn_meta \<Rightarrow> hyp_update list \<Rightarrow> (string, hyp_update) pydict" where
  "resolved_updates m entries =
    fold (\<lambda>u d. dict_put (resolve_id_ref (hyp_slots m) (hu_id u)) u d) entries []"

text \<open>\<open>str.strip()\<close> is not empty.\<close>

definition reason_given :: "string option \<Rightarrow> bool" where
  "reason_given r \<longleftrightarrow> truthy r \<and> strip (or_empty r) \<noteq> []"

definition apply_hypothesis_update :: "case_data \<Rightarrow> bool \<Rightarrow> string \<times> hyp_update \<Rightarrow> turn_meta \<Rightarrow> turn_meta" where
  "apply_hypothesis_update c staging = (\<lambda>(key, u) m.
    case dict_get (case_hypotheses c) key of
      None \<Rightarrow> m
    | Some h \<Rightarrow>
        if hypothesis_is_terminal (hyp_state h)
        then (if (hu_state u \<noteq> None \<and> hu_state u \<noteq> Some (hyp_state h)) \<or> hu_likelihood u \<noteq> None
              then add_notice (TerminalUpdate key (hyp_state h)) m else m)
        else if hu_state u = Some H_REFUTED
        then (if reason_given (hu_refutation_reason u)
              then (if staging then m
                    else m\<lparr>tm_pending_refutations := tm_pending_refutations m @ [(key, or_empty (hu_refutation_reason u))]\<rparr>)
              else add_notice (ReasonMissing key) m)
        else
         (let m1 = (if truthy (hu_root_ref u)
                then m\<lparr>tm_root_refs := dict_put key (or_empty (hu_root_ref u)) (tm_root_refs m),
                       tm_updated := tm_updated m @ [key]\<rparr> else m);
              m2 = record_root_verdict key (hu_root_is_terminal u) (hu_basis_ids u) m1
          in case hu_likelihood u of
               None \<Rightarrow> m2
             | Some q \<Rightarrow> m2\<lparr>tm_deferred := tm_deferred m2 @ [(key, q)],
                  tm_updated := (if truthy (hu_root_ref u) then tm_updated m2 else tm_updated m2 @ [key])\<rparr>))"

definition apply_hypothesis_updates :: "hyp_update list \<Rightarrow> bool \<Rightarrow> turn_state \<Rightarrow> turn_state" where
  "apply_hypothesis_updates entries staging = (\<lambda>(c, m).
    (c, fold (apply_hypothesis_update c staging) (resolved_updates m entries) m))"

section \<open>Evidence links\<close>

record hyp_link_spec =
  hl_schema :: string
  hl_hypothesis_ref :: string
  hl_evidence_ref :: string
  hl_stance :: evidence_stance
  hl_confidence :: rat
  hl_confidence_given :: bool
  hl_set_aside :: "raw_value option"
  hl_reasoning :: string

text \<open>The confidence to write: \<open>None\<close> prunes the link, \<open>Some None\<close> keeps the stored value.\<close>

definition resolve_link_confidence ::
    "hyp_link_spec \<Rightarrow> evidence_stance option \<Rightarrow> string \<Rightarrow> repair_sinks \<Rightarrow> rat option option \<times> repair_sinks" where
  "resolve_link_confidence link stored_stance loc sinks =
    (case settle_set_aside_link (hl_schema link) (hl_set_aside link) (Some (hl_stance link)) stored_stance loc sinks of
       (None, sinks') \<Rightarrow>
         (if \<not> hl_confidence_given link \<and> stored_stance = Some (hl_stance link) then Some None
          else Some (Some (hl_confidence link)), sinks')
     | (Some (action, q), sinks') \<Rightarrow> (if action = PRUNED then None else Some q, sinks'))"

definition apply_hypothesis_link :: "string set \<Rightarrow> hyp_link_spec \<Rightarrow> turn_state \<Rightarrow> validation_error + turn_state" where
  "apply_hypothesis_link pending_ids link = (\<lambda>(c, m).
    let key = resolve_id_ref (hyp_slots m) (hl_hypothesis_ref link);
        eid = resolve_id_ref (tm_evidence_slots m) (hl_evidence_ref link)
    in case dict_get (case_hypotheses c) key of
         None \<Rightarrow> Inr (c, m)
       | Some h \<Rightarrow>
          if hypothesis_is_terminal (hyp_state h) then Inr (c, add_notice (LinkToTerminal key (hyp_state h)) m)
          else (case find (\<lambda>e. ev_id e = eid) (case_evidence c) of
              None \<Rightarrow> Inr (c, m)
            | Some row \<Rightarrow>
               if absence_row_link_refused (Some (ev_category row)) then Inr (c, m)
               else
                (let stored = find (\<lambda>l. link_evidence_id l = eid) (hyp_links h);
                     (confidence, sinks) = resolve_link_confidence link (map_option link_stance stored)
                        (key @ ''<-'' @ eid) (tm_sinks m);
                     m1 = m\<lparr>tm_sinks := sinks\<rparr>
                 in case confidence of
                      None \<Rightarrow> Inr (c, m1)
                    | Some q \<Rightarrow>
                       (case link_evidence eid (hl_stance link) (case_current_turn c) (hl_reasoning link) q
                               (key \<in> pending_ids) h of
                          Inl e \<Rightarrow> Inl e
                        | Inr (h', material) \<Rightarrow>
                            Inr (put_hypothesis key h' c,
                              if material then m1\<lparr>tm_links_applied := tm_links_applied m1 + 1\<rparr> else m1)))))"

definition apply_hypothesis_evidence_links :: "hyp_link_spec list \<Rightarrow> turn_state \<Rightarrow> validation_error + turn_state" where
  "apply_hypothesis_evidence_links links = (\<lambda>(c, m).
    try_fold (apply_hypothesis_link (set (map fst (tm_pending_refutations m)))) links (c, m))"

section \<open>What was queued for after the chain pass\<close>

fun pending_refutation_loop :: "int \<Rightarrow> (string \<times> string) list \<Rightarrow> turn_state \<Rightarrow> turn_state \<times> validation_error option" where
  "pending_refutation_loop turn [] st = (st, None)"
| "pending_refutation_loop turn ((key, reason) # pending) (c, m) =
    (case dict_get (case_hypotheses c) key of
       None \<Rightarrow> pending_refutation_loop turn pending (c, m)
     | Some h \<Rightarrow>
        if hypothesis_is_terminal (hyp_state h) then pending_refutation_loop turn pending (c, m)
        else if refutation_grounds c h \<noteq> ([], False)
        then (case refute_hypothesis turn (fst (refutation_grounds c h)) reason h of
              (h', Some e) \<Rightarrow> ((put_hypothesis key h' c, m), Some e)
            | (h', None) \<Rightarrow> pending_refutation_loop turn pending
                (put_hypothesis key h' c, m\<lparr>tm_updated := tm_updated m @ [key]\<rparr>))
        else
         (let h' = check_state_transition h
          in pending_refutation_loop turn pending
               (put_hypothesis key h' c, add_notice (NotRefuted key (has_hedged_refutes h') (hyp_state h' = H_RETIRED)) m)))"

definition apply_pending_refutations :: "int \<Rightarrow> turn_state \<Rightarrow> turn_state \<times> validation_error option" where
  "apply_pending_refutations turn = (\<lambda>(c, m).
    pending_refutation_loop turn (tm_pending_refutations m) (c, m\<lparr>tm_pending_refutations := []\<rparr>))"

definition apply_deferred_likelihood :: "int \<Rightarrow> string \<times> rat \<Rightarrow> turn_state \<Rightarrow> turn_state" where
  "apply_deferred_likelihood turn = (\<lambda>(key, q) (c, m).
    case dict_get (case_hypotheses c) key of
      None \<Rightarrow> (c, m)
    | Some h \<Rightarrow>
       if hypothesis_is_terminal (hyp_state h) then (c, add_notice (LikelihoodNotApplied key (hyp_state h)) m)
       else
        (let h' = update_hypothesis_likelihood q turn (Some c) h
         in (put_hypothesis key h' c,
             if hyp_likelihood h' < min 1 q - 1 / 1000000000
             then add_notice (LikelihoodCapped key (hyp_likelihood h')) m else m)))"

definition apply_deferred_likelihood_updates :: "int \<Rightarrow> turn_state \<Rightarrow> turn_state" where
  "apply_deferred_likelihood_updates turn = (\<lambda>(c, m).
    fold (apply_deferred_likelihood turn) (tm_deferred m) (c, m\<lparr>tm_deferred := []\<rparr>))"

end
