(* ===== verification/Chain_Emission.thy ===== *)
theory Chain_Emission
  imports Hypothesis_Updates Pruning Problem_Status
begin

text \<open>
  The chain pass of a turn, \<open>milestone_engine/chain_emission.py\<close>: the emitted graph is ingested, the
  hypotheses are anchored to their roots, what a re-root abandons is collected, the verdicts on the
  roots are recorded, support is mirrored, and the orphan chains are resolved.

  Whether cause work is accepted is read from the problem statement's case \<open>pc\<close>. A loop that would not
  return, or a \<open>KeyError\<close> of \<open>attach_root\<close>, is the outer \<open>None\<close>; a constructor that raises is \<open>Inl\<close>.
  Notices are values, log lines and metrics are left out.
\<close>

section \<open>References\<close>

definition resolve_root_ref :: "case_data \<Rightarrow> string option \<Rightarrow> string option list \<Rightarrow> string option" where
  "resolve_root_ref c ref created =
    (if \<not> truthy ref then None
     else
      (let nid = (if is_slot_ref (or_empty ref) then slot_of created (or_empty ref)
             else if dict_get (case_nodes c) (or_empty ref) \<noteq> None then ref else None)
       in case (if truthy nid then dict_get (case_nodes c) (or_empty nid) else None) of
            None \<Rightarrow> None
          | Some n \<Rightarrow> if node_type n = ROOT then nid else None))"

definition emission_turn :: "case_data \<Rightarrow> turn_meta \<Rightarrow> int" where
  "emission_turn c m = (case tm_replay_turn m of None \<Rightarrow> case_current_turn c | Some t \<Rightarrow> t)"

definition refuse_cause_work :: "turn_meta \<Rightarrow> turn_meta" where
  "refuse_cause_work m = m\<lparr>tm_refused := tm_refused m + 1\<rparr>"

section \<open>Anchoring hypotheses\<close>

definition other_owner :: "case_data \<Rightarrow> string \<Rightarrow> string \<Rightarrow> hypothesis option" where
  "other_owner c hyp_key root_id =
    find (\<lambda>h. hyp_id h \<noteq> hyp_key \<and> hyp_root h = Some root_id) (dict_values (case_hypotheses c))"

text \<open>The path freed by a re-root, empty when nothing was re-rooted, \<open>None\<close> when the attachment is refused.\<close>

definition attach_hypothesis :: "int \<Rightarrow> hypothesis \<Rightarrow> string \<Rightarrow> case_data \<Rightarrow> (case_data \<times> string list option) option" where
  "attach_hypothesis turn h root_id c =
    (case chain_path_to_problem root_id c of
       None \<Rightarrow> None
     | Some new_path \<Rightarrow>
        (let reroots = (truthy (hyp_root h) \<and> hyp_root h \<noteq> Some root_id) in
         if reroots \<and> new_path = [] then Some (c, None)
         else (case attach_root c h root_id new_path turn of
             None \<Rightarrow> None
           | Some c' \<Rightarrow> Some (c', Some (if reroots then hyp_path h else [])))))"

type_synonym anchor_pass = "case_data \<times> string list list \<times> (string \<times> string) list"

definition keep_freed :: "string list option \<Rightarrow> string list list \<Rightarrow> string list list" where
  "keep_freed freed abandoned = (case freed of None \<Rightarrow> abandoned | Some p \<Rightarrow> if p = [] then abandoned else abandoned @ [p])"

definition anchor_hypothesis :: "int \<Rightarrow> string option list \<Rightarrow> string \<times> string \<Rightarrow> anchor_pass \<Rightarrow> anchor_pass option" where
  "anchor_hypothesis turn created = (\<lambda>(key, ref) (c, abandoned, contested).
    case (resolve_root_ref c (Some ref) created, dict_get (case_hypotheses c) key) of
      (Some root_id, Some h) \<Rightarrow>
        if other_owner c key root_id \<noteq> None then Some (c, abandoned, contested @ [(key, root_id)])
        else (case attach_hypothesis turn h root_id c of
            None \<Rightarrow> None
          | Some (c', freed) \<Rightarrow> Some (c', keep_freed freed abandoned, contested))
    | _ \<Rightarrow> Some (c, abandoned, contested))"

type_synonym contest_pass = "case_data \<times> string list list \<times> turn_meta"

text \<open>A contested root a re-root has freed is honoured as a hand-off, else refused with a notice.\<close>

definition settle_contest :: "int \<Rightarrow> string \<times> string \<Rightarrow> contest_pass \<Rightarrow> contest_pass option" where
  "settle_contest turn = (\<lambda>(key, root_id) (c, abandoned, m).
    case dict_get (case_hypotheses c) key of
      None \<Rightarrow> Some (c, abandoned, m)
    | Some h \<Rightarrow>
       (case other_owner c key root_id of
          None \<Rightarrow>
            (case attach_hypothesis turn h root_id c of
               None \<Rightarrow> None
             | Some (c', freed) \<Rightarrow> Some (c', keep_freed freed abandoned, m))
        | Some owner \<Rightarrow> Some (c, abandoned, add_notice (RootOwned key root_id (hyp_id owner)) m)))"

definition anchor_hypotheses ::
    "int \<Rightarrow> string option list \<Rightarrow> (string, string) pydict \<Rightarrow> turn_state \<Rightarrow> turn_state option" where
  "anchor_hypotheses turn created root_refs = (\<lambda>(c, m).
    case option_fold (anchor_hypothesis turn created) root_refs (c, [], []) of
      None \<Rightarrow> None
    | Some (c1, abandoned, contested) \<Rightarrow>
       (case option_fold (settle_contest turn) contested (c1, abandoned, m) of
          None \<Rightarrow> None
        | Some (c2, abandoned', m') \<Rightarrow>
            Some (fold (\<lambda>path c. prune_abandoned_nodes c path) abandoned' c2, m')))"

section \<open>Verdicts on roots\<close>

definition rows_by_id :: "case_data \<Rightarrow> (string, evidence) pydict" where
  "rows_by_id c = fold (\<lambda>e d. dict_put (ev_id e) e d) (case_evidence c) []"

definition basis_refusal_of :: "case_data \<Rightarrow> causal_node \<Rightarrow> string \<Rightarrow> basis_refusal option" where
  "basis_refusal_of c n ref =
    (case dict_get (rows_by_id c) ref of
       None \<Rightarrow> Some NotOnRecord
     | Some row \<Rightarrow>
        if ev_category row \<noteq> CAUSAL_EVIDENCE then Some (NotCausal (ev_category row))
        else if ev_collected_by row = ENGINE_EVIDENCE_AUTHOR then Some ByTheEngine
        else if ev_collected_at_turn row < root_first_attached_turn n then Some (BeforePosited (ev_collected_at_turn row))
        else None)"

definition terminal_basis :: "case_data \<Rightarrow> causal_node \<Rightarrow> string list \<Rightarrow> string list \<times> (string \<times> basis_refusal) list" where
  "terminal_basis c n basis =
    (let refs = dict_fromkeys basis
     in (filter (\<lambda>ref. basis_refusal_of c n ref = None) refs,
         List.map_filter (\<lambda>ref. map_option (Pair ref) (basis_refusal_of c n ref)) refs))"

definition put_node :: "string \<Rightarrow> causal_node \<Rightarrow> case_data \<Rightarrow> case_data" where
  "put_node nid n c = c\<lparr>case_nodes := dict_put nid n (case_nodes c)\<rparr>"

definition record_verdict_on_root :: "hypothesis \<Rightarrow> bool \<Rightarrow> string list \<Rightarrow> turn_state \<Rightarrow> turn_state" where
  "record_verdict_on_root h verdict basis = (\<lambda>(c, m).
    let nid = or_empty (hyp_root h); turn = case_current_turn c in
    case dict_get (case_nodes c) nid of
      None \<Rightarrow> (c, m)
    | Some n \<Rightarrow>
       if node_type n \<noteq> ROOT then (c, m)
       else if \<not> verdict then (put_node nid (record_root_terminal False None turn n) c, m)
       else
        (case terminal_basis c n basis of (kept, refused) \<Rightarrow>
          let standing = (if root_terminal n = Some True
                then meta_list (dict_get (node_metadata n) ''root_terminal_evidence_ids'') else []);
              added = filter (\<lambda>ref. ref \<notin> set standing) kept
          in if kept \<noteq> [] \<or> standing \<noteq> []
             then (if added \<noteq> [] \<or> standing = []
                   then put_node nid (record_root_terminal True (Some (standing @ added)) turn n) c else c,
                   if refused \<noteq> [] \<and> kept = [] then add_notice (VerdictRows (node_id n) refused) m else m)
             else (put_node nid (n\<lparr>node_metadata := dict_put ''root_terminal_refused_turn'' (MInt turn) (node_metadata n)\<rparr>) c,
                   add_notice (VerdictRefused (node_id n) refused) m)))"

text \<open>A verdict on a hypothesis without a root waits for the orphan pass.\<close>

definition apply_verdict ::
    "string option list \<Rightarrow> (string, string) pydict \<Rightarrow> string \<times> bool \<times> string list \<Rightarrow> turn_state \<Rightarrow> turn_state" where
  "apply_verdict created root_refs = (\<lambda>(key, verdict, basis) (c, m).
    case dict_get (case_hypotheses c) key of
      None \<Rightarrow> (c, m)
    | Some h \<Rightarrow>
       if \<not> truthy (hyp_root h)
       then (c, m\<lparr>tm_pending_verdicts := dict_put key (verdict, basis) (tm_pending_verdicts m)\<rparr>)
       else if dict_get root_refs key \<noteq> None
            \<and> resolve_root_ref c (dict_get root_refs key) created \<noteq> hyp_root h then (c, m)
       else record_verdict_on_root h verdict basis (c, m))"

section \<open>The chain pass\<close>

record chain_emission =
  em_nodes :: "node_spec list"
  em_edges :: "edge_spec list"
  em_survivor_refs :: "string option list"
  em_node_links :: "link_spec list"

text \<open>
  What the gate lets through: the emission, the root references and the verdicts, and the turn's
  metadata. Staged work is replayed later; work on a problem not verified is refused, its links kept.
\<close>

definition gate_chain ::
    "problem_case \<Rightarrow> chain_emission \<Rightarrow> turn_meta \<Rightarrow> chain_emission \<times> (string, string) pydict \<times> root_verdicts \<times> turn_meta" where
  "gate_chain pc em m =
    (let refs = tm_root_refs m; verdicts = tm_root_verdicts m in
     if cause_work_staged pc
     then (\<lparr>em_nodes = [], em_edges = [], em_survivor_refs = [], em_node_links = []\<rparr>, [], [],
           if refs \<noteq> [] \<or> verdicts \<noteq> [] then refuse_cause_work m else m)
     else if (em_nodes em \<noteq> [] \<or> em_edges em \<noteq> [] \<or> em_survivor_refs em \<noteq> [] \<or> refs \<noteq> [] \<or> verdicts \<noteq> [])
          \<and> \<not> cause_work_accepted pc
     then (\<lparr>em_nodes = [], em_edges = [], em_survivor_refs = [], em_node_links = em_node_links em\<rparr>, [], [],
           refuse_cause_work m)
     else (em, refs, verdicts, m))"

definition resolve_conclusion_name :: "string option list \<Rightarrow> bool \<Rightarrow> case_data \<Rightarrow> case_data" where
  "resolve_conclusion_name created authored c =
    (case case_conclusion c of
       None \<Rightarrow> c
     | Some rcc \<Rightarrow>
        if authored \<and> truthy (rcc_names_root_node_id rcc) \<and> is_slot_ref (or_empty (rcc_names_root_node_id rcc))
        then c\<lparr>case_conclusion := Some (rcc\<lparr>rcc_names_root_node_id :=
               resolve_root_ref c (rcc_names_root_node_id rcc) created\<rparr>)\<rparr>
        else c)"

definition survivor_ids :: "case_data \<Rightarrow> string option list \<Rightarrow> string option list \<Rightarrow> string set" where
  "survivor_ids c created refs = set (List.map_filter (\<lambda>ref. resolve_root_ref c ref created) refs)"

definition apply_chain_emission ::
    "(nat \<Rightarrow> string) \<Rightarrow> problem_case \<Rightarrow> chain_emission \<Rightarrow> turn_state \<Rightarrow> (validation_error + turn_state) option" where
  "apply_chain_emission new_id pc em0 = (\<lambda>(c, m0).
    case gate_chain pc em0 m0 of (em, root_refs, verdicts, m) \<Rightarrow>
      (case ingest_emitted_chain new_id c (em_nodes em) (em_edges em) (em_node_links em) (emission_turn c m)
              (map Some (tm_evidence_slots m)) (tm_sinks m) of
         Inl e \<Rightarrow> Some (Inl e)
       | Inr r \<Rightarrow>
          (let created = ing_created r;
               m1 = m\<lparr>tm_sinks := ing_sinks r, tm_created_nodes := created\<rparr>
           in case anchor_hypotheses (emission_turn c m) created root_refs (ing_case r, m1) of
                None \<Rightarrow> None
              | Some (c2, m2) \<Rightarrow>
                 (case fold (apply_verdict created root_refs) verdicts (c2, m2\<lparr>tm_pending_verdicts := []\<rparr>) of
                    (c3, m3) \<Rightarrow>
                     (case mirror_hypothesis_support_to_root_nodes c3 (case_current_turn c3) of
                        Inl e \<Rightarrow> Some (Inl e)
                      | Inr (c4, _) \<Rightarrow>
                         (let c5 = resolve_conclusion_name created (tm_rcc_authored m3) c4;
                              survivors = survivor_ids c5 created (em_survivor_refs em)
                          in Some (Inr (c5, if survivors \<noteq> {} then m3\<lparr>tm_survivors := survivors\<rparr> else m3))))))))"

section \<open>Orphan chains\<close>

definition apply_pending_verdict :: "string \<times> bool \<times> string list \<Rightarrow> turn_state \<Rightarrow> turn_state" where
  "apply_pending_verdict = (\<lambda>(key, verdict, basis) (c, m).
    case dict_get (case_hypotheses c) key of
      None \<Rightarrow> (c, m)
    | Some h \<Rightarrow> if truthy (hyp_root h) then record_verdict_on_root h verdict basis (c, m) else (c, m))"

definition nudge_ambiguous_orphan_chains :: "turn_state \<Rightarrow> turn_state option" where
  "nudge_ambiguous_orphan_chains = (\<lambda>(c, m).
    case resolve_orphan_chains c (Some (emission_turn c m)) of
      None \<Rightarrow> None
    | Some (c1, ambiguous) \<Rightarrow>
       (case fold apply_pending_verdict (tm_pending_verdicts m) (c1, m\<lparr>tm_pending_verdicts := []\<rparr>) of
          (c2, m2) \<Rightarrow>
            Some (c2, if ambiguous = [] then m2
              else add_notice (AmbiguousChains (map (\<lambda>a. (take 80 (amb_statement a), take 2 (amb_candidates a)))
                     (take 3 ambiguous))) m2)))"

end
