(* ===== verification/Update_Laws.thy ===== *)
theory Update_Laws
  imports Hypothesis_Updates Examples
begin

text \<open>
  What a turn can do to the hypotheses, whatever the order of its operations: every write goes to a
  hypothesis that is not terminal, and a write that refutes has grounds on record.
\<close>

section \<open>Writes\<close>

text \<open>A write to an open hypothesis; \<open>refuting\<close> tells whether it may refute.\<close>

definition open_write :: "bool \<Rightarrow> case_data \<Rightarrow> case_data \<Rightarrow> bool" where
  "open_write refuting c c' \<longleftrightarrow> (\<exists>key h h'. dict_get (case_hypotheses c) key = Some h
     \<and> \<not> hypothesis_is_terminal (hyp_state h) \<and> c' = put_hypothesis key h' c
     \<and> (hyp_state h' = H_REFUTED \<longrightarrow> refuting))"

lemma refuted_is_terminal [simp]: "hypothesis_is_terminal H_REFUTED"
  by (simp add: hypothesis_is_terminal_def TERMINAL_HYPOTHESIS_STATES_def)

lemma open_not_refuted: "\<not> hypothesis_is_terminal s \<Longrightarrow> s \<noteq> H_REFUTED"
  by auto

lemma write_open:
  assumes "dict_get (case_hypotheses c) key = Some h" "\<not> hypothesis_is_terminal (hyp_state h)"
    and "hyp_state h' = H_REFUTED \<Longrightarrow> refuting"
  shows "open_write refuting c (put_hypothesis key h' c)"
  using assms unfolding open_write_def by blast

subsection \<open>The manager's writes do not refute by themselves\<close>

lemma transition_refuted [simp]: "hyp_state (check_state_transition h) = H_REFUTED \<longleftrightarrow> hyp_state h = H_REFUTED"
  by (simp add: check_state_transition_def)

lemma from_evidence_refuted [simp]:
  "hyp_state (update_likelihood_from_evidence t hold h) = H_REFUTED \<longleftrightarrow> hyp_state h = H_REFUTED"
  by (simp add: update_likelihood_from_evidence_def Let_def)

lemma claim_refuted [simp]:
  "hyp_state (update_hypothesis_likelihood q t c h) = H_REFUTED \<longleftrightarrow> hyp_state h = H_REFUTED"
  by (simp add: update_hypothesis_likelihood_def Let_def)

lemma link_refuted:
  assumes "link_evidence eid s t r q hold h = Inr (h', material)" "hyp_state h' = H_REFUTED"
  shows "hyp_state h = H_REFUTED"
  using assms by (auto simp: link_evidence_def Let_def split: sum.splits option.splits if_splits)

section \<open>The operations\<close>

lemma intent_write_cases:
  assumes "apply_hypothesis_action_intent hid act msg (c, m) = ((c', m'), err)" "c' \<noteq> c"
  obtains h h' where "dict_get (case_hypotheses c) (or_empty hid) = Some h" "\<not> hypothesis_is_terminal (hyp_state h)"
    "c' = put_hypothesis (or_empty hid) h' c" "hyp_state h' = H_REFUTED \<longrightarrow> refutation_grounds c h \<noteq> ([], False)"
proof -
  obtain h where h: "dict_get (case_hypotheses c) (or_empty hid) = Some h" "\<not> hypothesis_is_terminal (hyp_state h)"
    using assms by (auto simp: apply_hypothesis_action_intent_def Let_def split: if_splits option.splits)
  have "\<exists>h'. c' = put_hypothesis (or_empty hid) h' c
      \<and> (hyp_state h' = H_REFUTED \<longrightarrow> refutation_grounds c h \<noteq> ([], False))"
    using assms h open_not_refuted [OF h(2)]
    by (auto simp: apply_hypothesis_action_intent_def Let_def split: if_splits option.splits prod.splits)
  then show ?thesis using h that by blast
qed

lemma intent_writes:
  assumes "apply_hypothesis_action_intent hid act msg (c, m) = ((c', m'), err)"
  shows "(open_write True)\<^sup>*\<^sup>* c c'"
proof (cases "c' = c")
  case False
  with assms show ?thesis by (rule intent_write_cases) (auto intro: write_open)
qed simp

lemma updates_write_nothing: "fst (apply_hypothesis_updates entries staging (c, m)) = c"
  by (simp add: apply_hypothesis_updates_def)

lemma link_writes:
  assumes "apply_hypothesis_link ids l (c, m) = Inr (c', m')"
  shows "(open_write False)\<^sup>*\<^sup>* c c'"
proof (cases "c' = c")
  case False
  let ?key = "resolve_id_ref (hyp_slots m) (hl_hypothesis_ref l)"
  obtain h where h: "dict_get (case_hypotheses c) ?key = Some h" "\<not> hypothesis_is_terminal (hyp_state h)"
    using False assms by (auto simp: apply_hypothesis_link_def Let_def split: if_splits option.splits)
  obtain eid s t r q hold h' material where w: "link_evidence eid s t r q hold h = Inr (h', material)"
      "c' = put_hypothesis ?key h' c"
    using False assms h
    by (auto simp: apply_hypothesis_link_def Let_def split: if_splits option.splits prod.splits sum.splits)
  have "open_write False c c'"
    unfolding w(2) by (rule write_open [OF h]) (use link_refuted [OF w(1)] open_not_refuted [OF h(2)] in blast)
  then show ?thesis by blast
qed simp

lemma links_write:
  assumes "try_fold (apply_hypothesis_link ids) ls (c, m) = Inr (c', m')"
  shows "(open_write False)\<^sup>*\<^sup>* c c'"
  using assms
proof (induction ls arbitrary: c m)
  case (Cons l ls)
  then obtain c1 m1 where 1: "apply_hypothesis_link ids l (c, m) = Inr (c1, m1)"
    "try_fold (apply_hypothesis_link ids) ls (c1, m1) = Inr (c', m')"
    by (auto split: sum.splits)
  from link_writes [OF 1(1)] Cons.IH [OF 1(2)] show ?case by simp
qed simp

text \<open>One round of the queue: the entry is passed over, refutes, or is refused.\<close>

lemma pending_cases:
  assumes "pending_refutation_loop turn ((key, reason) # ps) (c, m) = ((c', m'), err)"
  obtains (passed) "pending_refutation_loop turn ps (c, m) = ((c', m'), err)"
      "\<And>qs. pending_refutation_loop turn ((key, reason) # qs) (c, m) = pending_refutation_loop turn qs (c, m)"
  | (raised) h h' where "dict_get (case_hypotheses c) key = Some h" "\<not> hypothesis_is_terminal (hyp_state h)"
      "refutation_grounds c h \<noteq> ([], False)" "c' = put_hypothesis key h' c"
  | (refuted) h h' m1 where "dict_get (case_hypotheses c) key = Some h" "\<not> hypothesis_is_terminal (hyp_state h)"
      "refutation_grounds c h \<noteq> ([], False)"
      "pending_refutation_loop turn ps (put_hypothesis key h' c, m1) = ((c', m'), err)"
      "\<And>qs. pending_refutation_loop turn ((key, reason) # qs) (c, m) = pending_refutation_loop turn qs (put_hypothesis key h' c, m1)"
  | (refused) h m1 where "dict_get (case_hypotheses c) key = Some h" "\<not> hypothesis_is_terminal (hyp_state h)"
      "pending_refutation_loop turn ps (put_hypothesis key (check_state_transition h) c, m1) = ((c', m'), err)"
      "\<And>qs. pending_refutation_loop turn ((key, reason) # qs) (c, m)
         = pending_refutation_loop turn qs (put_hypothesis key (check_state_transition h) c, m1)"
proof (cases "\<exists>h. dict_get (case_hypotheses c) key = Some h \<and> \<not> hypothesis_is_terminal (hyp_state h)")
  case False
  then have "pending_refutation_loop turn ((key, reason) # qs) (c, m) = pending_refutation_loop turn qs (c, m)" for qs
    by (auto split: option.split)
  with assms passed show ?thesis by metis
next
  case True
  then obtain h where h: "dict_get (case_hypotheses c) key = Some h" "\<not> hypothesis_is_terminal (hyp_state h)" by blast
  show ?thesis
  proof (cases "refutation_grounds c h = ([], False)")
    case True
    have eq: "pending_refutation_loop turn ((key, reason) # qs) (c, m)
        = pending_refutation_loop turn qs (put_hypothesis key (check_state_transition h) c,
          add_notice (NotRefuted key (has_hedged_refutes (check_state_transition h))
            (hyp_state (check_state_transition h) = H_RETIRED)) m)" for qs
      using h True by (simp add: Let_def)
    show ?thesis by (rule refused [OF h _ eq]) (use assms eq in metis)
  next
    case grounds: False
    obtain h' e where r: "refute_hypothesis turn (fst (refutation_grounds c h)) reason h = (h', e)" by fastforce
    show ?thesis
    proof (cases e)
      case None
      have eq: "pending_refutation_loop turn ((key, reason) # qs) (c, m)
          = pending_refutation_loop turn qs (put_hypothesis key h' c, m\<lparr>tm_updated := tm_updated m @ [key]\<rparr>)" for qs
        using h grounds r None by simp
      show ?thesis by (rule refuted [OF h grounds _ eq]) (use assms eq in metis)
    next
      case (Some x)
      then have "c' = put_hypothesis key h' c" using assms h grounds r by simp
      then show ?thesis by (rule raised [OF h grounds])
    qed
  qed
qed

lemma pending_writes:
  assumes "pending_refutation_loop turn ps (c, m) = ((c', m'), err)"
  shows "(open_write True)\<^sup>*\<^sup>* c c'"
  using assms
proof (induction ps arbitrary: c m)
  case (Cons p ps)
  obtain key reason where p: "p = (key, reason)" by (cases p)
  have step: "(open_write True)\<^sup>*\<^sup>* c c'"
    if "dict_get (case_hypotheses c) k = Some h" "\<not> hypothesis_is_terminal (hyp_state h)"
      "(open_write True)\<^sup>*\<^sup>* (put_hypothesis k h' c) c'" for k h h'
    using write_open [OF that(1,2), of h' True] that(3) by (simp add: converse_rtranclp_into_rtranclp)
  from Cons.prems [unfolded p] show ?case
  proof (cases rule: pending_cases)
    case passed
    from passed(1) show ?thesis by (rule Cons.IH)
  next
    case (raised h h')
    then show ?thesis by (auto intro: write_open)
  next
    case (refuted h h' m1)
    then show ?thesis by (auto intro: step Cons.IH)
  next
    case (refused h m1)
    then show ?thesis by (auto intro: step Cons.IH)
  qed
qed simp

text \<open>What refutes in the queue had grounds when its entry was reached.\<close>

lemma pending_refutes:
  assumes "pending_refutation_loop turn ps (c, m) = ((c', m'), err)"
    and "dict_get (case_hypotheses c) k = Some h" "hyp_state h \<noteq> H_REFUTED"
    and "dict_get (case_hypotheses c') k = Some h'" "hyp_state h' = H_REFUTED"
  shows "\<exists>qs rest c1 m1 h1. ps = qs @ rest \<and> pending_refutation_loop turn qs (c, m) = ((c1, m1), None)
    \<and> dict_get (case_hypotheses c1) k = Some h1 \<and> refutation_grounds c1 h1 \<noteq> ([], False)
    \<and> hyp_links h1 = hyp_links h \<and> hyp_root h1 = hyp_root h \<and> hyp_path h1 = hyp_path h"
  using assms
proof (induction ps arbitrary: c m h)
  case Nil
  then show ?case by simp
next
  case (Cons p ps)
  obtain key reason where p: "p = (key, reason)" by (cases p)
  have here: ?case if "dict_get (case_hypotheses c) k = Some g" "refutation_grounds c g \<noteq> ([], False)" for g
    using that Cons.prems(2) by (intro exI [of _ "[]"] exI) simp_all
  have later: ?case if "\<exists>qs rest c1 m1 h1. ps = qs @ rest \<and> pending_refutation_loop turn (p # qs) (c, m) = ((c1, m1), None)
    \<and> dict_get (case_hypotheses c1) k = Some h1 \<and> refutation_grounds c1 h1 \<noteq> ([], False)
    \<and> hyp_links h1 = hyp_links h \<and> hyp_root h1 = hyp_root h \<and> hyp_path h1 = hyp_path h"
    using that by (metis append_Cons)
  from Cons.prems(1) [unfolded p] show ?case
  proof (cases rule: pending_cases)
    case passed
    show ?thesis by (rule later) (use Cons.IH [OF passed(1) Cons.prems(2-5)] in \<open>simp only: p passed(2)\<close>)
  next
    case (raised g g')
    have "key = k"
    proof (rule ccontr)
      assume "key \<noteq> k"
      then have "h' = h" using Cons.prems(2,4) raised(4) by (simp add: put_hypothesis_def)
      then show False using Cons.prems(3,5) by simp
    qed
    then show ?thesis using here raised(1,3) by blast
  next
    case (refuted g g' m1)
    show ?thesis
    proof (cases "key = k")
      case True
      then show ?thesis using here refuted(1,3) by blast
    next
      case False
      then have "dict_get (case_hypotheses (put_hypothesis key g' c)) k = Some h" using Cons.prems(2) by (simp add: put_hypothesis_def)
      from Cons.IH [OF refuted(4) this Cons.prems(3-5)] show ?thesis
        by (intro later) (simp only: p refuted(5))
    qed
  next
    case (refused g m1)
    obtain h2 where h2: "dict_get (case_hypotheses (put_hypothesis key (check_state_transition g) c)) k = Some h2"
      "hyp_state h2 \<noteq> H_REFUTED" "hyp_links h2 = hyp_links h" "hyp_root h2 = hyp_root h" "hyp_path h2 = hyp_path h"
      using Cons.prems(2,3) refused(1) by (cases "key = k") (auto simp: put_hypothesis_def check_state_transition_def)
    from Cons.IH [OF refused(3) h2(1,2) Cons.prems(4,5)] show ?thesis
      by (intro later) (simp only: p refused(4) h2(3-5))
  qed
qed

lemma likelihood_writes:
  assumes "apply_deferred_likelihood turn x (c, m) = (c', m')"
  shows "(open_write False)\<^sup>*\<^sup>* c c'"
proof -
  obtain key q where x: "x = (key, q)" by (cases x)
  show ?thesis
  proof (cases "\<exists>h. dict_get (case_hypotheses c) key = Some h \<and> \<not> hypothesis_is_terminal (hyp_state h)")
    case False
    then have "c' = c" using assms by (auto simp: x apply_deferred_likelihood_def split: option.splits if_splits)
    then show ?thesis by simp
  next
    case True
    then obtain h where h: "dict_get (case_hypotheses c) key = Some h" "\<not> hypothesis_is_terminal (hyp_state h)" by blast
    then have "c' = put_hypothesis key (update_hypothesis_likelihood q turn (Some c) h) c"
      using assms by (simp add: x apply_deferred_likelihood_def Let_def)
    moreover have "open_write False c (put_hypothesis key (update_hypothesis_likelihood q turn (Some c) h) c)"
      by (rule write_open [OF h]) (use open_not_refuted [OF h(2)] in simp)
    ultimately show ?thesis by simp
  qed
qed

lemma likelihoods_write: "(open_write False)\<^sup>*\<^sup>* c (fst (fold (apply_deferred_likelihood turn) xs (c, m)))"
proof (induction xs arbitrary: c m)
  case (Cons x xs)
  obtain c1 m1 where 1: "apply_deferred_likelihood turn x (c, m) = (c1, m1)" by fastforce
  from likelihood_writes [OF 1] Cons.IH [of c1 m1] show ?case by (simp add: 1)
qed simp

section \<open>Steps\<close>

text \<open>One operation of a turn on the hypotheses, with any input; the turn may raise after it.\<close>

inductive hypothesis_step :: "turn_state \<Rightarrow> turn_state \<Rightarrow> bool" where
  action: "apply_hypothesis_action_intent hid act msg st = (st', err) \<Longrightarrow> hypothesis_step st st'"
| update: "apply_hypothesis_updates entries staging st = st' \<Longrightarrow> hypothesis_step st st'"
| link: "apply_hypothesis_evidence_links links st = Inr st' \<Longrightarrow> hypothesis_step st st'"
| pending: "apply_pending_refutations turn st = (st', err) \<Longrightarrow> hypothesis_step st st'"
| likelihood: "apply_deferred_likelihood_updates turn st = st' \<Longrightarrow> hypothesis_step st st'"

lemma writes_may_refute: "(open_write False)\<^sup>*\<^sup>* c c' \<Longrightarrow> (open_write True)\<^sup>*\<^sup>* c c'"
proof (induction rule: rtranclp_induct)
  case (step c1 c2)
  have "open_write True c1 c2" using step.hyps(2) unfolding open_write_def by blast
  with step.IH show ?case by (rule rtranclp.rtrancl_into_rtrancl)
qed simp

lemma step_cases:
  assumes "hypothesis_step (c, m) (c', m')"
  obtains (action) hid act msg err where "apply_hypothesis_action_intent hid act msg (c, m) = ((c', m'), err)"
  | (pending) turn err where "pending_refutation_loop turn (tm_pending_refutations m) (c, m\<lparr>tm_pending_refutations := []\<rparr>) = ((c', m'), err)"
  | (silent) "(open_write False)\<^sup>*\<^sup>* c c'"
  using assms
proof (cases rule: hypothesis_step.cases)
  case (update entries staging)
  then show ?thesis using silent updates_write_nothing [of entries staging c m] by simp
next
  case (link links)
  then show ?thesis using silent links_write by (simp add: apply_hypothesis_evidence_links_def)
next
  case (likelihood turn)
  have "(open_write False)\<^sup>*\<^sup>* c (fst (apply_deferred_likelihood_updates turn (c, m)))"
    by (simp add: apply_deferred_likelihood_updates_def likelihoods_write)
  then show ?thesis using silent likelihood by simp
qed (use action pending in \<open>auto simp: apply_pending_refutations_def\<close>)

lemma step_writes: "hypothesis_step st st' \<Longrightarrow> (open_write True)\<^sup>*\<^sup>* (fst st) (fst st')"
proof (cases st, cases st')
  fix c m c' m'
  assume "hypothesis_step st st'" and st: "st = (c, m)" "st' = (c', m')"
  then have "hypothesis_step (c, m) (c', m')" by simp
  then have "(open_write True)\<^sup>*\<^sup>* c c'"
    by (cases rule: step_cases) (auto intro: intent_writes pending_writes writes_may_refute)
  then show ?thesis by (simp add: st)
qed

lemma steps_write: "hypothesis_step\<^sup>*\<^sup>* st st' \<Longrightarrow> (open_write True)\<^sup>*\<^sup>* (fst st) (fst st')"
  by (induction rule: rtranclp_induct) (auto intro: rtranclp_trans step_writes)

lemma put_frame [simp]:
  "case_hypotheses (put_hypothesis k h c) = dict_put k h (case_hypotheses c)"
  "case_nodes (put_hypothesis k h c) = case_nodes c" "case_evidence (put_hypothesis k h c) = case_evidence c"
  by (simp_all add: put_hypothesis_def)

lemma writes_frame:
  "(open_write r)\<^sup>*\<^sup>* c c' \<Longrightarrow> case_nodes c' = case_nodes c \<and> case_evidence c' = case_evidence c"
  by (induction rule: rtranclp_induct) (auto simp: open_write_def)

lemma writes_keep_terminal:
  assumes "(open_write r)\<^sup>*\<^sup>* c c'" "dict_get (case_hypotheses c) k = Some h" "hypothesis_is_terminal (hyp_state h)"
  shows "dict_get (case_hypotheses c') k = Some h"
  using assms by (induction rule: rtranclp_induct) (auto simp: open_write_def)

lemma silent_refutes_nothing:
  assumes "(open_write False)\<^sup>*\<^sup>* c c'" "dict_get (case_hypotheses c) k = Some h" "hyp_state h \<noteq> H_REFUTED"
  shows "\<exists>h'. dict_get (case_hypotheses c') k = Some h' \<and> hyp_state h' \<noteq> H_REFUTED"
  using assms by (induction rule: rtranclp_induct) (auto simp: open_write_def)

section \<open>Properties\<close>

text \<open>C17: A hypothesis that is refuted or retired stays exactly as it is: whatever the user's actions, the
  model's updates and links, the refutations and likelihoods queued for later do, in any order and
  with any input, its entry afterwards is the entry before.\<close>

theorem terminal_hypotheses_stay:
  assumes "hypothesis_step\<^sup>*\<^sup>* st st'"
    and "dict_get (case_hypotheses (fst st)) key = Some h" "hyp_state h \<in> {H_REFUTED, H_RETIRED}"
  shows "dict_get (case_hypotheses (fst st')) key = Some h"
proof (rule writes_keep_terminal [OF steps_write [OF assms(1)] assms(2)])
  show "hypothesis_is_terminal (hyp_state h)"
    using assms(3) by (simp add: hypothesis_is_terminal_def TERMINAL_HYPOTHESIS_STATES_def)
qed

lemma refutation_grounds_iff:
  "refutation_grounds c h \<noteq> ([], False) \<longleftrightarrow>
    (\<exists>l \<in> set (chain_evidence_links c h). link_stance l = REFUTES \<and> stance_declared_confident l
       \<and> link_evidence_id l \<in> set (map ev_id (case_evidence c))) \<or> failed_fix_of c h \<noteq> None"
proof -
  have "refuting_evidence_on_record c h = [] \<longleftrightarrow> set (refuting_evidence_on_record c h) = {}" by simp
  also have "\<dots> \<longleftrightarrow> \<not> (\<exists>l \<in> set (chain_evidence_links c h). link_stance l = REFUTES \<and> stance_declared_confident l
       \<and> link_evidence_id l \<in> set (map ev_id (case_evidence c)))"
    by (auto simp: refuting_evidence_on_record_def)
  finally show ?thesis by (auto simp: refutation_grounds_def Let_def)
qed

text \<open>C16: Nothing is ruled out on a word alone: when one operation of a turn makes a hypothesis refuted that
  was not, then either a row on record is linked, with declared confidence, against the hypothesis or
  a node of its chain, or a fix of its root stands failed on the record, as it is when the queue of
  refutations reaches the hypothesis. Neither the user's request nor the model's stated reason is
  enough, and no link, likelihood or update refutes by itself.\<close>

theorem refutation_needs_grounds:
  assumes "hypothesis_step st st'"
    and "dict_get (case_hypotheses (fst st)) key = Some h" "hyp_state h \<noteq> H_REFUTED"
    and "dict_get (case_hypotheses (fst st')) key = Some h'" "hyp_state h' = H_REFUTED"
  shows "(\<exists>l \<in> set (chain_evidence_links (fst st) h). link_stance l = REFUTES \<and> stance_declared_confident l
       \<and> link_evidence_id l \<in> set (map ev_id (case_evidence (fst st))))
    \<or> (\<exists>qs rest turn c1 m1 h1 w. tm_pending_refutations (snd st) = qs @ rest
       \<and> pending_refutation_loop turn qs (fst st, (snd st)\<lparr>tm_pending_refutations := []\<rparr>) = ((c1, m1), None)
       \<and> dict_get (case_hypotheses c1) key = Some h1 \<and> failed_fix_of c1 h1 = Some w)"
proof -
  obtain c m c' m' where st: "st = (c, m)" "st' = (c', m')" by (cases st, cases st')
  have h: "dict_get (case_hypotheses c) key = Some h" and h': "dict_get (case_hypotheses c') key = Some h'"
    using assms(2,4) by (simp_all add: st)
  let ?m = "m\<lparr>tm_pending_refutations := []\<rparr>"
  have reached: "\<exists>qs rest turn c1 m1 h1. tm_pending_refutations m = qs @ rest
      \<and> pending_refutation_loop turn qs (c, ?m) = ((c1, m1), None)
      \<and> dict_get (case_hypotheses c1) key = Some h1 \<and> refutation_grounds c1 h1 \<noteq> ([], False)
      \<and> hyp_links h1 = hyp_links h \<and> hyp_root h1 = hyp_root h \<and> hyp_path h1 = hyp_path h"
    using assms(1) unfolding st
  proof (cases rule: step_cases)
    case (action hid act msg err)
    have "c' \<noteq> c" using h h' assms(3,5) by auto
    with action obtain g g' where g: "dict_get (case_hypotheses c) (or_empty hid) = Some g"
      "c' = put_hypothesis (or_empty hid) g' c" "hyp_state g' = H_REFUTED \<longrightarrow> refutation_grounds c g \<noteq> ([], False)"
      by (rule intent_write_cases)
    have "or_empty hid = key" using g(2) h h' assms(3,5) by (auto split: if_splits)
    then have "refutation_grounds c h \<noteq> ([], False)" using g h h' assms(5) by simp
    then show ?thesis using h by (intro exI [of _ "[]"] exI) simp_all
  next
    case (pending turn err)
    from pending_refutes [OF this h assms(3) h' assms(5)] show ?thesis by blast
  next
    case silent
    from silent_refutes_nothing [OF this h assms(3)] have False using h' assms(5) by simp
    then show ?thesis ..
  qed
  then obtain qs rest turn c1 m1 h1 where r: "tm_pending_refutations m = qs @ rest"
    "pending_refutation_loop turn qs (c, ?m) = ((c1, m1), None)"
    "dict_get (case_hypotheses c1) key = Some h1" "refutation_grounds c1 h1 \<noteq> ([], False)"
    "hyp_links h1 = hyp_links h" "hyp_root h1 = hyp_root h" "hyp_path h1 = hyp_path h" by blast
  have "case_nodes c1 = case_nodes c" "case_evidence c1 = case_evidence c"
    using writes_frame [OF pending_writes [OF r(2)]] by simp_all
  moreover from this have "chain_evidence_links c1 h1 = chain_evidence_links c h"
    by (simp add: chain_evidence_links_def r(5-7))
  ultimately have "(\<exists>l \<in> set (chain_evidence_links c h). link_stance l = REFUTES \<and> stance_declared_confident l
       \<and> link_evidence_id l \<in> set (map ev_id (case_evidence c))) \<or> (\<exists>w. failed_fix_of c1 h1 = Some w)"
    using r(4) unfolding refutation_grounds_iff by auto
  then show ?thesis
  proof
    assume "\<exists>w. failed_fix_of c1 h1 = Some w"
    with r(1-3) show ?thesis unfolding st fst_conv snd_conv by blast
  qed (simp add: st)
qed

section \<open>Examples\<close>

text \<open>Two open hypotheses and a refuted one; a refutation of the second root's hypothesis is queued.\<close>

definition ex_meta :: turn_meta where
  "ex_meta = \<lparr>tm_emit_order = [], tm_generated = [], tm_evidence_slots = [], tm_updated = [],
     tm_pending_refutations = [(''h2'', ''the cert is valid'')], tm_deferred = [], tm_root_refs = [],
     tm_root_verdicts = [], tm_pending_verdicts = [], tm_links_applied = 0, tm_action_applied = False,
     tm_sinks = (None, []), tm_notices = [], tm_replay_turn = None, tm_created_nodes = [], tm_survivors = {},
     tm_refused = 0, tm_rcc_authored = False\<rparr>"

definition ex_differential :: case_data where
  "ex_differential = ex_case\<lparr>case_hypotheses := [
     (''h1'', Conclusion.ex_hypothesis ''h1'' ''sessions leak'' (Some ''R1'')),
     (''h2'', (Conclusion.ex_hypothesis ''h2'' ''the cert expired'' (Some ''R2''))),
     (''h3'', (Conclusion.ex_hypothesis ''h3'' ''dns'' None)\<lparr>hyp_state := H_REFUTED, hyp_refutation_reason := Some ''r''\<rparr>)]\<rparr>"

definition ex_after :: turn_state where
  "ex_after = fst (apply_pending_refutations 3 (ex_differential, ex_meta))"

lemma ex_after_step: "hypothesis_step (ex_differential, ex_meta) ex_after"
  unfolding ex_after_def by (rule hypothesis_step.pending) (rule prod.collapse [symmetric])

lemma ex_after_refuted:
  "map_option hyp_state (dict_get (case_hypotheses ex_differential) ''h2'') = Some H_ACTIVE"
  "map_option hyp_state (dict_get (case_hypotheses (fst ex_after)) ''h2'') = Some H_REFUTED"
  by code_simp+

theorem refutation_needs_grounds_witness:
  "\<exists>h. dict_get (case_hypotheses ex_differential) ''h2'' = Some h \<and>
    ((\<exists>l \<in> set (chain_evidence_links ex_differential h). link_stance l = REFUTES \<and> stance_declared_confident l
       \<and> link_evidence_id l \<in> set (map ev_id (case_evidence ex_differential)))
    \<or> (\<exists>qs rest turn c1 m1 h1 w. tm_pending_refutations ex_meta = qs @ rest
       \<and> pending_refutation_loop turn qs (ex_differential, ex_meta\<lparr>tm_pending_refutations := []\<rparr>) = ((c1, m1), None)
       \<and> dict_get (case_hypotheses c1) ''h2'' = Some h1 \<and> failed_fix_of c1 h1 = Some w))"
proof -
  obtain h where h: "dict_get (case_hypotheses ex_differential) ''h2'' = Some h" "hyp_state h \<noteq> H_REFUTED"
    using ex_after_refuted(1) by (cases "dict_get (case_hypotheses ex_differential) ''h2''") auto
  obtain h' where h': "dict_get (case_hypotheses (fst ex_after)) ''h2'' = Some h'" "hyp_state h' = H_REFUTED"
    using ex_after_refuted(2) by auto
  from refutation_needs_grounds [OF ex_after_step _ h(2) h'] h(1) show ?thesis by simp
qed

theorem terminal_hypotheses_stay_witness:
  "dict_get (case_hypotheses (fst ex_after)) ''h3'' = dict_get (case_hypotheses ex_differential) ''h3''
   \<and> map_option hyp_state (dict_get (case_hypotheses ex_differential) ''h3'') = Some H_REFUTED"
proof -
  have s: "map_option hyp_state (dict_get (case_hypotheses ex_differential) ''h3'') = Some H_REFUTED" by code_simp
  then obtain h where h: "dict_get (case_hypotheses ex_differential) ''h3'' = Some h" "hyp_state h = H_REFUTED" by auto
  then show ?thesis using terminal_hypotheses_stay [OF r_into_rtranclp [of hypothesis_step, OF ex_after_step], of "''h3''" h] s by simp
qed

text \<open>
  The user's own message is the reason of a refutation, and the link it writes has a bound of 1000
  characters: a longer one refutes the hypothesis and then raises, with no link and no turn stamped.
\<close>

lemma overlong_message_refutes_and_raises:
  "case apply_hypothesis_action_intent (Some ''h2'') (Some ''refute'') (replicate 1001 CHR ''x'') (ex_differential, ex_meta) of
     ((c, m), err) \<Rightarrow> err \<noteq> None \<and> map_option hyp_state (dict_get (case_hypotheses c) ''h2'') = Some H_REFUTED
       \<and> map_option hyp_links (dict_get (case_hypotheses c) ''h2'') = Some [] \<and> \<not> tm_action_applied m"
  by code_simp

end
