(* ===== verification/Chain_Emission_Laws.thy ===== *)
theory Chain_Emission_Laws
  imports Chain_Emission Pruning_Properties Mirror_Laws Update_Laws Offer_Laws
begin

text \<open>
  What the chain pass of a turn keeps: the graph, the anchors and paths of the hypotheses, and one
  owner for every root.
\<close>

section \<open>Changes that keep the chains\<close>

lemma chained_grows:
  assumes ok: "chained c" and graph: "graph_ok c'" and hyps: "case_hypotheses c' = case_hypotheses c"
    and edges: "edge_rel c \<subseteq> edge_rel c'"
    and typed: "\<And>k n. dict_get (case_nodes c) k = Some n \<Longrightarrow>
      \<exists>n'. dict_get (case_nodes c') k = Some n' \<and> node_type n' = node_type n"
    and prob: "\<And>p. problem_node (case_nodes c) = Some p \<Longrightarrow>
      \<exists>p'. problem_node (case_nodes c') = Some p' \<and> node_id p' = node_id p"
  shows "chained c'"
proof -
  have known: "dict_get (case_nodes c') k \<noteq> None" if "dict_get (case_nodes c) k \<noteq> None" for k
    using that typed by blast
  have "anchored_on (case_nodes c') h" if "anchored_on (case_nodes c) h" for h
    unfolding anchored_on_def
  proof (intro conjI ballI impI)
    assume "truthy (hyp_root h)"
    with that show "\<exists>n. dict_get (case_nodes c') (or_empty (hyp_root h)) = Some n \<and> node_type n = ROOT"
      unfolding anchored_on_def by (metis typed)
  qed (use that known in \<open>unfold anchored_on_def, blast\<close>)
  then have "anchors_ok c'" using ok by (simp add: chained_def anchors_ok_def hyps)
  moreover have "chain_ok c' h" if "chain_ok c h" for h
  proof -
    have "edge_path (edge_rel c') a b p" if "edge_path (edge_rel c) a b p" for a b p
      using that edges successively_mono_set [of "\<lambda>x y. (x, y) \<in> edge_rel c" p "\<lambda>x y. (x, y) \<in> edge_rel c'"]
      by (auto simp: edge_path_def)
    with that prob show ?thesis unfolding chain_ok_def by metis
  qed
  then have "chains_ok c'" using ok by (simp add: chained_def chains_ok_def hyps)
  ultimately show ?thesis using graph by (simp add: chained_def)
qed

text \<open>Nodes that keep their keys, order, kinds and validity.\<close>

definition same_shape :: "causal_node \<Rightarrow> causal_node \<Rightarrow> bool" where
  "same_shape n n' \<longleftrightarrow> node_type n' = node_type n \<and> node_id n' = node_id n \<and> node_ok n' = node_ok n"

definition reshaped :: "(string, causal_node) pydict \<Rightarrow> (string, causal_node) pydict \<Rightarrow> bool" where
  "reshaped = list_all2 (\<lambda>x x'. fst x' = fst x \<and> same_shape (snd x) (snd x'))"

lemma same_shape_intros [simp]:
  "same_shape n n" "same_shape n (n\<lparr>node_metadata := m\<rparr>)" "same_shape n (n\<lparr>node_links := ls\<rparr>)"
  by (simp_all add: same_shape_def node_ok_def)

lemma reshaped_refl [simp]: "reshaped nodes nodes"
  by (simp add: reshaped_def list.rel_refl)

lemma reshaped_trans:
  assumes "reshaped a b" "reshaped b c"
  shows "reshaped a c"
  unfolding reshaped_def
  by (rule list_all2_trans [OF _ assms [unfolded reshaped_def]]) (auto simp: same_shape_def)

lemma reshaped_keys: "reshaped nodes nodes' \<Longrightarrow> dict_keys nodes' = dict_keys nodes"
  unfolding reshaped_def by (induction rule: list_all2_induct) (simp_all add: dict_keys_def)

lemma reshaped_get: "reshaped nodes nodes' \<Longrightarrow> rel_option same_shape (dict_get nodes k) (dict_get nodes' k)"
  unfolding reshaped_def by (induction rule: list_all2_induct) (auto split: prod.splits)

lemma reshaped_problem:
  "reshaped nodes nodes' \<Longrightarrow> rel_option same_shape (problem_node nodes) (problem_node nodes')"
  unfolding reshaped_def problem_node_def dict_values_def
  by (induction rule: list_all2_induct) (auto simp: same_shape_def)

lemma reshaped_put:
  assumes "dict_get nodes k = Some n" "same_shape n n'"
  shows "reshaped nodes (dict_put k n' nodes)"
  using assms reshaped_refl by (induction nodes) (auto simp: reshaped_def dict_put_def split: if_splits)

lemma remeta_reshaped: "remeta nodes nodes' \<Longrightarrow> reshaped nodes nodes'"
  unfolding remeta_def reshaped_def
  by (erule list_all2_mono) (auto simp: same_shape_def dest: meta_onlyD)

lemma relinked_reshaped:
  assumes "nodes_ok nodes" "relinked_nodes cats nodes nodes'"
  shows "reshaped nodes nodes'"
proof -
  have keys: "map fst nodes' = map fst nodes" using assms(2) by (simp add: relinked_nodes_def dict_keys_def)
  then have len: "length nodes' = length nodes" by (metis length_map)
  have wf: "dict_wf nodes" "dict_wf nodes'"
    using nodes_ok_wf [OF assms(1)] assms(2) by (simp_all add: relinked_nodes_def)
  have "fst (nodes' ! i) = fst (nodes ! i) \<and> same_shape (snd (nodes ! i)) (snd (nodes' ! i))" if i: "i < length nodes" for i
  proof -
    have f: "fst (nodes' ! i) = fst (nodes ! i)" using keys i len by (metis nth_map)
    have "dict_get nodes' (fst (nodes ! i)) = Some (snd (nodes' ! i))"
      using wf(2) nth_mem [of i nodes'] i len f by (metis dict_get_mem prod.collapse)
    moreover have g: "dict_get nodes (fst (nodes ! i)) = Some (snd (nodes ! i))"
      using wf(1) nth_mem [OF i] by (metis dict_get_mem prod.collapse)
    ultimately have "relinked cats (snd (nodes ! i)) (snd (nodes' ! i))"
      using assms(2) unfolding relinked_nodes_def by (metis option.inject)
    then obtain ls where "snd (nodes' ! i) = (snd (nodes ! i))\<lparr>node_links := ls\<rparr>" unfolding relinked_def by blast
    with f show ?thesis by simp
  qed
  then show ?thesis by (simp add: reshaped_def list_all2_conv_all_nth len)
qed

lemma reshaped_known: "reshaped nodes nodes' \<Longrightarrow> dict_get nodes' k = None \<longleftrightarrow> dict_get nodes k = None"
  using reshaped_get [of nodes nodes' k] by (auto elim: option.rel_cases)

lemma reshaped_typed:
  assumes "reshaped nodes nodes'" "dict_get nodes k = Some n"
  shows "\<exists>n'. dict_get nodes' k = Some n' \<and> node_type n' = node_type n"
  using reshaped_get [OF assms(1), of k] assms(2) by (auto simp: same_shape_def elim: option.rel_cases)

lemma reshaped_chained:
  assumes ok: "chained c" and nodes: "reshaped (case_nodes c) nodes"
  shows "chained (c\<lparr>case_nodes := nodes\<rparr>)"
proof (rule chained_grows [OF ok])
  have n0: "nodes_ok (case_nodes c)" and e0: "edges_ok (case_nodes c) (case_edges c)"
    using ok by (simp_all add: chained_def graph_ok_def)
  have "nodes_ok nodes"
    unfolding nodes_ok_def
  proof (intro conjI allI impI)
    show "dict_wf nodes" using reshaped_keys [OF nodes] nodes_ok_wf [OF n0] by simp
  next
    fix k n'
    assume "dict_get nodes k = Some n'"
    with reshaped_get [OF nodes, of k] obtain n where n: "dict_get (case_nodes c) k = Some n" "same_shape n n'"
      by (auto elim: option.rel_cases)
    with nodes_okD [OF n0 n(1)] show "node_id n' = k" "node_ok n'" by (simp_all add: same_shape_def)
  qed
  moreover have "edge_ok nodes = edge_ok (case_nodes c)"
    by (rule ext) (simp add: edge_ok_def reshaped_known [OF nodes])
  ultimately show "graph_ok (c\<lparr>case_nodes := nodes\<rparr>)" using e0 by (simp add: graph_ok_def edges_ok_def)
next
  show "\<exists>p'. problem_node (case_nodes (c\<lparr>case_nodes := nodes\<rparr>)) = Some p' \<and> node_id p' = node_id p"
    if "problem_node (case_nodes c) = Some p" for p
    using reshaped_problem [OF nodes] that by (auto simp: same_shape_def elim: option.rel_cases)
qed (use reshaped_typed [OF nodes] in \<open>simp_all add: edge_rel_def\<close>)

section \<open>The ingest\<close>

lemma edges_grow_rel: "edges_grow (case_edges c) (case_edges c') \<Longrightarrow> edge_rel c \<subseteq> edge_rel c'"
proof
  fix x
  assume "edges_grow (case_edges c) (case_edges c')" and x: "x \<in> edge_rel c"
  then obtain ts new where es: "case_edges c' = ts @ new" "list_all2 edge_grows (case_edges c) ts"
    by (auto simp: edges_grow_def)
  obtain e where e: "e \<in> set (case_edges c)" "x = (edge_cause e, edge_effect e)" using x by (auto simp: edge_rel_def)
  obtain e' where e': "e' \<in> set ts" "edge_grows e e'"
    using e(1) es(2) by (metis in_set_conv_nth list_all2_conv_all_nth)
  then have "edge_ends e' = edge_ends e" by (auto simp: edge_grows_def)
  with e(2) have "x = (edge_cause e', edge_effect e')" by (simp add: edge_ends_def)
  then show "x \<in> edge_rel c'" using e'(1) es(1) by (auto simp: edge_rel_def)
qed

lemma ingest_problem:
  assumes ok: "graph_ok c" and fresh: "fresh_ids new_id (case_nodes c)" and p: "problem_node (case_nodes c) = Some p"
    and ing: "ingest_emitted_chain new_id c ns es ls turn slots sinks = Inr r"
  shows "\<exists>p'. problem_node (case_nodes (ing_case r)) = Some p' \<and> node_id p' = node_id p"
  using ing
proof (cases rule: ingest_cases)
  case unanchored
  then show ?thesis using seed_again [OF p] by simp
next
  case (anchored c0 q nodes canonical st1 c2 events)
  have c0: "c0 = c" using anchored(1) seed_again [OF p] by simp
  have "new_id (Suc i) \<notin> set (dict_keys (case_nodes c))" for i using fresh by (auto simp: fresh_ids_def)
  then have fr: "fresh_node_ids new_id (case_nodes c)" using fresh by (simp add: fresh_node_ids_def fresh_ids_def)
  have nok: "nodes_ok (case_nodes c)" using ok by (simp add: graph_ok_def)
  note nodes = node_pass_result [OF nok fr, OF anchored(2) [unfolded c0], unfolded node_result_ok_def]
  then obtain extra where extra: "nodes = case_nodes c @ extra" by blast
  obtain d where d: "st1 = (fst st1, d)" by (metis prod.collapse)
  have "fst (c2, events) = fst (c2, events) \<and> case_nodes (fst st1) = nodes"
    using try_fold_invariant [OF anchored(3), of "\<lambda>st. case_nodes (fst st) = nodes"] edge_step_frame(1) by fastforce
  moreover have "case_nodes c2 = case_nodes (fst st1)"
    using try_fold_invariant [OF anchored(4), of "\<lambda>st. case_nodes (fst st) = case_nodes (fst st1)"] edge_step_frame(2) by fastforce
  ultimately have c2: "case_nodes c2 = nodes" by simp
  have "link_pass_ok c2 (c2, events, sinks)"
    by (auto simp: link_pass_ok_def intro!: exI [of _ "case_nodes c2"] relinked_nodes_refl)
  with anchored(5) have "link_pass_ok c2 (ing_case r, ing_events r, ing_sinks r)"
    by (rule try_fold_invariant) (rule add_link_ok)
  then have "relinked_nodes (evidence_category_map c2) nodes (case_nodes (ing_case r))"
    by (auto simp: link_pass_ok_def c2)
  then have "reshaped nodes (case_nodes (ing_case r))"
    using relinked_reshaped nodes by blast
  from reshaped_problem [OF this] problem_node_append [OF p, of extra] show ?thesis
    by (auto simp: extra same_shape_def elim: option.rel_cases)
qed

section \<open>Anchoring\<close>

text \<open>The chains are anchored and every root has one owner.\<close>

definition owned_ok :: "case_data \<Rightarrow> bool" where
  "owned_ok c \<longleftrightarrow> chained c \<and> roots_unique c"

lemma owned_reshaped: "owned_ok c \<Longrightarrow> reshaped (case_nodes c) nodes \<Longrightarrow> owned_ok (c\<lparr>case_nodes := nodes\<rparr>)"
  by (simp add: owned_ok_def reshaped_chained roots_unique_def)

lemma owned_hypotheses: "owned_ok c \<Longrightarrow> hypotheses_ok (case_hypotheses c)"
  by (simp add: owned_ok_def chained_def anchors_ok_def)

lemma resolve_root_refD:
  "resolve_root_ref c ref created = Some r \<Longrightarrow> \<exists>n. dict_get (case_nodes c) r = Some n \<and> node_type n = ROOT"
  by (auto simp: resolve_root_ref_def Let_def truthy_def split: if_splits option.splits)

lemma other_owner_None:
  assumes "hypotheses_ok (case_hypotheses c)" "other_owner c key r = None"
    and "dict_get (case_hypotheses c) i = Some g" "i \<noteq> key"
  shows "hyp_root g \<noteq> Some r"
proof -
  have "g \<in> set (dict_values (case_hypotheses c))" "hyp_id g = i"
    using assms(1,3) unfolding hypotheses_ok_def by (auto simp: dict_values_get)
  then show ?thesis using assms(2,4) by (auto simp: other_owner_def find_None_iff)
qed

lemma attach_keeps:
  assumes ok: "owned_ok c" and h: "dict_get (case_hypotheses c) key = Some h"
    and r: "dict_get (case_nodes c) r = Some n" "node_type n = ROOT" and free: "other_owner c key r = None"
  shows "\<exists>c' freed. attach_hypothesis turn h r c = Some (c', freed) \<and> owned_ok c' \<and> reshaped (case_nodes c) (case_nodes c')"
proof -
  note hyps = owned_hypotheses [OF ok]
  have key: "hyp_id h = key" using hyps h unfolding hypotheses_ok_def by blast
  obtain path where path: "chain_path_to_problem r c = Some path" using chain_path_total by blast
  have at_problem: "path = [] \<or> (\<exists>p. problem_node (case_nodes c) = Some p \<and> edge_path (edge_rel c) r (node_id p) path)"
    using chain_path_nonempty [OF path] by blast
  obtain nodes where a: "attach_root c h r path turn = Some (c\<lparr>case_nodes := nodes,
      case_hypotheses := dict_put (hyp_id h) (h\<lparr>hyp_root := Some r, hyp_path := path\<rparr>) (case_hypotheses c)\<rparr>)"
    "remeta (case_nodes c) nodes"
    using attach_root_effect [of c r h path turn] r(1) by blast
  let ?c1 = "c\<lparr>case_nodes := nodes,
      case_hypotheses := dict_put (hyp_id h) (h\<lparr>hyp_root := Some r, hyp_path := path\<rparr>) (case_hypotheses c)\<rparr>"
  have "chained ?c1"
    by (rule attach_chained [OF _ _ r at_problem a(2) refl]) (use ok h key in \<open>simp_all add: owned_ok_def\<close>)
  moreover have "roots_unique ?c1"
    by (rule attach_unique_root [OF _ _ refl]) (use ok other_owner_None [OF hyps free] key in \<open>simp_all add: owned_ok_def\<close>)
  ultimately have "owned_ok ?c1" by (simp add: owned_ok_def)
  then show ?thesis
    using ok remeta_reshaped [OF a(2)] by (simp add: attach_hypothesis_def path a(1) Let_def)
qed

definition roots_known :: "case_data \<Rightarrow> (string \<times> string) list \<Rightarrow> bool" where
  "roots_known c = list_all (\<lambda>(key, r). \<exists>n. dict_get (case_nodes c) r = Some n \<and> node_type n = ROOT)"

lemma roots_known_reshaped: "reshaped (case_nodes c) (case_nodes c') \<Longrightarrow> roots_known c ks \<Longrightarrow> roots_known c' ks"
  unfolding roots_known_def list_all_iff by (force dest: reshaped_typed)

definition anchor_inv :: "case_data \<Rightarrow> anchor_pass \<Rightarrow> bool" where
  "anchor_inv c0 = (\<lambda>(c, _, contested). owned_ok c \<and> reshaped (case_nodes c0) (case_nodes c) \<and> roots_known c contested)"

lemma anchor_step:
  assumes "anchor_inv c0 st"
  shows "\<exists>st'. anchor_hypothesis turn created x st = Some st' \<and> anchor_inv c0 st'"
proof -
  obtain key ref c abandoned contested where x: "x = (key, ref)" and st: "st = (c, abandoned, contested)"
    by (cases x, cases st)
  have ok: "owned_ok c" and shape: "reshaped (case_nodes c0) (case_nodes c)" and known: "roots_known c contested"
    using assms by (simp_all add: anchor_inv_def st)
  show ?thesis
  proof (cases "\<exists>r h. resolve_root_ref c (Some ref) created = Some r \<and> dict_get (case_hypotheses c) key = Some h")
    case False
    then show ?thesis using assms by (auto simp: x st anchor_hypothesis_def split: option.split)
  next
    case True
    then obtain r h where r: "resolve_root_ref c (Some ref) created = Some r" and h: "dict_get (case_hypotheses c) key = Some h" by blast
    obtain n where n: "dict_get (case_nodes c) r = Some n" "node_type n = ROOT" using resolve_root_refD [OF r] by blast
    show ?thesis
    proof (cases "other_owner c key r = None")
      case False
      then show ?thesis using ok shape known n by (auto simp: x st anchor_hypothesis_def r h anchor_inv_def roots_known_def)
    next
      case True
      from attach_keeps [OF ok h n True] obtain c' freed where
        "attach_hypothesis turn h r c = Some (c', freed)" "owned_ok c'" "reshaped (case_nodes c) (case_nodes c')" by blast
      then show ?thesis
        using shape roots_known_reshaped [OF _ known] True
        by (auto simp: x st anchor_hypothesis_def r h anchor_inv_def intro: reshaped_trans)
    qed
  qed
qed

definition settle_inv :: "case_data \<Rightarrow> contest_pass \<Rightarrow> bool" where
  "settle_inv c0 = (\<lambda>(c, _, _). owned_ok c \<and> reshaped (case_nodes c0) (case_nodes c))"

lemma settle_step:
  assumes "settle_inv c0 st" "\<exists>n. dict_get (case_nodes c0) (snd x) = Some n \<and> node_type n = ROOT"
  shows "\<exists>st'. settle_contest turn x st = Some st' \<and> settle_inv c0 st'"
proof -
  obtain key r c abandoned m where x: "x = (key, r)" and st: "st = (c, abandoned, m)" by (cases x, cases st)
  have ok: "owned_ok c" and shape: "reshaped (case_nodes c0) (case_nodes c)" using assms(1) by (simp_all add: settle_inv_def st)
  obtain n where n: "dict_get (case_nodes c) r = Some n" "node_type n = ROOT"
    using assms(2) reshaped_typed [OF shape, of r] by (auto simp: x)
  show ?thesis
  proof (cases "\<exists>h. dict_get (case_hypotheses c) key = Some h \<and> other_owner c key r = None")
    case False
    then show ?thesis using assms(1) by (auto simp: x st settle_contest_def settle_inv_def split: option.split)
  next
    case True
    then obtain h where h: "dict_get (case_hypotheses c) key = Some h" "other_owner c key r = None" by blast
    from attach_keeps [OF ok h(1) n h(2)] obtain c' freed where
      "attach_hypothesis turn h r c = Some (c', freed)" "owned_ok c'" "reshaped (case_nodes c) (case_nodes c')" by blast
    then show ?thesis using shape by (auto simp: x st settle_contest_def h settle_inv_def intro: reshaped_trans)
  qed
qed

lemma prune_owned: "owned_ok c \<Longrightarrow> owned_ok (fold (\<lambda>path c. prune_abandoned_nodes c path) ps c)"
  by (induction ps arbitrary: c) (simp_all add: owned_ok_def prune_chained prune_roots_unique)

lemma anchoring_returns:
  assumes ok: "owned_ok c"
  shows "\<exists>c' m'. anchor_hypotheses turn created refs (c, m) = Some (c', m') \<and> owned_ok c'"
proof -
  have "anchor_inv c (c, [], [])" using ok by (simp add: anchor_inv_def roots_known_def)
  then have "\<exists>st. option_fold (anchor_hypothesis turn created) refs (c, [], []) = Some st \<and> anchor_inv c st"
    by (rule option_fold_total) (rule anchor_step)
  then obtain c1 abandoned contested where
    1: "option_fold (anchor_hypothesis turn created) refs (c, [], []) = Some (c1, abandoned, contested)"
      "owned_ok c1" "roots_known c1 contested"
    unfolding anchor_inv_def by auto
  have "settle_inv c1 (c1, abandoned, m)" using 1(2) by (simp add: settle_inv_def)
  moreover have "\<exists>n. dict_get (case_nodes c1) (snd x) = Some n \<and> node_type n = ROOT" if "x \<in> set contested" for x
    using 1(3) that by (auto simp: roots_known_def list_all_iff)
  ultimately have "\<exists>st. option_fold (settle_contest turn) contested (c1, abandoned, m) = Some st \<and> settle_inv c1 st"
    using option_fold_total [of "settle_inv c1" _ contested "settle_contest turn"] settle_step by blast
  then obtain c2 abandoned' m' where
    "option_fold (settle_contest turn) contested (c1, abandoned, m) = Some (c2, abandoned', m')" "owned_ok c2"
    unfolding settle_inv_def by auto
  then show ?thesis using prune_owned by (simp add: anchor_hypotheses_def 1(1))
qed

section \<open>Verdicts and mirrored support\<close>

lemma verdict_on_root_nodes:
  assumes "record_verdict_on_root h v basis (c, m) = (c', m')"
  shows "\<exists>nodes. c' = c\<lparr>case_nodes := nodes\<rparr> \<and> remeta (case_nodes c) nodes"
proof (cases "c' = c")
  case True
  then show ?thesis using remeta_refl by (intro exI [of _ "case_nodes c"]) simp
next
  case False
  let ?k = "or_empty (hyp_root h)"
  obtain n where n: "dict_get (case_nodes c) ?k = Some n"
    using False assms by (auto simp: record_verdict_on_root_def Let_def split: option.splits)
  have "\<exists>n'. c' = put_node ?k n' c \<and> meta_only n n'"
    using False assms n
    by (auto simp: record_verdict_on_root_def Let_def record_root_terminal_def split: if_splits prod.splits)
  then obtain n' where "c' = put_node ?k n' c" "meta_only n n'" by blast
  with remeta_put [OF n] show ?thesis by (auto simp: put_node_def)
qed

text \<open>Only metadata of nodes changes, in a step and in a fold of such steps.\<close>

definition remetas :: "case_data \<Rightarrow> case_data \<Rightarrow> bool" where
  "remetas c c' \<longleftrightarrow> (\<exists>nodes. c' = c\<lparr>case_nodes := nodes\<rparr> \<and> remeta (case_nodes c) nodes)"

lemma remetas_refl [simp]: "remetas c c"
  unfolding remetas_def using remeta_refl by (intro exI [of _ "case_nodes c"]) simp

lemma remetas_fold:
  assumes "\<And>x st. remetas (fst st) (fst (f x st))"
  shows "remetas (fst st) (fst (fold f xs st))"
proof (induction xs arbitrary: st)
  case (Cons x xs)
  obtain nodes where n: "fst (f x st) = (fst st)\<lparr>case_nodes := nodes\<rparr>" "remeta (case_nodes (fst st)) nodes"
    using assms [of st x] unfolding remetas_def by blast
  obtain nodes' where "fst (fold f xs (f x st)) = (fst (f x st))\<lparr>case_nodes := nodes'\<rparr>" "remeta nodes nodes'"
    using Cons.IH [of "f x st"] n(1) unfolding remetas_def by auto
  with n remeta_trans [OF n(2)] show ?case unfolding remetas_def by (intro exI [of _ nodes']) simp
qed simp

lemma verdict_remetas: "remetas c (fst (record_verdict_on_root h v basis (c, m)))"
  unfolding remetas_def by (rule verdict_on_root_nodes) (rule prod.collapse [symmetric])

lemma apply_verdict_remetas: "remetas (fst st) (fst (apply_verdict created refs x st))"
  using verdict_remetas by (cases x; cases st) (simp add: apply_verdict_def split: option.split)

lemma pending_verdict_remetas: "remetas (fst st) (fst (apply_pending_verdict x st))"
  using verdict_remetas by (cases x; cases st) (simp add: apply_pending_verdict_def split: option.split)

lemma owned_remetas: "owned_ok c \<Longrightarrow> remetas c c' \<Longrightarrow> owned_ok c'"
  unfolding remetas_def using owned_reshaped remeta_reshaped by blast

text \<open>The mirror relates the nodes by whatever is closed under replacing the links of a node.\<close>

lemma mirror_related:
  assumes m: "mirror_hypothesis_support_to_root_nodes c turn = Inr (c', j)"
    and refl: "\<And>ns. R ns ns" and trans: "\<And>a b d. R a b \<Longrightarrow> R b d \<Longrightarrow> R a d"
    and put: "\<And>ns k n ls. dict_get ns k = Some n \<Longrightarrow> R ns (dict_put k (n\<lparr>node_links := ls\<rparr>) ns)"
  shows "\<exists>nodes. c' = c\<lparr>case_nodes := nodes\<rparr> \<and> R (case_nodes c) nodes"
proof (cases "case_hypotheses c = [] \<or> case_nodes c = []")
  case True
  then show ?thesis using m refl by (intro exI [of _ "case_nodes c"]) (auto simp: mirror_hypothesis_support_to_root_nodes_def)
next
  case False
  then obtain nodes where f: "try_fold (mirror_hypothesis (evidence_category_map c) turn)
      (dict_values (case_hypotheses c)) (case_nodes c, 0) = Inr (nodes, j)" "c' = c\<lparr>case_nodes := nodes\<rparr>"
    using m by (auto simp: mirror_hypothesis_support_to_root_nodes_def split: sum.splits)
  have "R (case_nodes c) (fst (nodes, j))"
  proof (rule try_fold_invariant [OF f(1), of "\<lambda>st. R (case_nodes c) (fst st)"])
    fix h st st'
    assume i: "R (case_nodes c) (fst st)" and s: "mirror_hypothesis (evidence_category_map c) turn h st = Inr st'"
    have "R (fst st) (fst st')"
      using s put [of "fst st" "or_empty (hyp_root h)"] refl
      by (cases st) (auto simp: mirror_hypothesis_def split: if_splits option.splits sum.splits prod.splits)
    with i show "R (case_nodes c) (fst st')" by (rule trans)
  qed (simp add: refl)
  then show ?thesis using f(2) by auto
qed

lemma mirror_nodes:
  "mirror_hypothesis_support_to_root_nodes c turn = Inr (c', j) \<Longrightarrow>
    \<exists>nodes. c' = c\<lparr>case_nodes := nodes\<rparr> \<and> reshaped (case_nodes c) nodes"
  by (erule mirror_related) (auto intro: reshaped_trans reshaped_put)

lemma owned_conclusion: "owned_ok (c\<lparr>case_conclusion := r\<rparr>) = owned_ok c"
  by (simp add: owned_ok_def chained_def graph_ok_def anchors_ok_def chains_ok_def chain_ok_def [abs_def] edge_rel_def roots_unique_def)

lemma owned_named: "owned_ok (resolve_conclusion_name created authored c) = owned_ok c"
  by (auto simp: resolve_conclusion_name_def owned_conclusion split: option.split)

section \<open>What a terminal verdict cites\<close>

definition cited_rows :: "causal_node \<Rightarrow> string set" where
  "cited_rows n = set (meta_list (dict_get (node_metadata n) ''root_terminal_evidence_ids''))"

text \<open>A row that can show that nothing controllable produces the state of a root, first posited at \<open>t\<close>.\<close>

definition shows_terminal :: "evidence list \<Rightarrow> int \<Rightarrow> string \<Rightarrow> bool" where
  "shows_terminal rows t ref \<longleftrightarrow> (\<exists>row \<in> set rows. ev_id row = ref \<and> ev_category row = CAUSAL_EVIDENCE
     \<and> ev_collected_by row \<noteq> ENGINE_EVIDENCE_AUTHOR \<and> ev_collected_at_turn row \<ge> t)"

definition earned :: "evidence list \<Rightarrow> causal_node \<Rightarrow> causal_node \<Rightarrow> bool" where
  "earned rows n n' \<longleftrightarrow> root_first_attached_turn n' = root_first_attached_turn n
     \<and> (root_terminal n' = Some True \<longrightarrow>
         (cited_rows n' \<noteq> {} \<or> root_terminal n = Some True \<and> cited_rows n = {})
         \<and> (\<forall>ref \<in> cited_rows n'. root_terminal n = Some True \<and> ref \<in> cited_rows n
              \<or> shows_terminal rows (root_first_attached_turn n) ref))"

lemma earned_refl [simp]: "earned rows n n"
  by (auto simp: earned_def)

lemma earned_trans: "earned rows a b \<Longrightarrow> earned rows b d \<Longrightarrow> earned rows a d"
  unfolding earned_def by (metis (no_types, lifting))

lemma rows_by_id_row: "dict_get (rows_by_id c) ref = Some row \<Longrightarrow> row \<in> set (case_evidence c) \<and> ev_id row = ref"
proof -
  have "dict_get (fold (\<lambda>e d. dict_put (ev_id e) e d) es d) ref = Some row \<Longrightarrow>
      (row \<in> set es \<and> ev_id row = ref) \<or> dict_get d ref = Some row" for es d
    by (induction es arbitrary: d) (fastforce split: if_splits)+
  from this [of "case_evidence c" "[]"]
  show "dict_get (rows_by_id c) ref = Some row \<Longrightarrow> ?thesis" by (simp add: rows_by_id_def)
qed

lemma terminal_basis_shows:
  assumes "terminal_basis c n basis = (kept, refused)" "ref \<in> set kept"
  shows "shows_terminal (case_evidence c) (root_first_attached_turn n) ref"
proof -
  have "basis_refusal_of c n ref = None" using assms by (auto simp: terminal_basis_def Let_def)
  then obtain row where "dict_get (rows_by_id c) ref = Some row" "ev_category row = CAUSAL_EVIDENCE"
    "ev_collected_by row \<noteq> ENGINE_EVIDENCE_AUTHOR" "ev_collected_at_turn row \<ge> root_first_attached_turn n"
    by (auto simp: basis_refusal_of_def split: option.splits if_splits)
  then show ?thesis using rows_by_id_row unfolding shows_terminal_def by blast
qed

lemma record_cited [simp]:
  "cited_rows (record_root_terminal True (Some ids) t n) = set ids"
  "root_first_attached_turn (record_root_terminal v b t n) = root_first_attached_turn n"
  by (simp_all add: cited_rows_def meta_list_def record_root_terminal_def root_first_attached_turn_def root_attached_turn_def
      split: option.split)

lemma earned_record_false: "earned rows n (record_root_terminal False b t n)"
  by (simp add: earned_def root_terminal_record)

lemma earned_record_true:
  assumes "\<And>ref. ref \<in> set ids \<Longrightarrow> root_terminal n = Some True \<and> ref \<in> cited_rows n
      \<or> shows_terminal rows (root_first_attached_turn n) ref" "ids \<noteq> []"
  shows "earned rows n (record_root_terminal True (Some ids) t n)"
  using assms by (simp add: earned_def)

lemma earned_note: "earned rows n (n\<lparr>node_metadata := dict_put ''root_terminal_refused_turn'' v (node_metadata n)\<rparr>)"
proof -
  let ?n = "n\<lparr>node_metadata := dict_put ''root_terminal_refused_turn'' v (node_metadata n)\<rparr>"
  have "root_terminal ?n = root_terminal n" "cited_rows ?n = cited_rows n"
    "root_first_attached_turn ?n = root_first_attached_turn n"
    by (simp_all add: root_terminal_def cited_rows_def root_first_attached_turn_def root_attached_turn_def split: option.split)
  then show ?thesis unfolding earned_def by auto
qed

lemma verdict_on_root_earned:
  assumes "record_verdict_on_root h v basis (c, m) = (c', m')"
  shows "c' = c \<or> (\<exists>k n n'. dict_get (case_nodes c) k = Some n \<and> c' = put_node k n' c \<and> earned (case_evidence c) n n')"
proof (cases "\<exists>n. dict_get (case_nodes c) (or_empty (hyp_root h)) = Some n \<and> node_type n = ROOT")
  case False
  then show ?thesis using assms by (auto simp: record_verdict_on_root_def Let_def split: option.splits)
next
  case True
  let ?k = "or_empty (hyp_root h)"
  obtain n where n: "dict_get (case_nodes c) ?k = Some n" "node_type n = ROOT" using True by blast
  obtain kept refused where b: "terminal_basis c n basis = (kept, refused)" by fastforce
  define standing where "standing = (if root_terminal n = Some True
    then meta_list (dict_get (node_metadata n) ''root_terminal_evidence_ids'') else [])"
  define ids where "ids = standing @ filter (\<lambda>ref. ref \<notin> set standing) kept"
  have stood: "root_terminal n = Some True \<and> ref \<in> cited_rows n" if "ref \<in> set standing" for ref
    using that by (auto simp: standing_def cited_rows_def split: if_splits)
  have refs: "root_terminal n = Some True \<and> ref \<in> cited_rows n
      \<or> shows_terminal (case_evidence c) (root_first_attached_turn n) ref" if "ref \<in> set ids" for ref
    using that stood terminal_basis_shows [OF b] by (auto simp: ids_def)
  have ids: "ids \<noteq> []" if "kept \<noteq> [] \<or> standing \<noteq> []" using that by (auto simp: ids_def)
  note run = assms [unfolded record_verdict_on_root_def Let_def prod.case n(1) option.case b, folded standing_def, folded ids_def]
  consider "c' = c" | "c' = put_node ?k (record_root_terminal False None (case_current_turn c) n) c"
    | "c' = put_node ?k (record_root_terminal True (Some ids) (case_current_turn c) n) c" "kept \<noteq> [] \<or> standing \<noteq> []"
    | "c' = put_node ?k (n\<lparr>node_metadata := dict_put ''root_terminal_refused_turn'' (MInt (case_current_turn c)) (node_metadata n)\<rparr>) c"
    using run n(2) by (auto split: if_splits)
  then show ?thesis
  proof cases
    case 3
    then show ?thesis using n(1) earned_record_true [OF refs ids] by blast
  qed (use n(1) earned_record_false earned_note in blast)+
qed

definition earned_case :: "case_data \<Rightarrow> case_data \<Rightarrow> bool" where
  "earned_case c c' \<longleftrightarrow> case_evidence c' = case_evidence c \<and> (\<forall>k n'. dict_get (case_nodes c') k = Some n' \<longrightarrow>
     (\<exists>n. dict_get (case_nodes c) k = Some n \<and> earned (case_evidence c) n n'))"

lemma earned_case_refl [simp]: "earned_case c c"
  by (auto simp: earned_case_def)

lemma earned_case_trans: "earned_case a b \<Longrightarrow> earned_case b d \<Longrightarrow> earned_case a d"
  unfolding earned_case_def using earned_trans by metis

lemma verdict_on_root_case: "earned_case c (fst (record_verdict_on_root h v basis (c, m)))"
proof -
  obtain c' m' where r: "record_verdict_on_root h v basis (c, m) = (c', m')" by fastforce
  from verdict_on_root_earned [OF r] show ?thesis
    by (auto simp: r earned_case_def put_node_def split: if_splits)
qed

lemma verdict_pass_earned: "earned_case (fst st) (fst (fold (apply_verdict created refs) vs st))"
proof (induction vs arbitrary: st)
  case (Cons x vs)
  have "earned_case (fst st) (fst (apply_verdict created refs x st))"
    using verdict_on_root_case by (cases x; cases st) (simp add: apply_verdict_def split: option.split)
  with Cons.IH [of "apply_verdict created refs x st"] show ?case by (auto intro: earned_case_trans)
qed simp

section \<open>Properties\<close>

lemma ingest_owned:
  assumes ok: "owned_ok c" and fresh: "fresh_ids new_id (case_nodes c)"
    and ing: "ingest_emitted_chain new_id c ns es ls turn slots sinks = Inr r"
  shows "owned_ok (ing_case r)"
proof -
  have graph: "graph_ok c" using ok by (simp add: owned_ok_def chained_def)
  note i = ingest_keeps [OF graph fresh ing, unfolded ingest_ok_def Let_def]
  have hyps: "case_hypotheses (ing_case r) = case_hypotheses c"
    using i unfolding same_rest_def by (metis case_data.select_convs(4) case_data.surjective case_data.update_convs(1,2))
  have "chained (ing_case r)"
  proof (rule chained_grows)
    show "chained c" using ok by (simp add: owned_ok_def)
    show "graph_ok (ing_case r)" "edge_rel c \<subseteq> edge_rel (ing_case r)" using i edges_grow_rel by blast+
    show "\<exists>n'. dict_get (case_nodes (ing_case r)) k = Some n' \<and> node_type n' = node_type n"
      if "dict_get (case_nodes c) k = Some n" for k n
      using i that relinked_same by metis
    show "\<exists>p'. problem_node (case_nodes (ing_case r)) = Some p' \<and> node_id p' = node_id p"
      if "problem_node (case_nodes c) = Some p" for p
      by (rule ingest_problem [OF graph fresh that ing])
  qed (rule hyps)
  then show ?thesis using ok by (simp add: owned_ok_def roots_unique_def hyps)
qed

lemma orphans_owned:
  assumes "owned_ok c"
  shows "\<exists>c' amb. resolve_orphan_chains c t = Some (c', amb) \<and> owned_ok c'"
proof -
  have ch: "chained c" using assms by (simp add: owned_ok_def)
  obtain c' adopted amb ref where
    "option_fold (resolve_orphan (case t of None \<Rightarrow> case_current_turn c | Some t \<Rightarrow> t)) (orphan_root_ids c)
       (c, {}, [], referenced_node_ids c) = Some (c', adopted, amb, ref)" "orphan_pass_ok c (c', adopted, amb, ref)"
    using orphan_pass_end [OF ch] by blast
  moreover then have "owned_ok c'" using assms by (simp add: orphan_pass_ok_def owned_ok_def)
  ultimately show ?thesis using assms unfolding resolve_orphan_chains_def Let_def by auto
qed

lemma nudge_owned:
  assumes "owned_ok (fst st)"
  shows "\<exists>c' m'. nudge_ambiguous_orphan_chains st = Some (c', m') \<and> owned_ok c'"
proof -
  obtain c m where st: "st = (c, m)" by (cases st)
  obtain c1 amb where 1: "resolve_orphan_chains c (Some (emission_turn c m)) = Some (c1, amb)" "owned_ok c1"
    using orphans_owned [of c "Some (emission_turn c m)"] assms by (auto simp: st)
  obtain c2 m2 where 2: "fold apply_pending_verdict (tm_pending_verdicts m) (c1, m\<lparr>tm_pending_verdicts := []\<rparr>) = (c2, m2)"
    by fastforce
  have "owned_ok (fst (fold apply_pending_verdict (tm_pending_verdicts m) (c1, m\<lparr>tm_pending_verdicts := []\<rparr>)))"
    by (rule owned_remetas [OF _ remetas_fold [of apply_pending_verdict]]) (simp_all add: 1(2) pending_verdict_remetas)
  then show ?thesis by (simp add: nudge_ambiguous_orphan_chains_def st 1(1) 2)
qed

lemma chain_pass_owned:
  assumes ok: "owned_ok c" and fresh: "fresh_ids new_id (case_nodes c)"
  shows "\<exists>out. apply_chain_emission new_id pc em (c, m) = Some out
    \<and> (\<forall>st. out = Inr st \<longrightarrow> owned_ok (fst st))"
proof -
  obtain em' refs vs m1 where g: "gate_chain pc em m = (em', refs, vs, m1)" by (metis prod_cases4)
  show ?thesis
  proof (cases "ingest_emitted_chain new_id c (em_nodes em') (em_edges em') (em_node_links em') (emission_turn c m1)
      (map Some (tm_evidence_slots m1)) (tm_sinks m1)")
    case (Inl e)
    then show ?thesis by (simp add: apply_chain_emission_def g)
  next
    case (Inr r)
    let ?m = "m1\<lparr>tm_sinks := ing_sinks r, tm_created_nodes := ing_created r\<rparr>"
    obtain c2 m2 where a: "anchor_hypotheses (emission_turn c m1) (ing_created r) refs (ing_case r, ?m) = Some (c2, m2)" "owned_ok c2"
      using anchoring_returns [OF ingest_owned [OF ok fresh Inr], of "emission_turn c m1" "ing_created r" refs ?m] by blast
    obtain c3 m3 where v: "fold (apply_verdict (ing_created r) refs) vs (c2, m2\<lparr>tm_pending_verdicts := []\<rparr>) = (c3, m3)"
      by fastforce
    have "remetas (fst (c2, m2\<lparr>tm_pending_verdicts := []\<rparr>)) (fst (c3, m3))"
      unfolding v [symmetric] by (rule remetas_fold) (rule apply_verdict_remetas)
    then have "owned_ok c3" using owned_remetas [OF a(2)] by simp
    show ?thesis
    proof (cases "mirror_hypothesis_support_to_root_nodes c3 (case_current_turn c3)")
      case (Inl e)
      then show ?thesis by (simp add: apply_chain_emission_def g Inr a(1) v Let_def)
    next
      case mir: (Inr x)
      obtain c4 k where x: "x = (c4, k)" by (cases x)
      have "owned_ok c4"
        using mirror_nodes [OF mir [unfolded x]] owned_reshaped [OF \<open>owned_ok c3\<close>] by blast
      then show ?thesis
        by (simp add: apply_chain_emission_def g Inr a(1) v mir x Let_def owned_named)
    qed
  qed
qed

text \<open>C14: One cause, one chain, for a whole turn: on a case whose hypotheses are anchored on the graph, each
  root owned by one of them, the chain pass returns for any emission (it never hangs in a path walk or
  asks for a node that is not there), and unless a constructor rejects the emission the orphan pass
  returns after it; after both the graph is well-formed, every hypothesis is anchored on existing
  nodes, its path leads along recorded edges to the problem, and no two hypotheses share a root.\<close>

theorem chain_passes_keep_one_owner:
  assumes "chained c" "roots_unique c" "fresh_ids new_id (case_nodes c)"
  shows "\<exists>out. apply_chain_emission new_id pc em (c, m) = Some out \<and>
    (case out of Inl _ \<Rightarrow> True
     | Inr (c', m') \<Rightarrow> chained c' \<and> roots_unique c'
         \<and> (\<exists>c'' m''. nudge_ambiguous_orphan_chains (c', m') = Some (c'', m'') \<and> chained c'' \<and> roots_unique c''))"
proof -
  have "owned_ok c" using assms by (simp add: owned_ok_def)
  from chain_pass_owned [OF this assms(3)] obtain out where
    out: "apply_chain_emission new_id pc em (c, m) = Some out" "\<And>st. out = Inr st \<Longrightarrow> owned_ok (fst st)" by blast
  show ?thesis
  proof (cases out)
    case (Inr st)
    with nudge_owned [of st] out show ?thesis by (cases st) (auto simp: owned_ok_def)
  qed (use out(1) in simp)
qed

text \<open>C15: Calling a root the end of the why takes evidence: after the verdicts of a turn are applied, a root
  that reads terminal cites at least one row (unless it already read so citing none), and every row it
  cites either stood for that verdict before or is causal evidence on record, not the engine's own,
  collected at or after the turn the root was first posited.\<close>

theorem terminal_verdict_cites_evidence:
  assumes "fold (apply_verdict created refs) vs (c, m) = (c', m')"
    and "dict_get (case_nodes c') k = Some n'" "root_terminal n' = Some True"
  shows "\<exists>n. dict_get (case_nodes c) k = Some n
    \<and> (cited_rows n' \<noteq> {} \<or> root_terminal n = Some True \<and> cited_rows n = {})
    \<and> (\<forall>ref \<in> cited_rows n'. root_terminal n = Some True \<and> ref \<in> cited_rows n
        \<or> (\<exists>row \<in> set (case_evidence c). ev_id row = ref \<and> ev_category row = CAUSAL_EVIDENCE
              \<and> ev_collected_by row \<noteq> ENGINE_EVIDENCE_AUTHOR \<and> ev_collected_at_turn row \<ge> root_first_attached_turn n))"
proof -
  have "earned_case c c'" using verdict_pass_earned [of "(c, m)" created refs vs] by (simp add: assms(1))
  then obtain n where "dict_get (case_nodes c) k = Some n" "earned (case_evidence c) n n'"
    using assms(2) unfolding earned_case_def by blast
  then show ?thesis using assms(3) unfolding earned_def shows_terminal_def by blast
qed

section \<open>Refused work\<close>

text \<open>Nodes that change only in their links.\<close>

definition linked_only :: "(string, causal_node) pydict \<Rightarrow> (string, causal_node) pydict \<Rightarrow> bool" where
  "linked_only nodes nodes' \<longleftrightarrow> dict_keys nodes' = dict_keys nodes \<and> (\<forall>k n. dict_get nodes k = Some n \<longrightarrow>
     (\<exists>ls. dict_get nodes' k = Some (n\<lparr>node_links := ls\<rparr>)))"

lemma linked_only_refl [simp]: "linked_only nodes nodes"
  unfolding linked_only_def by (metis causal_node.surjective causal_node.update_convs(8))

lemma linked_only_trans: "linked_only a b \<Longrightarrow> linked_only b d \<Longrightarrow> linked_only a d"
  unfolding linked_only_def by fastforce

lemma linked_only_put:
  assumes "dict_get nodes k = Some n"
  shows "linked_only nodes (dict_put k (n\<lparr>node_links := ls\<rparr>) nodes)"
  using assms linked_only_refl [of nodes] dict_get_Some_key [OF assms] unfolding linked_only_def by auto

lemma mirror_links_only:
  "mirror_hypothesis_support_to_root_nodes c turn = Inr (c', j) \<Longrightarrow>
    \<exists>nodes. c' = c\<lparr>case_nodes := nodes\<rparr> \<and> linked_only (case_nodes c) nodes"
  by (erule mirror_related) (auto intro: linked_only_trans linked_only_put)

lemma links_ingest:
  assumes "ingest_emitted_chain new_id c [] [] ls turn slots sinks = Inr r"
  shows "\<exists>nodes0 nodes. ing_case r = c\<lparr>case_nodes := nodes\<rparr> \<and> linked_only nodes0 nodes
    \<and> (nodes0 = case_nodes c \<or> (\<exists>p. problem_node (case_nodes c) = None \<and> node_type p = PROBLEM
         \<and> nodes0 = dict_put (new_id 0) p (case_nodes c)))"
  using assms
proof (cases rule: ingest_cases)
  case unanchored
  then show ?thesis by (intro exI [of _ "case_nodes c"]) simp
next
  case (anchored c0 p nodes canonical st1 c2 events)
  have c2: "c2 = c0" using anchored(2-4) by auto
  obtain nodes0 where c0: "c0 = c\<lparr>case_nodes := nodes0\<rparr>" "nodes0 = case_nodes c \<or> (\<exists>p. problem_node (case_nodes c) = None
      \<and> node_type p = PROBLEM \<and> nodes0 = dict_put (new_id 0) p (case_nodes c))"
  proof (rule seed_cases [OF anchored(1)])
    assume "c0 = c"
    then show thesis using that [of "case_nodes c"] by simp
  qed (use that in blast)+
  let ?I = "\<lambda>st. \<exists>nodes. fst st = c\<lparr>case_nodes := nodes\<rparr> \<and> linked_only nodes0 nodes"
  have "?I (ing_case r, ing_events r, ing_sinks r)"
  proof (rule try_fold_invariant [OF anchored(5), of ?I])
    show "?I (c2, events, sinks)" using c0(1) c2 by auto
  next
    fix spec st st'
    assume i: "?I st" and s: "add_link (node_id p) (ing_created r) slots spec st = Inr st'"
    obtain c1 ev si c1' ev' si' where st: "st = (c1, ev, si)" "st' = (c1', ev', si')" by (cases st, cases st')
    obtain ns where ns: "c1 = c\<lparr>case_nodes := ns\<rparr>" "linked_only nodes0 ns" using i st by auto
    from s [unfolded st] show "?I st'"
    proof (cases rule: add_link_cases)
      case kept
      then show ?thesis using i st by simp
    next
      case (written nid node fresh)
      then show ?thesis using ns linked_only_trans [OF ns(2) linked_only_put] by (auto simp: st)
    qed
  qed
  then show ?thesis using c0(2) by auto
qed

text \<open>A link that names a standing node by its id and a row on record that a link may cite, with a stance
  and with no confidence set aside; and a node that has a link to a row.\<close>

definition names_link :: "case_data \<Rightarrow> string option list \<Rightarrow> link_spec \<Rightarrow> string \<Rightarrow> string \<Rightarrow> bool" where
  "names_link c slots spec k e \<longleftrightarrow> ls_node_ref spec = Some k \<and> k \<in> set (dict_keys (case_nodes c))
     \<and> k \<noteq> [] \<and> k \<noteq> ''D'' \<and> \<not> is_slot_ref k
     \<and> resolve_evidence_ref slots (or_else (ls_evidence_id spec) (ls_evidence_id_ref spec)) = Some e
     \<and> e \<in> set (map ev_id (case_evidence c)) \<and> \<not> absence_row_link_refused (dict_get (evidence_category_map c) e)
     \<and> ls_stance spec \<noteq> None \<and> ls_set_aside spec = None"

definition links_row :: "(string, causal_node) pydict \<Rightarrow> string \<Rightarrow> string \<Rightarrow> bool" where
  "links_row nodes k e \<longleftrightarrow> (\<exists>n. dict_get nodes k = Some n \<and> e \<in> row_ids (node_links n))"

lemma upsert_rows: "row_ids (upsert_link fresh ls) = insert (link_evidence_id fresh) (row_ids ls)"
proof (cases "list_ex (for_evidence (link_evidence_id fresh)) ls")
  case True
  have "map link_evidence_id (update_first (for_evidence (link_evidence_id fresh)) (\<lambda>_. fresh) ls) = map link_evidence_id ls"
    by (rule map_update_first) (simp add: for_evidence_def)
  then have "row_ids (upsert_link fresh ls) = row_ids ls" using True by (simp add: row_ids_def upsert_link_def)
  moreover have "link_evidence_id fresh \<in> row_ids ls"
    using True unfolding row_ids_def by (auto simp: list_ex_iff for_evidence_def) (metis image_eqI)
  ultimately show ?thesis by blast
qed (auto simp: upsert_link_def row_ids_def)

lemma links_row_more: "more_rows nodes nodes' \<Longrightarrow> set (dict_keys nodes) \<subseteq> set (dict_keys nodes') \<Longrightarrow>
    links_row nodes k e \<Longrightarrow> links_row nodes' k e"
  unfolding more_rows_def links_row_def by (metis dict_get_Some_key dict_key_get option.inject subsetD)

lemma links_row_put:
  "links_row nodes k e \<Longrightarrow> dict_get nodes j = Some n \<Longrightarrow>
     links_row (dict_put j (n\<lparr>node_links := upsert_link fresh (node_links n)\<rparr>) nodes) k e"
  by (auto simp: links_row_def upsert_rows)

lemma set_aside_none: "settle_set_aside_link schema None stance stored loc sinks = (None, sinks)"
  by (cases sinks) (simp add: settle_set_aside_link_def)

lemma write_link_lands:
  assumes "write_link spec k n e stance (c1, ev, sinks) = Inr (c2, ev', sinks')" "ls_set_aside spec = None"
  shows "links_row (case_nodes c2) k e"
proof -
  obtain q where q: "written_confidence (find (for_evidence e) (node_links n)) (ls_confidence spec) None = Some q"
    by (simp add: written_confidence_def Let_def)
  define new where "new = new_link e stance
      (if truthy (ls_reasoning spec) then or_empty (ls_reasoning spec) else ''node evidence'') q 0"
  obtain fresh where "new = Inr fresh"
      "c2 = c1\<lparr>case_nodes := dict_put k (n\<lparr>node_links := upsert_link fresh (node_links n)\<rparr>) (case_nodes c1)\<rparr>"
    using assms(1) unfolding write_link_def assms(2) set_aside_none prod.case Let_def q option.case new_def [symmetric]
    by (auto split: sum.splits)
  moreover from this have "link_evidence_id fresh = e" unfolding new_def new_link_Inr by auto
  ultimately show ?thesis by (auto simp: links_row_def upsert_rows)
qed

lemma add_link_lands:
  assumes "add_link d created slots spec (c1, ev, sinks) = Inr (c2, ev', sinks')"
    and "names_link c slots spec k e" "c1 = c\<lparr>case_nodes := nodes\<rparr>" "k \<in> set (dict_keys nodes)"
  shows "links_row (case_nodes c2) k e"
proof -
  from dict_key_get [OF assms(4)] obtain n where n: "dict_get nodes k = Some n" by (elim exE)
  obtain stance where st: "ls_stance spec = Some stance" using assms(2) by (auto simp: names_link_def)
  have cat: "evidence_category_map c1 = evidence_category_map c" by (simp add: assms(3) evidence_category_map_def)
  have "write_link spec k n e stance (c1, ev, sinks) = Inr (c2, ev', sinks')"
    using assms(1,2) n st cat
    by (simp add: add_link_def names_link_def resolve_ref_def truthy_def assms(3) Let_def)
  moreover have "ls_set_aside spec = None" using assms(2) unfolding names_link_def by blast
  ultimately show ?thesis by (rule write_link_lands)
qed

lemma ingest_links_land:
  assumes "ingest_emitted_chain new_id c [] [] ls turn slots sinks = Inr r"
    and "problem_node (case_nodes c) \<noteq> None" "spec \<in> set ls" "names_link c slots spec k e"
  shows "links_row (case_nodes (ing_case r)) k e"
  using assms(1)
proof (cases rule: ingest_cases)
  case unanchored
  then show ?thesis using assms(2) by (auto simp: seed_problem_node_def)
next
  case (anchored c0 p nodes canonical st1 c2 events)
  have c2: "c2 = c" using anchored(1-4) assms(2) by (auto simp: seed_problem_node_def)
  let ?I = "\<lambda>st. \<exists>ns. fst st = c\<lparr>case_nodes := ns\<rparr> \<and> set (dict_keys ns) = set (dict_keys (case_nodes c))"
  let ?Q = "\<lambda>spec st. \<forall>k e. names_link c slots spec k e \<longrightarrow> links_row (case_nodes (fst st)) k e"
  have "?I (ing_case r, ing_events r, ing_sinks r) \<and> (\<forall>spec \<in> set ls. ?Q spec (ing_case r, ing_events r, ing_sinks r))
      \<and> (\<forall>spec. ?Q spec (c, events, sinks) \<longrightarrow> ?Q spec (ing_case r, ing_events r, ing_sinks r))"
  proof (rule try_fold_establishes [OF anchored(5) [unfolded c2], where I = ?I and Q = ?Q])
    show "?I (c, events, sinks)" by (intro exI [of _ "case_nodes c"]) simp
  next
    fix spec st st'
    assume i: "?I st" and s: "add_link (node_id p) (ing_created r) slots spec st = Inr st'"
    obtain c1 ev si c1' ev' si' where st: "st = (c1, ev, si)" "st' = (c1', ev', si')" by (cases st, cases st')
    obtain ns where ns: "c1 = c\<lparr>case_nodes := ns\<rparr>" "set (dict_keys ns) = set (dict_keys (case_nodes c))" using i st by auto
    have "?I st'"
      using s [unfolded st]
    proof (cases rule: add_link_cases)
      case (written nid node fresh)
      then show ?thesis using ns dict_get_Some_key [of ns nid] by (auto simp: st)
    qed (use i st in simp)
    moreover have "?Q spec st'"
      using add_link_lands [OF s [unfolded st] _ ns(1)] ns(2) by (auto simp: st names_link_def)
    ultimately show "?I st' \<and> ?Q spec st'" ..
    show "?Q y st'" if q: "?Q y st" for y
      using s [unfolded st]
    proof (cases rule: add_link_cases)
      case (written nid node fresh)
      then show ?thesis using q links_row_put by (auto simp: st)
    qed (use q st in simp)
  qed
  then show ?thesis using assms(3,4) by simp
qed

lemma more_rows_trans:
  assumes "more_rows a b" "more_rows b d"
  shows "more_rows a d"
  unfolding more_rows_def
proof (intro allI impI)
  fix k n'
  assume "dict_get d k = Some n'"
  with assms(2) obtain n1 where 1: "dict_get b k = Some n1" "node_type n' = node_type n1"
      "row_ids (node_links n1) \<subseteq> row_ids (node_links n')"
    unfolding more_rows_def by blast
  from assms(1) 1(1) obtain n where "dict_get a k = Some n" "node_type n1 = node_type n"
      "row_ids (node_links n) \<subseteq> row_ids (node_links n1)"
    unfolding more_rows_def by blast
  with 1 show "\<exists>n. dict_get a k = Some n \<and> node_type n' = node_type n \<and> row_ids (node_links n) \<subseteq> row_ids (node_links n')"
    by (intro exI [of _ n]) auto
qed

lemma mirror_more_rows:
  assumes "mirror_hypothesis_support_to_root_nodes c turn = Inr (c', j)"
  shows "more_rows (case_nodes c) (case_nodes c')"
proof (cases "case_hypotheses c = [] \<or> case_nodes c = []")
  case True
  then show ?thesis using assms by (auto simp: mirror_hypothesis_support_to_root_nodes_def more_rows_def)
next
  case False
  then obtain nodes where f: "try_fold (mirror_hypothesis (evidence_category_map c) turn)
      (dict_values (case_hypotheses c)) (case_nodes c, 0) = Inr (nodes, j)" "c' = c\<lparr>case_nodes := nodes\<rparr>"
    using assms by (auto simp: mirror_hypothesis_support_to_root_nodes_def split: sum.splits)
  have "more_rows (case_nodes c) (fst (nodes, j))"
  proof (rule try_fold_invariant [OF f(1), of "\<lambda>st. more_rows (case_nodes c) (fst st)"])
    fix h st st'
    assume i: "more_rows (case_nodes c) (fst st)" and s: "mirror_hypothesis (evidence_category_map c) turn h st = Inr st'"
    have "more_rows (fst st) (fst st')" using s mirror_hypothesis_step by (cases st, cases st') auto
    with i show "more_rows (case_nodes c) (fst st')" by (rule more_rows_trans)
  qed (auto simp: more_rows_def)
  then show ?thesis by (simp add: f(2))
qed

lemma gate_refuses:
  assumes "\<not> cause_work_staged pc" "\<not> cause_work_accepted pc"
  obtains m1 where "gate_chain pc em m = (em\<lparr>em_nodes := [], em_edges := [], em_survivor_refs := []\<rparr>, [], [], m1)"
    "tm_survivors m1 = tm_survivors m" "tm_rcc_authored m1 = tm_rcc_authored m" "tm_replay_turn m1 = tm_replay_turn m"
    "tm_evidence_slots m1 = tm_evidence_slots m" "tm_sinks m1 = tm_sinks m"
  using assms that
  by (cases "em_nodes em \<noteq> [] \<or> em_edges em \<noteq> [] \<or> em_survivor_refs em \<noteq> [] \<or> tm_root_refs m \<noteq> [] \<or> tm_root_verdicts m \<noteq> []")
    (auto simp: gate_chain_def Let_def refuse_cause_work_def)

text \<open>A pass that gets nothing but links through the gate: they are ingested, the support of the
  hypotheses is mirrored, and the name of the conclusion is resolved.\<close>

lemma link_pass_run:
  assumes "gate_chain pc em m = (em', [], [], m1)" "em_nodes em' = []" "em_edges em' = []" "em_survivor_refs em' = []"
  shows "map_option (map_sum id fst) (apply_chain_emission new_id pc em (c, m)) =
    Some (case ingest_emitted_chain new_id c [] [] (em_node_links em') (emission_turn c m1)
        (map Some (tm_evidence_slots m1)) (tm_sinks m1) of
      Inl e \<Rightarrow> Inl e
    | Inr r \<Rightarrow> (case mirror_hypothesis_support_to_root_nodes (ing_case r) (case_current_turn (ing_case r)) of
        Inl e \<Rightarrow> Inl e
      | Inr (c4, _) \<Rightarrow> Inr (resolve_conclusion_name (ing_created r) (tm_rcc_authored m1) c4)))"
    and "apply_chain_emission new_id pc em (c, m) = Some (Inr (c', m')) \<Longrightarrow> tm_survivors m' = tm_survivors m1"
  using assms
  by (auto simp: apply_chain_emission_def Let_def anchor_hypotheses_def survivor_ids_def map_filter_def split: sum.splits)

text \<open>C18: Cause work on a problem that is not verified is refused whole: no hypothesis, no edge and no
  certified survivor changes, no node goes away, the nodes that stood differ at most in their evidence
  links, and the only node the pass may add is the problem the case was missing. The links onto
  standing nodes that came with the refused work still land: the case is left exactly as a turn leaves it
  that emits these links and nothing else on a verified problem; and where the case has its problem node,
  a node named by its id in a link with a stance, whose confidence was not set aside, is linked
  afterwards to the row the link cites, if that row is on record and is not an absence row.\<close>

theorem unverified_work_is_refused:
  assumes "\<not> cause_work_staged pc" "\<not> cause_work_accepted pc"
    and "new_id 0 \<notin> set (dict_keys (case_nodes c))"
    and "apply_chain_emission new_id pc em (c, m) = Some (Inr (c', m'))"
  shows "case_hypotheses c' = case_hypotheses c \<and> case_edges c' = case_edges c \<and> tm_survivors m' = tm_survivors m
    \<and> (\<forall>k n. dict_get (case_nodes c) k = Some n \<longrightarrow> (\<exists>ls. dict_get (case_nodes c') k = Some (n\<lparr>node_links := ls\<rparr>)))
    \<and> (\<forall>k n'. dict_get (case_nodes c') k = Some n' \<and> dict_get (case_nodes c) k = None \<longrightarrow>
         node_type n' = PROBLEM \<and> problem_node (case_nodes c) = None)
    \<and> (\<forall>pc'. cause_work_accepted pc' \<longrightarrow> (\<exists>m''.
         apply_chain_emission new_id pc' (em\<lparr>em_nodes := [], em_edges := [], em_survivor_refs := []\<rparr>)
           (c, m\<lparr>tm_root_refs := [], tm_root_verdicts := []\<rparr>) = Some (Inr (c', m''))))
    \<and> (problem_node (case_nodes c) \<noteq> None \<longrightarrow> (\<forall>spec \<in> set (em_node_links em). \<forall>k e.
         names_link c (map Some (tm_evidence_slots m)) spec k e \<longrightarrow> links_row (case_nodes c') k e))"
proof -
  let ?em = "em\<lparr>em_nodes := [], em_edges := [], em_survivor_refs := []\<rparr>" and ?slots = "map Some (tm_evidence_slots m)"
  obtain m1 where g: "gate_chain pc em m = (?em, [], [], m1)" "tm_survivors m1 = tm_survivors m"
    "tm_rcc_authored m1 = tm_rcc_authored m" "tm_replay_turn m1 = tm_replay_turn m"
    "tm_evidence_slots m1 = tm_evidence_slots m" "tm_sinks m1 = tm_sinks m"
    by (rule gate_refuses [OF assms(1,2)])
  have turn: "emission_turn c m1 = emission_turn c m" by (simp add: emission_turn_def g(4))
  note run = link_pass_run(1) [OF g(1), of new_id c, simplified, unfolded g(3,5,6) turn]
  obtain r where r: "ingest_emitted_chain new_id c [] [] (em_node_links em) (emission_turn c m) ?slots (tm_sinks m) = Inr r"
    using run assms(4) by (auto split: sum.splits)
  obtain c4 j where mir: "mirror_hypothesis_support_to_root_nodes (ing_case r) (case_current_turn (ing_case r)) = Inr (c4, j)"
    and c': "c' = resolve_conclusion_name (ing_created r) (tm_rcc_authored m) c4"
    using run assms(4) r by (auto split: sum.splits)
  have surv: "tm_survivors m' = tm_survivors m" using link_pass_run(2) [OF g(1) _ _ _ assms(4)] g(2) by simp
  obtain nodes0 nodes where n: "ing_case r = c\<lparr>case_nodes := nodes\<rparr>" "linked_only nodes0 nodes"
    and seed: "nodes0 = case_nodes c \<or> (\<exists>p. problem_node (case_nodes c) = None \<and> node_type p = PROBLEM
         \<and> nodes0 = dict_put (new_id 0) p (case_nodes c))"
    using links_ingest [OF r] by blast
  obtain nodes' where n': "c4 = (ing_case r)\<lparr>case_nodes := nodes'\<rparr>" "linked_only nodes nodes'"
    using mirror_links_only [OF mir] n(1) by auto
  have frame: "case_hypotheses c' = case_hypotheses c" "case_edges c' = case_edges c" "case_nodes c' = nodes'"
    using n(1) n'(1) c' by (auto simp: resolve_conclusion_name_def split: option.split)
  have l: "linked_only nodes0 nodes'" by (rule linked_only_trans [OF n(2) n'(2)])
  have old: "dict_get nodes0 k = Some n" if "dict_get (case_nodes c) k = Some n" for k n
    using that seed dict_get_Some_key [OF that] assms(3) by auto
  have new: "node_type n' = PROBLEM \<and> problem_node (case_nodes c) = None"
    if "dict_get nodes' k = Some n'" "dict_get (case_nodes c) k = None" for k n'
  proof -
    have "k \<in> set (dict_keys nodes0)" using dict_get_Some_key [OF that(1)] l by (simp add: linked_only_def)
    from dict_key_get [OF this] obtain n0 where n0: "dict_get nodes0 k = Some n0" by (elim exE)
    with l obtain ls where "dict_get nodes' k = Some (n0\<lparr>node_links := ls\<rparr>)" unfolding linked_only_def by blast
    with that(1) have n': "n' = n0\<lparr>node_links := ls\<rparr>" by simp
    have "node_type n0 = PROBLEM \<and> problem_node (case_nodes c) = None"
      using seed n0 that(2) by (auto split: if_splits)
    then show ?thesis by (simp add: n')
  qed
  have same: "\<exists>m''. apply_chain_emission new_id pc' ?em (c, m\<lparr>tm_root_refs := [], tm_root_verdicts := []\<rparr>) = Some (Inr (c', m''))"
    if "cause_work_accepted pc'" for pc'
  proof -
    let ?m = "m\<lparr>tm_root_refs := [], tm_root_verdicts := []\<rparr>"
    have "gate_chain pc' ?em ?m = (?em, [], [], ?m)"
      using that by (simp add: gate_chain_def cause_work_staged_def cause_work_accepted_def)
    from link_pass_run(1) [OF this, of new_id c, simplified] r mir c'
    have "map_option (map_sum id fst) (apply_chain_emission new_id pc' ?em (c, ?m)) = Some (Inr c')"
      by (simp add: emission_turn_def)
    then obtain out where out: "apply_chain_emission new_id pc' ?em (c, ?m) = Some out" "map_sum id fst out = Inr c'"
      by (auto simp: map_option_case split: option.splits)
    then show ?thesis by (cases out) auto
  qed
  have land: "links_row (case_nodes c') k e"
    if "problem_node (case_nodes c) \<noteq> None" "spec \<in> set (em_node_links em)" "names_link c ?slots spec k e" for spec k e
  proof -
    have "links_row nodes k e" using ingest_links_land [OF r that] n(1) by simp
    moreover have "more_rows nodes nodes'" using mirror_more_rows [OF mir] n(1) n'(1) by simp
    moreover have "set (dict_keys nodes) \<subseteq> set (dict_keys nodes')" using n'(2) by (simp add: linked_only_def)
    ultimately show ?thesis using links_row_more frame(3) by simp
  qed
  show ?thesis using old l new frame surv same land unfolding linked_only_def by blast
qed

section \<open>Examples\<close>

text \<open>Two hypotheses are pointed at the same root, one of them with the verdict that it ends the why. The
  root is posited with this attach, so the older row the verdict cites does not qualify.\<close>

definition ex_contest :: case_data where
  "ex_contest = ex_case\<lparr>case_hypotheses := [
     (''h1'', Conclusion.ex_hypothesis ''h1'' ''sessions leak'' None),
     (''h2'', Conclusion.ex_hypothesis ''h2'' ''the pool is too small'' None)]\<rparr>"

definition ex_emission :: chain_emission where
  "ex_emission = \<lparr>em_nodes = [], em_edges = [], em_survivor_refs = [], em_node_links = []\<rparr>"

definition ex_anchoring :: turn_meta where
  "ex_anchoring = ex_meta\<lparr>tm_root_refs := [(''h1'', ''R1''), (''h2'', ''R1'')],
     tm_root_verdicts := [(''h1'', True, [''e2''])]\<rparr>"

abbreviation ex_verified :: problem_case where
  "ex_verified \<equiv> ex_problem\<lparr>pc_status := PROBLEM_VERIFIED\<rparr>"

lemma ex_contest_chained: "chained ex_contest"
  using ex_graph_ok
  by (simp add: chained_def ex_contest_def graph_ok_def anchors_ok_def chains_ok_def hypotheses_ok_def
      anchored_on_def chain_ok_def Conclusion.ex_hypothesis_def hypothesis_ok_def truthy_def dict_values_def dict_keys_def)

lemma ex_contest_unique: "roots_unique ex_contest"
  by (simp add: roots_unique_def ex_contest_def Conclusion.ex_hypothesis_def truthy_def)

lemma ex_contest_fresh: "fresh_ids ex_ids (case_nodes ex_contest)"
  using ex_fresh by (simp add: ex_contest_def)

lemma ex_chain_pass:
  "case apply_chain_emission ex_ids ex_verified ex_emission (ex_contest, ex_anchoring) of
     Some (Inr (c', m')) \<Rightarrow> map_option hyp_root (dict_get (case_hypotheses c') ''h1'') = Some (Some ''R1'')
        \<and> map_option hyp_root (dict_get (case_hypotheses c') ''h2'') = Some None \<and> length (tm_notices m') = 2
   | _ \<Rightarrow> False"
  by code_simp

theorem chain_passes_keep_one_owner_witness:
  "\<exists>c' m'. apply_chain_emission ex_ids ex_verified ex_emission (ex_contest, ex_anchoring) = Some (Inr (c', m'))
    \<and> chained c' \<and> roots_unique c' \<and> map_option hyp_root (dict_get (case_hypotheses c') ''h1'') = Some (Some ''R1'')"
  using chain_passes_keep_one_owner [OF ex_contest_chained ex_contest_unique ex_contest_fresh, of ex_verified ex_emission ex_anchoring]
    ex_chain_pass
  by (auto split: option.splits sum.splits)

definition ex_verdict :: turn_state where
  "ex_verdict = fold (apply_verdict [] []) [(''h1'', True, [''e2''])]
     (ex_contest\<lparr>case_hypotheses := [(''h1'', Conclusion.ex_hypothesis ''h1'' ''sessions leak'' (Some ''R1''))]\<rparr>, ex_meta)"

lemma ex_verdict_terminal: "map_option root_terminal (dict_get (case_nodes (fst ex_verdict)) ''R1'') = Some (Some True)"
  by code_simp

theorem terminal_verdict_cites_evidence_witness:
  "\<exists>n n'. dict_get (case_nodes ex_contest) ''R1'' = Some n \<and> dict_get (case_nodes (fst ex_verdict)) ''R1'' = Some n'
    \<and> (cited_rows n' \<noteq> {} \<or> root_terminal n = Some True \<and> cited_rows n = {})"
proof -
  obtain n' where n': "dict_get (case_nodes (fst ex_verdict)) ''R1'' = Some n'" "root_terminal n' = Some True"
    using ex_verdict_terminal by auto
  show ?thesis
    using terminal_verdict_cites_evidence [OF _ n', of "[]" "[]" "[(''h1'', True, [''e2''])]"
      "ex_contest\<lparr>case_hypotheses := [(''h1'', Conclusion.ex_hypothesis ''h1'' ''sessions leak'' (Some ''R1''))]\<rparr>" ex_meta "snd ex_verdict"] n'(1)
    by (simp add: ex_verdict_def) blast
qed

text \<open>The same references, refused, with a link of the rung to a causal row.\<close>

definition ex_refused :: chain_emission where
  "ex_refused = ex_emission\<lparr>em_node_links := [\<lparr>ls_schema = ''NodeEvidenceLinkToAdd'', ls_node_ref = Some ''M'',
     ls_evidence_id = Some ''e2'', ls_evidence_id_ref = None, ls_stance = Some SUPPORTS, ls_confidence = None,
     ls_set_aside = None, ls_reasoning = None\<rparr>]\<rparr>"

lemma ex_refused_pass:
  "case apply_chain_emission ex_ids ex_problem ex_refused (ex_contest, ex_anchoring) of
     Some (Inr (c', m')) \<Rightarrow> tm_refused m' = 1 | _ \<Rightarrow> False"
  by code_simp

lemma ex_refused_link: "names_link ex_contest [] (hd (em_node_links ex_refused)) ''M'' ''e2''"
  by code_simp

theorem unverified_work_is_refused_witness:
  "\<not> links_row (case_nodes ex_contest) ''M'' ''e2''
    \<and> (\<exists>c' m'. apply_chain_emission ex_ids ex_problem ex_refused (ex_contest, ex_anchoring) = Some (Inr (c', m'))
      \<and> case_hypotheses c' = case_hypotheses ex_contest \<and> case_edges c' = case_edges ex_contest \<and> tm_refused m' = 1
      \<and> links_row (case_nodes c') ''M'' ''e2'')"
proof
  have "map_option (\<lambda>n. ''e2'' \<in> row_ids (node_links n)) (dict_get (case_nodes ex_contest) ''M'') = Some False" by code_simp
  then show "\<not> links_row (case_nodes ex_contest) ''M'' ''e2''" by (auto simp: links_row_def)
next
  obtain c' m' where run: "apply_chain_emission ex_ids ex_problem ex_refused (ex_contest, ex_anchoring) = Some (Inr (c', m'))"
    "tm_refused m' = 1"
    using ex_refused_pass by (auto split: option.splits sum.splits)
  have gate: "\<not> cause_work_staged ex_problem" "\<not> cause_work_accepted ex_problem"
    by (simp_all add: cause_work_staged_def cause_work_accepted_def ex_problem_def)
  have new: "ex_ids 0 \<notin> set (dict_keys (case_nodes ex_contest))"
    using ex_contest_fresh by (simp add: fresh_ids_def)
  have p: "problem_node (case_nodes ex_contest) \<noteq> None" by code_simp
  have s: "tm_evidence_slots ex_anchoring = []" by (simp add: ex_anchoring_def ex_meta_def)
  have m: "hd (em_node_links ex_refused) \<in> set (em_node_links ex_refused)" by (simp add: ex_refused_def)
  show "\<exists>c' m'. apply_chain_emission ex_ids ex_problem ex_refused (ex_contest, ex_anchoring) = Some (Inr (c', m'))
      \<and> case_hypotheses c' = case_hypotheses ex_contest \<and> case_edges c' = case_edges ex_contest \<and> tm_refused m' = 1
      \<and> links_row (case_nodes c') ''M'' ''e2''"
    using unverified_work_is_refused [OF gate new run(1)] run p s m ex_refused_link by auto
qed

end
