(* ===== verification/Spec2Isabelle.thy ===== *)
theory Spec2Isabelle
  imports Exclusion Mirror_Laws Pruning_Properties Problem_Properties Need_Laws Housekeeping_Properties Turn_Laws
    Disconfirmation_Laws Chain_Emission_Laws
begin

text \<open>
  FaultMaven's investigation core (\<open>src/faultmaven/core/investigation\<close>): the causal-graph engine
  (\<open>causal_graph\<close>, \<open>confidence_repair.py\<close>, and the fix windows and the resolution bar of
  \<open>cause_assurance.py\<close>), what a turn does to hypotheses, chains and evidence needs
  (\<open>hypothesis_manager.py\<close>, and \<open>hypothesis_updates.py\<close>, \<open>chain_emission.py\<close>, \<open>evidence_need_updates.py\<close>
  and \<open>turn_records.py\<close> of \<open>milestone_engine\<close>), the machine of the problem statement and the offers made
  to the user (\<open>problem_status.py\<close>, \<open>offers.py\<close>), and the domain models they read and write
  (\<open>modules/case/domain/models\<close>, \<open>schemas.py\<close>).

  \<^bold>\<open>The program.\<close> A case holds a graph of causes: nodes (the PROBLEM, intermediate rungs, candidate
  ROOTs), directed cause-to-effect edges with AND-groups, evidence rows, links from rows to nodes and
  to hypotheses, and hypotheses, each a path from a root to the problem. A turn's emission is
  ingested into the graph; the engine then derives every node's state from its evidence and the
  states of its causes, validates by exclusion, and projects the roots' states onto the hypotheses.
  The chain pass of a turn ingests the emission, anchors hypotheses on their roots, records verdicts
  on roots and mirrors support; hypotheses without a chain then adopt an orphan root they restate, and
  what they abandon is collected. The hypothesis manager keeps likelihoods, stagnation and retirement.
  Once a fix is on record, the observations after it are bound to what they re-observe and read in
  windows: a window can show the fix worked, failed, or disconfirmed its cause. The engine mirrors an
  identified, uncontested root into the conclusion, and a disconfirmation refutes the cause, leaves a
  durable refutation on its root and takes the conclusion back. A damaged turn history is repaired
  when a case is loaded.
  Cause work is accepted only while the problem statement is verified; a revision of the statement, a
  resolution or a close is an offer the user answers, and a decline binds until something new is
  recorded.

  \<^bold>\<open>The theories\<close>, in the order in which they import each other.
    \<^item> \<open>Prelude\<close>: Python dictionaries as association lists in insertion order (locale
      \<open>dictionary\<close>, interpreted on them), loops that may raise (\<open>try_fold\<close>), list lemmas.
    \<^item> \<open>Text\<close>: tokenizer and statement comparison (\<open>similarity.py\<close>, \<open>content_tokens\<close>).
    \<^item> \<open>Numbers\<close>: Python's \<open>int()\<close> and \<open>float()\<close> on strings.
    \<^item> \<open>Case_Model\<close>: the records, enums, validators and constructors; \<open>Examples\<close>: the concrete case
      the witnesses evaluate.
    \<^item> \<open>Chain_Queries\<close>, \<open>Projection\<close>: \<open>queries.py\<close> and \<open>projection.py\<close>.
    \<^item> \<open>Evidence_Links\<close>, \<open>Independence\<close>, \<open>Restatement\<close>, \<open>Support_Holds\<close>: \<open>support.py\<close>, what grounds a
      root and what holds it.
    \<^item> \<open>Settling\<close>, \<open>Derivation\<close>, \<open>Exclusion\<close>: \<open>derivation.py\<close>, the fixpoint (locale \<open>settling_pass\<close>) and
      proof by exclusion.
    \<^item> \<open>Union_Find\<close>, \<open>Clusters\<close>, \<open>Sha256\<close>, \<open>And_Groups\<close>: \<open>clusters.py\<close>, the distinct causes of a case
      (locale \<open>merge_structure\<close>, interpreted on the parent dictionary) and the AND-group keys.
    \<^item> \<open>Confidence_Repair\<close>: \<open>confidence_repair.py\<close> and the validators of \<open>schemas.py\<close> that call it.
    \<^item> \<open>Chain_Paths\<close>, \<open>Ingestion\<close>, \<open>Ingestion_Laws\<close>, \<open>Ingestion_Properties\<close>, \<open>Mirror_Laws\<close>:
      \<open>ingestion.py\<close>, the breadth-first path search and the ingest of a turn's emission.
    \<^item> \<open>Pruning\<close>, \<open>Pruning_Laws\<close>, \<open>Pruning_Properties\<close>: \<open>pruning.py\<close>, re-rooting, orphan adoption and the
      collector; \<open>find_duplicate_hypothesis\<close>.
    \<^item> \<open>Lifecycle\<close>: \<open>lifecycle.py\<close> and \<open>case_action_manager.py\<close>, the states of a case and its legal moves.
    \<^item> \<open>Offer_Model\<close>, \<open>Offers\<close>, \<open>Offer_Laws\<close>: \<open>offer.py\<close>, \<open>problem.py\<close> and \<open>offers.py\<close>, the offer record.
    \<^item> \<open>Problem_Status\<close>, \<open>Problem_Laws\<close>, \<open>Problem_Properties\<close>: \<open>problem_status.py\<close>, its step relation as
      the callers drive it, and the abstract machine it refines.
    \<^item> \<open>Evidence_Needs\<close>, \<open>Need_Laws\<close>: \<open>evidence_needs.py\<close> and \<open>evidence_need_updates.py\<close>, what the
      investigation still asks for.
    \<^item> \<open>Hypothesis_Manager\<close>, \<open>Hypothesis_Laws\<close>, \<open>Housekeeping_Laws\<close>, \<open>Housekeeping_Properties\<close>:
      \<open>hypothesis_manager.py\<close> and the housekeeping of \<open>turn_records.py\<close>.
    \<^item> \<open>Turn_Sequence\<close>, \<open>Turn_Laws\<close>: \<open>turn.py\<close>, the turn arithmetic and the repair of \<open>case.py\<close>, and the
      stored form in \<open>metadata.py\<close>.
    \<^item> \<open>Fix_Windows\<close>, \<open>Resolution_Gate\<close>, \<open>Fix_Window_Laws\<close>: \<open>cause_assurance.py\<close>, dated fixes, the subject
      of an observation, the windows and their verdicts, and the two legs of a resolution.
    \<^item> \<open>Conclusion\<close>: \<open>rcc.py\<close>, the conclusion about the cause.
    \<^item> \<open>Disconfirmation\<close>, \<open>Disconfirmation_Laws\<close>: \<open>disconfirmation.py\<close>, the demotion of a cause (M6).
    \<^item> \<open>Hypothesis_Updates\<close>, \<open>Update_Laws\<close>: \<open>hypothesis_updates.py\<close>, the writes of a turn on hypotheses and
      their step relation.
    \<^item> \<open>Chain_Emission\<close>, \<open>Chain_Emission_Laws\<close>: \<open>chain_emission.py\<close>, the chain pass and the orphan pass.

  \<^bold>\<open>What is proved.\<close> The derivation reaches a fixpoint within the number of passes the code allows,
  keeps every node reloadable and, on any graph, validates a root only on two distinct observations or a
  counterfactual confirmation (that its AND-members are validated too takes AND-dependencies without a
  cycle, which the ingest does not exclude); a counterfactual refutation is decisive; exclusion is sound and
  independent of order; the count of independent observations is a maximum independent set up to
  fifteen rows and a lower bound beyond; clusters are the connected components of the one-cause
  relation; path search returns a shortest path; ingestion keeps the graph well formed, grows
  monotonically, never touches a link on an absence row, gives each cause one node, changes nothing
  when an emission is repeated, and returns on every bounded input; a confidence that leaves
  validation is in [0, 1] and costs what the ruling says. The collector removes exactly the abandoned
  nodes; orphan adoption returns, keeps every chain anchored and never shares a root. The operations on
  the problem statement refine, call by call, a deterministic machine of live problems, false alarms and
  holds: the events of a run determine the view it ends in; a hold exists exactly
  while a revision offer is open and a decline always returns to where it began; an admitted revision
  is always recorded; a declined wording or resolution is never offered again on the engine's or the
  model's initiative, and the cap of 64 answers never forgets a decline that stands.

  The manager keeps every hypothesis valid, counts each row once, and lets no claim without supporting
  evidence reach the likelihood of identification; a hypothesis nobody touches is retired within
  twelve turns, and housekeeping retires only stalled ones. Updates to evidence needs keep them
  reloadable and take nothing back. The repaired history is consecutive, the repair is idempotent and
  bounded by the cap of 100 placeholder turns, and the stored and the loaded ordinals agree.

  The windows come in order and no turn or row counts for two of them, a sighting at the turn of the next
  fix included; a window's verdict is read from its own turns and characterised by them alone, a verdict
  of failure stays, at the same turn, whatever later turns observe, a disconfirmation always has its two
  observations with no relief between them, and a resolution is confirmed only in a window that did not fail. The engine's conclusion names an identified root of a
  standing hypothesis in an uncontested case, and writing and retracting never undo each other. A
  demotion has observed grounds, and the demoted root stays refuted in every later derivation. Through
  all of a turn's writes a refuted or retired hypothesis never changes, and none becomes refuted
  without a confident row against its chain or a failed fix. The chain pass and the orphan pass return
  and keep the chains anchored with one owner per root; a root reads terminal only on rows that show
  it; refused work on an unverified problem changes nothing but links, and its links
  onto standing nodes land as they would on a verified one.

  \<^bold>\<open>Conventions.\<close> Strings are lists of code points 0 to 255. Floats are exact rationals; every number
  the engine compares is a decimal literal, a quotient of small set sizes or a declared confidence.
  Where a Python \<open>while\<close> loop ends is proved: \<open>live_walk\<close> and \<open>bfs\<close> by measures, \<open>uf_find\<close> and
  \<open>trace_back\<close> are \<open>partial_function\<close>s proved to return; the derivation's bound of \<open>len(nodes) + 1\<close>
  passes is the code's own; \<open>deepen_walk\<close> ends by a measure. No definition takes fuel. Ids drawn by
  \<open>uuid4\<close> are an argument, assumed new and distinct where a property needs it. The rows that confirm a
  resolution, and whether a cause was seen removed, are defined in \<open>Resolution_Gate\<close>; the offer theories,
  which come before it, take them as arguments (\<open>conf\<close>, \<open>cause_removed\<close>) and hold for any. A branch that
  raises is \<open>Inl\<close> of the error, or the state it leaves with the error beside it where callers see that
  state; a notice for the next prompt is a value in place of its wording; typographic dashes in texts
  are hyphens. The precedence switch of the conclusion is an argument.

  \<^bold>\<open>Not modelled\<close>: of \<open>cause_assurance.py\<close> the bearing of a row on a root, the stamp on a confirmed root
  and the grading of causes; \<open>terminal_transitions.py\<close>, \<open>progress_monitor.py\<close> and the turn orchestration
  of \<open>milestone_engine\<close> around the passes above (stage gates, response application, generation), which
  is mostly prompt text and calls to the model; log lines and metrics except as event values,
  timestamps, free-text rationales, persistence, prompts, the API, authentication, the knowledge base,
  preprocessing and the LLM providers (I/O and third-party services).
\<close>

end
